(* ===== verification/Prelude.thy ===== *)
theory Prelude
  imports Main "HOL-Library.Char_ord" "HOL-Library.List_Lexorder" "HOL-Library.Product_Lexorder"
    "HOL-Library.Multiset" "HOL-Library.Sublist"
begin

text \<open>
  Shared vocabulary of the development: Python values as HOL values, and the generic lemmas on
  lists, dictionaries and sorting that the components use.

  \<^item> A Python \<open>str\<close> is a \<open>string\<close>, a list of code points below 256. Order and equality of
    strings are Python's: lexicographic on code points (\<open>List_Lexorder\<close>, \<open>Char_ord\<close>).
  \<^item> An operation that may raise has type \<open>exn + 'a\<close> (theory \<open>Errors\<close>); \<open>Inl\<close> is the raise.
  \<^item> A \<open>datetime\<close> is an instant in microseconds with the UTC offset of its zone; \<open>None\<close> is a
    naive one, whose instant is its wall clock. A \<open>timedelta\<close> is a number of microseconds.
  \<^item> A \<open>dict\<close> is a map, or an association list in insertion order when the code iterates it.
\<close>

named_theorems result_simps "unfolding of results of raising operations"

section \<open>Results\<close>

definition bind_result :: "'e + 'a \<Rightarrow> ('a \<Rightarrow> 'e + 'b) \<Rightarrow> 'e + 'b" where
  "bind_result r f = (case r of Inl e \<Rightarrow> Inl e | Inr a \<Rightarrow> f a)"

lemma bind_result_simps [simp]:
  "bind_result (Inl e) f = Inl e"
  "bind_result (Inr a) f = f a"
  by (simp_all add: bind_result_def)

lemma bind_result_eq_Inr [result_simps]:
  "bind_result r f = Inr b \<longleftrightarrow> (\<exists>a. r = Inr a \<and> f a = Inr b)"
  by (cases r) auto

lemma bind_result_cong [fundef_cong]:
  "r = r' \<Longrightarrow> (\<And>a. r' = Inr a \<Longrightarrow> f a = g a) \<Longrightarrow> bind_result r f = bind_result r' g"
  by (cases r') simp_all

lemma bind_result_eq_Inl:
  "bind_result r f = Inl e \<longleftrightarrow> r = Inl e \<or> (\<exists>a. r = Inr a \<and> f a = Inl e)"
  by (cases r) auto

text \<open>A tuple comprehension whose element may raise: the first raise wins.\<close>

fun map_result :: "('a \<Rightarrow> 'e + 'b) \<Rightarrow> 'a list \<Rightarrow> 'e + 'b list" where
  "map_result f [] = Inr []"
| "map_result f (x # xs) =
     bind_result (f x) (\<lambda>y. bind_result (map_result f xs) (\<lambda>ys. Inr (y # ys)))"

lemma map_result_Inr [result_simps]:
  "map_result f xs = Inr ys \<longleftrightarrow> list_all2 (\<lambda>x y. f x = Inr y) xs ys"
  by (induction xs arbitrary: ys) (auto simp: bind_result_eq_Inr list_all2_Cons1)

lemma map_result_Inl:
  "map_result f xs = Inl e \<Longrightarrow> \<exists>x \<in> set xs. f x = Inl e"
  by (induction xs) (auto simp: bind_result_eq_Inl)

lemma map_result_ok: "(\<And>x. x \<in> set xs \<Longrightarrow> f x = Inr (g x)) \<Longrightarrow> map_result f xs = Inr (map g xs)"
  by (induction xs) simp_all

lemma map_result_cong [fundef_cong]:
  "xs = ys \<Longrightarrow> (\<And>x. x \<in> set ys \<Longrightarrow> f x = g x) \<Longrightarrow> map_result f xs = map_result g ys"
  by (induction ys arbitrary: xs) auto

section \<open>Strings\<close>

text \<open>
  \<open>str.isspace\<close> on code points below 256: tab to carriage return, the four information
  separators, space, next line and no-break space.
\<close>

definition is_space :: "char \<Rightarrow> bool" where
  "is_space c = (let n = (of_char c :: nat) in
     (9 \<le> n \<and> n \<le> 13) \<or> (28 \<le> n \<and> n \<le> 32) \<or> n = 133 \<or> n = 160)"

definition strip :: "string \<Rightarrow> string" where
  "strip s = rev (dropWhile is_space (rev (dropWhile is_space s)))"

text \<open>\<open>not value.strip()\<close>\<close>

definition blank :: "string \<Rightarrow> bool" where
  "blank s \<longleftrightarrow> strip s = []"

lemma blank_iff: "blank s \<longleftrightarrow> (\<forall>c \<in> set s. is_space c)"
proof
  assume "blank s"
  then have d: "dropWhile is_space (rev (dropWhile is_space s)) = []"
    by (simp add: blank_def strip_def)
  then have all: "\<forall>c \<in> set (dropWhile is_space s). is_space c"
    by (metis dropWhile_eq_Nil_conv set_rev)
  have "dropWhile is_space s = []"
  proof (rule ccontr)
    assume ne: "dropWhile is_space s \<noteq> []"
    with all have "is_space (hd (dropWhile is_space s))" by simp
    with hd_dropWhile[OF ne] show False by simp
  qed
  then show "\<forall>c \<in> set s. is_space c" by (simp add: dropWhile_eq_Nil_conv)
next
  assume "\<forall>c \<in> set s. is_space c"
  then show "blank s" by (auto simp: blank_def strip_def dest: set_dropWhileD)
qed

lemma blank_Nil [simp]: "blank []"
  by (simp add: blank_iff)

lemma not_blank_nonempty: "\<not> blank s \<Longrightarrow> s \<noteq> []"
  by auto

lemma length_strip_le: "length (strip s) \<le> length s"
  by (simp add: strip_def le_trans[OF length_dropWhile_le])

definition starts_with :: "string \<Rightarrow> string \<Rightarrow> bool" where
  "starts_with s p \<longleftrightarrow> take (length p) s = p"

section \<open>Time\<close>

type_synonym timedelta = int

datatype datetime = Datetime (instant: int) (utcoff: "int option")

definition aware :: "datetime \<Rightarrow> bool" where
  "aware d \<longleftrightarrow> utcoff d \<noteq> None"

definition dt_add :: "datetime \<Rightarrow> timedelta \<Rightarrow> datetime" where
  "dt_add d t = Datetime (instant d + t) (utcoff d)"

definition dt_diff :: "datetime \<Rightarrow> datetime \<Rightarrow> timedelta" where
  "dt_diff a b = instant a - instant b"

text \<open>
  The comparison operators. Python raises \<open>TypeError\<close> on a naive and an aware operand; the
  components that compare values nothing has validated write that branch with \<open>comparable\<close>.
\<close>

definition dt_le :: "datetime \<Rightarrow> datetime \<Rightarrow> bool" where
  "dt_le a b \<longleftrightarrow> instant a \<le> instant b"

definition dt_less :: "datetime \<Rightarrow> datetime \<Rightarrow> bool" where
  "dt_less a b \<longleftrightarrow> instant a < instant b"

definition comparable :: "datetime \<Rightarrow> datetime \<Rightarrow> bool" where
  "comparable a b \<longleftrightarrow> aware a = aware b"

definition microseconds :: "int \<Rightarrow> timedelta" where "microseconds n = n"
definition seconds :: "int \<Rightarrow> timedelta" where "seconds n = n * 1000000"
definition minutes :: "int \<Rightarrow> timedelta" where "minutes n = seconds (n * 60)"
definition hours :: "int \<Rightarrow> timedelta" where "hours n = minutes (n * 60)"

lemma instant_dt_add [simp]: "instant (dt_add d t) = instant d + t"
  and utcoff_dt_add [simp]: "utcoff (dt_add d t) = utcoff d"
  and aware_dt_add [simp]: "aware (dt_add d t) = aware d"
  by (simp_all add: dt_add_def aware_def)

lemma dt_not_le [simp]: "\<not> dt_le a b \<longleftrightarrow> dt_less b a"
  by (auto simp: dt_le_def dt_less_def)

lemma dt_not_less [simp]: "\<not> dt_less a b \<longleftrightarrow> dt_le b a"
  by (auto simp: dt_le_def dt_less_def)

section \<open>Dictionaries and sorting\<close>

text \<open>\<open>dict(pairs)\<close> as an association list: the first insertion gives the position, the last the value.\<close>

definition py_dict :: "('k \<times> 'v) list \<Rightarrow> ('k \<times> 'v) list" where
  "py_dict kvs = map (\<lambda>k. (k, the (map_of (rev kvs) k))) (rev (remdups (rev (map fst kvs))))"

lemma map_of_rev_distinct: "distinct (map fst kvs) \<Longrightarrow> map_of (rev kvs) = map_of kvs"
  by (metis distinct_rev map_of_inject_set rev_map set_rev)

lemma py_dict_distinct:
  assumes "distinct (map fst kvs)"
  shows "py_dict kvs = kvs"
proof -
  have "map (\<lambda>k. (k, the (map_of kvs k))) (map fst kvs) = kvs"
    using assms by (auto simp: comp_def intro: map_idI)
  with assms show ?thesis
    by (simp add: py_dict_def map_of_rev_distinct distinct_remdups_id)
qed

text \<open>\<open>tuple(sorted(set(xs)))\<close>\<close>

definition sorted_set :: "'a::linorder list \<Rightarrow> 'a list" where
  "sorted_set xs = sort (remdups xs)"

lemma set_sorted_set [simp]: "set (sorted_set xs) = set xs"
  and sorted_sorted_set [simp]: "sorted (sorted_set xs)"
  and distinct_sorted_set [simp]: "distinct (sorted_set xs)"
  by (simp_all add: sorted_set_def)

lemma sorted_set_cong: "set xs = set ys \<Longrightarrow> sorted_set xs = sorted_set ys"
  by (rule sorted_distinct_set_unique) simp_all

lemma sorted_set_idem [simp]: "sorted_set (sorted_set xs) = sorted_set xs"
  by (rule sorted_set_cong) simp

text \<open>A stable sort by a key that is injective on the elements does not depend on their order.\<close>

lemma sort_key_mset_cong:
  assumes "mset xs = mset ys" and "inj_on f (set xs)"
  shows "sort_key f xs = sort_key f ys"
  using assms by (intro sort_key_inj_key_eq) simp_all

lemma strict_sorted_sort_key:
  assumes "distinct xs" and "inj_on f (set xs)"
  shows "sorted_wrt (<) (map f (sort_key f xs))"
proof -
  have "distinct (map f (sort_key f xs))"
    using assms by (simp add: distinct_map)
  then show ?thesis by (simp add: strict_sorted_iff)
qed

lemma sort_key_id: "sorted (map f xs) \<Longrightarrow> sort_key f xs = xs"
  by (simp add: sorted_sort_id sort_key_id_if_sorted)

end
