(* ===== verification/Errors.thy ===== *)
theory Errors
  imports Prelude
begin

text \<open>
  The exceptions of the code as values. \<open>domain/errors.py\<close> gives domain failures a stable code,
  a field and a detail; the other modules raise subclasses of \<open>ValueError\<close> that carry a message.
  \<open>is_value_error\<close> is what \<open>except ValueError\<close> catches.
\<close>

datatype domain_error_code =
    INVALID_ULID
  | INVALID_TIMESTAMP
  | INVALID_SCOPE
  | INVALID_ENTITY
  | INVALID_EDGE
  | CONTAINMENT_CYCLE
  | DERIVED_WITHOUT_DECISION
  | INVALID_PROVENANCE
  | INVALID_FRESHNESS_POLICY
  | AUTHORITATIVE_INFERENCE
  | INVALID_POLICY
  | INVALID_GATE
  | INVALID_EVIDENCE
  | SAFETY_GATE_WAIVER

text \<open>\<open>AdapterErrorKind\<close> of \<open>application/ports/connections.py\<close>\<close>

datatype adapter_error_kind =
  MALFORMED_RESPONSE | NOT_FOUND | RATE_LIMITED | TIMEOUT | UNAUTHORIZED | ADAPTER_UNAVAILABLE

datatype exn =
    DomainInvariantError (exn_code: domain_error_code) (exn_field: string) (exn_detail: string)
  | ValueError string
  | ClaimError string
  | CutoverError string
  | CutoverExecutionError string
  | ProposalError string
  | BreakGlassError string
  | StaleSetupPlanError string
  | SetupPlanningInputError string
  | HarnessRegistryError string
  | IdentityError string
  | CopilotError string
  | BrowserSecurityError string
  | SecurityControlError string
  | OperationError string
  | ReferenceCorpusError string
  | SetupLockConflictError string
  | ConfigurationConflictError string
  | AdapterError adapter_error_kind string
  | KeyError string
  | TypeError string
  | AssertionError string
  | RuntimeError string

type_synonym 'a result = "exn + 'a"

fun domain_error_value :: "domain_error_code \<Rightarrow> string" where
  "domain_error_value INVALID_ULID = ''invalid_ulid''"
| "domain_error_value INVALID_TIMESTAMP = ''invalid_timestamp''"
| "domain_error_value INVALID_SCOPE = ''invalid_scope''"
| "domain_error_value INVALID_ENTITY = ''invalid_entity''"
| "domain_error_value INVALID_EDGE = ''invalid_edge''"
| "domain_error_value CONTAINMENT_CYCLE = ''containment_cycle''"
| "domain_error_value DERIVED_WITHOUT_DECISION = ''derived_without_decision''"
| "domain_error_value INVALID_PROVENANCE = ''invalid_provenance''"
| "domain_error_value INVALID_FRESHNESS_POLICY = ''invalid_freshness_policy''"
| "domain_error_value AUTHORITATIVE_INFERENCE = ''authoritative_inference''"
| "domain_error_value INVALID_POLICY = ''invalid_policy''"
| "domain_error_value INVALID_GATE = ''invalid_gate''"
| "domain_error_value INVALID_EVIDENCE = ''invalid_evidence''"
| "domain_error_value SAFETY_GATE_WAIVER = ''safety_gate_waiver''"

text \<open>\<open>str(exc)\<close>\<close>

fun exn_str :: "exn \<Rightarrow> string" where
  "exn_str (DomainInvariantError c f d) = domain_error_value c @ '': '' @ f @ '': '' @ d"
| "exn_str (ValueError m) = m"
| "exn_str (ClaimError m) = m"
| "exn_str (CutoverError m) = m"
| "exn_str (CutoverExecutionError m) = m"
| "exn_str (ProposalError m) = m"
| "exn_str (BreakGlassError m) = m"
| "exn_str (StaleSetupPlanError m) = m"
| "exn_str (SetupPlanningInputError m) = m"
| "exn_str (HarnessRegistryError m) = m"
| "exn_str (IdentityError m) = m"
| "exn_str (CopilotError m) = m"
| "exn_str (BrowserSecurityError m) = m"
| "exn_str (SecurityControlError m) = m"
| "exn_str (OperationError m) = m"
| "exn_str (ReferenceCorpusError m) = m"
| "exn_str (SetupLockConflictError m) = m"
| "exn_str (ConfigurationConflictError m) = m"
| "exn_str (AdapterError k m) = m"
| "exn_str (KeyError m) = m"
| "exn_str (TypeError m) = m"
| "exn_str (AssertionError m) = m"
| "exn_str (RuntimeError m) = m"

fun is_value_error :: "exn \<Rightarrow> bool" where
  "is_value_error (SetupLockConflictError m) = False"
| "is_value_error (ConfigurationConflictError m) = False"
| "is_value_error (AdapterError k m) = False"
| "is_value_error (KeyError m) = False"
| "is_value_error (TypeError m) = False"
| "is_value_error (AssertionError m) = False"
| "is_value_error (RuntimeError m) = False"
| "is_value_error _ = True"

text \<open>\<open>d[k]\<close> on a dict: a missing key raises.\<close>

definition dict_get :: "('k \<rightharpoonup> 'v) \<Rightarrow> 'k \<Rightarrow> string \<Rightarrow> 'v result" where
  "dict_get d k msg = (case d k of None \<Rightarrow> Inl (KeyError msg) | Some v \<Rightarrow> Inr v)"

lemma dict_get_Inr [result_simps]: "dict_get d k msg = Inr v \<longleftrightarrow> d k = Some v"
  by (auto simp: dict_get_def split: option.splits)

end
