(* ===== verification/Identifiers.thy ===== *)
theory Identifiers
  imports Errors
begin

unbundle bit_operations_syntax

text \<open>
  \<open>domain/identifiers.py\<close>: branded ULIDs, typed resource references and the monotonic ULID factory.
  The class of an identifier is part of its value, since dataclass equality compares classes.
\<close>

datatype ulid_class =
    UlidBase | ActorId | TenantId | WorkspaceId | ResourceId | WorkItemId | ProgramId | GateId
  | EvidenceId | EdgeId | DecisionId | ExternalBlockerId | AttentionItemId

datatype ulid = Ulid (ulid_class: ulid_class) (ulid_value: string)

definition crockford :: string where
  "crockford = ''0123456789ABCDEFGHJKMNPQRSTVWXYZ''"

definition max_timestamp :: int where
  "max_timestamp = push_bit 48 1 - 1"

definition max_entropy :: int where
  "max_entropy = push_bit 80 1 - 1"

text \<open>The pattern \<open>^[0-7][0-9A-HJKMNP-TV-Z]{25}$\<close> against the whole text.\<close>

definition ulid_pattern :: "string \<Rightarrow> bool" where
  "ulid_pattern s \<longleftrightarrow> (case s of [] \<Rightarrow> False
     | c # cs \<Rightarrow> c \<in> set ''01234567'' \<and> length cs = 25 \<and> (\<forall>d \<in> set cs. d \<in> set crockford))"

definition new_ulid :: "ulid_class \<Rightarrow> string \<Rightarrow> ulid result" where
  "new_ulid cls v =
     (if \<not> ulid_pattern v
      then Inl (DomainInvariantError INVALID_ULID ''value''
        ''expected canonical 26-character uppercase ULID'')
      else Inr (Ulid cls v))"

datatype resource_kind = WORK_ITEM | PROGRAM | GATE

fun resource_kind_value :: "resource_kind \<Rightarrow> string" where
  "resource_kind_value WORK_ITEM = ''work_item''"
| "resource_kind_value PROGRAM = ''program''"
| "resource_kind_value GATE = ''gate''"

datatype resource_ref = ResourceRef (kind: resource_kind) (resource_id: ulid)

fun expected_class :: "resource_kind \<Rightarrow> ulid_class" where
  "expected_class WORK_ITEM = WorkItemId"
| "expected_class PROGRAM = ProgramId"
| "expected_class GATE = GateId"

fun ulid_class_name :: "ulid_class \<Rightarrow> string" where
  "ulid_class_name WorkItemId = ''WorkItemId''"
| "ulid_class_name ProgramId = ''ProgramId''"
| "ulid_class_name GateId = ''GateId''"
| "ulid_class_name ActorId = ''ActorId''"
| "ulid_class_name TenantId = ''TenantId''"
| "ulid_class_name WorkspaceId = ''WorkspaceId''"
| "ulid_class_name ResourceId = ''ResourceId''"
| "ulid_class_name EvidenceId = ''EvidenceId''"
| "ulid_class_name EdgeId = ''EdgeId''"
| "ulid_class_name DecisionId = ''DecisionId''"
| "ulid_class_name ExternalBlockerId = ''ExternalBlockerId''"
| "ulid_class_name AttentionItemId = ''AttentionItemId''"
| "ulid_class_name UlidBase = ''Ulid''"

definition new_resource_ref :: "resource_kind \<Rightarrow> ulid \<Rightarrow> resource_ref result" where
  "new_resource_ref k i =
     (if ulid_class i \<noteq> expected_class k
      then Inl (DomainInvariantError INVALID_SCOPE ''resource_id''
        (resource_kind_value k @ '' requires '' @ ulid_class_name (expected_class k)))
      else Inr (ResourceRef k i))"

text \<open>The references the constructor accepts.\<close>

definition ref_wf :: "resource_ref \<Rightarrow> bool" where
  "ref_wf r \<longleftrightarrow> ulid_class (resource_id r) = expected_class (kind r)"

section \<open>The monotonic factory\<close>

record ulid_factory =
  last_timestamp_ms :: int
  last_entropy :: int

definition new_factory :: ulid_factory where
  "new_factory = \<lparr>last_timestamp_ms = - 1, last_entropy = - 1\<rparr>"

text \<open>\<open>range(125, -1, -5)\<close>\<close>

definition shifts :: "nat list" where
  "shifts = map (\<lambda>i. 5 * i) (rev [0..<26])"

definition encode_ulid :: "int \<Rightarrow> string" where
  "encode_ulid numeric = map (\<lambda>shift. crockford ! nat (drop_bit shift numeric AND 31)) shifts"

definition generate :: "ulid_factory \<Rightarrow> ulid_class \<Rightarrow> int \<Rightarrow> int \<Rightarrow> ulid result \<times> ulid_factory" where
  "generate f cls timestamp_ms entropy =
     (if \<not> (0 \<le> timestamp_ms \<and> timestamp_ms \<le> max_timestamp)
      then (Inl (DomainInvariantError INVALID_ULID ''timestamp_ms''
        ''must fit the ULID 48-bit timestamp''), f)
      else if \<not> (0 \<le> entropy \<and> entropy \<le> max_entropy)
      then (Inl (DomainInvariantError INVALID_ULID ''entropy''
        ''must fit the ULID 80-bit randomness component''), f)
      else let
        resolved_timestamp = max timestamp_ms (last_timestamp_ms f);
        resolved_entropy = (if resolved_timestamp = last_timestamp_ms f
          then max entropy (last_entropy f + 1) else entropy)
      in if resolved_entropy > max_entropy \<and> resolved_timestamp = max_timestamp
      then (Inl (DomainInvariantError INVALID_ULID ''entropy'' ''monotonic ULID space exhausted''), f)
      else let
        (ts, en) = (if resolved_entropy > max_entropy
          then (resolved_timestamp + 1, 0) else (resolved_timestamp, resolved_entropy));
        numeric = push_bit 80 ts OR en
      in (new_ulid cls (encode_ulid numeric), \<lparr>last_timestamp_ms = ts, last_entropy = en\<rparr>))"

text \<open>A run of the factory: the identifiers of the calls that did not raise, in order.\<close>

fun generate_run :: "ulid_factory \<Rightarrow> (ulid_class \<times> int \<times> int) list \<Rightarrow> ulid list" where
  "generate_run f [] = []"
| "generate_run f ((cls, t, e) # calls) = (case generate f cls t e of
     (Inl _, f') \<Rightarrow> generate_run f' calls
   | (Inr u, f') \<Rightarrow> u # generate_run f' calls)"

section \<open>The encoding keeps order\<close>

lemma and_31: "(n::int) AND 31 = n mod 32"
  using take_bit_eq_mask [of 5 n] by (simp add: take_bit_eq_mod mask_eq_exp_minus_1)

lemma encode_ulid_div:
  "encode_ulid n = map (\<lambda>i. crockford ! nat (n div 32 ^ i mod 32)) (rev [0..<26])"
  by (simp add: encode_ulid_def shifts_def and_31 drop_bit_eq_div power_mult del: upt_Suc)

definition base32 :: "nat \<Rightarrow> int \<Rightarrow> string" where
  "base32 k n = map (\<lambda>i. crockford ! nat (n div 32 ^ i mod 32)) (rev [0..<k])"

lemma base32_Suc: "base32 (Suc k) n = crockford ! nat (n div 32 ^ k mod 32) # base32 k n"
  by (simp add: base32_def)

lemma base32_mod: "base32 k (n mod 32 ^ k) = base32 k n"
proof -
  have "n mod 32 ^ k div 32 ^ i mod 32 = n div 32 ^ i mod 32" if "i < k" for i
  proof -
    from that obtain d where "k = i + Suc d" by (metis less_iff_Suc_add add_Suc_right)
    then have k: "(32::int) ^ k = 32 ^ i * (32 * 32 ^ d)" by (simp add: power_add)
    have "n mod (32 ^ i * (32 * 32 ^ d)) div 32 ^ i = n div 32 ^ i mod (32 * 32 ^ d)"
      by (simp add: zmod_zmult2_eq)
    then show ?thesis by (simp add: k mod_mult_right_eq [symmetric]) (metis mod_mod_cancel dvd_triv_left)
  qed
  then show ?thesis by (simp add: base32_def)
qed

lemma crockford_less: "i < j \<Longrightarrow> j < 32 \<Longrightarrow> crockford ! i < crockford ! j"
proof -
  have "sorted_wrt (<) crockford" by (simp add: crockford_def less_char_def)
  moreover have "length crockford = 32" by (simp add: crockford_def)
  ultimately show "i < j \<Longrightarrow> j < 32 \<Longrightarrow> ?thesis" by (simp add: sorted_wrt_nth_less)
qed

lemma int_div_less: "m < n * q \<Longrightarrow> 0 < q \<Longrightarrow> m div q < n" for m n q :: int
proof -
  assume "m < n * q" and q: "0 < q"
  have "m div q * q \<le> m" using q by (simp add: div_mult_mod_eq [symmetric] minus_mod_eq_div_mult [symmetric])
  with \<open>m < n * q\<close> have "m div q * q < n * q" by linarith
  with q show "m div q < n" by (simp add: mult_less_cancel_right)
qed

lemma base32_less: "0 \<le> n \<Longrightarrow> n < m \<Longrightarrow> m < 32 ^ k \<Longrightarrow> base32 k n < base32 k m"
proof (induction k arbitrary: n m)
  case 0
  then show ?case by simp
next
  case (Suc k)
  let ?p = "32 ^ k :: int"
  have dn: "n div ?p mod 32 = n div ?p" and dm: "m div ?p mod 32 = m div ?p"
    using Suc.prems by (simp_all add: pos_imp_zdiv_nonneg_iff int_div_less mod_pos_pos_trivial)
  have le: "n div ?p \<le> m div ?p" using Suc.prems by (simp add: zdiv_mono1)
  have b: "0 \<le> n div ?p" "m div ?p < 32"
    using Suc.prems by (simp_all add: pos_imp_zdiv_nonneg_iff int_div_less)
  show ?case
  proof (cases "n div ?p = m div ?p")
    case True
    then have "n mod ?p < m mod ?p"
      using Suc.prems(2) by (metis add_less_cancel_left div_mult_mod_eq)
    then have "base32 k (n mod ?p) < base32 k (m mod ?p)"
      by (intro Suc.IH) simp_all
    with True show ?thesis by (simp add: base32_Suc base32_mod)
  next
    case False
    with le b have "crockford ! nat (n div ?p) < crockford ! nat (m div ?p)"
      by (intro crockford_less) auto
    then show ?thesis by (simp add: base32_Suc dn dm)
  qed
qed

lemma encode_ulid_less: "0 \<le> n \<Longrightarrow> n < m \<Longrightarrow> m < 2 ^ 128 \<Longrightarrow> encode_ulid n < encode_ulid m"
  using base32_less [of n m 26] by (simp add: encode_ulid_div base32_def)

lemma ulid_pattern_encode:
  assumes "0 \<le> n" and "n < 2 ^ 128"
  shows "ulid_pattern (encode_ulid n)"
proof -
  have hd8: "crockford ! i \<in> set ''01234567''" if "i < 8" for i
    using that by (auto simp: crockford_def nth_Cons' split: if_splits)
  have all: "crockford ! nat (x mod 32) \<in> set crockford" for x :: int
    by (rule nth_mem) (simp add: crockford_def nat_less_iff)
  have e: "encode_ulid n = base32 (Suc 25) n" by (simp add: encode_ulid_div base32_def)
  have top: "n div 32 ^ 25 < 8" "0 \<le> n div 32 ^ 25"
    using assms by (simp_all add: int_div_less pos_imp_zdiv_nonneg_iff)
  then have "nat (n div 32 ^ 25 mod 32) < 8" by simp
  from hd8 [OF this] have "crockford ! nat (n div 32 ^ 25 mod 32) \<in> set ''01234567''" .
  moreover have "length (base32 25 n) = 25" by (simp add: base32_def)
  moreover have "\<forall>d \<in> set (base32 25 n). d \<in> set crockford"
    unfolding base32_def using all by auto
  ultimately show ?thesis
    unfolding e base32_Suc ulid_pattern_def by simp
qed

section \<open>The factory is strictly monotonic\<close>

definition factory_number :: "ulid_factory \<Rightarrow> int" where
  "factory_number f = last_timestamp_ms f * 2 ^ 80 + last_entropy f"

definition factory_inv :: "ulid_factory \<Rightarrow> bool" where
  "factory_inv f \<longleftrightarrow> (last_timestamp_ms f = - 1 \<and> last_entropy f = - 1)
     \<or> (0 \<le> last_timestamp_ms f \<and> last_timestamp_ms f < 2 ^ 48
        \<and> 0 \<le> last_entropy f \<and> last_entropy f < 2 ^ 80)"

lemma factory_inv_new [simp]: "factory_inv new_factory"
  by (simp add: factory_inv_def new_factory_def)

lemma max_values: "max_timestamp = 2 ^ 48 - 1" "max_entropy = 2 ^ 80 - 1"
  by (simp_all add: max_timestamp_def max_entropy_def push_bit_eq_mult)

lemma numeric_eq:
  assumes "0 \<le> en" and "en < 2 ^ 80"
  shows "push_bit 80 ts OR en = ts * 2 ^ 80 + (en::int)"
proof -
  have "take_bit 80 en = en" using assms by (simp add: take_bit_int_eq_self)
  then have "concat_bit 80 en ts = push_bit 80 ts OR en"
    by (simp add: concat_bit_def or.commute)
  moreover have "concat_bit 80 en ts = take_bit 80 en + push_bit 80 ts"
    by (rule concat_bit_eq)
  ultimately show ?thesis
    using \<open>take_bit 80 en = en\<close> by (simp add: push_bit_eq_mult)
qed

text \<open>
  One call: either it raises and leaves the factory alone, or the factory moves to a larger number
  and the identifier is the encoding of that number.
\<close>

lemma generate_cases:
  assumes "factory_inv f" and "generate f cls t e = (r, f')"
  shows "(\<exists>x. r = Inl x \<and> f' = f) \<or>
    (factory_inv f' \<and> factory_number f < factory_number f' \<and> 0 \<le> factory_number f'
      \<and> factory_number f' < 2 ^ 128 \<and> r = Inr (Ulid cls (encode_ulid (factory_number f'))))"
proof (cases "\<exists>x. r = Inl x \<and> f' = f")
  case False
  define ts where "ts = max t (last_timestamp_ms f)"
  define en where "en = (if ts = last_timestamp_ms f then max e (last_entropy f + 1) else e)"
  define ts' where "ts' = (if en > max_entropy then ts + 1 else ts)"
  define en' where "en' = (if en > max_entropy then 0 else en)"
  have ok: "0 \<le> t" "t \<le> max_timestamp" "0 \<le> e" "e \<le> max_entropy"
    "\<not> (en > max_entropy \<and> ts = max_timestamp)"
    using assms(2) False
    by (auto simp: generate_def Let_def ts_def en_def split: if_splits)
  have f': "f' = \<lparr>last_timestamp_ms = ts', last_entropy = en'\<rparr>"
    and r: "r = new_ulid cls (encode_ulid (push_bit 80 ts' OR en'))"
    using assms(2) ok
    by (auto simp: generate_def Let_def ts_def en_def ts'_def en'_def split: if_splits)
  have ts: "0 \<le> ts" "ts < 2 ^ 48" "last_timestamp_ms f \<le> ts"
    using ok assms(1) by (auto simp: ts_def factory_inv_def max_values)
  have en: "0 \<le> en" using ok assms(1) by (auto simp: en_def factory_inv_def)
  have inv: "0 \<le> ts'" "ts' < 2 ^ 48" "0 \<le> en'" "en' < 2 ^ 80"
    using ts en ok by (auto simp: ts'_def en'_def max_values)
  have lt: "last_timestamp_ms f < ts' \<or> (last_timestamp_ms f = ts' \<and> last_entropy f < en')"
    using ts by (auto simp: ts'_def en'_def en_def)
  have fi: "last_entropy f < 2 ^ 80" using assms(1) by (auto simp: factory_inv_def)
  have num: "push_bit 80 ts' OR en' = factory_number f'"
    using numeric_eq inv by (simp add: f' factory_number_def)
  have fn: "factory_number f' = ts' * 2 ^ 80 + en'" by (simp add: f' factory_number_def)
  have b: "0 \<le> factory_number f'" "factory_number f' < 2 ^ 128"
    using inv unfolding fn by simp_all
  have "factory_number f < factory_number f'"
    using lt fi inv unfolding fn by (auto simp: factory_number_def)
  moreover have "factory_inv f'" using inv by (simp add: factory_inv_def f')
  ultimately show ?thesis
    using b r ulid_pattern_encode [OF b] by (simp add: num new_ulid_def)
qed simp

lemma generate_run_above:
  assumes "factory_inv f" and "u \<in> set (generate_run f calls)"
  shows "\<exists>n > factory_number f. 0 \<le> n \<and> n < 2 ^ 128 \<and> ulid_value u = encode_ulid n"
  using assms
proof (induction f calls rule: generate_run.induct)
  case (2 f cls t e calls)
  obtain r f' where g: "generate f cls t e = (r, f')" by fastforce
  from generate_cases [OF 2(3) g] show ?case
  proof (elim disjE exE conjE)
    fix x assume "r = Inl x" "f' = f"
    with 2 g show ?thesis by auto
  next
    assume n: "factory_inv f'" "factory_number f < factory_number f'" "0 \<le> factory_number f'"
      "factory_number f' < 2 ^ 128" "r = Inr (Ulid cls (encode_ulid (factory_number f')))"
    from 2(4) g n(5) consider "u = Ulid cls (encode_ulid (factory_number f'))"
      | "u \<in> set (generate_run f' calls)" by auto
    then show ?thesis
    proof cases
      case 1
      with n show ?thesis by auto
    next
      case u: 2
      from "2.IH"(2) [OF g [symmetric] n(5)] n(1) u
      obtain k where "k > factory_number f'" "0 \<le> k" "k < 2 ^ 128" "ulid_value u = encode_ulid k"
        using g n(5) by auto
      with n(2) show ?thesis by (meson order.strict_trans)
    qed
  qed
qed simp

lemma generate_run_sorted:
  "factory_inv f \<Longrightarrow> sorted_wrt (<) (map ulid_value (generate_run f calls))"
proof (induction f calls rule: generate_run.induct)
  case (2 f cls t e calls)
  obtain r f' where g: "generate f cls t e = (r, f')" by fastforce
  from generate_cases [OF 2(3) g] show ?case
  proof (elim disjE exE conjE)
    fix x assume "r = Inl x" "f' = f"
    with 2 g show ?thesis by auto
  next
    assume n: "factory_inv f'" "factory_number f < factory_number f'" "0 \<le> factory_number f'"
      "factory_number f' < 2 ^ 128" "r = Inr (Ulid cls (encode_ulid (factory_number f')))"
    have "encode_ulid (factory_number f') < ulid_value u" if "u \<in> set (generate_run f' calls)" for u
      using generate_run_above [OF n(1) that] encode_ulid_less n(3) by auto
    moreover have "sorted_wrt (<) (map ulid_value (generate_run f' calls))"
      using "2.IH"(2) [OF g [symmetric] n(5)] n(1) g n(5) by auto
    ultimately show ?thesis using g n(5) by auto
  qed
qed simp

section \<open>Property\<close>

text \<open>
  C4: whatever the callers pass as clock and entropy (a clock that goes back included), the
  identifiers a factory issues are canonical ULIDs in strictly increasing lexicographic order, so
  no two of them are equal and their text order is the order of issue.
\<close>

theorem generate_run_monotonic:
  "sorted_wrt (<) (map ulid_value (generate_run new_factory calls))
    \<and> list_all (\<lambda>u. ulid_pattern (ulid_value u)) (generate_run new_factory calls)"
  using generate_run_sorted [OF factory_inv_new]
    generate_run_above [OF factory_inv_new] ulid_pattern_encode
  by (fastforce simp: list_all_iff)

end
