(* ===== verification/Py_Format.thy ===== *)
theory Py_Format
  imports Prelude
begin

text \<open>
  The parts of Python's standard library that turn numbers and times into text: \<open>str(int)\<close>,
  zero-padded fields, lower-case hexadecimal and \<open>datetime.isoformat\<close>. A zone is a fixed offset;
  years run over the proleptic Gregorian calendar.
\<close>

definition digit_char :: "nat \<Rightarrow> char" where
  "digit_char n = ''0123456789'' ! n"

fun str_nat :: "nat \<Rightarrow> string" where
  "str_nat n = (if n < 10 then [digit_char n] else str_nat (n div 10) @ [digit_char (n mod 10)])"

declare str_nat.simps [simp del]

definition str_int :: "int \<Rightarrow> string" where
  "str_int i = (if i < 0 then CHR ''-'' # str_nat (nat (- i)) else str_nat (nat i))"

definition zpad :: "nat \<Rightarrow> int \<Rightarrow> string" where
  "zpad w i = (let s = str_int i in replicate (w - length s) (CHR ''0'') @ s)"

definition hex_char :: "nat \<Rightarrow> char" where
  "hex_char n = ''0123456789abcdef'' ! n"

subsection \<open>Decimal text determines the number\<close>

definition digit_value :: "char \<Rightarrow> nat" where
  "digit_value c = of_char c - 48"

definition is_digit :: "char \<Rightarrow> bool" where
  "is_digit c \<longleftrightarrow> 48 \<le> (of_char c :: nat) \<and> (of_char c :: nat) \<le> 57"

definition decimal_value :: "string \<Rightarrow> nat" where
  "decimal_value s = foldl (\<lambda>a c. 10 * a + digit_value c) 0 s"

lemma less_10_cases: "(n::nat) < 10 \<Longrightarrow> n \<in> {0, 1, 2, 3, 4, 5, 6, 7, 8, 9}"
  by auto

lemma of_char_digit [simp]: "n < 10 \<Longrightarrow> (of_char (digit_char n) :: nat) = 48 + n"
  using less_10_cases [of n] by (auto simp: digit_char_def of_char_def)

lemma digit_value_digit_char [simp]: "n < 10 \<Longrightarrow> digit_value (digit_char n) = n"
  by (simp add: digit_value_def)

lemma is_digit_digit_char [simp]: "n < 10 \<Longrightarrow> is_digit (digit_char n)"
  by (simp add: is_digit_def)

lemma decimal_value_str_nat [simp]: "decimal_value (str_nat n) = n"
proof (induction n rule: str_nat.induct)
  case (1 n)
  show ?case
  proof (cases "n < 10")
    case True
    then show ?thesis by (simp add: str_nat.simps [of n] decimal_value_def)
  next
    case False
    with 1 have "decimal_value (str_nat (n div 10)) = n div 10" by simp
    with False show ?thesis by (simp add: str_nat.simps [of n] decimal_value_def)
  qed
qed

lemma str_nat_digits: "\<forall>c \<in> set (str_nat n). is_digit c"
proof (induction n rule: str_nat.induct)
  case (1 n)
  then show ?case by (cases "n < 10") (auto simp: str_nat.simps [of n])
qed

lemma str_nat_nonempty [simp]: "str_nat n \<noteq> []"
  by (subst str_nat.simps) simp

lemma str_nat_inject [simp]: "str_nat m = str_nat n \<longleftrightarrow> m = n"
  by (metis decimal_value_str_nat)

lemma minus_not_digit: "\<not> is_digit (CHR ''-'')"
  by (simp add: is_digit_def)

lemma str_nat_not_minus: "str_nat n \<noteq> CHR ''-'' # s"
  using str_nat_digits [of n] minus_not_digit by auto

lemma str_int_inject [simp]: "str_int i = str_int j \<longleftrightarrow> i = j"
  using str_nat_not_minus str_nat_not_minus [symmetric] by (auto simp: str_int_def)

lemma str_int_nonempty [simp]: "str_int i \<noteq> []"
  by (simp add: str_int_def)

text \<open>Evaluation on literals.\<close>

lemma str_nat_literal [simp]:
  "str_nat 0 = ''0''"
  "str_nat (Suc 0) = ''1''"
  "str_nat (numeral k) = (if (numeral k :: nat) < 10 then [digit_char (numeral k)]
     else str_nat (numeral k div 10) @ [digit_char (numeral k mod 10)])"
  by (simp_all add: str_nat.simps [of 0] str_nat.simps [of "Suc 0"] str_nat.simps [of "numeral k"]
      digit_char_def)

subsection \<open>Representations\<close>

text \<open>
  \<open>repr\<close> of a \<open>str\<close> with code points below 256: double quotes only when the text holds a single
  quote and no double one; control characters, 127 to 160 and the soft hyphen are not printable.
\<close>

definition repr_char :: "char \<Rightarrow> char \<Rightarrow> string" where
  "repr_char q c = (let n = (of_char c :: nat) in
     if c = q \<or> n = 92 then [CHR 0x5C, c]
     else if n = 9 then [CHR 0x5C, CHR ''t'']
     else if n = 10 then [CHR 0x5C, CHR ''n'']
     else if n = 13 then [CHR 0x5C, CHR ''r'']
     else if n < 32 \<or> (127 \<le> n \<and> n \<le> 160) \<or> n = 173
       then [CHR 0x5C, CHR ''x'', hex_char (n div 16), hex_char (n mod 16)]
     else [c])"

definition py_repr :: "string \<Rightarrow> string" where
  "py_repr s = (let q = (if CHR 0x27 \<in> set s \<and> CHR 0x22 \<notin> set s then CHR 0x22 else CHR 0x27)
     in q # concat (map (repr_char q) s) @ [q])"

fun join :: "string \<Rightarrow> string list \<Rightarrow> string" where
  "join sep [] = []"
| "join sep [x] = x"
| "join sep (x # y # zs) = x @ sep @ join sep (y # zs)"

text \<open>\<open>repr\<close> of a list of strings\<close>

definition repr_list :: "string list \<Rightarrow> string" where
  "repr_list xs = ''['' @ join '', '' (map py_repr xs) @ '']''"

subsection \<open>Times\<close>

definition civil_from_days :: "int \<Rightarrow> int \<times> int \<times> int" where
  "civil_from_days days = (let
     z = days + 719468;
     era = z div 146097;
     doe = z - era * 146097;
     yoe = (doe - doe div 1460 + doe div 36524 - doe div 146096) div 365;
     doy = doe - (365 * yoe + yoe div 4 - yoe div 100);
     mp = (5 * doy + 2) div 153;
     d = doy - (153 * mp + 2) div 5 + 1;
     m = (if mp < 10 then mp + 3 else mp - 9)
   in (yoe + era * 400 + (if m \<le> 2 then 1 else 0), m, d))"

definition fraction_text :: "int \<Rightarrow> string" where
  "fraction_text us = (if us = 0 then [] else CHR ''.'' # zpad 6 us)"

definition offset_text :: "int \<Rightarrow> string" where
  "offset_text off = (let
     a = \<bar>off\<bar>;
     us = a mod 1000000;
     s = a div 1000000
   in (if off < 0 then ''-'' else ''+'') @ zpad 2 (s div 3600) @ '':'' @ zpad 2 (s div 60 mod 60)
      @ (if s mod 60 = 0 \<and> us = 0 then [] else CHR '':'' # zpad 2 (s mod 60) @ fraction_text us))"

definition isoformat :: "datetime \<Rightarrow> string" where
  "isoformat t = (let
     wall = instant t + (case utcoff t of None \<Rightarrow> 0 | Some off \<Rightarrow> off);
     us = wall mod 1000000;
     secs = wall div 1000000;
     (y, m, d) = civil_from_days (secs div 86400);
     sod = secs mod 86400
   in zpad 4 y @ ''-'' @ zpad 2 m @ ''-'' @ zpad 2 d @ ''T'' @ zpad 2 (sod div 3600) @ '':''
      @ zpad 2 (sod div 60 mod 60) @ '':'' @ zpad 2 (sod mod 60) @ fraction_text us
      @ (case utcoff t of None \<Rightarrow> [] | Some off \<Rightarrow> offset_text off))"

end
