(* ===== verification/Py_Json.thy ===== *)
theory Py_Json
  imports Py_Format
begin

text \<open>
  \<open>json.dumps(value, sort_keys=True, separators=(",", ":"), ensure_ascii=...)\<close>: the canonical text
  the code hashes. A float is kept as the text \<open>repr\<close> gives it, which \<open>json.dumps\<close> writes as it is
  but for the three values \<open>nan\<close>, \<open>inf\<close> and \<open>-inf\<close>. A list stands for a Python list; tuples, which
  \<open>json.dumps\<close> writes as lists, are not values of this type. The main fact is that the text
  determines the value up to the order of object keys, so that equal canonical texts mean equal
  canonical values; it is proved through unique decodability with a remaining input.
\<close>

datatype json =
    JNull
  | JBool bool
  | JInt int
  | JFloat string
  | JStr string
  | JList "json list"
  | JObj "(string \<times> json) list"

definition escape_char :: "bool \<Rightarrow> char \<Rightarrow> string" where
  "escape_char ascii c = (let n = (of_char c :: nat) in
     if c = CHR 0x22 then [CHR 0x5C, CHR 0x22]
     else if c = CHR 0x5C then [CHR 0x5C, CHR 0x5C]
     else if n = 10 then [CHR 0x5C, CHR ''n'']
     else if n = 13 then [CHR 0x5C, CHR ''r'']
     else if n = 9 then [CHR 0x5C, CHR ''t'']
     else if n = 12 then [CHR 0x5C, CHR ''f'']
     else if n = 8 then [CHR 0x5C, CHR ''b'']
     else if n < 32 \<or> (ascii \<and> 126 < n)
       then [CHR 0x5C, CHR ''u'', CHR ''0'', CHR ''0'', hex_char (n div 16), hex_char (n mod 16)]
     else [c])"

definition json_string :: "bool \<Rightarrow> string \<Rightarrow> string" where
  "json_string ascii s = CHR 0x22 # concat (map (escape_char ascii) s) @ [CHR 0x22]"

text \<open>\<open>json.dumps\<close> with its default \<open>allow_nan=True\<close>\<close>

definition float_text :: "string \<Rightarrow> string" where
  "float_text r = (if r = ''nan'' then ''NaN'' else if r = ''inf'' then ''Infinity''
     else if r = ''-inf'' then ''-Infinity'' else r)"

fun json_text :: "bool \<Rightarrow> json \<Rightarrow> string" where
  "json_text a JNull = ''null''"
| "json_text a (JBool b) = (if b then ''true'' else ''false'')"
| "json_text a (JInt i) = str_int i"
| "json_text a (JFloat r) = float_text r"
| "json_text a (JStr s) = json_string a s"
| "json_text a (JList vs) = ''['' @ join '','' (map (json_text a) vs) @ '']''"
| "json_text a (JObj kvs) =
     ''{'' @ join '','' (map (\<lambda>(k, v). json_string a k @ '':'' @ json_text a v) kvs) @ ''}''"

fun sort_keys :: "json \<Rightarrow> json" where
  "sort_keys (JList vs) = JList (map sort_keys vs)"
| "sort_keys (JObj kvs) = JObj (sort_key fst (map (\<lambda>(k, v). (k, sort_keys v)) kvs))"
| "sort_keys v = v"

definition json_dumps :: "bool \<Rightarrow> json \<Rightarrow> string" where
  "json_dumps ascii v = json_text ascii (sort_keys v)"

section \<open>Escapes decode uniquely\<close>

definition hex_value :: "char \<Rightarrow> nat" where
  "hex_value c = (let n = of_char c in if n < 58 then n - 48 else n - 87)"

lemma hex_value_hex_char [simp]:
  assumes "n < 16"
  shows "hex_value (hex_char n) = n"
proof -
  have "\<forall>n \<in> set [0..<16]. hex_value (hex_char n) = n"
    by (simp add: hex_value_def hex_char_def of_char_def upt_rec)
  with assms show ?thesis by simp
qed

fun unescape :: "string \<Rightarrow> (char \<times> string) option" where
  "unescape [] = None"
| "unescape (c # u) =
     (if c \<noteq> CHR 0x5C then Some (c, u)
      else case u of
          [] \<Rightarrow> None
        | x # u' \<Rightarrow>
            (if x = CHR ''n'' then Some (char_of (10::nat), u')
             else if x = CHR ''r'' then Some (char_of (13::nat), u')
             else if x = CHR ''t'' then Some (char_of (9::nat), u')
             else if x = CHR ''f'' then Some (char_of (12::nat), u')
             else if x = CHR ''b'' then Some (char_of (8::nat), u')
             else if x = CHR ''u'' then
               Some (char_of (16 * hex_value (u' ! 2) + hex_value (u' ! 3)), drop 4 u')
             else Some (x, u')))"

lemma char_of_eq: "(of_char c :: nat) = n \<Longrightarrow> char_of n = c"
  by (metis char_of_char)

lemma unescape_escape [simp]: "unescape (escape_char a c @ u) = Some (c, u)"
proof -
  have "(of_char c :: nat) < 256" by simp
  then have "16 * ((of_char c :: nat) div 16) + of_char c mod 16 = of_char c"
    "(of_char c :: nat) div 16 < 16" "(of_char c :: nat) mod 16 < 16"
    using less_mult_imp_div_less [of "of_char c" 16 16] by auto
  then show ?thesis
    by (auto simp: escape_char_def Let_def char_of_eq)
qed

lemma escape_nonempty: "escape_char a c \<noteq> []"
  by (simp add: escape_char_def Let_def)

lemma escape_not_quote: "escape_char a c @ u \<noteq> CHR 0x22 # v"
  by (auto simp: escape_char_def Let_def)

lemma escapes_unique:
  "concat (map (escape_char a) s) @ CHR 0x22 # u = concat (map (escape_char a) t) @ CHR 0x22 # v
   \<Longrightarrow> s = t \<and> u = v"
proof (induction s arbitrary: t)
  case Nil
  then show ?case
    by (cases t) (auto dest: escape_not_quote [THEN notE, OF sym])
next
  case (Cons c s)
  show ?case
  proof (cases t)
    case Nil
    with Cons.prems show ?thesis by (auto dest: escape_not_quote [THEN notE])
  next
    case (Cons d t')
    let ?rest = "\<lambda>s u. concat (map (escape_char a) s) @ CHR 0x22 # u"
    have "escape_char a c @ ?rest s u = escape_char a d @ ?rest t' v"
      using Cons.prems Cons by simp
    then have "Some (c, ?rest s u) = Some (d, ?rest t' v)"
      by (metis unescape_escape)
    with Cons.IH [of t'] Cons show ?thesis by simp
  qed
qed

lemma json_string_unique:
  "json_string a s @ u = json_string a t @ v \<Longrightarrow> s = t \<and> u = v"
  using escapes_unique [of a s u t v] by (simp add: json_string_def)

lemma json_string_inject [simp]: "json_string a s = json_string a t \<longleftrightarrow> s = t"
  using json_string_unique [of a s "[]" t "[]"] by auto

section \<open>The text determines the value\<close>

text \<open>What may follow a value inside a text, and the characters of a number token.\<close>

definition delimited :: "string \<Rightarrow> bool" where
  "delimited s \<longleftrightarrow> s = [] \<or> hd s \<in> {CHR '','', CHR '']'', CHR ''}''}"

definition number_char :: "char \<Rightarrow> bool" where
  "number_char c \<longleftrightarrow> c \<notin> {CHR '','', CHR '']'', CHR ''}''}"

definition float_token :: "string \<Rightarrow> bool" where
  "float_token r \<longleftrightarrow> r \<noteq> [] \<and> (\<forall>c \<in> set r. number_char c)
     \<and> (\<exists>c \<in> set r. \<not> is_digit c \<and> c \<noteq> CHR ''-'')
     \<and> hd r \<notin> {CHR ''n'', CHR ''t'', CHR ''f'', CHR 0x22, CHR ''['', CHR ''{''}"

definition is_float_repr :: "string \<Rightarrow> bool" where
  "is_float_repr r \<longleftrightarrow> r = ''nan'' \<or> float_token r \<and> r \<notin> {''NaN'', ''Infinity'', ''-Infinity''}"

lemma float_repr_token:
  assumes "is_float_repr r"
  shows "float_token (float_text r)"
proof -
  have "float_token ''NaN''" "float_token ''Infinity''" "float_token ''-Infinity''"
    by (simp_all add: float_token_def number_char_def is_digit_def)
  with assms show ?thesis by (auto simp: is_float_repr_def float_text_def)
qed

lemma float_text_inject:
  "is_float_repr r \<Longrightarrow> is_float_repr r' \<Longrightarrow> float_text r = float_text r' \<Longrightarrow> r = r'"
  by (auto simp: is_float_repr_def float_text_def split: if_splits)

lemmas float_reprD = float_repr_token [unfolded float_token_def]

fun json_wf :: "json \<Rightarrow> bool" where
  "json_wf (JFloat r) = is_float_repr r"
| "json_wf (JList vs) = (\<forall>v \<in> set vs. json_wf v)"
| "json_wf (JObj kvs) = (\<forall>(k, v) \<in> set kvs. json_wf v)"
| "json_wf _ = True"

lemma is_digit_number_char: "is_digit c \<Longrightarrow> number_char c"
  by (auto simp: is_digit_def number_char_def)

lemma str_int_chars: "c \<in> set (str_int i) \<Longrightarrow> is_digit c \<or> c = CHR ''-''"
  using str_nat_digits by (auto simp: str_int_def split: if_splits)

lemma str_int_not_float: "is_float_repr r \<Longrightarrow> str_int i \<noteq> float_text r"
  by (metis float_reprD str_int_chars)

lemma str_int_number: "\<forall>c \<in> set (str_int i). number_char c"
  using str_int_chars is_digit_number_char by (fastforce simp: number_char_def)

lemma str_int_hd: "is_digit (hd (str_int i)) \<or> hd (str_int i) = CHR ''-''"
  using str_int_chars [OF hd_in_set [OF str_int_nonempty]] .

lemma not_digit_literals [simp]:
  "\<not> is_digit (CHR ''n'')" "\<not> is_digit (CHR ''t'')" "\<not> is_digit (CHR ''f'')"
  "\<not> is_digit (CHR 0x22)" "\<not> is_digit (CHR ''['')" "\<not> is_digit (CHR ''{'')"
  by (simp_all add: is_digit_def)

lemma takeWhile_token:
  assumes "\<forall>c \<in> set w. number_char c" and "delimited s"
  shows "takeWhile number_char (w @ s) = w"
proof -
  have "takeWhile number_char s = []"
    using assms(2) by (cases s) (auto simp: delimited_def number_char_def)
  with assms(1) show ?thesis by (simp add: takeWhile_append2)
qed

lemma token_unique:
  assumes "\<forall>c \<in> set w. number_char c" "\<forall>c \<in> set w'. number_char c"
    and "delimited s" "delimited t" and "w @ s = w' @ t"
  shows "w = w' \<and> s = t"
proof -
  have "takeWhile number_char (w @ s) = w" and "takeWhile number_char (w' @ t) = w'"
    by (rule takeWhile_token; fact assms)+
  with assms(5) show ?thesis by (metis append_eq_append_conv)
qed

text \<open>The first character of a text tells the constructor, numbers apart.\<close>

fun head_class :: "json \<Rightarrow> char option" where
  "head_class JNull = Some (CHR ''n'')"
| "head_class (JBool b) = Some (if b then CHR ''t'' else CHR ''f'')"
| "head_class (JStr s) = Some (CHR 0x22)"
| "head_class (JList vs) = Some (CHR ''['')"
| "head_class (JObj kvs) = Some (CHR ''{'')"
| "head_class _ = None"

lemma json_text_head:
  "json_wf v \<Longrightarrow> json_text a v \<noteq> [] \<and>
    (case head_class v of Some c \<Rightarrow> hd (json_text a v) = c
     | None \<Rightarrow> hd (json_text a v) \<notin> {CHR ''n'', CHR ''t'', CHR ''f'', CHR 0x22, CHR ''['', CHR ''{''})"
proof (cases v)
  case (JInt i)
  then show ?thesis using str_int_hd [of i] by auto
qed (auto simp: json_string_def dest: float_reprD)

lemma json_text_nonempty: "json_wf v \<Longrightarrow> json_text a v \<noteq> []"
  using json_text_head by blast

lemma json_text_hd_number_char: "json_wf v \<Longrightarrow> number_char (hd (json_text a v))"
proof (cases v)
  case (JInt i)
  then show ?thesis using str_int_number [of i] by simp
next
  case (JFloat r)
  moreover assume "json_wf v"
  ultimately show ?thesis by (auto dest!: float_reprD)
qed (auto simp: json_string_def number_char_def)

lemma head_class_eq:
  assumes "json_wf v" "json_wf w" and "json_text a v @ s = json_text a w @ t"
  shows "head_class v = head_class w"
proof -
  have "hd (json_text a v) = hd (json_text a w)"
    using assms by (metis hd_append2 json_text_nonempty)
  with json_text_head [OF assms(1), of a] json_text_head [OF assms(2), of a]
  show ?thesis
    by (cases v; cases w) (auto split: if_splits)
qed

text \<open>A sequence of uniquely decodable items, separated by commas and closed by a bracket.\<close>

definition decodable :: "('a \<Rightarrow> string) \<Rightarrow> 'a \<Rightarrow> 'a \<Rightarrow> bool" where
  "decodable pr x y \<longleftrightarrow> (\<forall>s t. delimited s \<longrightarrow> delimited t \<longrightarrow> pr x @ s = pr y @ t \<longrightarrow> x = y \<and> s = t)"

lemma join_unique:
  assumes "\<And>x y. x \<in> set xs \<Longrightarrow> y \<in> set ys \<Longrightarrow> decodable pr x y"
    and "\<And>x. x \<in> set xs \<union> set ys \<Longrightarrow> pr x \<noteq> [] \<and> number_char (hd (pr x))"
    and "c \<in> {CHR '']'', CHR ''}''}"
    and "join '','' (map pr xs) @ c # s = join '','' (map pr ys) @ c # t"
  shows "xs = ys \<and> s = t"
  using assms
proof (induction xs arbitrary: ys)
  case Nil
  then show ?case
  proof (cases ys)
    case (Cons y ys')
    with Nil.prems(2) [of y] Nil.prems(3, 4) show ?thesis
      by (cases ys'; cases "pr y") (auto simp: number_char_def)
  qed simp
next
  case (Cons x xs)
  show ?case
  proof (cases ys)
    case Nil
    with Cons.prems(2) [of x] Cons.prems(3, 4) show ?thesis
      by (cases xs; cases "pr x") (auto simp: number_char_def)
  next
    case ys: (Cons y ys')
    define rest where "rest = (\<lambda>zs u. case zs of [] \<Rightarrow> c # u
       | _ \<Rightarrow> CHR '','' # join '','' (map pr zs) @ c # u)"
    have split: "join '','' (map pr (z # zs)) @ c # u = pr z @ rest zs u" for z zs u
      by (cases zs) (auto simp: rest_def)
    have delim: "delimited (rest zs u)" for zs u
      using Cons.prems(3) by (cases zs) (auto simp: rest_def delimited_def)
    have "pr x @ rest xs s = pr y @ rest ys' t"
      using Cons.prems(4) unfolding ys split .
    moreover have "decodable pr x y" using Cons.prems(1) ys by simp
    ultimately have xy: "x = y" and rest: "rest xs s = rest ys' t"
      using delim by (auto simp: decodable_def)
    show ?thesis
    proof (cases xs)
      case Nil
      with rest Cons.prems(3) have "ys' = []" and "s = t"
        by (auto simp: rest_def split: list.splits)
      with Nil xy ys show ?thesis by simp
    next
      case (Cons x' xs')
      with rest \<open>c \<in> _\<close> have "ys' \<noteq> []"
        by (auto simp: rest_def split: list.splits)
      with rest Cons have "join '','' (map pr xs) @ c # s = join '','' (map pr ys') @ c # t"
        by (auto simp: rest_def split: list.splits)
      with Cons.IH [of ys'] Cons.prems(1-3) ys have "xs = ys' \<and> s = t" by simp
      with xy ys show ?thesis by simp
    qed
  qed
qed

lemma json_text_unique:
  "json_wf v \<Longrightarrow> json_wf w \<Longrightarrow> decodable (json_text a) v w"
proof (induction v arbitrary: w)
  case (JList vs)
  show ?case unfolding decodable_def
  proof (intro allI impI)
    fix s t assume d: "delimited s" "delimited t"
      and eq: "json_text a (JList vs) @ s = json_text a w @ t"
    from head_class_eq [OF JList.prems eq] obtain ws where w: "w = JList ws"
      by (cases w) (auto split: if_splits)
    have "join '','' (map (json_text a) vs) @ CHR '']'' # s
        = join '','' (map (json_text a) ws) @ CHR '']'' # t"
      using eq w by simp
    with JList w show "JList vs = w \<and> s = t"
      by (auto dest!: join_unique [rotated 3] simp: json_text_nonempty json_text_hd_number_char)
  qed
next
  case (JObj kvs)
  let ?pr = "\<lambda>(k, v). json_string a k @ '':'' @ json_text a v"
  show ?case unfolding decodable_def
  proof (intro allI impI)
    fix s t assume d: "delimited s" "delimited t"
      and eq: "json_text a (JObj kvs) @ s = json_text a w @ t"
    from head_class_eq [OF JObj.prems eq] obtain kws where w: "w = JObj kws"
      by (cases w) (auto split: if_splits)
    have eq': "join '','' (map ?pr kvs) @ CHR ''}'' # s = join '','' (map ?pr kws) @ CHR ''}'' # t"
      using eq w by simp
    have dec: "decodable ?pr x y" if "x \<in> set kvs" "y \<in> set kws" for x y
    proof -
      obtain k v k' v' where xy: "x = (k, v)" "y = (k', v')" by (cases x, cases y)
      have "decodable (json_text a) v v'"
        using JObj.IH [of x v v'] that xy JObj.prems w by (auto simp: snds.simps)
      then show ?thesis
        by (auto simp: decodable_def xy dest: json_string_unique)
    qed
    have "?pr x \<noteq> [] \<and> number_char (hd (?pr x))" for x
      by (cases x) (auto simp: json_string_def number_char_def)
    with join_unique [OF dec _ _ eq'] w show "JObj kvs = w \<and> s = t" by blast
  qed
next
  case (JStr x)
  show ?case unfolding decodable_def
  proof (intro allI impI)
    fix s t assume "delimited s" "delimited t"
      and eq: "json_text a (JStr x) @ s = json_text a w @ t"
    from head_class_eq [OF JStr eq] obtain y where "w = JStr y"
      by (cases w) (auto split: if_splits)
    with eq show "JStr x = w \<and> s = t" by (auto dest: json_string_unique)
  qed
next
  case (JInt i)
  show ?case unfolding decodable_def
  proof (intro allI impI)
    fix s t assume d: "delimited s" "delimited t"
      and eq: "json_text a (JInt i) @ s = json_text a w @ t"
    have h: "head_class w = None" using head_class_eq [OF JInt eq] by simp
    have "str_int i = json_text a w \<and> s = t"
      using eq d h JInt(2) str_int_number
      by (cases w) (auto dest!: float_reprD token_unique [rotated 4] split: if_splits)
    with h JInt(2) show "JInt i = w \<and> s = t"
      by (cases w) (auto dest: str_int_not_float)
  qed
next
  case (JFloat r)
  show ?case unfolding decodable_def
  proof (intro allI impI)
    fix s t assume d: "delimited s" "delimited t"
      and eq: "json_text a (JFloat r) @ s = json_text a w @ t"
    have h: "head_class w = None" using head_class_eq [OF JFloat eq] by simp
    have "float_text r = json_text a w \<and> s = t"
      using eq d h JFloat str_int_number
      by (cases w) (auto dest!: float_reprD token_unique [rotated 4] split: if_splits)
    with h JFloat show "JFloat r = w \<and> s = t"
      by (cases w) (auto dest: str_int_not_float [THEN not_sym] float_text_inject)
  qed
next
  case JNull
  show ?case unfolding decodable_def
  proof (intro allI impI)
    fix s t assume eq: "json_text a JNull @ s = json_text a w @ t"
    from head_class_eq [OF JNull eq] eq show "JNull = w \<and> s = t"
      by (cases w) (auto split: if_splits)
  qed
next
  case (JBool b)
  show ?case unfolding decodable_def
  proof (intro allI impI)
    fix s t assume eq: "json_text a (JBool b) @ s = json_text a w @ t"
    from head_class_eq [OF JBool eq] eq show "JBool b = w \<and> s = t"
      by (cases w) (auto split: if_splits)
  qed
qed

lemma json_wf_sort_keys [simp]: "json_wf (sort_keys v) = json_wf v"
  by (induction v) (auto simp: snds.simps split: prod.splits)

lemma json_dumps_eq:
  assumes "json_wf v" and "json_wf w" and "json_dumps a v = json_dumps a w"
  shows "sort_keys v = sort_keys w"
  using json_text_unique [of "sort_keys v" "sort_keys w" a] assms
  by (simp add: json_dumps_def decodable_def delimited_def)

text \<open>Equal canonical objects agree on every key.\<close>

lemma sort_keys_obj_lookup:
  assumes eq: "sort_keys (JObj kvs) = sort_keys (JObj kws)"
    and d: "distinct (map fst kvs)" "distinct (map fst kws)"
  shows "map_option sort_keys (map_of kvs k) = map_option sort_keys (map_of kws k)"
proof -
  let ?f = "\<lambda>(k, v). (k, sort_keys v)"
  have m: "map_of (map ?f xs) = map_option sort_keys \<circ> map_of xs" for xs
    by (rule ext) (induction xs, auto)
  have "mset (map ?f kvs) = mset (map ?f kws)"
  proof -
    have "sort_key fst (map ?f kvs) = sort_key fst (map ?f kws)" using eq by simp
    then have "mset (sort_key fst (map ?f kvs)) = mset (sort_key fst (map ?f kws))" by (rule arg_cong)
    then show ?thesis by (simp only: mset_sort)
  qed
  then have s: "set (map ?f kvs) = set (map ?f kws)" by (rule mset_eq_setD)
  have keys: "map fst (map ?f xs) = map fst xs" for xs by auto
  have "distinct (map fst (map ?f kvs))" "distinct (map fst (map ?f kws))"
    by (simp_all only: keys d)
  then have "map_of (map ?f kvs) = map_of (map ?f kws)"
    using map_of_inject_set s by blast
  then have "map_option sort_keys \<circ> map_of kvs = map_option sort_keys \<circ> map_of kws"
    unfolding m .
  then show ?thesis by (metis comp_apply)
qed

lemma json_dumps_obj_eq:
  assumes "json_wf (JObj kvs)" "json_wf (JObj kws)"
    and "distinct (map fst kvs)" "distinct (map fst kws)"
    and "json_dumps a (JObj kvs) = json_dumps a (JObj kws)"
  shows "map_option sort_keys (map_of kvs k) = map_option sort_keys (map_of kws k)"
  using json_dumps_eq [OF assms(1,2,5)] assms(3,4) by (rule sort_keys_obj_lookup)

end
