(* ===== verification/Py_Sha256.thy ===== *)
theory Py_Sha256
  imports Py_Format "HOL-Library.Word"
begin

unbundle bit_operations_syntax

text \<open>
  \<open>hashlib.sha256\<close> (FIPS 180-4) on 32-bit words with wrap-around, \<open>str.encode()\<close> (UTF-8) for code
  points below 256, and \<open>hexdigest\<close>. Properties that rest on distinct digests are stated with an
  explicit collision as their alternative, never with injectivity as a hypothesis.
\<close>

type_synonym byte = "8 word"
type_synonym u32 = "32 word"

definition rotr :: "nat \<Rightarrow> u32 \<Rightarrow> u32" where
  "rotr n x = drop_bit n x OR push_bit (32 - n) x"

definition sha_k :: "u32 list" where
  "sha_k = [
    1116352408, 1899447441, 3049323471, 3921009573, 961987163, 1508970993, 2453635748,
    2870763221, 3624381080, 310598401, 607225278, 1426881987, 1925078388, 2162078206,
    2614888103, 3248222580, 3835390401, 4022224774, 264347078, 604807628, 770255983,
    1249150122, 1555081692, 1996064986, 2554220882, 2821834349, 2952996808, 3210313671,
    3336571891, 3584528711, 113926993, 338241895, 666307205, 773529912, 1294757372,
    1396182291, 1695183700, 1986661051, 2177026350, 2456956037, 2730485921, 2820302411,
    3259730800, 3345764771, 3516065817, 3600352804, 4094571909, 275423344, 430227734,
    506948616, 659060556, 883997877, 958139571, 1322822218, 1537002063, 1747873779,
    1955562222, 2024104815, 2227730452, 2361852424, 2428436474, 2756734187, 3204031479,
    3329325298]"

definition sha_h0 :: "u32 list" where
  "sha_h0 = [
    1779033703, 3144134277, 1013904242, 2773480762, 1359893119, 2600822924, 528734635,
    1541459225]"

definition sha_s0 :: "u32 \<Rightarrow> u32" where
  "sha_s0 x = rotr 7 x XOR rotr 18 x XOR drop_bit 3 x"
definition sha_s1 :: "u32 \<Rightarrow> u32" where
  "sha_s1 x = rotr 17 x XOR rotr 19 x XOR drop_bit 10 x"
definition sha_S0 :: "u32 \<Rightarrow> u32" where
  "sha_S0 x = rotr 2 x XOR rotr 13 x XOR rotr 22 x"
definition sha_S1 :: "u32 \<Rightarrow> u32" where
  "sha_S1 x = rotr 6 x XOR rotr 11 x XOR rotr 25 x"

text \<open>The schedule is kept newest first, so that each new word reads fixed positions.\<close>

fun sha_schedule :: "nat \<Rightarrow> u32 list \<Rightarrow> u32 list" where
  "sha_schedule 0 ws = rev ws"
| "sha_schedule (Suc n) ws =
     sha_schedule n ((sha_s1 (ws ! 1) + ws ! 6 + sha_s0 (ws ! 14) + ws ! 15) # ws)"

fun sha_round :: "u32 list \<Rightarrow> u32 \<times> u32 \<Rightarrow> u32 list" where
  "sha_round [a, b, c, d, e, f, g, h] (k, w) = (let
     t1 = h + sha_S1 e + ((e AND f) XOR (NOT e AND g)) + k + w;
     t2 = sha_S0 a + ((a AND b) XOR (a AND c) XOR (b AND c))
   in [t1 + t2, a, b, c, d + t1, e, f, g])"
| "sha_round st kw = st"

definition word_of_bytes :: "byte list \<Rightarrow> u32" where
  "word_of_bytes bs = foldl (\<lambda>acc b. push_bit 8 acc OR ucast b) 0 bs"

definition bytes_of_word :: "u32 \<Rightarrow> byte list" where
  "bytes_of_word w = [ucast (drop_bit 24 w), ucast (drop_bit 16 w), ucast (drop_bit 8 w), ucast w]"

definition words_of_block :: "byte list \<Rightarrow> u32 list" where
  "words_of_block bs = map (\<lambda>i. word_of_bytes (take 4 (drop (4 * i) bs))) [0..<16]"

definition sha_block :: "u32 list \<Rightarrow> byte list \<Rightarrow> u32 list" where
  "sha_block h bs =
     map2 (+) h (foldl sha_round h (zip sha_k (sha_schedule 48 (rev (words_of_block bs)))))"

definition sha_pad :: "byte list \<Rightarrow> byte list" where
  "sha_pad m = (let n = length m in
     m @ [0x80] @ replicate ((119 - n mod 64) mod 64) 0
       @ map (\<lambda>i. word_of_nat (8 * n div 256 ^ (7 - i) mod 256)) [0..<8])"

definition sha256_digest :: "byte list \<Rightarrow> byte list" where
  "sha256_digest m = (let p = sha_pad m in
     concat (map bytes_of_word
       (foldl (\<lambda>h i. sha_block h (take 64 (drop (64 * i) p))) sha_h0 [0..<length p div 64])))"

definition encode_char :: "char \<Rightarrow> byte list" where
  "encode_char c = (let n = (of_char c :: nat) in
     if n < 128 then [word_of_nat n] else [word_of_nat (192 + n div 64), word_of_nat (128 + n mod 64)])"

definition encode :: "string \<Rightarrow> byte list" where
  "encode s = concat (map encode_char s)"

definition hexlify :: "byte list \<Rightarrow> string" where
  "hexlify bs = concat (map (\<lambda>b. [hex_char (unat b div 16), hex_char (unat b mod 16)]) bs)"

definition sha256_hex :: "string \<Rightarrow> string" where
  "sha256_hex s = hexlify (sha256_digest (encode s))"

text \<open>\<open>int.from_bytes(bs, "big")\<close>\<close>

definition int_of_bytes :: "byte list \<Rightarrow> int" where
  "int_of_bytes bs = foldl (\<lambda>acc b. 256 * acc + uint b) 0 bs"

text \<open>A SHA-256 collision between two texts.\<close>

definition sha256_collision :: "string \<Rightarrow> string \<Rightarrow> bool" where
  "sha256_collision s t \<longleftrightarrow> s \<noteq> t \<and> sha256_hex s = sha256_hex t"

lemma sha256_hex_eq: "sha256_hex s = sha256_hex t \<Longrightarrow> s = t \<or> sha256_collision s t"
  by (auto simp: sha256_collision_def)

lemma length_hexlify [simp]: "length (hexlify bs) = 2 * length bs"
  by (induction bs) (auto simp: hexlify_def)

lemma length_sha_round [simp]: "length (sha_round st kw) = length st"
  by (cases "(st, kw)" rule: sha_round.cases) (auto simp: Let_def)

lemma length_foldl_sha_round [simp]: "length (foldl sha_round h kws) = length h"
  by (induction kws arbitrary: h) auto

lemma length_sha_block [simp]: "length (sha_block h bs) = length h"
  by (simp add: sha_block_def)

lemma length_sha256_digest [simp]: "length (sha256_digest m) = 32"
proof -
  have len: "length (foldl (\<lambda>h i. sha_block h (f i)) h0 ns) = length h0" for f h0 and ns :: "nat list"
    by (induction ns arbitrary: h0) auto
  have "length (concat (map bytes_of_word ws)) = 4 * length ws" for ws
    by (induction ws) (auto simp: bytes_of_word_def)
  then show ?thesis by (simp add: sha256_digest_def Let_def len sha_h0_def)
qed

lemma length_sha256_hex [simp]: "length (sha256_hex s) = 64"
  by (simp add: sha256_hex_def)

lemma sha256_hex_nonempty [simp]: "sha256_hex s \<noteq> []"
  by (metis length_sha256_hex list.size(3) zero_neq_numeral)

lemma int_of_bytes_snoc: "int_of_bytes (bs @ [b]) = 256 * int_of_bytes bs + uint b"
  by (simp add: int_of_bytes_def)

lemma int_of_bytes_bound: "0 \<le> int_of_bytes bs \<and> int_of_bytes bs < 256 ^ length bs"
proof (induction bs rule: rev_induct)
  case (snoc b bs)
  have "0 \<le> uint b" "uint b < 256" using uint_lt2p [of b] by simp_all
  with snoc show ?case by (simp add: int_of_bytes_snoc)
qed (simp add: int_of_bytes_def)

lemma int_of_bytes_inject:
  "length bs = length cs \<Longrightarrow> int_of_bytes bs = int_of_bytes cs \<Longrightarrow> bs = cs"
proof (induction bs arbitrary: cs rule: rev_induct)
  case (snoc b bs)
  then obtain c cs' where cs: "cs = cs' @ [c]" by (cases cs rule: rev_cases) auto
  have b: "0 \<le> uint b" "uint b < 256" "0 \<le> uint c" "uint c < 256"
    using uint_lt2p [of b] uint_lt2p [of c] by simp_all
  have eq: "256 * int_of_bytes bs + uint b = 256 * int_of_bytes cs' + uint c"
    using snoc.prems cs by (simp add: int_of_bytes_snoc)
  then have "(256 * int_of_bytes bs + uint b) mod 256 = (256 * int_of_bytes cs' + uint c) mod 256"
    by simp
  with b have c: "uint b = uint c" by simp
  with eq have "int_of_bytes bs = int_of_bytes cs'" by simp
  with c snoc cs show ?case by (simp add: word_uint_eq_iff)
qed simp

lemma unat_byte_div: "unat (b :: byte) div 16 < 16"
proof -
  have "unat b < 256" by (rule less_le_trans [OF unsigned_less]) simp
  then show ?thesis by (simp add: less_mult_imp_div_less)
qed

lemma hex_char_in: "n < 16 \<Longrightarrow> hex_char n \<in> set ''0123456789abcdef''"
  unfolding hex_char_def by (rule nth_mem) simp

lemma hexlify_subset:
  assumes "\<And>n. n < 16 \<Longrightarrow> hex_char n \<in> digits"
  shows "set (hexlify bs) \<subseteq> digits"
  by (induction bs) (auto simp: hexlify_def intro!: assms unat_byte_div)

end
