(* ===== verification/Frontier.thy ===== *)
theory Frontier
  imports Identifiers Py_Json Py_Sha256
begin

text \<open>
  \<open>domain/frontier.py\<close>: the pure readiness and ranking engine. A \<open>frontier_snapshot\<close> is built by
  \<open>new_snapshot\<close> from inputs that passed their constructors; \<open>solve_frontier\<close> turns it into one
  decision per item. The lemmas show that ready items come first in the order of the ranking
  pipeline, that the order is total, and that the result does not depend on the order of the input.
\<close>

section \<open>Data\<close>

datatype work_class = FOUNDATION | IMPLEMENTATION | CERTIFICATION

datatype comparator = PROGRAM_PRIORITY | WORK_CLASS | DOWNSTREAM_UNLOCK_COUNT_DESC | AGE_DESC | STABLE_ID

fun work_class_value :: "work_class \<Rightarrow> string" where
  "work_class_value FOUNDATION = ''foundation''"
| "work_class_value IMPLEMENTATION = ''implementation''"
| "work_class_value CERTIFICATION = ''certification''"

fun comparator_value :: "comparator \<Rightarrow> string" where
  "comparator_value PROGRAM_PRIORITY = ''program_priority''"
| "comparator_value WORK_CLASS = ''work_class''"
| "comparator_value DOWNSTREAM_UNLOCK_COUNT_DESC = ''downstream_unlock_count_desc''"
| "comparator_value AGE_DESC = ''age_desc''"
| "comparator_value STABLE_ID = ''stable_id''"

fun work_class_order :: "work_class \<Rightarrow> int" where
  "work_class_order FOUNDATION = 0"
| "work_class_order IMPLEMENTATION = 1"
| "work_class_order CERTIFICATION = 2"

record engine_envelope =
  env_workspace_id :: string
  normalized_snapshot_id :: string
  normalized_snapshot_hash :: string
  source_revision_set :: "(string \<times> string) list"
  graph_revision :: string
  policy_bundle_id :: string
  policy_bundle_hash :: string
  ranking_pipeline_hash :: string
  engine_version :: string
  normalization_profile_version :: string
  computed_at :: datetime
  causation_id :: string
  correlation_id :: string

definition hash_pattern :: "string \<Rightarrow> bool" where
  "hash_pattern s \<longleftrightarrow> length s = 64 \<and> (\<forall>c \<in> set s. c \<in> set ''0123456789abcdef'')"

definition envelope_post_init :: "engine_envelope \<Rightarrow> engine_envelope result" where
  "envelope_post_init e =
     (if \<exists>v \<in> set [env_workspace_id e, normalized_snapshot_id e, graph_revision e,
            policy_bundle_id e, engine_version e, normalization_profile_version e,
            causation_id e, correlation_id e]. blank v
      then Inl (ValueError ''engine envelope identities must not be blank'')
      else if \<not> aware (computed_at e)
      then Inl (ValueError ''computed_at must be timezone-aware'')
      else if \<exists>v \<in> set [normalized_snapshot_hash e, policy_bundle_hash e, ranking_pipeline_hash e].
            \<not> hash_pattern v
      then Inl (ValueError ''engine envelope hashes must be lowercase SHA-256'')
      else let revisions = sort (source_revision_set e) in
        if revisions = [] \<or> \<not> distinct revisions
        then Inl (ValueError ''source_revision_set must be non-empty and unique'')
        else if \<exists>(source, revision) \<in> set revisions. blank source \<or> blank revision
        then Inl (ValueError ''source revisions must contain non-blank identities'')
        else Inr (e\<lparr>source_revision_set := revisions\<rparr>))"

definition envelope_canonical :: "engine_envelope \<Rightarrow> (string \<times> json) list" where
  "envelope_canonical e = [
     (''causation_id'', JStr (causation_id e)),
     (''computed_at'', JStr (isoformat (computed_at e))),
     (''correlation_id'', JStr (correlation_id e)),
     (''engine_version'', JStr (engine_version e)),
     (''graph_revision'', JStr (graph_revision e)),
     (''normalization_profile_version'', JStr (normalization_profile_version e)),
     (''normalized_snapshot_hash'', JStr (normalized_snapshot_hash e)),
     (''normalized_snapshot_id'', JStr (normalized_snapshot_id e)),
     (''policy_bundle_hash'', JStr (policy_bundle_hash e)),
     (''policy_bundle_id'', JStr (policy_bundle_id e)),
     (''ranking_pipeline_hash'', JStr (ranking_pipeline_hash e)),
     (''source_revision_set'', JObj (map (\<lambda>(k, v). (k, JStr v)) (py_dict (source_revision_set e)))),
     (''workspace_id'', JStr (env_workspace_id e))]"

record ranking_pipeline =
  comparators :: "comparator list"

definition new_pipeline :: "comparator list \<Rightarrow> ranking_pipeline result" where
  "new_pipeline cs =
     (if cs = [] then Inl (ValueError ''ranking pipeline must not be empty'')
      else if \<not> distinct cs then Inl (ValueError ''ranking comparators must be unique'')
      else if last cs \<noteq> STABLE_ID then Inl (ValueError ''stable_id must be the final comparator'')
      else Inr \<lparr>comparators = cs\<rparr>)"

record frontier_item =
  item_id :: string
  program_id :: "string option"
  title :: string
  description :: "string option"
  work_type :: string
  labels :: "string list"
  lifecycle :: string
  completion :: string
  program_priority :: int
  item_work_class :: work_class
  downstream_unlock_count :: int
  age_seconds :: int
  hard_blockers_complete :: bool
  entry_gates_pass :: bool
  authority_safe :: bool
  field_authority :: "(string \<times> string) list"
  gate_states :: "(string \<times> string) list"
  incomplete_hard_blockers :: "string list"
  gate_dependencies :: "string list"
  active_attention_items :: "string list"

definition item_post_init :: "frontier_item \<Rightarrow> frontier_item result" where
  "item_post_init i =
     (if blank (item_id i) \<or> blank (title i) \<or> blank (work_type i)
      then Inl (ValueError ''item identity, title, and work_type are required'')
      else if program_priority i < 0
      then Inl (ValueError ''program_priority must be non-negative'')
      else if downstream_unlock_count i < 0 \<or> age_seconds i < 0
      then Inl (ValueError ''fan-out and age must be non-negative'')
      else Inr (i\<lparr>labels := sorted_set (labels i),
                  field_authority := sort (field_authority i),
                  gate_states := sort (gate_states i),
                  incomplete_hard_blockers := sorted_set (incomplete_hard_blockers i),
                  gate_dependencies := sorted_set (gate_dependencies i),
                  active_attention_items := sorted_set (active_attention_items i)\<rparr>))"

record frontier_snapshot =
  envelope :: engine_envelope
  items :: "frontier_item list"
  pipeline :: ranking_pipeline

definition new_snapshot ::
  "engine_envelope \<Rightarrow> frontier_item list \<Rightarrow> ranking_pipeline \<Rightarrow> frontier_snapshot result" where
  "new_snapshot env is p = (let ordered = sort_key item_id is in
     if \<not> distinct (map item_id ordered)
     then Inl (ValueError ''frontier item IDs must be unique'')
     else Inr \<lparr>envelope = env, items = ordered, pipeline = p\<rparr>)"

text \<open>Comparator inputs and sort keys: an \<open>int\<close> or a \<open>str\<close>, fixed by the comparator.\<close>

datatype rank_value = RInt int | RStr string

instantiation rank_value :: linorder
begin

fun less_eq_rank_value :: "rank_value \<Rightarrow> rank_value \<Rightarrow> bool" where
  "less_eq_rank_value (RInt i) (RInt j) = (i \<le> j)"
| "less_eq_rank_value (RStr s) (RStr t) = (s \<le> t)"
| "less_eq_rank_value (RInt i) (RStr s) = True"
| "less_eq_rank_value (RStr s) (RInt i) = False"

definition less_rank_value :: "rank_value \<Rightarrow> rank_value \<Rightarrow> bool" where
  "less_rank_value x y \<longleftrightarrow> x \<le> y \<and> \<not> y \<le> (x :: rank_value)"

instance
proof
  fix x y z :: rank_value
  show "x < y \<longleftrightarrow> x \<le> y \<and> \<not> y \<le> x" by (rule less_rank_value_def)
  show "x \<le> x" by (cases x) auto
  show "x \<le> y \<Longrightarrow> y \<le> z \<Longrightarrow> x \<le> z" by (cases x; cases y; cases z) auto
  show "x \<le> y \<Longrightarrow> y \<le> x \<Longrightarrow> x = y" by (cases x; cases y) auto
  show "x \<le> y \<or> y \<le> x" by (cases x; cases y) auto
qed

end

record comparator_trace =
  trace_comparator :: comparator
  input_value :: rank_value
  outcome :: string
  tie_break_position :: int
  detail :: string

fun rank_value_json :: "rank_value \<Rightarrow> json" where
  "rank_value_json (RInt i) = JInt i"
| "rank_value_json (RStr s) = JStr s"

fun rank_value_str :: "rank_value \<Rightarrow> string" where
  "rank_value_str (RInt i) = str_int i"
| "rank_value_str (RStr s) = s"

definition trace_canonical :: "comparator_trace \<Rightarrow> json" where
  "trace_canonical t = JObj [
     (''comparator'', JStr (comparator_value (trace_comparator t))),
     (''detail'', JStr (detail t)),
     (''input'', rank_value_json (input_value t)),
     (''outcome'', JStr (outcome t)),
     (''tie_break_position'', JInt (tie_break_position t))]"

record decision_record =
  decision_id :: string
  dr_envelope :: engine_envelope
  dr_item_id :: string
  dr_program_id :: "string option"
  dr_title :: string
  dr_description :: "string option"
  dr_work_type :: string
  dr_labels :: "string list"
  dr_lifecycle :: string
  dr_completion :: string
  ready :: bool
  ranking_position :: "int option"
  ranking_rationale :: "comparator_trace list"
  readiness_reasons :: "string list"
  gates :: "(string \<times> string) list"
  blocked_by :: "string list"
  dr_gate_dependencies :: "string list"
  blocks_count :: int
  dr_active_attention_items :: "string list"
  dr_field_authority :: "(string \<times> string) list"

definition opt_json :: "('a \<Rightarrow> json) \<Rightarrow> 'a option \<Rightarrow> json" where
  "opt_json f v = (case v of None \<Rightarrow> JNull | Some x \<Rightarrow> f x)"

abbreviation str_list_json :: "string list \<Rightarrow> json" where
  "str_list_json ss \<equiv> JList (map JStr ss)"

definition record_canonical :: "decision_record \<Rightarrow> json" where
  "record_canonical r = JObj (envelope_canonical (dr_envelope r) @ [
     (''active_attention_items'', str_list_json (dr_active_attention_items r)),
     (''blocked_by'', str_list_json (blocked_by r)),
     (''blocks_count'', JInt (blocks_count r)),
     (''completion'', JStr (dr_completion r)),
     (''decision_id'', JStr (decision_id r)),
     (''description'', opt_json JStr (dr_description r)),
     (''field_authority'', JObj (map (\<lambda>(k, v). (k, JStr v)) (py_dict (dr_field_authority r)))),
     (''gate_dependencies'', str_list_json (dr_gate_dependencies r)),
     (''gates'', JList (map (\<lambda>(g, s). JObj [(''gate_id'', JStr g), (''state'', JStr s)]) (gates r))),
     (''item_id'', JStr (dr_item_id r)),
     (''labels'', str_list_json (dr_labels r)),
     (''lifecycle'', JStr (dr_lifecycle r)),
     (''program_id'', opt_json JStr (dr_program_id r)),
     (''ranking_position'', opt_json JInt (ranking_position r)),
     (''ranking_rationale'', JList (map trace_canonical (ranking_rationale r))),
     (''readiness_reasons'', str_list_json (readiness_reasons r)),
     (''ready'', JBool (ready r)),
     (''title'', JStr (dr_title r)),
     (''work_type'', JStr (dr_work_type r))])"

record recommended_next =
  rn_item_id :: string
  rn_decision_id :: string
  rn_ranking_position :: int
  rn_rationale :: "comparator_trace list"

definition recommended_canonical :: "recommended_next \<Rightarrow> json" where
  "recommended_canonical r = JObj [
     (''decision_id'', JStr (rn_decision_id r)),
     (''item_id'', JStr (rn_item_id r)),
     (''ranking_position'', JInt (rn_ranking_position r)),
     (''rationale'', JList (map trace_canonical (rn_rationale r)))]"

record decision_record_set =
  records :: "decision_record list"
  recommended :: "recommended_next option"

definition ready_item_ids :: "decision_record_set \<Rightarrow> string list" where
  "ready_item_ids s = map dr_item_id (filter ready (records s))"

definition set_canonical_json :: "decision_record_set \<Rightarrow> string" where
  "set_canonical_json s = json_dumps False (JObj [
     (''recommended_next'', opt_json recommended_canonical (recommended s)),
     (''records'', JList (map record_canonical (records s)))])"

definition payload_hash :: "decision_record_set \<Rightarrow> string" where
  "payload_hash s = sha256_hex (set_canonical_json s)"

section \<open>The engine\<close>

definition readiness_reasons_of :: "frontier_item \<Rightarrow> string list" where
  "readiness_reasons_of i = (let
     reasons = (if lifecycle i \<notin> {''planned'', ''active''} then [''lifecycle_not_actionable''] else [])
       @ (if \<not> hard_blockers_complete i then [''incomplete_hard_blocker''] else [])
       @ (if \<not> entry_gates_pass i then [''entry_gate_blocked''] else [])
       @ (if \<not> authority_safe i then [''unsafe_authority''] else [])
   in if reasons = [] then [''ready''] else reasons)"

fun ranking_value :: "frontier_item \<Rightarrow> comparator \<Rightarrow> rank_value" where
  "ranking_value i PROGRAM_PRIORITY = RInt (- program_priority i)"
| "ranking_value i WORK_CLASS = RInt (work_class_order (item_work_class i))"
| "ranking_value i DOWNSTREAM_UNLOCK_COUNT_DESC = RInt (- downstream_unlock_count i)"
| "ranking_value i AGE_DESC = RInt (- age_seconds i)"
| "ranking_value i STABLE_ID = RStr (item_id i)"

definition ranking_key :: "ranking_pipeline \<Rightarrow> frontier_item \<Rightarrow> rank_value list" where
  "ranking_key p i = map (ranking_value i) (comparators p)"

fun trace_input :: "frontier_item \<Rightarrow> comparator \<Rightarrow> rank_value" where
  "trace_input i PROGRAM_PRIORITY = RInt (program_priority i)"
| "trace_input i WORK_CLASS = RStr (work_class_value (item_work_class i))"
| "trace_input i DOWNSTREAM_UNLOCK_COUNT_DESC = RInt (downstream_unlock_count i)"
| "trace_input i AGE_DESC = RInt (age_seconds i)"
| "trace_input i STABLE_ID = RStr (item_id i)"

definition comparator_trace_of :: "frontier_item \<Rightarrow> comparator \<Rightarrow> int \<Rightarrow> comparator_trace" where
  "comparator_trace_of i c position = (let value = trace_input i c in
     \<lparr>trace_comparator = c, input_value = value, outcome = ''selected'',
      tie_break_position = position,
      detail = comparator_value c @ ''='' @ rank_value_str value\<rparr>)"

definition deterministic_ulid :: "string \<Rightarrow> string" where
  "deterministic_ulid v = (let numeric = int_of_bytes (take 16 (sha256_digest (encode v))) in
     map (\<lambda>shift. crockford ! nat (drop_bit shift numeric AND 31)) shifts)"

definition identity_payload :: "engine_envelope \<Rightarrow> string \<Rightarrow> string" where
  "identity_payload env iid =
     json_dumps True (JObj (envelope_canonical env @ [(''item_id'', JStr iid)]))"

definition decision_record_of ::
  "engine_envelope \<Rightarrow> ranking_pipeline \<Rightarrow> frontier_item \<Rightarrow> string list \<Rightarrow> int option \<Rightarrow> decision_record" where
  "decision_record_of env p i reasons pos =
     \<lparr>decision_id = deterministic_ulid (identity_payload env (item_id i)),
      dr_envelope = env,
      dr_item_id = item_id i,
      dr_program_id = program_id i,
      dr_title = title i,
      dr_description = description i,
      dr_work_type = work_type i,
      dr_labels = labels i,
      dr_lifecycle = lifecycle i,
      dr_completion = completion i,
      ready = (reasons = [''ready'']),
      ranking_position = pos,
      ranking_rationale = map (\<lambda>(index, c). comparator_trace_of i c (int index))
        (enumerate 1 (comparators p)),
      readiness_reasons = reasons,
      gates = gate_states i,
      blocked_by = incomplete_hard_blockers i,
      dr_gate_dependencies = gate_dependencies i,
      blocks_count = downstream_unlock_count i,
      dr_active_attention_items = active_attention_items i,
      dr_field_authority = field_authority i\<rparr>"

definition solve_frontier :: "frontier_snapshot \<Rightarrow> decision_record_set" where
  "solve_frontier s = (let
     ready_items = filter (\<lambda>i. readiness_reasons_of i = [''ready'']) (items s);
     reasons_by_item = map_of (rev (map (\<lambda>i. (item_id i, readiness_reasons_of i)) (items s)));
     ranked = sort_key (ranking_key (pipeline s)) ready_items;
     positions = map_of (rev (map (\<lambda>(index, i). (item_id i, int index)) (enumerate 1 ranked)));
     record_items = ranked @ filter (\<lambda>i. positions (item_id i) = None) (items s);
     recs = map (\<lambda>i. decision_record_of (envelope s) (pipeline s) i
        (the (reasons_by_item (item_id i))) (positions (item_id i))) record_items;
     rec_next = (case recs of [] \<Rightarrow> None
       | first # _ \<Rightarrow> if ready first then Some \<lparr>rn_item_id = dr_item_id first,
           rn_decision_id = decision_id first, rn_ranking_position = 1,
           rn_rationale = ranking_rationale first\<rparr> else None)
   in \<lparr>records = recs, recommended = rec_next\<rparr>)"

section \<open>Well-formed snapshots\<close>

definition pipeline_wf :: "ranking_pipeline \<Rightarrow> bool" where
  "pipeline_wf p \<longleftrightarrow> comparators p \<noteq> [] \<and> distinct (comparators p) \<and> last (comparators p) = STABLE_ID"

definition snapshot_wf :: "frontier_snapshot \<Rightarrow> bool" where
  "snapshot_wf s \<longleftrightarrow> distinct (map item_id (items s)) \<and> pipeline_wf (pipeline s)"

lemma new_pipeline_wf: "new_pipeline cs = Inr p \<Longrightarrow> pipeline_wf p"
  by (auto simp: new_pipeline_def pipeline_wf_def split: if_splits)

lemma new_snapshot_wf: "new_snapshot env is p = Inr s \<Longrightarrow> pipeline_wf p \<Longrightarrow> snapshot_wf s"
  by (auto simp: new_snapshot_def snapshot_wf_def Let_def split: if_splits)

lemma distinct_map_sort_key [simp]: "distinct (map f (sort_key g xs)) = distinct (map f xs)"
  by (metis mset_eq_imp_distinct_iff mset_map mset_sort)

lemma new_snapshot_perm:
  assumes "mset is = mset js"
  shows "new_snapshot env is p = new_snapshot env js p"
proof -
  have d: "distinct (map item_id is) = distinct (map item_id js)"
    using assms by (metis mset_eq_imp_distinct_iff mset_map)
  show ?thesis
  proof (cases "distinct (map item_id is)")
    case True
    then have "sort_key item_id is = sort_key item_id js"
      by (intro sort_key_mset_cong assms) (simp add: distinct_map)
    then show ?thesis by (simp add: new_snapshot_def)
  next
    case False
    with d show ?thesis by (simp add: new_snapshot_def Let_def)
  qed
qed

lemma ranking_key_inj:
  assumes "pipeline_wf p" and "ranking_key p i = ranking_key p j"
  shows "item_id i = item_id j"
proof -
  have "STABLE_ID \<in> set (comparators p)"
    using assms(1) by (metis last_in_set pipeline_wf_def)
  with assms(2) have "ranking_value i STABLE_ID = ranking_value j STABLE_ID"
    by (auto simp: ranking_key_def)
  then show ?thesis by simp
qed

lemma items_inj: "snapshot_wf s \<Longrightarrow> inj_on item_id (set (items s))"
  by (simp add: snapshot_wf_def distinct_map)

lemma distinct_items: "snapshot_wf s \<Longrightarrow> distinct (items s)"
  by (simp add: snapshot_wf_def distinct_map)

definition is_ready :: "frontier_item \<Rightarrow> bool" where
  "is_ready i \<longleftrightarrow> lifecycle i \<in> {''planned'', ''active''} \<and> hard_blockers_complete i
     \<and> entry_gates_pass i \<and> authority_safe i"

lemma readiness_reasons_ready: "readiness_reasons_of i = [''ready''] \<longleftrightarrow> is_ready i"
  by (auto simp: readiness_reasons_of_def is_ready_def Let_def)

definition ranked_items :: "frontier_snapshot \<Rightarrow> frontier_item list" where
  "ranked_items s = sort_key (ranking_key (pipeline s)) (filter is_ready (items s))"

definition unready_items :: "frontier_snapshot \<Rightarrow> frontier_item list" where
  "unready_items s = filter (\<lambda>i. \<not> is_ready i) (items s)"

lemma set_ranked_items [simp]: "set (ranked_items s) = {i \<in> set (items s). is_ready i}"
  by (auto simp: ranked_items_def)

lemma ranked_items_sorted:
  assumes "snapshot_wf s"
  shows "sorted_wrt (<) (map (ranking_key (pipeline s)) (ranked_items s))"
  unfolding ranked_items_def
proof (rule strict_sorted_sort_key)
  show "distinct (filter is_ready (items s))" using assms by (simp add: distinct_items)
  show "inj_on (ranking_key (pipeline s)) (set (filter is_ready (items s)))"
  proof (rule inj_onI)
    fix i j assume ij: "i \<in> set (filter is_ready (items s))" "j \<in> set (filter is_ready (items s))"
      and eq: "ranking_key (pipeline s) i = ranking_key (pipeline s) j"
    have "pipeline_wf (pipeline s)" using assms by (simp add: snapshot_wf_def)
    from ranking_key_inj [OF this eq] show "i = j"
      using items_inj [OF assms] ij by (auto dest: inj_onD)
  qed
qed

lemma distinct_ranked_ids:
  assumes "snapshot_wf s"
  shows "distinct (map item_id (ranked_items s))"
  using items_inj [OF assms] distinct_items [OF assms]
  by (auto simp: distinct_map ranked_items_def intro: inj_on_subset)

text \<open>The dictionaries of the code are what they are meant to be.\<close>

lemma positions_lookup:
  assumes "snapshot_wf s" and "n < length (ranked_items s)"
  shows "map_of (rev (map (\<lambda>(index, i). (item_id i, int index)) (enumerate 1 (ranked_items s))))
    (item_id (ranked_items s ! n)) = Some (int n + 1)"
proof -
  let ?kvs = "map (\<lambda>(index, i). (item_id i, int index)) (enumerate 1 (ranked_items s))"
  have "map fst ?kvs = map item_id (ranked_items s)"
    by (rule nth_equalityI) (auto simp: nth_enumerate_eq)
  then have d: "distinct (map fst ?kvs)" using distinct_ranked_ids [OF assms(1)] by simp
  have "?kvs ! n = (item_id (ranked_items s ! n), int n + 1)"
    using assms(2) by (simp add: nth_enumerate_eq)
  then have "(item_id (ranked_items s ! n), int n + 1) \<in> set ?kvs"
    using assms(2) by (metis length_enumerate length_map nth_mem)
  with d show ?thesis by (simp add: map_of_rev_distinct map_of_is_SomeI)
qed

lemma positions_None:
  assumes "snapshot_wf s" and "i \<in> set (items s)"
  shows "map_of (rev (map (\<lambda>(index, i). (item_id i, int index)) (enumerate 1 (ranked_items s))))
    (item_id i) = None \<longleftrightarrow> \<not> is_ready i"
proof -
  let ?kvs = "map (\<lambda>(index, i). (item_id i, int index)) (enumerate 1 (ranked_items s))"
  have "map fst ?kvs = map item_id (ranked_items s)"
    by (rule nth_equalityI) (auto simp: nth_enumerate_eq)
  then have "fst ` set ?kvs = item_id ` set (ranked_items s)"
    by (metis set_map)
  then have "map_of (rev ?kvs) (item_id i) = None \<longleftrightarrow> item_id i \<notin> item_id ` set (ranked_items s)"
    by (simp add: map_of_eq_None_iff)
  also have "\<dots> \<longleftrightarrow> \<not> is_ready i"
    using items_inj [OF assms(1)] assms(2) by (auto simp: inj_on_def)
  finally show ?thesis .
qed

lemma reasons_lookup:
  assumes "snapshot_wf s" and "i \<in> set (items s)"
  shows "map_of (rev (map (\<lambda>i. (item_id i, readiness_reasons_of i)) (items s))) (item_id i)
    = Some (readiness_reasons_of i)"
proof -
  let ?kvs = "map (\<lambda>i. (item_id i, readiness_reasons_of i)) (items s)"
  have "distinct (map fst ?kvs)" using assms(1) by (simp add: snapshot_wf_def comp_def)
  with assms(2) show ?thesis by (simp add: map_of_rev_distinct map_of_is_SomeI)
qed

section \<open>What the engine returns\<close>

text \<open>The records: the ranked items with their positions, then the others in item order.\<close>

definition frontier_spec :: "frontier_snapshot \<Rightarrow> decision_record list" where
  "frontier_spec s =
     map (\<lambda>(n, i). decision_record_of (envelope s) (pipeline s) i [''ready''] (Some (int n)))
       (enumerate 1 (ranked_items s))
     @ map (\<lambda>i. decision_record_of (envelope s) (pipeline s) i (readiness_reasons_of i) None)
       (unready_items s)"

lemma solve_frontier_records:
  assumes "snapshot_wf s"
  shows "records (solve_frontier s) = frontier_spec s"
proof -
  define pos where "pos = map_of (rev (map (\<lambda>(index, i). (item_id i, int index))
    (enumerate 1 (ranked_items s))))"
  define rea where "rea = map_of (rev (map (\<lambda>i. (item_id i, readiness_reasons_of i)) (items s)))"
  define f where "f = (\<lambda>i. decision_record_of (envelope s) (pipeline s) i
    (the (rea (item_id i))) (pos (item_id i)))"
  have r: "rea (item_id i) = Some (readiness_reasons_of i)" if "i \<in> set (items s)" for i
    unfolding rea_def by (rule reasons_lookup [OF assms that])
  have none: "filter (\<lambda>i. pos (item_id i) = None) (items s) = unready_items s"
    using positions_None [OF assms] unfolding pos_def unready_items_def by (intro filter_cong) auto
  have none_pos: "pos (item_id i) = None" if "i \<in> set (items s)" "\<not> is_ready i" for i
    using positions_None [OF assms that(1)] that(2) unfolding pos_def by blast
  have "map f (unready_items s)
      = map (\<lambda>i. decision_record_of (envelope s) (pipeline s) i (readiness_reasons_of i) None)
          (unready_items s)"
    using r none_pos by (auto simp: f_def unready_items_def)
  moreover have "map f (ranked_items s) = map (\<lambda>(n, i). decision_record_of (envelope s) (pipeline s) i
      [''ready''] (Some (int n))) (enumerate 1 (ranked_items s))"
  proof (rule nth_equalityI)
    fix n assume n: "n < length (map f (ranked_items s))"
    let ?i = "ranked_items s ! n"
    have "?i \<in> set (ranked_items s)" using n nth_mem [of n "ranked_items s"] by (simp del: set_ranked_items)
    then have "?i \<in> set (items s)" "is_ready ?i" by simp_all
    then show "map f (ranked_items s) ! n = map (\<lambda>(n, i). decision_record_of (envelope s)
        (pipeline s) i [''ready''] (Some (int n))) (enumerate 1 (ranked_items s)) ! n"
      using n r positions_lookup [OF assms, of n]
      by (simp add: f_def pos_def nth_enumerate_eq readiness_reasons_ready [THEN iffD2] add.commute)
  qed simp
  moreover have "records (solve_frontier s) = map f (ranked_items s @ unready_items s)"
    unfolding none [symmetric]
    by (simp add: solve_frontier_def Let_def f_def pos_def rea_def ranked_items_def
        readiness_reasons_ready)
  ultimately show ?thesis by (simp add: frontier_spec_def)
qed

lemma recommended_solve_frontier:
  "recommended (solve_frontier s) = (case records (solve_frontier s) of [] \<Rightarrow> None
     | first # _ \<Rightarrow> if ready first then Some \<lparr>rn_item_id = dr_item_id first,
         rn_decision_id = decision_id first, rn_ranking_position = 1,
         rn_rationale = ranking_rationale first\<rparr> else None)"
  by (simp add: solve_frontier_def Let_def)

lemma decision_record_fields [simp]:
  "dr_item_id (decision_record_of env p i rs pos) = item_id i"
  "ready (decision_record_of env p i rs pos) = (rs = [''ready''])"
  "ranking_position (decision_record_of env p i rs pos) = pos"
  "readiness_reasons (decision_record_of env p i rs pos) = rs"
  "decision_id (decision_record_of env p i rs pos) = deterministic_ulid (identity_payload env (item_id i))"
  by (simp_all add: decision_record_of_def)

lemma deterministic_ulid_pattern: "ulid_pattern (deterministic_ulid v)"
proof -
  define n where "n = int_of_bytes (take 16 (sha256_digest (encode v)))"
  have "0 \<le> n" "n < 2 ^ 128"
    using int_of_bytes_bound [of "take 16 (sha256_digest (encode v))"] by (simp_all add: n_def)
  then have "ulid_pattern (encode_ulid n)" by (rule ulid_pattern_encode)
  then show ?thesis by (simp add: deterministic_ulid_def encode_ulid_def n_def)
qed

text \<open>Two texts with the same leading 128 bits of SHA-256.\<close>

definition digest_collision :: "string \<Rightarrow> string \<Rightarrow> bool" where
  "digest_collision v w \<longleftrightarrow> v \<noteq> w
     \<and> take 16 (sha256_digest (encode v)) = take 16 (sha256_digest (encode w))"

lemma deterministic_ulid_eq:
  assumes "deterministic_ulid v = deterministic_ulid w"
  shows "v = w \<or> digest_collision v w"
proof -
  define m n where "m = int_of_bytes (take 16 (sha256_digest (encode v)))"
    and "n = int_of_bytes (take 16 (sha256_digest (encode w)))"
  have b: "0 \<le> m" "m < 2 ^ 128" "0 \<le> n" "n < 2 ^ 128"
    using int_of_bytes_bound [of "take 16 (sha256_digest (encode v))"]
      int_of_bytes_bound [of "take 16 (sha256_digest (encode w))"]
    by (simp_all add: m_def n_def)
  have "encode_ulid m = encode_ulid n"
    using assms by (simp add: deterministic_ulid_def encode_ulid_def m_def n_def)
  then have "m = n"
    using encode_ulid_less [of m n] encode_ulid_less [of n m] b by (metis less_irrefl linorder_neqE)
  then have "take 16 (sha256_digest (encode v)) = take 16 (sha256_digest (encode w))"
    unfolding m_def n_def by (rule int_of_bytes_inject [rotated]) simp
  then show ?thesis by (auto simp: digest_collision_def)
qed

lemma envelope_canonical_wf: "json_wf (JObj (envelope_canonical e @ [(''item_id'', JStr i)]))"
  by (auto simp: envelope_canonical_def)

lemma envelope_canonical_keys: "distinct (map fst (envelope_canonical e @ [(''item_id'', JStr i)]))"
  by (simp add: envelope_canonical_def)

lemma identity_payload_lookup:
  assumes "identity_payload e i = identity_payload e' i'"
  shows "map_option sort_keys (map_of (envelope_canonical e @ [(''item_id'', JStr i)]) k)
    = map_option sort_keys (map_of (envelope_canonical e' @ [(''item_id'', JStr i')]) k)"
  using assms unfolding identity_payload_def
  by (rule json_dumps_obj_eq [OF envelope_canonical_wf envelope_canonical_wf
        envelope_canonical_keys envelope_canonical_keys])

lemma identity_payload_inject:
  assumes "identity_payload e i = identity_payload e' i'"
  shows "i = i'" and "env_workspace_id e = env_workspace_id e'"
    and "normalized_snapshot_hash e = normalized_snapshot_hash e'"
    and "graph_revision e = graph_revision e'"
    and "policy_bundle_hash e = policy_bundle_hash e'"
  using identity_payload_lookup [OF assms, of "''item_id''"]
    identity_payload_lookup [OF assms, of "''workspace_id''"]
    identity_payload_lookup [OF assms, of "''normalized_snapshot_hash''"]
    identity_payload_lookup [OF assms, of "''graph_revision''"]
    identity_payload_lookup [OF assms, of "''policy_bundle_hash''"]
  by (simp_all add: envelope_canonical_def)

section \<open>Properties\<close>

lemma ready_spec:
  "filter ready (frontier_spec s)
     = map (\<lambda>(n, i). decision_record_of (envelope s) (pipeline s) i [''ready''] (Some (int n)))
         (enumerate 1 (ranked_items s))"
  "filter (\<lambda>r. \<not> ready r) (frontier_spec s)
     = map (\<lambda>i. decision_record_of (envelope s) (pipeline s) i (readiness_reasons_of i) None)
         (unready_items s)"
  by (auto simp: frontier_spec_def filter_empty_conv filter_id_conv unready_items_def
      readiness_reasons_ready)

lemma new_snapshot_items:
  assumes "new_snapshot env is p = Inr s"
  shows "mset (items s) = mset is" and "pipeline s = p" and "envelope s = env"
  using assms by (auto simp: new_snapshot_def Let_def split: if_splits)

lemma ranked_items_of_input:
  assumes "new_snapshot env is p = Inr s" and "pipeline_wf p"
  shows "ranked_items s = sort_key (ranking_key p) (filter is_ready is)"
proof -
  have wf: "snapshot_wf s" using assms by (rule new_snapshot_wf)
  have m: "mset (filter is_ready (items s)) = mset (filter is_ready is)"
    using new_snapshot_items(1) [OF assms(1)] by simp
  have "inj_on (ranking_key p) (set (filter is_ready (items s)))"
    using items_inj [OF wf] by (auto intro!: inj_onI dest: ranking_key_inj [OF assms(2)] inj_onD)
  from sort_key_mset_cong [OF m this] show ?thesis
    by (simp add: ranked_items_def new_snapshot_items(2) [OF assms(1)])
qed

lemma set_enumerate_snd: "map snd (enumerate n xs) = xs"
  by simp

text \<open>
  C1: the engine decides every item of the cycle exactly once. Ready items come first, numbered
  from 1 in the order of the ranking pipeline; the others follow without a position.
\<close>

theorem solve_frontier_decides_every_item:
  assumes "new_pipeline cs = Inr p" and "new_snapshot env is p = Inr s"
  shows "mset (map dr_item_id (records (solve_frontier s))) = mset (map item_id is)
    \<and> records (solve_frontier s) = filter ready (records (solve_frontier s))
        @ filter (\<lambda>r. \<not> ready r) (records (solve_frontier s))
    \<and> map (\<lambda>r. (dr_item_id r, ranking_position r)) (filter ready (records (solve_frontier s)))
        = map (\<lambda>(n, i). (item_id i, Some (int n)))
            (enumerate 1 (sort_key (ranking_key p) (filter is_ready is)))
    \<and> (\<forall>r \<in> set (records (solve_frontier s)). \<not> ready r \<longrightarrow> ranking_position r = None)"
proof -
  have p: "pipeline_wf p" using assms(1) by (rule new_pipeline_wf)
  have recs: "records (solve_frontier s) = frontier_spec s"
    using new_snapshot_wf [OF assms(2) p] by (rule solve_frontier_records)
  have rk: "ranked_items s = sort_key (ranking_key p) (filter is_ready is)"
    by (rule ranked_items_of_input [OF assms(2) p])
  have "map dr_item_id (frontier_spec s) = map item_id (ranked_items s @ unready_items s)"
    by (rule nth_equalityI) (auto simp: frontier_spec_def nth_append nth_enumerate_eq)
  moreover have "mset (ranked_items s @ unready_items s) = mset is"
    unfolding rk unready_items_def
    using new_snapshot_items(1) [OF assms(2)] multiset_partition [of "mset is" is_ready]
    by (simp add: mset_filter)
  ultimately have "mset (map dr_item_id (frontier_spec s)) = mset (map item_id is)"
    by (simp only: mset_map)
  then show ?thesis
    unfolding recs ready_spec
    by (auto simp: frontier_spec_def rk comp_def case_prod_beta intro!: map_cong)
qed

text \<open>
  The recommended item is the least ready item under the ranking pipeline, strictly before
  every other ready item; there is no recommendation exactly when nothing is ready.
\<close>

theorem recommended_next_is_least:
  assumes "new_pipeline cs = Inr p" and "new_snapshot env is p = Inr s"
  shows "case recommended (solve_frontier s) of
      None \<Rightarrow> \<not> (\<exists>i \<in> set is. is_ready i)
    | Some rn \<Rightarrow> \<exists>i \<in> set is. item_id i = rn_item_id rn \<and> is_ready i
        \<and> (\<forall>j \<in> set is. is_ready j \<and> j \<noteq> i \<longrightarrow> ranking_key p i < ranking_key p j)"
proof -
  have p: "pipeline_wf p" using assms(1) by (rule new_pipeline_wf)
  have wf: "snapshot_wf s" by (rule new_snapshot_wf [OF assms(2) p])
  have recs: "records (solve_frontier s) = frontier_spec s"
    using wf by (rule solve_frontier_records)
  have set_is: "set (items s) = set is"
    using new_snapshot_items(1) [OF assms(2)] by (rule mset_eq_setD)
  have in_unready: "\<not> is_ready z" if "unready_items s = z # zs" for z zs
  proof -
    have "z \<in> set (unready_items s)" using that by simp
    then show ?thesis by (simp add: unready_items_def)
  qed
  show ?thesis
  proof (cases "ranked_items s")
    case Nil
    then have "{i \<in> set is. is_ready i} = {}"
      using set_ranked_items [of s] set_is by simp
    moreover have "recommended (solve_frontier s) = None"
      unfolding recommended_solve_frontier recs frontier_spec_def Nil
      using in_unready by (auto simp: readiness_reasons_ready split: list.splits)
    ultimately show ?thesis by auto
  next
    case (Cons i rest)
    have i: "i \<in> set is" "is_ready i" using set_ranked_items [of s] Cons set_is by auto
    have "sorted_wrt (<) (map (ranking_key p) (i # rest))"
      using ranked_items_sorted [OF wf] Cons new_snapshot_items(2) [OF assms(2)] by simp
    then have "ranking_key p i < ranking_key p j" if "j \<in> set is" "is_ready j" "j \<noteq> i" for j
      using that set_ranked_items [of s] set_is Cons by auto
    then show ?thesis
      using i unfolding recommended_solve_frontier recs frontier_spec_def Cons by auto
  qed
qed

text \<open>The engine does not look at the order of the items of a snapshot.\<close>

lemma ready_records:
  assumes "snapshot_wf s"
  shows "filter ready (records (solve_frontier s))
    = map (\<lambda>(n, i). decision_record_of (envelope s) (pipeline s) i [''ready''] (Some (int n)))
        (enumerate 1 (ranked_items s))"
  using assms by (simp add: solve_frontier_records ready_spec)

lemma recommended_from_ready:
  assumes "snapshot_wf s"
  shows "recommended (solve_frontier s) = (case filter ready (records (solve_frontier s)) of [] \<Rightarrow> None
     | first # _ \<Rightarrow> Some \<lparr>rn_item_id = dr_item_id first, rn_decision_id = decision_id first,
         rn_ranking_position = 1, rn_rationale = ranking_rationale first\<rparr>)"
proof (cases "ranked_items s")
  case Nil
  have "filter ready (frontier_spec s) = []" by (simp add: ready_spec(1) Nil)
  then show ?thesis
    unfolding recommended_solve_frontier solve_frontier_records [OF assms]
    by (auto simp: filter_empty_conv split: list.split)
next
  case (Cons i rest)
  then show ?thesis
    unfolding recommended_solve_frontier solve_frontier_records [OF assms]
    by (simp add: frontier_spec_def)
qed

lemma snapshot_wf_perm:
  assumes "snapshot_wf s" and "mset ks = mset (items s)"
  shows "snapshot_wf (s\<lparr>items := ks\<rparr>)"
  using assms mset_eq_imp_distinct_iff [of "map item_id ks" "map item_id (items s)"]
  by (simp add: snapshot_wf_def)

lemma ranked_items_perm:
  assumes "snapshot_wf s" and "mset ks = mset (items s)"
  shows "ranked_items (s\<lparr>items := ks\<rparr>) = ranked_items s"
proof -
  have p: "pipeline_wf (pipeline s)" using assms(1) by (simp add: snapshot_wf_def)
  have "inj_on (ranking_key (pipeline s)) (set (filter is_ready ks))"
    using items_inj [OF assms(1)] mset_eq_setD [OF assms(2)]
    by (auto intro!: inj_onI dest: ranking_key_inj [OF p] inj_onD)
  moreover have "mset (filter is_ready ks) = mset (filter is_ready (items s))"
    using assms(2) by simp
  ultimately show ?thesis unfolding ranked_items_def by (simp add: sort_key_mset_cong)
qed

lemma solve_frontier_perm:
  assumes "snapshot_wf s" and "mset ks = mset (items s)"
  shows "filter ready (records (solve_frontier (s\<lparr>items := ks\<rparr>)))
      = filter ready (records (solve_frontier s))"
    and "recommended (solve_frontier (s\<lparr>items := ks\<rparr>)) = recommended (solve_frontier s)"
    and "mset (records (solve_frontier (s\<lparr>items := ks\<rparr>))) = mset (records (solve_frontier s))"
proof -
  let ?s = "s\<lparr>items := ks\<rparr>"
  have wf: "snapshot_wf ?s" using assms by (rule snapshot_wf_perm)
  show r: "filter ready (records (solve_frontier ?s)) = filter ready (records (solve_frontier s))"
    by (simp add: ready_records [OF wf] ready_records [OF assms(1)] ranked_items_perm [OF assms])
  show "recommended (solve_frontier ?s) = recommended (solve_frontier s)"
    by (simp only: recommended_from_ready [OF wf] recommended_from_ready [OF assms(1)] r)
  have "mset (unready_items ?s) = mset (unready_items s)"
    using assms(2) by (simp add: unready_items_def)
  then show "mset (records (solve_frontier ?s)) = mset (records (solve_frontier s))"
    by (simp add: solve_frontier_records [OF wf] solve_frontier_records [OF assms(1)]
        frontier_spec_def ranked_items_perm [OF assms])
qed

text \<open>
  C2: the cycle does not depend on the order in which the inputs arrive, for two reasons. The
  constructor sorts: two permutations of the same raw inputs give the same snapshot (or the same
  error), so the same records and payload hash. And the engine itself ranks by a total order, so it
  does not rely on that sorting: on the items of a snapshot in any order it gives the same ready
  records at the same positions, the same recommendation, and the same records altogether up to the
  order of those that are not ready.
\<close>

theorem solve_frontier_order_independent:
  assumes "map_result item_post_init raws = Inr is" and "map_result item_post_init raws' = Inr js"
    and "mset raws = mset raws'" and "new_pipeline cs = Inr p"
  shows "new_snapshot env is p = new_snapshot env js p
    \<and> (\<forall>s ks. new_snapshot env is p = Inr s \<and> mset ks = mset (items s) \<longrightarrow>
        filter ready (records (solve_frontier (s\<lparr>items := ks\<rparr>))) = filter ready (records (solve_frontier s))
        \<and> recommended (solve_frontier (s\<lparr>items := ks\<rparr>)) = recommended (solve_frontier s)
        \<and> mset (records (solve_frontier (s\<lparr>items := ks\<rparr>))) = mset (records (solve_frontier s)))"
proof -
  define g where "g i = (case item_post_init i of Inr j \<Rightarrow> j | Inl _ \<Rightarrow> i)" for i
  have g: "xs = map g rs" if "map_result item_post_init rs = Inr xs" for rs xs
    using that unfolding map_result_Inr
    by (induction rule: list_all2_induct) (auto simp: g_def)
  have "mset is = mset js" using g [OF assms(1)] g [OF assms(2)] assms(3) by simp
  moreover have "snapshot_wf s" if "new_snapshot env is p = Inr s" for s
    using that new_pipeline_wf [OF assms(4)] by (rule new_snapshot_wf)
  ultimately show ?thesis using new_snapshot_perm [of "is" js env p] solve_frontier_perm by blast
qed

text \<open>
  C3: a decision identity is always a canonical ULID, and it identifies its cycle: equal identities
  mean the same item, workspace, snapshot hash, graph revision and policy hash, unless two distinct
  identity payloads share the leading 128 bits of their SHA-256 digests.
\<close>

theorem decision_id_identifies_cycle:
  assumes "r \<in> set (records (solve_frontier s))" and "r' \<in> set (records (solve_frontier s'))"
    and "snapshot_wf s" and "snapshot_wf s'" and "decision_id r = decision_id r'"
  shows "ulid_pattern (decision_id r)
    \<and> (dr_item_id r = dr_item_id r' \<and> env_workspace_id (envelope s) = env_workspace_id (envelope s')
        \<and> normalized_snapshot_hash (envelope s) = normalized_snapshot_hash (envelope s')
        \<and> graph_revision (envelope s) = graph_revision (envelope s')
        \<and> policy_bundle_hash (envelope s) = policy_bundle_hash (envelope s')
      \<or> digest_collision (identity_payload (envelope s) (dr_item_id r))
          (identity_payload (envelope s') (dr_item_id r')))"
proof -
  have d: "decision_id x = deterministic_ulid (identity_payload (envelope t) (dr_item_id x))"
    if "x \<in> set (records (solve_frontier t))" "snapshot_wf t" for x t
    using that by (auto simp: solve_frontier_records frontier_spec_def)
  have "deterministic_ulid (identity_payload (envelope s) (dr_item_id r))
      = deterministic_ulid (identity_payload (envelope s') (dr_item_id r'))"
    using assms d by metis
  from deterministic_ulid_eq [OF this] show ?thesis
    using d [OF assms(1,3)] deterministic_ulid_pattern identity_payload_inject by metis
qed

section \<open>A concrete cycle\<close>

definition demo_envelope :: engine_envelope where
  "demo_envelope = \<lparr>env_workspace_id = ''w'', normalized_snapshot_id = ''s'',
     normalized_snapshot_hash = replicate 64 (CHR ''0''), source_revision_set = [(''src'', ''r1'')],
     graph_revision = ''g'', policy_bundle_id = ''p'', policy_bundle_hash = replicate 64 (CHR ''1''),
     ranking_pipeline_hash = replicate 64 (CHR ''2''), engine_version = ''1'',
     normalization_profile_version = ''1'', computed_at = Datetime 0 (Some 0),
     causation_id = ''c'', correlation_id = ''k''\<rparr>"

definition demo_item :: "string \<Rightarrow> int \<Rightarrow> bool \<Rightarrow> frontier_item" where
  "demo_item iid prio ok = \<lparr>item_id = iid, program_id = None, title = ''t'', description = None,
     work_type = ''issue'', labels = [], lifecycle = ''planned'', completion = ''open'',
     program_priority = prio, item_work_class = IMPLEMENTATION, downstream_unlock_count = 0,
     age_seconds = 0, hard_blockers_complete = ok, entry_gates_pass = True, authority_safe = True,
     field_authority = [], gate_states = [], incomplete_hard_blockers = [], gate_dependencies = [],
     active_attention_items = []\<rparr>"

definition demo_pipeline :: ranking_pipeline where
  "demo_pipeline = \<lparr>comparators = [PROGRAM_PRIORITY, STABLE_ID]\<rparr>"

definition demo_inputs :: "frontier_item list" where
  "demo_inputs = [demo_item ''b'' 5 True, demo_item ''a'' 2 True, demo_item ''c'' 9 False]"

definition demo_snapshot :: frontier_snapshot where
  "demo_snapshot = \<lparr>envelope = demo_envelope,
     items = [demo_item ''a'' 2 True, demo_item ''b'' 5 True, demo_item ''c'' 9 False],
     pipeline = demo_pipeline\<rparr>"

lemma demo_pipeline: "new_pipeline [PROGRAM_PRIORITY, STABLE_ID] = Inr demo_pipeline"
  by (simp add: new_pipeline_def demo_pipeline_def)

lemma demo_snapshot: "new_snapshot demo_envelope demo_inputs demo_pipeline = Inr demo_snapshot"
  by (simp add: new_snapshot_def demo_inputs_def demo_snapshot_def demo_item_def less_char_def
      less_eq_char_def)

lemma demo_snapshot_wf: "snapshot_wf demo_snapshot"
  using new_snapshot_wf [OF demo_snapshot new_pipeline_wf [OF demo_pipeline]] .

lemma demo_ready: "filter is_ready demo_inputs = [demo_item ''b'' 5 True, demo_item ''a'' 2 True]"
  by (simp add: demo_inputs_def is_ready_def demo_item_def)

lemma demo_ranked: "sort_key (ranking_key demo_pipeline) (filter is_ready demo_inputs)
  = [demo_item ''b'' 5 True, demo_item ''a'' 2 True]"
  by (simp add: demo_ready ranking_key_def demo_pipeline_def demo_item_def less_rank_value_def)

theorem solve_frontier_decides_every_item_witness:
  "new_snapshot demo_envelope demo_inputs demo_pipeline = Inr demo_snapshot
    \<and> map (\<lambda>r. (dr_item_id r, ranking_position r)) (filter ready (records (solve_frontier demo_snapshot)))
      = [(''b'', Some 1), (''a'', Some 2)]"
  using solve_frontier_decides_every_item [OF demo_pipeline demo_snapshot] demo_snapshot
  unfolding demo_ranked by (simp add: demo_item_def)

theorem recommended_next_is_least_witness:
  "new_snapshot demo_envelope demo_inputs demo_pipeline = Inr demo_snapshot
    \<and> recommended (solve_frontier demo_snapshot) \<noteq> None"
  using recommended_next_is_least [OF demo_pipeline demo_snapshot] demo_snapshot demo_ready
  by (auto simp: filter_eq_Cons_iff demo_inputs_def is_ready_def demo_item_def split: option.splits)

lemma demo_post_init_all:
  "map_result item_post_init demo_inputs = Inr demo_inputs"
  "map_result item_post_init (items demo_snapshot) = Inr (items demo_snapshot)"
  by (simp_all add: demo_inputs_def demo_snapshot_def item_post_init_def demo_item_def blank_iff
      is_space_def sorted_set_def Let_def)

theorem solve_frontier_order_independent_witness:
  "new_snapshot demo_envelope (items demo_snapshot) demo_pipeline = Inr demo_snapshot
    \<and> recommended (solve_frontier (demo_snapshot\<lparr>items := demo_inputs\<rparr>))
      = recommended (solve_frontier demo_snapshot)"
proof -
  have m: "mset demo_inputs = mset (items demo_snapshot)"
    by (simp add: demo_inputs_def demo_snapshot_def)
  show ?thesis
    using solve_frontier_order_independent [OF demo_post_init_all m demo_pipeline, of demo_envelope]
      demo_snapshot m by metis
qed

theorem decision_id_identifies_cycle_witness:
  "let r = hd (records (solve_frontier demo_snapshot)) in
    r \<in> set (records (solve_frontier demo_snapshot)) \<and> snapshot_wf demo_snapshot
    \<and> ulid_pattern (decision_id r)"
proof -
  let ?r = "hd (records (solve_frontier demo_snapshot))"
  have "length (frontier_spec demo_snapshot) \<noteq> 0"
    using ranked_items_of_input [OF demo_snapshot new_pipeline_wf [OF demo_pipeline]] demo_ranked
    by (simp add: frontier_spec_def)
  then have r: "?r \<in> set (records (solve_frontier demo_snapshot))"
    by (simp add: solve_frontier_records [OF demo_snapshot_wf])
  from decision_id_identifies_cycle [OF r r demo_snapshot_wf demo_snapshot_wf refl] r
  show ?thesis by (simp add: demo_snapshot_wf Let_def)
qed

end
