(* ===== verification/Authority.thy ===== *)
theory Authority
  imports Errors Py_Json
begin

text \<open>
  \<open>domain/authority.py\<close>: precedence, freshness and conflict of the observations of one field.
  \<open>reconcile_authority\<close> sorts the observations by precedence, takes the first and grades it. The
  lemmas show that the selected observation has the highest source level, that a conflict is
  reported exactly when two observed values differ, and what the grade depends on.
\<close>

section \<open>Data\<close>

datatype authority_value =
  VStr string | VInt int | VFloat string | VBool bool | VNone | VTuple "string list"

text \<open>\<open>SourceLevel\<close> is an \<open>IntEnum\<close>; \<open>level_int\<close> is \<open>int(level)\<close>.\<close>

datatype source_level =
    INFERENCE | PARSED_MARKDOWN | STRUCTURED_METADATA | NATIVE_TRACKER | CONFIGURED_POLICY
  | HUMAN_OVERRIDE

fun level_int :: "source_level \<Rightarrow> int" where
  "level_int INFERENCE = 1"
| "level_int PARSED_MARKDOWN = 2"
| "level_int STRUCTURED_METADATA = 3"
| "level_int NATIVE_TRACKER = 4"
| "level_int CONFIGURED_POLICY = 5"
| "level_int HUMAN_OVERRIDE = 6"

lemma level_int_inject [simp]: "level_int a = level_int b \<longleftrightarrow> a = b"
  by (cases a; cases b) simp_all

definition all_levels :: "source_level list" where
  "all_levels = [INFERENCE, PARSED_MARKDOWN, STRUCTURED_METADATA, NATIVE_TRACKER,
     CONFIGURED_POLICY, HUMAN_OVERRIDE]"

datatype authority_status = AUTHORITATIVE | PROVISIONAL | STALE | CONFLICTED | UNAVAILABLE

datatype conflict_resolution = PENDING | AUTO_RESOLVED | WAIVED

datatype attention_severity = INFO | WARNING | CRITICAL

record source_revision =
  rev_source_id :: string
  revision :: string

definition new_source_revision :: "source_revision \<Rightarrow> source_revision result" where
  "new_source_revision r =
     (if blank (rev_source_id r) \<or> blank (revision r)
      then Inl (DomainInvariantError INVALID_PROVENANCE ''source_revision''
        ''source_id and revision are required'')
      else Inr r)"

record source_observation =
  obs_field :: string
  obs_value :: authority_value
  obs_level :: source_level
  obs_source_id :: string
  observed_at :: datetime
  obs_authority :: authority_status
  obs_revision :: source_revision
  obs_expires_at :: "datetime option"

definition require_aware :: "datetime \<Rightarrow> string \<Rightarrow> unit result" where
  "require_aware d f =
     (if \<not> aware d then Inl (DomainInvariantError INVALID_TIMESTAMP f
        ''timezone-aware datetime required'')
      else Inr ())"

lemma require_aware_Inr [result_simps]: "require_aware d f = Inr u \<longleftrightarrow> aware d"
  by (simp add: require_aware_def)

definition new_observation :: "source_observation \<Rightarrow> source_observation result" where
  "new_observation o1 =
     bind_result (require_aware (observed_at o1) ''observed_at'') (\<lambda>_.
     bind_result (case obs_expires_at o1 of None \<Rightarrow> Inr () | Some e \<Rightarrow> require_aware e ''expires_at'') (\<lambda>_.
     if blank (obs_field o1) \<or> blank (obs_source_id o1)
     then Inl (DomainInvariantError INVALID_PROVENANCE ''field'' ''field and source_id are required'')
     else if rev_source_id (obs_revision o1) \<noteq> obs_source_id o1
     then Inl (DomainInvariantError INVALID_PROVENANCE ''revision.source_id''
       ''must match observation source_id'')
     else if obs_level o1 = HUMAN_OVERRIDE \<and> obs_expires_at o1 = None
     then Inl (DomainInvariantError INVALID_PROVENANCE ''expires_at''
       ''human overrides must be time-bounded'')
     else if obs_level o1 = INFERENCE \<and> obs_authority o1 = AUTHORITATIVE
     then Inl (DomainInvariantError AUTHORITATIVE_INFERENCE ''authority''
       ''inference cannot claim authoritative status'')
     else Inr o1))"

record freshness_rule =
  rule_level :: source_level
  max_age :: timedelta

definition new_freshness_rule :: "freshness_rule \<Rightarrow> freshness_rule result" where
  "new_freshness_rule r =
     (if max_age r \<le> 0 then Inl (DomainInvariantError INVALID_FRESHNESS_POLICY ''max_age'' ''must be positive'')
      else Inr r)"

type_synonym freshness_policy = "freshness_rule list"

definition new_freshness_policy :: "freshness_rule list \<Rightarrow> freshness_policy result" where
  "new_freshness_policy rules = (let levels = map rule_level rules in
     if length levels \<noteq> length (remdups levels) \<or> set levels \<noteq> set all_levels
     then Inl (DomainInvariantError INVALID_FRESHNESS_POLICY ''rules''
       ''exactly one rule is required for every source level'')
     else Inr rules)"

fun max_age_for :: "freshness_policy \<Rightarrow> source_level \<Rightarrow> timedelta result" where
  "max_age_for [] l = Inl (AssertionError ''FreshnessPolicy invariant was bypassed'')"
| "max_age_for (r # rs) l = (if rule_level r = l then Inr (max_age r) else max_age_for rs l)"

record conflict_value =
  cv_value :: authority_value
  cv_level :: source_level
  cv_source_id :: string
  cv_revision :: source_revision

record conflict_detail =
  cd_field :: string
  cd_values :: "conflict_value list"
  cd_resolution :: conflict_resolution
  cd_resolved_by :: "string option"
  cd_resolved_at :: "datetime option"

record attention_basis =
  category :: string
  severity :: attention_severity
  ab_field :: string
  deterministic_basis :: string

record authority_resolution =
  res_field :: string
  res_value :: authority_value
  res_status :: authority_status
  selected :: "source_observation option"
  provenance :: "source_observation list"
  conflict :: "conflict_detail option"
  source_revisions :: "source_revision list"
  attention :: "attention_basis list"
  blocks_readiness :: bool

section \<open>Reconciliation\<close>

fun value_json :: "authority_value \<Rightarrow> json" where
  "value_json (VStr s) = JStr s"
| "value_json (VInt i) = JInt i"
| "value_json (VFloat r) = JFloat r"
| "value_json (VBool b) = JBool b"
| "value_json VNone = JNull"
| "value_json (VTuple ss) = JList (map JStr ss)"

definition canonical_value :: "authority_value \<Rightarrow> string" where
  "canonical_value v = json_dumps False (value_json v)"

definition observation_sort_key ::
  "source_observation \<Rightarrow> int \<times> string \<times> string \<times> string \<times> string" where
  "observation_sort_key o1 = (- level_int (obs_level o1), obs_source_id o1,
     revision (obs_revision o1), isoformat (observed_at o1), canonical_value (obs_value o1))"

definition is_stale ::
  "source_observation \<Rightarrow> datetime \<Rightarrow> freshness_policy \<Rightarrow> (string \<rightharpoonup> string) \<Rightarrow> bool result" where
  "is_stale o1 now freshness current_by_source =
     bind_result (max_age_for freshness (obs_level o1)) (\<lambda>age.
     if dt_diff now (observed_at o1) > age then Inr True
     else if (case obs_expires_at o1 of None \<Rightarrow> False | Some e \<Rightarrow> dt_le e now) then Inr True
     else Inr (case current_by_source (obs_source_id o1) of None \<Rightarrow> False
       | Some current \<Rightarrow> current \<noteq> revision (obs_revision o1)))"

definition unavailable :: "string \<Rightarrow> bool \<Rightarrow> authority_resolution" where
  "unavailable f safety_critical =
     \<lparr>res_field = f, res_value = VNone, res_status = UNAVAILABLE, selected = None, provenance = [],
      conflict = None, source_revisions = [],
      attention = [\<lparr>category = ''authority_downgraded'', severity = WARNING, ab_field = f,
        deterministic_basis = ''no_source_observations''\<rparr>],
      blocks_readiness = safety_critical\<rparr>"

definition conflict_of :: "string \<Rightarrow> source_observation list \<Rightarrow> conflict_detail" where
  "conflict_of f ordered =
     \<lparr>cd_field = f,
      cd_values = map (\<lambda>o1. \<lparr>cv_value = obs_value o1, cv_level = obs_level o1,
        cv_source_id = obs_source_id o1, cv_revision = obs_revision o1\<rparr>) ordered,
      cd_resolution = PENDING, cd_resolved_by = None, cd_resolved_at = None\<rparr>"

definition revision_key :: "source_revision \<Rightarrow> string \<times> string" where
  "revision_key r = (rev_source_id r, revision r)"

definition downgraded :: "string \<Rightarrow> string \<Rightarrow> attention_basis" where
  "downgraded f basis = \<lparr>category = ''authority_downgraded'', severity = WARNING, ab_field = f,
     deterministic_basis = basis\<rparr>"

definition stale_basis :: "source_observation \<Rightarrow> string" where
  "stale_basis o1 = ''source_stale(source_id='' @ obs_source_id o1 @ '',revision=''
     @ revision (obs_revision o1) @ '')''"

definition reconcile_authority ::
  "string \<Rightarrow> source_observation list \<Rightarrow> datetime \<Rightarrow> freshness_policy \<Rightarrow> source_revision list \<Rightarrow> bool
    \<Rightarrow> authority_resolution result" where
  "reconcile_authority f observations now freshness current_revisions safety_critical =
     bind_result (require_aware now ''now'') (\<lambda>_.
     if \<exists>o1 \<in> set observations. obs_field o1 \<noteq> f
     then Inl (DomainInvariantError INVALID_PROVENANCE ''field''
       ''all observations must describe the requested field'')
     else if observations = [] then Inr (unavailable f safety_critical)
     else let
       current_by_source = map_of (rev (map (\<lambda>r. (rev_source_id r, revision r)) current_revisions));
       ordered = sort_key observation_sort_key observations;
       sel = hd ordered
     in bind_result (is_stale sel now freshness current_by_source) (\<lambda>stale. let
       distinct_values = remdups (map (canonical_value \<circ> obs_value) ordered);
       (con, status, att) =
         (if length distinct_values > 1
          then (Some (conflict_of f ordered), CONFLICTED, [downgraded f ''distinct_source_values > 1''])
          else if stale then (None, STALE, [downgraded f (stale_basis sel)])
          else if obs_authority sel = PROVISIONAL then (None, PROVISIONAL, [])
          else (None, AUTHORITATIVE, []))
     in Inr \<lparr>res_field = f, res_value = obs_value sel, res_status = status, selected = Some sel,
       provenance = ordered, conflict = con,
       source_revisions = sort_key revision_key (remdups (map obs_revision ordered)),
       attention = att,
       blocks_readiness = (safety_critical \<and> status \<in> {STALE, CONFLICTED, UNAVAILABLE})\<rparr>))"

section \<open>Canonical values and tie-breaking\<close>

text \<open>A float is a text that \<open>json.dumps\<close> can print for a float.\<close>

definition value_wf :: "authority_value \<Rightarrow> bool" where
  "value_wf v = json_wf (value_json v)"

lemma sort_keys_value [simp]: "sort_keys (value_json v) = value_json v"
  by (cases v) simp_all

lemma value_json_inj: "value_json v = value_json w \<Longrightarrow> v = w"
  by (cases v; cases w) (simp_all add: inj_map_eq_map inj_def)

lemma canonical_value_inject:
  assumes "value_wf v" "value_wf w"
  shows "canonical_value v = canonical_value w \<longleftrightarrow> v = w"
  using assms json_dumps_eq [of "value_json v" "value_json w" False] value_json_inj
  by (auto simp: canonical_value_def value_wf_def)

lemma several_remdups: "Suc 0 < length (remdups xs) \<longleftrightarrow> (\<exists>a \<in> set xs. \<exists>b \<in> set xs. a \<noteq> b)"
proof -
  have "Suc 0 < card (set xs) \<longleftrightarrow> (\<exists>a \<in> set xs. \<exists>b \<in> set xs. a \<noteq> b)"
    using card_le_Suc0_iff_eq [of "set xs"] by (auto simp: not_le [symmetric])
  then show ?thesis by (simp add: length_remdups_card_conv)
qed

lemma hd_sort_key:
  assumes "xs \<noteq> []"
  shows "hd (sort_key f xs) \<in> set xs" and "x \<in> set xs \<Longrightarrow> f (hd (sort_key f xs)) \<le> f x"
proof -
  have ne: "sort_key f xs \<noteq> []" using assms by (metis length_0_conv length_sort)
  then show "hd (sort_key f xs) \<in> set xs" by (metis hd_in_set set_sort)
  have "sorted (map f (sort_key f xs))" by simp
  moreover obtain y ys where "sort_key f xs = y # ys" using ne by (cases "sort_key f xs") auto
  moreover assume "x \<in> set xs"
  then have "x \<in> set (sort_key f xs)" by simp
  ultimately show "f (hd (sort_key f xs)) \<le> f x" by auto
qed

lemma hd_sort_key_perm:
  assumes "mset xs = mset ys" and "xs \<noteq> []"
  shows "f (hd (sort_key f xs)) = f (hd (sort_key f ys))"
proof -
  have s: "set xs = set ys" using assms(1) by (rule mset_eq_setD)
  then have "ys \<noteq> []" using assms(2) by auto
  then show ?thesis
    using hd_sort_key [OF assms(2), where f = f] hd_sort_key [where xs = ys and f = f] s
    by (metis order.antisym)
qed

text \<open>The shape of a result: the fields in terms of the sorted observations.\<close>

definition values_differ :: "source_observation list \<Rightarrow> bool" where
  "values_differ os \<longleftrightarrow> (\<exists>a \<in> set os. \<exists>b \<in> set os. obs_value a \<noteq> obs_value b)"

lemma distinct_values_iff:
  assumes "\<forall>o1 \<in> set os. value_wf (obs_value o1)"
  shows "Suc 0 < length (remdups (map (canonical_value \<circ> obs_value) (sort_key k os))) \<longleftrightarrow> values_differ os"
  using assms by (auto simp: several_remdups values_differ_def canonical_value_inject)

definition current_map :: "source_revision list \<Rightarrow> string \<rightharpoonup> string" where
  "current_map rs = map_of (rev (map (\<lambda>r. (rev_source_id r, revision r)) rs))"

definition stale_spec ::
  "source_observation \<Rightarrow> datetime \<Rightarrow> timedelta \<Rightarrow> (string \<rightharpoonup> string) \<Rightarrow> bool" where
  "stale_spec o1 now age cur \<longleftrightarrow> instant now - instant (observed_at o1) > age
     \<or> (\<exists>e. obs_expires_at o1 = Some e \<and> instant e \<le> instant now)
     \<or> (\<exists>c. cur (obs_source_id o1) = Some c \<and> c \<noteq> revision (obs_revision o1))"

lemma is_stale_spec:
  "is_stale o1 now fr cur = map_sum id (\<lambda>age. stale_spec o1 now age cur) (max_age_for fr (obs_level o1))"
  by (cases "max_age_for fr (obs_level o1)")
    (auto simp: is_stale_def stale_spec_def dt_diff_def dt_le_def split: option.splits)

text \<open>The grade of a resolution, as a function of what it depends on.\<close>

definition grade :: "source_observation list \<Rightarrow> bool \<Rightarrow> authority_status \<Rightarrow> authority_status" where
  "grade os stale claimed = (if values_differ os then CONFLICTED else if stale then STALE
     else if claimed = PROVISIONAL then PROVISIONAL else AUTHORITATIVE)"

lemma reconcile_cases:
  assumes "reconcile_authority f os now fr cur sc = Inr r" and "os \<noteq> []"
    and "\<forall>o1 \<in> set os. value_wf (obs_value o1)"
  obtains age sel where "sel = hd (sort_key observation_sort_key os)"
    and "max_age_for fr (obs_level sel) = Inr age" and "selected r = Some sel"
    and "res_value r = obs_value sel" and "provenance r = sort_key observation_sort_key os"
    and "res_status r = grade os (stale_spec sel now age (current_map cur)) (obs_authority sel)"
    and "conflict r = (if values_differ os
      then Some (conflict_of f (sort_key observation_sort_key os)) else None)"
    and "blocks_readiness r \<longleftrightarrow> sc \<and> res_status r \<in> {STALE, CONFLICTED, UNAVAILABLE}"
    and "source_revisions r = sort_key revision_key (remdups (map obs_revision (sort_key observation_sort_key os)))"
proof -
  have "max_age_for fr (obs_level (hd (sort_key observation_sort_key os))) \<noteq> Inl e" for e
    using assms(1,2)
    by (auto simp: reconcile_authority_def Let_def is_stale_spec result_simps split: if_splits)
  then obtain age where age: "max_age_for fr (obs_level (hd (sort_key observation_sort_key os))) = Inr age"
    by (cases "max_age_for fr (obs_level (hd (sort_key observation_sort_key os)))") auto
  show ?thesis
    using assms(1,2) age
    by (intro that [OF refl age])
      (auto simp: reconcile_authority_def Let_def is_stale_spec result_simps grade_def
        distinct_values_iff [OF assms(3)] current_map_def split: if_splits)
qed

section \<open>Properties\<close>

text \<open>
  C5: precedence with conflicts surfaced. The value comes from an observation of the highest source
  level, nothing is dropped from the provenance, and a conflict listing every observation is
  attached exactly when two observations have different values.
\<close>

theorem reconcile_precedence:
  assumes "reconcile_authority f os now fr cur sc = Inr r" and "os \<noteq> []"
    and "\<forall>o1 \<in> set os. value_wf (obs_value o1)"
  shows "(\<exists>sel \<in> set os. selected r = Some sel \<and> res_value r = obs_value sel
      \<and> (\<forall>o1 \<in> set os. level_int (obs_level o1) \<le> level_int (obs_level sel)))
    \<and> mset (provenance r) = mset os
    \<and> set (source_revisions r) = obs_revision ` set os
    \<and> (conflict r \<noteq> None \<longleftrightarrow> (\<exists>a \<in> set os. \<exists>b \<in> set os. obs_value a \<noteq> obs_value b))
    \<and> (\<forall>c. conflict r = Some c \<longrightarrow> map cv_value (cd_values c) = map obs_value (provenance r)
        \<and> map cv_revision (cd_values c) = map obs_revision (provenance r))"
  using assms
proof (rule reconcile_cases)
  fix age sel
  assume sel: "sel = hd (sort_key observation_sort_key os)" "selected r = Some sel"
    and r: "res_value r = obs_value sel" "provenance r = sort_key observation_sort_key os"
    "conflict r = (if values_differ os
      then Some (conflict_of f (sort_key observation_sort_key os)) else None)"
    "source_revisions r = sort_key revision_key (remdups (map obs_revision (sort_key observation_sort_key os)))"
  have "observation_sort_key sel \<le> observation_sort_key o1" if "o1 \<in> set os" for o1
    unfolding sel using hd_sort_key(2) [OF assms(2) that] .
  then have "level_int (obs_level o1) \<le> level_int (obs_level sel)" if "o1 \<in> set os" for o1
    using that by (fastforce simp: observation_sort_key_def)
  moreover have "sel \<in> set os"
    unfolding sel using hd_sort_key(1) [OF assms(2)] .
  ultimately have "\<exists>sel \<in> set os. selected r = Some sel \<and> res_value r = obs_value sel
      \<and> (\<forall>o1 \<in> set os. level_int (obs_level o1) \<le> level_int (obs_level sel))"
    using sel(2) r(1) by blast
  then show ?thesis
    using r(2-4)
    by (simp add: conflict_of_def comp_def values_differ_def [symmetric])
qed

text \<open>
  The grade. Conflict dominates staleness, staleness dominates the claimed authority, and of
  the claims only \<open>PROVISIONAL\<close> is passed on; readiness is blocked exactly for a safety-critical
  field that is stale or conflicted.
\<close>

theorem reconcile_status:
  assumes "reconcile_authority f os now fr cur sc = Inr r" and "os \<noteq> []"
    and "\<forall>o1 \<in> set os. value_wf (obs_value o1)"
  shows "\<exists>sel age. selected r = Some sel \<and> max_age_for fr (obs_level sel) = Inr age
    \<and> (let differ = (\<exists>a \<in> set os. \<exists>b \<in> set os. obs_value a \<noteq> obs_value b);
           stale = (instant now - instant (observed_at sel) > age
             \<or> (\<exists>e. obs_expires_at sel = Some e \<and> instant e \<le> instant now)
             \<or> (\<exists>c. current_map cur (obs_source_id sel) = Some c \<and> c \<noteq> revision (obs_revision sel)))
       in (res_status r = CONFLICTED \<longleftrightarrow> differ)
        \<and> (res_status r = STALE \<longleftrightarrow> stale \<and> \<not> differ)
        \<and> (res_status r = PROVISIONAL \<longleftrightarrow> \<not> differ \<and> \<not> stale \<and> obs_authority sel = PROVISIONAL)
        \<and> (res_status r = AUTHORITATIVE \<longleftrightarrow> \<not> differ \<and> \<not> stale \<and> obs_authority sel \<noteq> PROVISIONAL)
        \<and> (blocks_readiness r \<longleftrightarrow> sc \<and> (differ \<or> stale)))"
  using assms
proof (rule reconcile_cases)
  fix age sel
  assume "max_age_for fr (obs_level sel) = Inr age" "selected r = Some sel"
    "res_status r = grade os (stale_spec sel now age (current_map cur)) (obs_authority sel)"
    "blocks_readiness r \<longleftrightarrow> sc \<and> res_status r \<in> {STALE, CONFLICTED, UNAVAILABLE}"
  then show ?thesis
    by (intro exI [of _ sel] exI [of _ age])
      (simp add: Let_def grade_def values_differ_def [symmetric] stale_spec_def [symmetric])
qed

lemma reconcile_perm:
  assumes "mset os = mset os'" and "\<forall>o1 \<in> set os. value_wf (obs_value o1)"
  shows "map_sum id (\<lambda>r. (res_value r, source_revisions r, res_status r = CONFLICTED))
        (reconcile_authority f os now fr cur sc)
    = map_sum id (\<lambda>r. (res_value r, source_revisions r, res_status r = CONFLICTED))
        (reconcile_authority f os' now fr cur sc)"
proof (cases "os = []")
  case False
  let ?s = "hd (sort_key observation_sort_key os)" and ?t = "hd (sort_key observation_sort_key os')"
  have set: "set os = set os'" using assms(1) by (rule mset_eq_setD)
  then have ne: "os' \<noteq> []" using False by auto
  have "observation_sort_key ?s = observation_sort_key ?t"
    by (rule hd_sort_key_perm [OF assms(1) False])
  then have "level_int (obs_level ?s) = level_int (obs_level ?t)"
    and "canonical_value (obs_value ?s) = canonical_value (obs_value ?t)"
    by (simp_all add: observation_sort_key_def)
  moreover have "?s \<in> set os" "?t \<in> set os"
    using hd_sort_key(1) [OF False] hd_sort_key(1) [OF ne] unfolding set by blast+
  ultimately have v: "obs_value ?s = obs_value ?t" and l: "obs_level ?s = obs_level ?t"
    using assms(2) canonical_value_inject level_int_inject by auto
  have rev: "sort_key revision_key (remdups (map obs_revision (sort_key observation_sort_key os)))
    = sort_key revision_key (remdups (map obs_revision (sort_key observation_sort_key os')))"
    using set by (intro sort_key_mset_cong)
      (auto simp: revision_key_def set_eq_iff_mset_remdups_eq [symmetric] intro!: inj_onI)
  have "(\<exists>o1 \<in> set os. obs_field o1 \<noteq> f) \<longleftrightarrow> (\<exists>o1 \<in> set os'. obs_field o1 \<noteq> f)"
    and d: "Suc 0 < length (remdups (map (canonical_value \<circ> obs_value) (sort_key observation_sort_key os)))
      \<longleftrightarrow> Suc 0 < length (remdups (map (canonical_value \<circ> obs_value) (sort_key observation_sort_key os')))"
    using set by (simp_all add: several_remdups)
  then show ?thesis
    using False ne set v l rev d
    by (cases "max_age_for fr (obs_level ?s)"; cases "aware now")
      (simp_all add: reconcile_authority_def require_aware_def is_stale_spec Let_def)
qed (use assms in simp)

text \<open>
  The resolved value, the list of source revisions, whether a conflict is reported and every
  error are the same for every order of the observations.
\<close>

theorem reconcile_order_independent:
  assumes "mset os = mset os'" and "\<forall>o1 \<in> set os. value_wf (obs_value o1)"
  shows "map_sum id (\<lambda>r. (res_value r, source_revisions r, res_status r = CONFLICTED))
        (reconcile_authority f os now fr cur sc)
    = map_sum id (\<lambda>r. (res_value r, source_revisions r, res_status r = CONFLICTED))
        (reconcile_authority f os' now fr cur sc)"
  using assms by (rule reconcile_perm)

section \<open>Concrete observations\<close>

definition demo_policy :: freshness_policy where
  "demo_policy = map (\<lambda>l. \<lparr>rule_level = l, max_age = hours 1\<rparr>) all_levels"

definition demo_now :: datetime where
  "demo_now = Datetime (minutes 30) (Some 0)"

definition demo_observation :: "source_level \<Rightarrow> string \<Rightarrow> authority_status \<Rightarrow> source_observation" where
  "demo_observation l v a = \<lparr>obs_field = ''status'', obs_value = VStr v, obs_level = l,
     obs_source_id = ''tracker'', observed_at = Datetime 0 (Some 0), obs_authority = a,
     obs_revision = \<lparr>rev_source_id = ''tracker'', revision = ''r1''\<rparr>, obs_expires_at = None\<rparr>"

lemmas demo_simps = demo_observation_def demo_now_def demo_policy_def all_levels_def hours_def
  minutes_def seconds_def

lemma demo_policy_ok: "new_freshness_policy demo_policy = Inr demo_policy"
  by (simp add: new_freshness_policy_def demo_policy_def all_levels_def Let_def)

lemma demo_max_age: "max_age_for demo_policy l = Inr 3600000000"
  by (cases l) (simp_all add: demo_simps)

lemma demo_observation_ok:
  "\<not> (l = INFERENCE \<and> a = AUTHORITATIVE) \<Longrightarrow> l \<noteq> HUMAN_OVERRIDE
    \<Longrightarrow> new_observation (demo_observation l v a) = Inr (demo_observation l v a)"
  by (simp add: new_observation_def demo_observation_def require_aware_def aware_def blank_iff is_space_def)

definition demo_pair :: "source_observation list" where
  "demo_pair = [demo_observation PARSED_MARKDOWN ''done'' AUTHORITATIVE,
     demo_observation NATIVE_TRACKER ''open'' AUTHORITATIVE]"

lemma demo_pair_wf: "\<forall>o1 \<in> set demo_pair. value_wf (obs_value o1)"
  by (simp add: demo_pair_def demo_observation_def value_wf_def)

lemma demo_pair_sort: "sort_key observation_sort_key demo_pair = rev demo_pair"
  by (simp add: demo_pair_def observation_sort_key_def demo_observation_def)

lemma demo_pair_resolves:
  "\<exists>r. reconcile_authority ''status'' demo_pair demo_now demo_policy [] True = Inr r"
  by (auto simp: reconcile_authority_def demo_pair_sort require_aware_def aware_def is_stale_spec
      demo_max_age Let_def)
    (auto simp: demo_pair_def demo_observation_def demo_now_def)

lemma demo_pair_ne: "demo_pair \<noteq> []"
  by (simp add: demo_pair_def)

lemma demo_pair_differ: "\<exists>a \<in> set demo_pair. \<exists>b \<in> set demo_pair. obs_value a \<noteq> obs_value b"
  by (intro bexI [of _ "demo_pair ! 0"] bexI [of _ "demo_pair ! 1"])
    (simp_all add: demo_pair_def demo_observation_def)

lemma demo_pair_members: "sel \<in> set demo_pair \<Longrightarrow>
    \<forall>o1 \<in> set demo_pair. level_int (obs_level o1) \<le> level_int (obs_level sel) \<Longrightarrow>
    obs_value sel = VStr ''open''"
  by (auto simp: demo_pair_def demo_observation_def)

theorem reconcile_precedence_witness:
  "\<exists>r. reconcile_authority ''status'' demo_pair demo_now demo_policy [] True = Inr r
    \<and> res_value r = VStr ''open'' \<and> conflict r \<noteq> None"
proof -
  obtain r where r: "reconcile_authority ''status'' demo_pair demo_now demo_policy [] True = Inr r"
    using demo_pair_resolves by blast
  from reconcile_precedence [OF r demo_pair_ne demo_pair_wf]
  have "res_value r = VStr ''open'' \<and> conflict r \<noteq> None"
    using demo_pair_differ by (auto simp: demo_pair_members)
  with r show ?thesis by blast
qed

theorem reconcile_status_witness:
  "\<exists>r. reconcile_authority ''status'' demo_pair demo_now demo_policy [] True = Inr r
    \<and> res_status r = CONFLICTED \<and> blocks_readiness r"
proof -
  obtain r where r: "reconcile_authority ''status'' demo_pair demo_now demo_policy [] True = Inr r"
    using demo_pair_resolves by blast
  from reconcile_status [OF r demo_pair_ne demo_pair_wf] demo_pair_differ
  have "res_status r = CONFLICTED \<and> blocks_readiness r" by (auto simp: Let_def)
  with r show ?thesis by blast
qed

theorem reconcile_order_independent_witness:
  "map_sum id (\<lambda>r. (res_value r, source_revisions r, res_status r = CONFLICTED))
      (reconcile_authority ''status'' demo_pair demo_now demo_policy [] True)
    = map_sum id (\<lambda>r. (res_value r, source_revisions r, res_status r = CONFLICTED))
      (reconcile_authority ''status'' (rev demo_pair) demo_now demo_policy [] True)"
  by (rule reconcile_order_independent [OF _ demo_pair_wf]) simp

lemma single_resolves:
  "map_sum id (\<lambda>r. (res_status r, blocks_readiness r))
      (reconcile_authority ''status'' [demo_observation l v a] demo_now demo_policy [] True)
    = Inr (if a = PROVISIONAL then PROVISIONAL else AUTHORITATIVE, False)"
  by (simp add: reconcile_authority_def require_aware_def is_stale_def demo_max_age dt_diff_def
      Let_def) (simp add: demo_observation_def demo_now_def aware_def minutes_def seconds_def)

text \<open>
  An inference observation that its own source marks stale, conflicted or unavailable is
  accepted by the constructor and resolves to an authoritative value that does not block
  readiness, although inference is documented as never authoritative.
\<close>

theorem inference_resolves_authoritative:
  "list_all (\<lambda>a. new_observation (demo_observation INFERENCE v a) = Inr (demo_observation INFERENCE v a)
      \<and> map_sum id (\<lambda>r. (res_status r, blocks_readiness r))
          (reconcile_authority ''status'' [demo_observation INFERENCE v a] demo_now demo_policy [] True)
        = Inr (AUTHORITATIVE, False))
    [STALE, CONFLICTED, UNAVAILABLE]"
  by (simp add: demo_observation_ok single_resolves)

text \<open>
  The sort key leaves out the claimed authority, so two valid observations that differ only in
  it resolve to a status that depends on the order in which they are passed.
\<close>

theorem reconcile_status_order_dependent:
  "let a = demo_observation NATIVE_TRACKER v AUTHORITATIVE;
       b = demo_observation NATIVE_TRACKER v PROVISIONAL;
       status = (\<lambda>os. map_sum id res_status (reconcile_authority ''status'' os demo_now demo_policy [] True))
   in new_observation a = Inr a \<and> new_observation b = Inr b
     \<and> status [a, b] = Inr AUTHORITATIVE \<and> status [b, a] = Inr PROVISIONAL"
proof -
  let ?a = "demo_observation NATIVE_TRACKER v AUTHORITATIVE"
  let ?b = "demo_observation NATIVE_TRACKER v PROVISIONAL"
  have "observation_sort_key ?a = observation_sort_key ?b"
    by (simp add: observation_sort_key_def demo_observation_def)
  then have "sort_key observation_sort_key [?a, ?b] = [?a, ?b]"
    "sort_key observation_sort_key [?b, ?a] = [?b, ?a]"
    by simp_all
  then show ?thesis
    by (simp add: Let_def demo_observation_ok reconcile_authority_def require_aware_def is_stale_def
        demo_max_age dt_diff_def)
      (simp add: demo_observation_def demo_now_def aware_def minutes_def seconds_def)
qed

end
