(* ===== verification/Entities.thy ===== *)
theory Entities
  imports Identifiers Authority
begin

text \<open>
  \<open>domain/entities.py\<close>: the immutable entities. Each constructor checks its arguments in the order
  of the code and stores identifier and label tuples sorted; the lemmas show what a constructed
  entity satisfies and that constructing it again changes nothing.
\<close>

section \<open>Shared checks\<close>

definition require_text :: "string \<Rightarrow> string \<Rightarrow> nat option \<Rightarrow> unit result" where
  "require_text v f max_length =
     (if blank v then Inl (DomainInvariantError INVALID_ENTITY f ''must not be blank'')
      else case max_length of None \<Rightarrow> Inr ()
      | Some m \<Rightarrow> if length v > m
          then Inl (DomainInvariantError INVALID_ENTITY f (''must be at most '' @ str_nat m @ '' characters''))
          else Inr ())"

definition canonical_ids :: "ulid list \<Rightarrow> string \<Rightarrow> ulid list result" where
  "canonical_ids vs f = (let ordered = sort_key ulid_value vs in
     if length ordered \<noteq> length (remdups ordered)
     then Inl (DomainInvariantError INVALID_ENTITY f ''duplicate values are not allowed'')
     else Inr ordered)"

definition canonical_text :: "string list \<Rightarrow> string \<Rightarrow> string list result" where
  "canonical_text vs f =
     (if \<exists>v \<in> set vs. blank v
      then Inl (DomainInvariantError INVALID_ENTITY f ''blank values are not allowed'')
      else let ordered = sort vs in
        if length ordered \<noteq> length (remdups ordered)
        then Inl (DomainInvariantError INVALID_ENTITY f ''duplicate values are not allowed'')
        else Inr ordered)"

section \<open>Data\<close>

datatype actor_kind = HUMAN | AGENT | AUTOMATION | SYSTEM

datatype work_type = FEATURE | BUGFIX | MAINTENANCE | INVESTIGATION | DECISION

datatype lifecycle = PLANNED | ACTIVE | COMPLETED | CANCELLED | UNKNOWN

datatype program_status = PROGRAM_ACTIVE | STALLED | COMPLETE | ARCHIVED

record actor =
  actor_id :: ulid
  actor_tenant_id :: ulid
  actor_workspace_id :: ulid
  actor_kind :: actor_kind
  display_name :: string

definition new_actor :: "actor \<Rightarrow> actor result" where
  "new_actor a = bind_result (require_text (display_name a) ''display_name'' (Some 200)) (\<lambda>_. Inr a)"

record external_blocker =
  blocker_id :: ulid
  blocker_description :: string
  blocker_source :: string
  affected_members :: "ulid list"
  blocker_created_at :: datetime
  resolved :: bool

definition new_external_blocker :: "external_blocker \<Rightarrow> external_blocker result" where
  "new_external_blocker b =
     bind_result (require_text (blocker_description b) ''description'' None) (\<lambda>_.
     bind_result (require_text (blocker_source b) ''source'' None) (\<lambda>_.
     bind_result (require_aware (blocker_created_at b) ''created_at'') (\<lambda>_.
     bind_result (canonical_ids (affected_members b) ''affected_members'') (\<lambda>members.
     Inr (b\<lparr>affected_members := members\<rparr>)))))"

record work_item =
  wi_item_id :: ulid
  wi_tenant_id :: ulid
  wi_workspace_id :: ulid
  wi_title :: string
  wi_work_type :: work_type
  wi_lifecycle :: lifecycle
  wi_created_at :: datetime
  wi_updated_at :: datetime
  wi_created_by :: ulid
  wi_description :: "string option"
  tracker_ids :: "(string \<times> string) list"
  program_ids :: "ulid list"
  wi_labels :: "string list"
  completion_policy_id :: "string option"
  derived_from_decision_id :: "ulid option"
  wi_readiness :: "bool option"
  wi_ranking_position :: "int option"
  fan_out :: "int option"
  wi_primary_owner :: "ulid option"
  wi_participants :: "ulid list"
  source_authorities :: "source_observation list"

definition new_work_item :: "work_item \<Rightarrow> work_item result" where
  "new_work_item w =
     bind_result (require_text (wi_title w) ''title'' (Some 500)) (\<lambda>_.
     bind_result (require_aware (wi_created_at w) ''created_at'') (\<lambda>_.
     bind_result (require_aware (wi_updated_at w) ''updated_at'') (\<lambda>_.
     if dt_less (wi_updated_at w) (wi_created_at w)
     then Inl (DomainInvariantError INVALID_TIMESTAMP ''updated_at'' ''must not precede created_at'')
     else if (case wi_ranking_position w of None \<Rightarrow> False | Some p \<Rightarrow> p < 1)
     then Inl (DomainInvariantError INVALID_ENTITY ''ranking_position'' ''must be at least one'')
     else if (case fan_out w of None \<Rightarrow> False | Some n \<Rightarrow> n < 0)
     then Inl (DomainInvariantError INVALID_ENTITY ''fan_out'' ''must be non-negative'')
     else if (wi_readiness w \<noteq> None \<or> wi_ranking_position w \<noteq> None \<or> fan_out w \<noteq> None)
       \<and> derived_from_decision_id w = None
     then Inl (DomainInvariantError DERIVED_WITHOUT_DECISION ''derived_from_decision_id''
       ''required whenever a derived cache is exposed'')
     else let trackers = sort (tracker_ids w); names = map fst trackers in
     if \<exists>(name, v) \<in> set trackers. blank name \<or> blank v
     then Inl (DomainInvariantError INVALID_ENTITY ''tracker_ids'' ''tracker names and values are required'')
     else if length names \<noteq> length (remdups names)
     then Inl (DomainInvariantError INVALID_ENTITY ''tracker_ids'' ''tracker names must be unique'')
     else
       bind_result (canonical_ids (program_ids w) ''program_ids'') (\<lambda>programs.
       bind_result (canonical_text (wi_labels w) ''labels'') (\<lambda>labels.
       bind_result (canonical_ids (wi_participants w) ''participants'') (\<lambda>participants.
       if (case wi_primary_owner w of None \<Rightarrow> False | Some owner \<Rightarrow> owner \<in> set participants)
       then Inl (DomainInvariantError INVALID_ENTITY ''participants''
         ''primary owner must not be duplicated as a participant'')
       else Inr (w\<lparr>tracker_ids := trackers, program_ids := programs, wi_labels := labels,
         wi_participants := participants\<rparr>)))))))"

record program =
  prog_id :: ulid
  prog_tenant_id :: ulid
  prog_workspace_id :: ulid
  prog_name :: string
  prog_status :: program_status
  member_ids :: "ulid list"
  contained_by :: "ulid list"
  contains :: "resource_ref list"
  prog_created_at :: datetime
  prog_updated_at :: datetime
  prog_created_by :: ulid
  prog_description :: "string option"
  external_blockers :: "external_blocker list"
  prog_labels :: "string list"
  prog_primary_owner :: "ulid option"
  prog_participants :: "ulid list"

definition ref_sort_key :: "resource_ref \<Rightarrow> string \<times> string" where
  "ref_sort_key r = (resource_kind_value (kind r), ulid_value (resource_id r))"

definition new_program :: "program \<Rightarrow> program result" where
  "new_program p =
     bind_result (require_text (prog_name p) ''name'' (Some 200)) (\<lambda>_.
     bind_result (require_aware (prog_created_at p) ''created_at'') (\<lambda>_.
     bind_result (require_aware (prog_updated_at p) ''updated_at'') (\<lambda>_.
     if dt_less (prog_updated_at p) (prog_created_at p)
     then Inl (DomainInvariantError INVALID_TIMESTAMP ''updated_at'' ''must not precede created_at'')
     else
       bind_result (canonical_ids (member_ids p) ''member_ids'') (\<lambda>members.
       bind_result (canonical_ids (contained_by p) ''contained_by'') (\<lambda>parents.
       let children = sort_key ref_sort_key (contains p) in
       if length children \<noteq> length (remdups children)
       then Inl (DomainInvariantError INVALID_ENTITY ''contains'' ''contains entries must be unique'')
       else if prog_id p \<in> set parents \<or> (\<exists>child \<in> set children. resource_id child = prog_id p)
       then Inl (DomainInvariantError INVALID_ENTITY ''contains''
         ''a Program cannot contain or be contained by itself'')
       else
         bind_result (canonical_text (prog_labels p) ''labels'') (\<lambda>labels.
         bind_result (canonical_ids (prog_participants p) ''participants'') (\<lambda>participants.
         Inr (p\<lparr>member_ids := members, contained_by := parents, contains := children,
           prog_labels := labels, prog_participants := participants,
           prog_status := (if members = [] then ARCHIVED else prog_status p)\<rparr>))))))))"

section \<open>What a constructed entity satisfies\<close>

lemma length_remdups_distinct: "length xs = length (remdups xs) \<longleftrightarrow> distinct xs"
  by (auto simp: length_remdups_card_conv distinct_card dest: card_distinct [OF sym])

lemma require_text_Inr [result_simps]:
  "require_text v f m = Inr u \<longleftrightarrow> \<not> blank v \<and> (\<forall>n. m = Some n \<longrightarrow> length v \<le> n)"
  by (auto simp: require_text_def split: option.splits)

lemma canonical_ids_Inr [result_simps]:
  "canonical_ids vs f = Inr ws \<longleftrightarrow> distinct vs \<and> ws = sort_key ulid_value vs"
  by (auto simp: canonical_ids_def Let_def length_remdups_distinct)

lemma canonical_text_Inr [result_simps]:
  "canonical_text vs f = Inr ws \<longleftrightarrow> (\<forall>v \<in> set vs. \<not> blank v) \<and> distinct vs \<and> ws = sort vs"
  by (auto simp: canonical_text_def Let_def length_remdups_distinct)

lemma sort_key_sort_key [simp]: "sort_key f (sort_key f xs) = sort_key f xs"
  by (rule sort_key_id) simp

lemma set_eq_Nil_sort [simp]: "sort_key f xs = [] \<longleftrightarrow> xs = []"
  by (metis length_0_conv length_sort)

lemma option_guard: "(case x of None \<Rightarrow> False | Some y \<Rightarrow> P y) \<longleftrightarrow> (\<exists>y. x = Some y \<and> P y)"
  by (cases x) auto

text \<open>The invariant of a work item, and that its constructor establishes and keeps it.\<close>

definition work_item_wf :: "work_item \<Rightarrow> bool" where
  "work_item_wf w \<longleftrightarrow> \<not> blank (wi_title w) \<and> length (wi_title w) \<le> 500
     \<and> aware (wi_created_at w) \<and> aware (wi_updated_at w)
     \<and> dt_le (wi_created_at w) (wi_updated_at w)
     \<and> (\<forall>p. wi_ranking_position w = Some p \<longrightarrow> 1 \<le> p) \<and> (\<forall>n. fan_out w = Some n \<longrightarrow> 0 \<le> n)
     \<and> (derived_from_decision_id w = None
         \<longrightarrow> wi_readiness w = None \<and> wi_ranking_position w = None \<and> fan_out w = None)
     \<and> sorted (tracker_ids w) \<and> distinct (map fst (tracker_ids w))
     \<and> (\<forall>(name, v) \<in> set (tracker_ids w). \<not> blank name \<and> \<not> blank v)
     \<and> sorted (map ulid_value (program_ids w)) \<and> distinct (program_ids w)
     \<and> sorted (wi_labels w) \<and> distinct (wi_labels w) \<and> (\<forall>v \<in> set (wi_labels w). \<not> blank v)
     \<and> sorted (map ulid_value (wi_participants w)) \<and> distinct (wi_participants w)
     \<and> (\<forall>owner. wi_primary_owner w = Some owner \<longrightarrow> owner \<notin> set (wi_participants w))"

lemma new_work_item_wf:
  assumes "new_work_item w = Inr w'"
  shows "work_item_wf w'"
  using assms unfolding new_work_item_def work_item_wf_def option_guard Let_def
    length_remdups_distinct result_simps
  by (auto simp: result_simps distinct_map split: if_split_asm)

lemma require_text_ok: "\<not> blank v \<Longrightarrow> length v \<le> n \<Longrightarrow> require_text v f (Some n) = Inr ()"
  by (simp add: require_text_def)

lemma program_status_id: "prog_status p = st \<Longrightarrow> p\<lparr>prog_status := st\<rparr> = p"
  by (cases p) simp

lemma canonical_ids_ok: "sorted (map ulid_value vs) \<Longrightarrow> distinct vs \<Longrightarrow> canonical_ids vs f = Inr vs"
  by (simp add: canonical_ids_Inr sort_key_id)

lemma canonical_text_ok:
  "sorted vs \<Longrightarrow> distinct vs \<Longrightarrow> \<forall>v \<in> set vs. \<not> blank v \<Longrightarrow> canonical_text vs f = Inr vs"
  by (simp add: canonical_text_Inr sorted_sort_id)

lemmas entity_ok = require_text_ok program_status_id canonical_ids_ok canonical_text_ok require_aware_def

lemma dt_le_not_less: "dt_le a b \<Longrightarrow> \<not> dt_less b a"
  by simp

lemma new_work_item_id: "work_item_wf w \<Longrightarrow> new_work_item w = Inr w"
  unfolding new_work_item_def work_item_wf_def option_guard
  by (auto simp: entity_ok dt_le_not_less sorted_sort_id distinct_remdups_id Let_def)

definition program_wf :: "program \<Rightarrow> bool" where
  "program_wf p \<longleftrightarrow> \<not> blank (prog_name p) \<and> length (prog_name p) \<le> 200
     \<and> aware (prog_created_at p) \<and> aware (prog_updated_at p)
     \<and> dt_le (prog_created_at p) (prog_updated_at p)
     \<and> sorted (map ulid_value (member_ids p)) \<and> distinct (member_ids p)
     \<and> sorted (map ulid_value (contained_by p)) \<and> distinct (contained_by p)
     \<and> sorted (map ref_sort_key (contains p)) \<and> distinct (contains p)
     \<and> prog_id p \<notin> set (contained_by p) \<and> prog_id p \<notin> resource_id ` set (contains p)
     \<and> sorted (prog_labels p) \<and> distinct (prog_labels p) \<and> (\<forall>v \<in> set (prog_labels p). \<not> blank v)
     \<and> sorted (map ulid_value (prog_participants p)) \<and> distinct (prog_participants p)
     \<and> (member_ids p = [] \<longrightarrow> prog_status p = ARCHIVED)"

lemma new_program_wf:
  assumes "new_program p = Inr p'"
  shows "program_wf p'"
  using assms
  by (auto simp: new_program_def result_simps Let_def length_remdups_distinct program_wf_def
      split: if_splits)

lemma new_program_id: "program_wf p \<Longrightarrow> new_program p = Inr p"
  unfolding new_program_def program_wf_def
  by (auto simp: entity_ok dt_le_not_less sort_key_id distinct_remdups_id Let_def image_iff
      dest: sym)

section \<open>Properties\<close>

text \<open>
  A constructed work item is in canonical form: every derived cache is bound to a decision,
  the owner is not a participant, tracker names are unique, identifier and label lists are sorted
  without duplicates; and constructing an entity from one already constructed changes nothing.
\<close>

theorem new_work_item_canonical:
  assumes "new_work_item w = Inr w'"
  shows "work_item_wf w' \<and> new_work_item w' = Inr w' \<and> mset (tracker_ids w') = mset (tracker_ids w)
    \<and> mset (wi_participants w') = mset (wi_participants w) \<and> mset (wi_labels w') = mset (wi_labels w)
    \<and> wi_lifecycle w' = wi_lifecycle w"
proof -
  have "work_item_wf w'" using assms by (rule new_work_item_wf)
  moreover have "mset (tracker_ids w') = mset (tracker_ids w)
    \<and> mset (wi_participants w') = mset (wi_participants w) \<and> mset (wi_labels w') = mset (wi_labels w)
    \<and> wi_lifecycle w' = wi_lifecycle w"
    using assms by (auto simp: new_work_item_def result_simps Let_def split: if_splits)
  ultimately show ?thesis using new_work_item_id by simp
qed

text \<open>
  A constructed program never contains or is contained by itself, is archived when it has no
  member, and is in canonical form, so that constructing it again changes nothing.
\<close>

theorem new_program_canonical:
  assumes "new_program p = Inr p'"
  shows "program_wf p' \<and> new_program p' = Inr p'
    \<and> prog_status p' = (if member_ids p = [] then ARCHIVED else prog_status p)
    \<and> mset (contains p') = mset (contains p) \<and> mset (member_ids p') = mset (member_ids p)"
proof -
  have "program_wf p'" using assms by (rule new_program_wf)
  moreover have "prog_status p' = (if member_ids p = [] then ARCHIVED else prog_status p)
    \<and> mset (contains p') = mset (contains p) \<and> mset (member_ids p') = mset (member_ids p)"
    using assms by (auto simp: new_program_def result_simps Let_def split: if_splits)
  ultimately show ?thesis using new_program_id by simp
qed

definition demo_work_item :: work_item where
  "demo_work_item = \<lparr>wi_item_id = Ulid WorkItemId ''A'', wi_tenant_id = Ulid TenantId ''T'',
     wi_workspace_id = Ulid WorkspaceId ''W'', wi_title = ''t'', wi_work_type = FEATURE,
     wi_lifecycle = PLANNED, wi_created_at = Datetime 0 (Some 0), wi_updated_at = Datetime 1 (Some 0),
     wi_created_by = Ulid ActorId ''U'', wi_description = None,
     tracker_ids = [(''jira'', ''2''), (''github'', ''1'')], program_ids = [], wi_labels = [''b'', ''a''],
     completion_policy_id = None, derived_from_decision_id = Some (Ulid DecisionId ''D''),
     wi_readiness = Some True, wi_ranking_position = Some 1, fan_out = Some 0,
     wi_primary_owner = Some (Ulid ActorId ''U''), wi_participants = [Ulid ActorId ''V''],
     source_authorities = []\<rparr>"

definition demo_program :: program where
  "demo_program = \<lparr>prog_id = Ulid ProgramId ''P'', prog_tenant_id = Ulid TenantId ''T'',
     prog_workspace_id = Ulid WorkspaceId ''W'', prog_name = ''n'', prog_status = STALLED,
     member_ids = [], contained_by = [Ulid ProgramId ''Q''],
     contains = [ResourceRef WORK_ITEM (Ulid WorkItemId ''A'')], prog_created_at = Datetime 0 (Some 0),
     prog_updated_at = Datetime 1 (Some 0), prog_created_by = Ulid ActorId ''U'',
     prog_description = None, external_blockers = [], prog_labels = [], prog_primary_owner = None,
     prog_participants = []\<rparr>"

lemmas entity_eval = require_text_def require_aware_def canonical_ids_def canonical_text_def
  blank_iff is_space_def aware_def dt_less_def Let_def

theorem new_work_item_canonical_witness:
  "\<exists>w'. new_work_item demo_work_item = Inr w' \<and> work_item_wf w'"
proof -
  have "\<exists>w'. new_work_item demo_work_item = Inr w'"
    by (simp add: new_work_item_def demo_work_item_def entity_eval)
  then show ?thesis using new_work_item_canonical by blast
qed

theorem new_program_canonical_witness:
  "\<exists>p'. new_program demo_program = Inr p' \<and> prog_status p' = ARCHIVED"
proof -
  have "\<exists>p'. new_program demo_program = Inr p'"
    by (simp add: new_program_def demo_program_def entity_eval)
  moreover have "member_ids demo_program = []" by (simp add: demo_program_def)
  ultimately show ?thesis using new_program_canonical by fastforce
qed

end
