(* ===== verification/Edges.thy ===== *)
theory Edges
  imports Identifiers
begin

text \<open>\<open>domain/edges.py\<close>: typed edges and the endpoint matrix their constructor enforces.\<close>

datatype edge_type = CONTAINS | BLOCKS | REQUIRES_GATE | RELATED_TO

datatype block_subtype = HARD | SOFT

datatype edge_origin = TRACKER | USER

fun edge_type_value :: "edge_type \<Rightarrow> string" where
  "edge_type_value CONTAINS = ''contains''"
| "edge_type_value BLOCKS = ''blocks''"
| "edge_type_value REQUIRES_GATE = ''requires_gate''"
| "edge_type_value RELATED_TO = ''related_to''"

record edge =
  edge_id :: ulid
  edge_tenant_id :: ulid
  edge_workspace_id :: ulid
  edge_type :: edge_type
  source :: resource_ref
  target :: resource_ref
  edge_created_at :: datetime
  origin :: edge_origin
  edge_provenance :: string
  subtype :: "block_subtype option"

fun valid_endpoints :: "edge_type \<Rightarrow> resource_kind \<Rightarrow> resource_kind \<Rightarrow> bool" where
  "valid_endpoints CONTAINS s t \<longleftrightarrow> (s = PROGRAM \<and> t \<in> {PROGRAM, WORK_ITEM})
     \<or> (s = WORK_ITEM \<and> t = WORK_ITEM)"
| "valid_endpoints BLOCKS s t \<longleftrightarrow> s = WORK_ITEM \<and> t = WORK_ITEM"
| "valid_endpoints REQUIRES_GATE s t \<longleftrightarrow> s = GATE \<and> t = WORK_ITEM"
| "valid_endpoints RELATED_TO s t \<longleftrightarrow> s \<in> {PROGRAM, WORK_ITEM} \<and> t \<in> {PROGRAM, WORK_ITEM}"

definition new_edge :: "edge \<Rightarrow> edge result" where
  "new_edge e =
     (if \<not> aware (edge_created_at e)
      then Inl (DomainInvariantError INVALID_TIMESTAMP ''created_at'' ''timezone-aware datetime required'')
      else if blank (edge_provenance e)
      then Inl (DomainInvariantError INVALID_EDGE ''provenance'' ''edge provenance is required'')
      else if source e = target e
      then Inl (DomainInvariantError INVALID_EDGE ''target'' ''self edges are not allowed'')
      else if \<not> valid_endpoints (edge_type e) (kind (source e)) (kind (target e))
      then Inl (DomainInvariantError INVALID_EDGE ''endpoints''
        (''invalid '' @ edge_type_value (edge_type e) @ '' endpoint combination''))
      else if edge_type e = BLOCKS \<and> subtype e = None
      then Inl (DomainInvariantError INVALID_EDGE ''subtype'' ''blocks edges require hard or soft subtype'')
      else if edge_type e \<noteq> BLOCKS \<and> subtype e \<noteq> None
      then Inl (DomainInvariantError INVALID_EDGE ''subtype'' ''only blocks edges accept a subtype'')
      else Inr e)"

text \<open>The invariant of a constructed edge.\<close>

definition edge_wf :: "edge \<Rightarrow> bool" where
  "edge_wf e \<longleftrightarrow> aware (edge_created_at e) \<and> \<not> blank (edge_provenance e) \<and> source e \<noteq> target e
     \<and> valid_endpoints (edge_type e) (kind (source e)) (kind (target e))
     \<and> (edge_type e = BLOCKS \<longleftrightarrow> subtype e \<noteq> None)"

lemma new_edge_Inr [result_simps]: "new_edge e = Inr e' \<longleftrightarrow> e' = e \<and> edge_wf e"
  by (auto simp: new_edge_def edge_wf_def)

text \<open>A gate is only ever the source of a gate requirement; no edge leads to a gate.\<close>

lemma edge_wf_gate:
  "edge_wf e \<Longrightarrow> kind (target e) \<noteq> GATE \<and> (kind (source e) = GATE \<longleftrightarrow> edge_type e = REQUIRES_GATE)"
  by (cases "edge_type e") (auto simp: edge_wf_def)

end
