(* ===== verification/Graph.thy ===== *)
theory Graph
  imports Edges Authority
begin

text \<open>
  \<open>domain/graph.py\<close>, nodes and adjacency: the vocabulary the graph algorithms share. Sets of nodes
  are lists of their elements; sorting them by \<open>node_key\<close> makes every result deterministic.
\<close>

section \<open>Nodes and adjacency\<close>

definition node_key :: "resource_ref \<Rightarrow> string \<times> string" where
  "node_key n = (resource_kind_value (kind n), ulid_value (resource_id n))"

definition node_label :: "resource_ref \<Rightarrow> string" where
  "node_label n = resource_kind_value (kind n) @ '':'' @ ulid_value (resource_id n)"

definition sorted_nodes :: "resource_ref list \<Rightarrow> resource_ref list" where
  "sorted_nodes ns = sort_key node_key ns"

text \<open>\<open>_sorted_nodes\<close> of a set: the set is given by a list of its elements.\<close>

definition sorted_node_set :: "resource_ref list \<Rightarrow> resource_ref list" where
  "sorted_node_set ns = sorted_nodes (remdups ns)"

definition nodes_from_edges :: "edge list \<Rightarrow> resource_ref list" where
  "nodes_from_edges es = sorted_node_set (concat (map (\<lambda>e. [source e, target e]) es))"

text \<open>
  An adjacency \<open>dict\<close> in insertion order. \<open>adj_get\<close> is \<open>adjacency[node]\<close> and \<open>adjacency.get(node, ())\<close>;
  \<open>adjacency_closed\<close> below shows that the first never meets a missing key.
\<close>

type_synonym adjacency = "(resource_ref \<times> resource_ref list) list"

definition adj_get :: "adjacency \<Rightarrow> resource_ref \<Rightarrow> resource_ref list" where
  "adj_get adj n = (case map_of adj n of None \<Rightarrow> [] | Some ts \<Rightarrow> ts)"

definition adjacency :: "resource_ref list \<Rightarrow> edge list \<Rightarrow> adjacency" where
  "adjacency ns es = map
     (\<lambda>n. (n, sorted_node_set (map target (filter (\<lambda>e. source e = n) es))))
     (sorted_node_set (ns @ concat (map (\<lambda>e. [source e, target e]) es)))"

definition adj_nodes :: "adjacency \<Rightarrow> resource_ref set" where
  "adj_nodes adj = fst ` set adj \<union> (\<Union>(n, ts) \<in> set adj. set ts)"

definition adj_rel :: "adjacency \<Rightarrow> (resource_ref \<times> resource_ref) set" where
  "adj_rel adj = {(a, b). b \<in> set (adj_get adj a)}"

lemma finite_adj_nodes [simp]: "finite (adj_nodes adj)"
  by (auto simp: adj_nodes_def)

lemma adj_get_nodes: "t \<in> set (adj_get adj n) \<Longrightarrow> n \<in> adj_nodes adj \<and> t \<in> adj_nodes adj"
proof (cases "map_of adj n")
  case (Some ts)
  assume "t \<in> set (adj_get adj n)"
  with Some have "t \<in> set ts" by (simp add: adj_get_def)
  moreover have "(n, ts) \<in> set adj" using Some by (rule map_of_SomeD)
  ultimately show ?thesis unfolding adj_nodes_def by force
qed (simp add: adj_get_def)

lemma adj_get_outside: "n \<notin> adj_nodes adj \<Longrightarrow> adj_get adj n = []"
  using adj_get_nodes [of _ adj n] by (cases "adj_get adj n") auto

lemma adj_rel_nodes: "(a, b) \<in> adj_rel adj \<Longrightarrow> a \<in> adj_nodes adj \<and> b \<in> adj_nodes adj"
  using adj_get_nodes by (auto simp: adj_rel_def)

lemma finite_adj_rel [simp]: "finite (adj_rel adj)"
  by (rule finite_subset [of _ "adj_nodes adj \<times> adj_nodes adj"]) (auto dest: adj_rel_nodes)

lemma set_sorted_nodes [simp]: "set (sorted_nodes ns) = set ns"
  and mset_sorted_nodes [simp]: "mset (sorted_nodes ns) = mset ns"
  and distinct_sorted_nodes [simp]: "distinct (sorted_nodes ns) = distinct ns"
  and length_sorted_nodes [simp]: "length (sorted_nodes ns) = length ns"
  by (simp_all add: sorted_nodes_def)

lemma set_sorted_node_set [simp]: "set (sorted_node_set ns) = set ns"
  and distinct_sorted_node_set [simp]: "distinct (sorted_node_set ns)"
  by (simp_all add: sorted_node_set_def)

lemma set_nodes_from_edges: "set (nodes_from_edges es) = source ` set es \<union> target ` set es"
  by (auto simp: nodes_from_edges_def)

lemma map_of_map_keys: "map_of (map (\<lambda>k. (k, f k)) ks) k = (if k \<in> set ks then Some (f k) else None)"
  by (induction ks) auto

lemma adj_get_adjacency:
  "set (adj_get (adjacency ns es) n) = {t. \<exists>e \<in> set es. source e = n \<and> target e = t}"
  by (auto simp: adj_get_def adjacency_def map_of_map_keys)

lemma distinct_adj_get [simp]: "distinct (adj_get (adjacency ns es) n)"
  by (simp add: adj_get_def adjacency_def map_of_map_keys)

lemma adj_rel_adjacency:
  "adj_rel (adjacency ns es) = (\<lambda>e. (source e, target e)) ` set es"
  by (auto simp: adj_rel_def adj_get_adjacency)

lemma adjacency_keys:
  "fst ` set (adjacency ns es) = set ns \<union> source ` set es \<union> target ` set es"
  by (auto simp: adjacency_def image_comp)

lemma adjacency_distinct_keys [simp]: "distinct (map fst (adjacency ns es))"
  by (simp add: adjacency_def comp_def)

lemma adjacency_distinct_targets: "\<forall>(n, ts) \<in> set (adjacency ns es). distinct ts"
  by (auto simp: adjacency_def)

text \<open>Every target is a key: \<open>adjacency[node]\<close> never raises.\<close>

lemma adjacency_closed:
  assumes "n \<in> adj_nodes (adjacency ns es)"
  shows "map_of (adjacency ns es) n \<noteq> None"
proof -
  have "set (snd kv) \<subseteq> target ` set es" if "kv \<in> set (adjacency ns es)" for kv
    using that by (auto simp: adjacency_def)
  then have "n \<in> fst ` set (adjacency ns es)"
    using assms adjacency_keys [of ns es] by (fastforce simp: adj_nodes_def)
  then show ?thesis by (metis map_of_eq_None_iff)
qed

lemma adj_nodes_adjacency:
  "adj_nodes (adjacency ns es) = set ns \<union> source ` set es \<union> target ` set es"
proof
  show "adj_nodes (adjacency ns es) \<subseteq> set ns \<union> source ` set es \<union> target ` set es"
    using adjacency_closed [of _ ns es] adjacency_keys [of ns es]
    by (metis map_of_eq_None_iff subsetI)
  show "set ns \<union> source ` set es \<union> target ` set es \<subseteq> adj_nodes (adjacency ns es)"
    using adjacency_keys [of ns es] by (auto simp: adj_nodes_def)
qed

text \<open>A walk along edges.\<close>

definition walk :: "adjacency \<Rightarrow> resource_ref list \<Rightarrow> bool" where
  "walk adj p \<longleftrightarrow> successively (\<lambda>a b. (a, b) \<in> adj_rel adj) p"

lemma walk_snoc: "walk adj (p @ [t]) \<longleftrightarrow> walk adj p \<and> (p \<noteq> [] \<longrightarrow> (last p, t) \<in> adj_rel adj)"
  by (auto simp: walk_def successively_append_iff)

lemma walk_reaches: "walk adj p \<Longrightarrow> p \<noteq> [] \<Longrightarrow> (hd p, last p) \<in> (adj_rel adj)\<^sup>*"
proof (induction p rule: rev_induct)
  case (snoc x xs)
  then show ?case by (cases "xs = []") (auto simp: walk_snoc intro: rtrancl_into_rtrancl)
qed simp

lemma reaches_walk:
  assumes "(r, n) \<in> (adj_rel adj)\<^sup>*"
  shows "\<exists>p. walk adj p \<and> p \<noteq> [] \<and> hd p = r \<and> last p = n"
  using assms
proof (induction rule: rtrancl_induct)
  case base
  show ?case by (rule exI [of _ "[r]"]) (simp add: walk_def)
next
  case (step y z)
  then obtain p where "walk adj p" "p \<noteq> []" "hd p = r" "last p = y" by blast
  with step(2) show ?case by (intro exI [of _ "p @ [z]"]) (simp add: walk_snoc)
qed

end
