(* ===== verification/Graph_Paths.thy ===== *)
theory Graph_Paths
  imports Graph "HOL-Library.AList"
begin

text \<open>
  The traversals of \<open>domain/graph.py\<close>: downstream reachability, shortest paths, the blocker, fan-out
  and root-cause indexes, and \<open>traverse_affected_region\<close>. The lemmas show that the fan-out is the
  number of nodes reachable by one or more edges, and that the label-correcting search ends with,
  for every reachable node, the least walk under \<open>path_key\<close> (shortest, then lexicographic).
\<close>

section \<open>Reachability\<close>

text \<open>\<open>reachable\<close> of \<open>_fan_out_index\<close>: \<open>found\<close> is the list of the elements of the set.\<close>

function reachable_from :: "adjacency \<Rightarrow> resource_ref list \<Rightarrow> resource_ref list \<Rightarrow> resource_ref list" where
  "reachable_from adj pending found =
     (if pending = [] then found
      else let tgt = last pending; rest = butlast pending in
        if tgt \<in> set found then reachable_from adj rest found
        else reachable_from adj (rest @ adj_get adj tgt) (found @ [tgt]))"
  by pat_completeness auto

termination reachable_from
proof (relation "inv_image (finite_psubset <*lex*> less_than)
    (\<lambda>(adj, pending, found). (adj_nodes adj - set found, length pending))", goal_cases)
  case 1
  show ?case by (intro wf_inv_image wf_lex_prod wf_finite_psubset wf_less_than)
next
  case (3 adj pending found tgt rest)
  then show ?case
    using adj_get_outside [of "last pending" adj]
    by (cases "last pending \<in> adj_nodes adj") (auto simp: finite_psubset_def)
qed (auto simp: Let_def)

declare reachable_from.simps [simp del]

definition fan_out_index :: "resource_ref list \<Rightarrow> adjacency \<Rightarrow> (resource_ref \<times> nat) list" where
  "fan_out_index nodes adj = map (\<lambda>n. (n, length (reachable_from adj (adj_get adj n) []))) nodes"

lemma closure_of_boundary:
  assumes "R `` F \<subseteq> F \<union> P"
  shows "R\<^sup>* `` F \<subseteq> F \<union> R\<^sup>* `` P"
proof -
  have "b \<in> F \<union> R\<^sup>* `` P" if "(a, b) \<in> R\<^sup>*" "a \<in> F" for a b
    using that by (induction rule: rtrancl_induct) (use assms in \<open>auto intro: rtrancl_into_rtrancl\<close>)
  then show ?thesis by blast
qed

lemma rtrancl_image_unfold: "R\<^sup>* `` {t} = insert t (R\<^sup>* `` (R `` {t}))"
  by (auto intro: converse_rtrancl_into_rtrancl elim: converse_rtranclE)

lemma reachable_from_spec:
  assumes "distinct found" and "adj_rel adj `` set found \<subseteq> set found \<union> set pending"
  shows "distinct (reachable_from adj pending found)
    \<and> set (reachable_from adj pending found) = set found \<union> (adj_rel adj)\<^sup>* `` set pending"
  using assms
proof (induction adj pending found rule: reachable_from.induct)
  case (1 adj pending found)
  let ?R = "adj_rel adj" and ?t = "last pending" and ?rest = "butlast pending"
  show ?case
  proof (cases "pending = []")
    case False
    then have p: "set pending = insert ?t (set ?rest)"
      by (metis append_butlast_last_id Un_insert_right list.simps(15) set_append sup_bot.right_neutral
          empty_set)
    show ?thesis
    proof (cases "?t \<in> set found")
      case True
      then have inv: "?R `` set found \<subseteq> set found \<union> set ?rest" using "1.prems"(2) p by auto
      have "?R\<^sup>* `` {?t} \<subseteq> set found \<union> ?R\<^sup>* `` set ?rest"
        using closure_of_boundary [OF inv] True by blast
      then have "set found \<union> ?R\<^sup>* `` set pending = set found \<union> ?R\<^sup>* `` set ?rest"
        unfolding p by blast
      then show ?thesis
        using "1.IH"(1) [OF False refl refl True "1.prems"(1) inv] False True
        by (subst (1 2) reachable_from.simps) (simp add: Let_def)
    next
      case t: False
      have "?R `` {?t} = set (adj_get adj ?t)" by (auto simp: adj_rel_def)
      then have "?R\<^sup>* `` set pending = insert ?t (?R\<^sup>* `` set (?rest @ adj_get adj ?t))"
        using rtrancl_image_unfold [of ?R ?t] unfolding p by auto
      moreover have "?R `` set (found @ [?t]) \<subseteq> set (found @ [?t]) \<union> set (?rest @ adj_get adj ?t)"
        using "1.prems"(2) p by (auto simp: adj_rel_def)
      moreover have "distinct (found @ [?t])" using "1.prems"(1) t by simp
      ultimately show ?thesis
        using "1.IH"(2) [OF False refl refl t] False t
        by (subst (1 2) reachable_from.simps) (simp add: Let_def)
    qed
  qed (use "1.prems" in \<open>simp add: reachable_from.simps\<close>)
qed

lemma reachable_from_successors:
  "distinct (reachable_from adj (adj_get adj n) [])"
  "set (reachable_from adj (adj_get adj n) []) = (adj_rel adj)\<^sup>+ `` {n}"
proof -
  have "(adj_rel adj)\<^sup>* `` set (adj_get adj n) = (adj_rel adj)\<^sup>+ `` {n}"
    by (auto simp: adj_rel_def dest: tranclD intro: rtrancl_into_trancl2)
  then show "distinct (reachable_from adj (adj_get adj n) [])"
    "set (reachable_from adj (adj_get adj n) []) = (adj_rel adj)\<^sup>+ `` {n}"
    using reachable_from_spec [of "[]" adj "adj_get adj n"] by simp_all
qed

lemma fan_out_index_spec:
  "fan_out_index nodes adj = map (\<lambda>n. (n, card ((adj_rel adj)\<^sup>+ `` {n}))) nodes"
  using distinct_card [OF reachable_from_successors(1)]
  by (simp add: fan_out_index_def reachable_from_successors(2))

section \<open>Shortest paths\<close>

definition path_key :: "resource_ref list \<Rightarrow> nat \<times> (string \<times> string) list" where
  "path_key p = (length p, map node_key p)"

type_synonym path_map = "(resource_ref \<times> resource_ref list) list"

definition path_of :: "path_map \<Rightarrow> resource_ref \<Rightarrow> resource_ref list" where
  "path_of paths n = (case map_of paths n of Some p \<Rightarrow> p | None \<Rightarrow> [])"

text \<open>The body of the inner loop; \<open>paths\<close> is the dictionary in insertion order.\<close>

fun sp_relax :: "resource_ref \<Rightarrow> path_map \<times> resource_ref list \<Rightarrow> resource_ref
    \<Rightarrow> path_map \<times> resource_ref list" where
  "sp_relax node (paths, pending) tgt = (let candidate = path_of paths node @ [tgt] in
     if (case map_of paths tgt of None \<Rightarrow> True | Some current \<Rightarrow> path_key candidate < path_key current)
     then (AList.update tgt candidate paths, pending @ [tgt])
     else (paths, pending))"

function sp_loop :: "adjacency \<Rightarrow> path_map \<Rightarrow> resource_ref list \<Rightarrow> path_map" where
  "sp_loop adj paths [] = paths"
| "sp_loop adj paths (node # pending) =
     (case foldl (sp_relax node) (paths, pending) (adj_get adj node) of
       (paths', pending') \<Rightarrow> sp_loop adj paths' pending')"
  by pat_completeness auto

definition sp_universe :: "adjacency \<Rightarrow> path_map \<Rightarrow> resource_ref set" where
  "sp_universe adj paths = adj_nodes adj \<union> fst ` set paths \<union> (\<Union>p \<in> ran (map_of paths). set p)"

definition sp_better :: "adjacency \<Rightarrow> path_map \<Rightarrow> resource_ref \<Rightarrow> resource_ref list set" where
  "sp_better adj paths n = (case map_of paths n of None \<Rightarrow> {}
     | Some p \<Rightarrow> {q. set q \<subseteq> sp_universe adj paths \<and> path_key q < path_key p})"

definition sp_measure :: "adjacency \<Rightarrow> path_map \<Rightarrow> nat \<times> nat" where
  "sp_measure adj paths = (card (sp_universe adj paths - fst ` set paths),
     \<Sum>n \<in> fst ` set paths. card (sp_better adj paths n))"

lemma finite_sp_universe [simp]: "finite (sp_universe adj paths)"
  by (simp add: sp_universe_def finite_ran finite_dom_map_of)

lemma finite_sp_better [simp]: "finite (sp_better adj paths n)"
proof (cases "map_of paths n")
  case (Some p)
  have "sp_better adj paths n \<subseteq> {q. set q \<subseteq> sp_universe adj paths \<and> length q \<le> length p}"
    using Some by (auto simp: sp_better_def path_key_def less_prod_def)
  then show ?thesis
    by (rule finite_subset) (rule finite_lists_length_le [OF finite_sp_universe])
qed (simp add: sp_better_def)

lemma sp_relax_decreases:
  assumes "sp_relax node (paths, pending) t = (paths', pending')" and "t \<in> adj_nodes adj"
  shows "(paths', pending') = (paths, pending)
    \<or> (sp_measure adj paths', sp_measure adj paths) \<in> less_than <*lex*> less_than"
proof (cases "case map_of paths t of None \<Rightarrow> True
    | Some current \<Rightarrow> path_key (path_of paths node @ [t]) < path_key current")
  case True
  define c where "c = path_of paths node @ [t]"
  have better: "case map_of paths t of None \<Rightarrow> True | Some current \<Rightarrow> path_key c < path_key current"
    using True unfolding c_def .
  then have upd: "paths' = AList.update t c paths"
    using assms(1) unfolding c_def sp_relax.simps Let_def by (metis prod.inject)
  have m': "map_of paths' = (map_of paths)(t \<mapsto> c)" using upd by (simp add: update_conv')
  then have "dom (map_of paths') = insert t (dom (map_of paths))" by simp
  then have keys: "fst ` set paths' = insert t (fst ` set paths)"
    by (simp add: dom_map_of_conv_image_fst)
  have c_sub: "set c \<subseteq> sp_universe adj paths"
    using assms(2) by (cases "map_of paths node") (auto simp: c_def path_of_def sp_universe_def intro: ranI)
  have U: "sp_universe adj paths' \<subseteq> sp_universe adj paths"
    using assms(2) c_sub unfolding sp_universe_def keys m'
    by (auto simp: ran_def sp_universe_def split: if_splits)
  show ?thesis
  proof (cases "t \<in> fst ` set paths")
    case new: False
    have "sp_universe adj paths' - fst ` set paths' \<subset> sp_universe adj paths - fst ` set paths"
      using U new assms(2) unfolding keys by (auto simp: sp_universe_def)
    then have "card (sp_universe adj paths' - fst ` set paths') < card (sp_universe adj paths - fst ` set paths)"
      by (intro psubset_card_mono) auto
    then show ?thesis by (simp add: sp_measure_def)
  next
    case True
    then have keys': "fst ` set paths' = fst ` set paths" using keys by auto
    obtain p where p: "map_of paths t = Some p"
      using True by (metis map_of_eq_None_iff not_None_eq)
    have le: "sp_better adj paths' n \<subseteq> sp_better adj paths n" for n
      using U better p unfolding sp_better_def m' by (auto split: option.splits)
    have "c \<in> sp_better adj paths t" "c \<notin> sp_better adj paths' t"
      using c_sub better p by (auto simp: sp_better_def m')
    with le [of t] have "sp_better adj paths' t \<subset> sp_better adj paths t" by blast
    then have "card (sp_better adj paths' t) < card (sp_better adj paths t)"
      by (intro psubset_card_mono) auto
    moreover have "card (sp_better adj paths' n) \<le> card (sp_better adj paths n)" for n
      using le by (intro card_mono) auto
    ultimately have "(\<Sum>n \<in> fst ` set paths. card (sp_better adj paths' n))
        < (\<Sum>n \<in> fst ` set paths. card (sp_better adj paths n))"
      using True by (intro sum_strict_mono_ex1) auto
    moreover have "card (sp_universe adj paths' - fst ` set paths') \<le> card (sp_universe adj paths - fst ` set paths)"
      using U keys' by (intro card_mono) auto
    ultimately show ?thesis by (auto simp: sp_measure_def keys')
  qed
qed (use assms(1) in \<open>simp add: Let_def\<close>)

lemma foldl_sp_relax_decreases:
  assumes "foldl (sp_relax node) (paths, pending) ts = (paths', pending')" and "set ts \<subseteq> adj_nodes adj"
  shows "(paths', pending') = (paths, pending)
    \<or> (sp_measure adj paths', sp_measure adj paths) \<in> less_than <*lex*> less_than"
  using assms
proof (induction ts arbitrary: paths pending)
  case (Cons t ts)
  obtain p1 q1 where s: "sp_relax node (paths, pending) t = (p1, q1)" by fastforce
  have "trans (less_than <*lex*> less_than)" by (intro trans_lex_prod trans_less_than)
  note tr = transD [OF this]
  have "(paths', pending') = (p1, q1)
      \<or> (sp_measure adj paths', sp_measure adj p1) \<in> less_than <*lex*> less_than"
    using Cons.IH [of p1 q1] Cons.prems s by simp
  moreover have "(p1, q1) = (paths, pending)
      \<or> (sp_measure adj p1, sp_measure adj paths) \<in> less_than <*lex*> less_than"
    using sp_relax_decreases [OF s, of adj] Cons.prems by simp
  ultimately show ?case using tr by (metis prod.inject)
qed simp

termination sp_loop
proof (relation "inv_image ((less_than <*lex*> less_than) <*lex*> less_than)
    (\<lambda>(adj, paths, pending). (sp_measure adj paths, length pending))", goal_cases)
  case 1
  show ?case by (intro wf_inv_image wf_lex_prod wf_less_than)
next
  case (2 adj paths node pending paths' pending')
  then have "foldl (sp_relax node) (paths, pending) (adj_get adj node) = (paths', pending')" by simp
  from foldl_sp_relax_decreases [OF this, of adj] show ?case
    using adj_get_nodes [of _ adj node] by auto
qed

definition shortest_paths :: "resource_ref \<Rightarrow> adjacency \<Rightarrow> path_map" where
  "shortest_paths root adj = sp_loop adj [(root, [root])] [root]"

text \<open>Extending two walks by the same node keeps their order.\<close>

lemma append_le_append:
  fixes xs ys :: "'a::linorder list"
  shows "length xs = length ys \<Longrightarrow> xs \<le> ys \<Longrightarrow> xs @ zs \<le> ys @ zs"
  by (induction xs ys rule: list_induct2) auto

lemma path_key_snoc: "path_key a \<le> path_key b \<Longrightarrow> path_key (a @ [x]) \<le> path_key (b @ [x])"
  using append_le_append [of "map node_key a" "map node_key b" "[node_key x]"]
  by (auto simp: path_key_def less_eq_prod_def)

text \<open>
  The invariant of the search: stored paths are walks from the root, and a node that is not
  pending has no edge that would improve its target. \<open>todo\<close> holds the edges of the node in hand.
\<close>

definition sp_ok :: "path_map \<Rightarrow> resource_ref \<Rightarrow> resource_ref \<Rightarrow> bool" where
  "sp_ok paths m t \<longleftrightarrow> (\<exists>q. map_of paths t = Some q \<and> path_key q \<le> path_key (path_of paths m @ [t]))"

definition sp_inv :: "adjacency \<Rightarrow> resource_ref \<Rightarrow> path_map \<Rightarrow> resource_ref list
    \<Rightarrow> (resource_ref \<times> resource_ref) set \<Rightarrow> bool" where
  "sp_inv adj root paths pending todo \<longleftrightarrow> distinct (map fst paths) \<and> map_of paths root = Some [root]
     \<and> (\<forall>n p. map_of paths n = Some p \<longrightarrow> p \<noteq> [] \<and> hd p = root \<and> last p = n \<and> walk adj p)
     \<and> set pending \<subseteq> dom (map_of paths)
     \<and> (\<forall>m \<in> dom (map_of paths). m \<in> set pending
         \<or> (\<forall>t \<in> set (adj_get adj m). (m, t) \<in> todo \<or> sp_ok paths m t))"

lemma sp_relax_inv:
  assumes inv: "sp_inv adj root paths pending todo" and node: "node \<in> dom (map_of paths)"
    and t: "t \<in> set (adj_get adj node)" and step: "sp_relax node (paths, pending) t = (paths', pending')"
  shows "sp_inv adj root paths' pending' (todo - {(node, t)}) \<and> node \<in> dom (map_of paths')"
proof -
  define c where "c = path_of paths node @ [t]"
  obtain pn where pn: "map_of paths node = Some pn" using node by auto
  have wn: "pn \<noteq> []" "hd pn = root" "last pn = node" "walk adj pn"
    using inv pn by (auto simp: sp_inv_def)
  have c: "c = pn @ [t]" by (simp add: c_def path_of_def pn)
  show ?thesis
  proof (cases "case map_of paths t of None \<Rightarrow> True | Some current \<Rightarrow> path_key c < path_key current")
    case False
    then obtain cur where cur: "map_of paths t = Some cur" "path_key cur \<le> path_key c"
      by (auto split: option.splits)
    then have "sp_ok paths node t" by (simp add: sp_ok_def c_def)
    moreover have "paths' = paths" "pending' = pending"
      using step False unfolding c_def sp_relax.simps Let_def by (metis prod.inject)+
    ultimately show ?thesis using inv node by (auto simp: sp_inv_def)
  next
    case True
    then have new: "paths' = AList.update t c paths" "pending' = pending @ [t]"
      using step unfolding c_def sp_relax.simps Let_def by (metis prod.inject)+
    have m': "map_of paths' = (map_of paths)(t \<mapsto> c)" using new by (simp add: update_conv')
    have "t \<noteq> root"
    proof
      assume "t = root"
      then have "path_key c < path_key [root]" using True inv by (simp add: sp_inv_def)
      then show False using wn(1) by (auto simp: path_key_def less_prod_def c)
    qed
    moreover have "distinct (map fst paths')"
      using inv new by (simp add: sp_inv_def distinct_update)
    moreover have "c \<noteq> []" "hd c = root" "last c = t" "walk adj c"
      using wn t by (auto simp: c walk_snoc adj_rel_def)
    moreover have "m \<in> set pending' \<or> (\<forall>t' \<in> set (adj_get adj m). (m, t') \<in> todo - {(node, t)} \<or> sp_ok paths' m t')"
      if m: "m \<in> dom (map_of paths')" for m
    proof (cases "m = t \<or> m \<in> set pending")
      case True
      then show ?thesis by (auto simp: new)
    next
      case other: False
      then have same: "path_of paths' m = path_of paths m" by (simp add: path_of_def m')
      have "(m, t') \<in> todo - {(node, t)} \<or> sp_ok paths' m t'" if t': "t' \<in> set (adj_get adj m)" for t'
      proof (cases "t' = t")
        case tt: True
        show ?thesis
        proof (cases "m = node")
          case True
          then show ?thesis using tt same by (simp add: sp_ok_def m' c_def)
        next
          case False
          have "(m, t) \<in> todo \<or> sp_ok paths m t"
            using inv m other t' tt by (auto simp: sp_inv_def m')
          moreover have "sp_ok paths' m t" if "sp_ok paths m t"
            using that True same by (auto simp: sp_ok_def m')
          ultimately show ?thesis using tt False by auto
        qed
      next
        case False
        have "(m, t') \<in> todo \<or> sp_ok paths m t'"
          using inv m other t' by (auto simp: sp_inv_def m')
        then show ?thesis using False same by (auto simp: sp_ok_def m')
      qed
      then show ?thesis by blast
    qed
    ultimately show ?thesis
      using inv node by (auto simp: sp_inv_def m' new(2))
  qed
qed

lemma foldl_sp_relax_inv:
  assumes "sp_inv adj root paths pending todo" and "node \<in> dom (map_of paths)"
    and "set ts \<subseteq> set (adj_get adj node)" and "foldl (sp_relax node) (paths, pending) ts = (paths', pending')"
  shows "sp_inv adj root paths' pending' (todo - {node} \<times> set ts)"
  using assms
proof (induction ts arbitrary: paths pending todo)
  case (Cons t ts)
  obtain p1 q1 where s: "sp_relax node (paths, pending) t = (p1, q1)" by fastforce
  have "sp_inv adj root p1 q1 (todo - {(node, t)})" "node \<in> dom (map_of p1)"
    using sp_relax_inv [OF Cons.prems(1,2) _ s] Cons.prems(3) by auto
  from Cons.IH [OF this] Cons.prems(3,4) s
  have "sp_inv adj root paths' pending' (todo - {(node, t)} - {node} \<times> set ts)" by simp
  moreover have "todo - {(node, t)} - {node} \<times> set ts = todo - {node} \<times> set (t # ts)" by auto
  ultimately show ?case by simp
qed simp

lemma sp_loop_inv:
  assumes "sp_inv adj root paths pending {}"
  shows "sp_inv adj root (sp_loop adj paths pending) [] {}"
  using assms
proof (induction adj paths pending rule: sp_loop.induct)
  case (2 adj paths node pending)
  obtain p1 q1 where s: "foldl (sp_relax node) (paths, pending) (adj_get adj node) = (p1, q1)"
    by fastforce
  let ?todo = "{node} \<times> set (adj_get adj node)"
  have "sp_inv adj root paths pending ?todo" "node \<in> dom (map_of paths)"
    using "2.prems" by (auto simp: sp_inv_def)
  from foldl_sp_relax_inv [OF this subset_refl s] have "sp_inv adj root p1 q1 {}" by simp
  with "2.IH" [OF s [symmetric]] s show ?case by simp
qed simp

text \<open>The walks from a root to a node, and the least of them.\<close>

definition walks :: "adjacency \<Rightarrow> resource_ref \<Rightarrow> resource_ref \<Rightarrow> resource_ref list set" where
  "walks adj r n = {p. p \<noteq> [] \<and> hd p = r \<and> last p = n \<and> walk adj p}"

lemma shortest_paths_inv: "sp_inv adj root (shortest_paths root adj) [] {}"
  unfolding shortest_paths_def by (rule sp_loop_inv) (auto simp: sp_inv_def walk_def)

lemma shortest_paths_distinct: "distinct (map fst (shortest_paths root adj))"
  using shortest_paths_inv by (auto simp: sp_inv_def)

lemma shortest_paths_walk:
  "map_of (shortest_paths root adj) n = Some p \<Longrightarrow> p \<in> walks adj root n"
  using shortest_paths_inv [of adj root] by (auto simp: sp_inv_def walks_def)

lemma shortest_paths_least:
  assumes "q \<in> walks adj root n"
  shows "\<exists>p. map_of (shortest_paths root adj) n = Some p \<and> path_key p \<le> path_key q"
  using assms
proof (induction q arbitrary: n rule: rev_induct)
  case (snoc x q)
  note inv = shortest_paths_inv [of adj root, unfolded sp_inv_def]
  have x: "x = n" using snoc.prems by (simp add: walks_def)
  show ?case
  proof (cases "q = []")
    case True
    then show ?thesis using inv snoc.prems by (auto simp: walks_def)
  next
    case False
    then have "q \<in> walks adj root (last q)" "x \<in> set (adj_get adj (last q))"
      using snoc.prems by (auto simp: walks_def walk_snoc adj_rel_def)
    with snoc.IH obtain p where p: "map_of (shortest_paths root adj) (last q) = Some p"
      "path_key p \<le> path_key q" by blast
    then have "sp_ok (shortest_paths root adj) (last q) x"
      using inv \<open>x \<in> set (adj_get adj (last q))\<close> by auto
    then obtain r where "map_of (shortest_paths root adj) x = Some r"
      "path_key r \<le> path_key (p @ [x])"
      using p by (auto simp: sp_ok_def path_of_def)
    with path_key_snoc [OF p(2), of x] x show ?thesis by auto
  qed
qed (simp add: walks_def)

lemma walks_reach: "(r, n) \<in> (adj_rel adj)\<^sup>* \<longleftrightarrow> walks adj r n \<noteq> {}"
  using walk_reaches [of adj] reaches_walk [of r n adj] by (auto simp: walks_def)

lemma dom_shortest_paths: "dom (map_of (shortest_paths root adj)) = (adj_rel adj)\<^sup>* `` {root}"
proof (rule set_eqI)
  fix n
  have "n \<in> dom (map_of (shortest_paths root adj)) \<longleftrightarrow> walks adj root n \<noteq> {}"
    using shortest_paths_walk [of root adj n] shortest_paths_least [of _ adj root n] by blast
  then show "n \<in> dom (map_of (shortest_paths root adj)) \<longleftrightarrow> n \<in> (adj_rel adj)\<^sup>* `` {root}"
    by (simp add: walks_reach)
qed

section \<open>The affected region\<close>

record affected_path =
  ap_root :: resource_ref
  ap_target :: resource_ref
  ap_path :: "resource_ref list"

record affected_region =
  ar_roots :: "resource_ref list"
  affected_nodes :: "resource_ref list"
  ar_paths :: "affected_path list"

definition affected_path_key ::
  "affected_path \<Rightarrow> (string \<times> string) \<times> (string \<times> string) \<times> nat \<times> (string \<times> string) list" where
  "affected_path_key i = (node_key (ap_root i), node_key (ap_target i), path_key (ap_path i))"

definition semantic_edge :: "resource_ref list \<Rightarrow> edge \<Rightarrow> bool" where
  "semantic_edge quarantined e \<longleftrightarrow> edge_type e \<in> {CONTAINS, BLOCKS, REQUIRES_GATE}
     \<and> source e \<notin> set quarantined \<and> target e \<notin> set quarantined"

definition traverse_affected_region ::
  "resource_ref list \<Rightarrow> edge list \<Rightarrow> resource_ref list \<Rightarrow> affected_region" where
  "traverse_affected_region roots es quarantined = (let
     resolved_roots = filter (\<lambda>n. n \<notin> set quarantined) (sorted_node_set roots);
     semantic_edges = filter (semantic_edge quarantined) es;
     all_nodes = sorted_node_set (resolved_roots @ nodes_from_edges semantic_edges);
     adj = adjacency all_nodes semantic_edges;
     found = map (\<lambda>root. (root, shortest_paths root adj)) resolved_roots;
     affected = concat (map (\<lambda>(root, shortest). map fst shortest) found);
     paths = concat (map (\<lambda>(root, shortest).
       map (\<lambda>(t, p). \<lparr>ap_root = root, ap_target = t, ap_path = p\<rparr>) shortest) found)
   in \<lparr>ar_roots = resolved_roots, affected_nodes = sorted_node_set affected,
       ar_paths = sort_key affected_path_key paths\<rparr>)"

text \<open>The edges along which a change spreads, away from the quarantined nodes.\<close>

definition semantic_rel :: "edge list \<Rightarrow> resource_ref list \<Rightarrow> (resource_ref \<times> resource_ref) set" where
  "semantic_rel es quarantined = {(source e, target e) | e. e \<in> set es \<and> semantic_edge quarantined e}"

definition semantic_walks :: "edge list \<Rightarrow> resource_ref list \<Rightarrow> resource_ref \<Rightarrow> resource_ref
    \<Rightarrow> resource_ref list set" where
  "semantic_walks es quarantined r n = {p. p \<noteq> [] \<and> hd p = r \<and> last p = n
     \<and> successively (\<lambda>a b. (a, b) \<in> semantic_rel es quarantined) p}"

lemma semantic_adjacency:
  "adj_rel (adjacency ns (filter (semantic_edge quarantined) es)) = semantic_rel es quarantined"
  by (auto simp: adj_rel_adjacency semantic_rel_def)

lemma distinct_entries:
  "distinct rs \<Longrightarrow> (\<And>r. distinct (map fst (f r))) \<Longrightarrow>
     distinct (map (\<lambda>i. (ap_root i, ap_target i)) (concat (map (\<lambda>r.
       map (\<lambda>(t, p). \<lparr>ap_root = r, ap_target = t, ap_path = p\<rparr>) (f r)) rs)))"
proof (induction rs)
  case (Cons r rs)
  have "map (\<lambda>i. (ap_root i, ap_target i)) (map (\<lambda>(t, p). \<lparr>ap_root = r, ap_target = t, ap_path = p\<rparr>) (f r))
      = map (Pair r) (map fst (f r))"
    by (simp add: case_prod_beta)
  moreover have "distinct (map (Pair r) (map fst (f r)))"
    using Cons.prems(2) [of r] by (subst distinct_map) (auto intro: inj_onI)
  ultimately show ?case using Cons by (auto simp: case_prod_beta comp_def)
qed simp

text \<open>
  C8: a change at the roots affects exactly the nodes reachable from a root that is not
  quarantined, along containment, block and gate edges that avoid quarantined nodes. There is one
  path per affected pair, and it is the least such walk: shortest first, then lexicographic.
\<close>

theorem traverse_affected_region_correct:
  "let region = traverse_affected_region roots es quarantined;
       R = semantic_rel es quarantined
   in set (ar_roots region) = set roots - set quarantined
     \<and> set (affected_nodes region) = R\<^sup>* `` (set roots - set quarantined)
     \<and> distinct (affected_nodes region) \<and> sorted (map node_key (affected_nodes region))
     \<and> distinct (map (\<lambda>i. (ap_root i, ap_target i)) (ar_paths region))
     \<and> (\<lambda>i. (ap_root i, ap_target i)) ` set (ar_paths region)
         = {(r, n). r \<in> set roots - set quarantined \<and> (r, n) \<in> R\<^sup>*}
     \<and> list_all (\<lambda>i. is_arg_min path_key (\<lambda>p. p \<in> semantic_walks es quarantined (ap_root i) (ap_target i))
         (ap_path i)) (ar_paths region)"
proof -
  define rs where "rs = filter (\<lambda>n. n \<notin> set quarantined) (sorted_node_set roots)"
  define ses where "ses = filter (semantic_edge quarantined) es"
  define adj where "adj = adjacency (sorted_node_set (rs @ nodes_from_edges ses)) ses"
  let ?R = "semantic_rel es quarantined" and ?region = "traverse_affected_region roots es quarantined"
  have adj: "adj_rel adj = ?R" by (simp add: adj_def ses_def semantic_adjacency)
  have rs: "set rs = set roots - set quarantined" "distinct rs" by (auto simp: rs_def)
  define entries where "entries = concat (map (\<lambda>r. map (\<lambda>(t, p). \<lparr>ap_root = r, ap_target = t, ap_path = p\<rparr>)
    (shortest_paths r adj)) rs)"
  have region: "ar_roots ?region = rs"
    "affected_nodes ?region = sorted_node_set (concat (map (\<lambda>r. map fst (shortest_paths r adj)) rs))"
    "ar_paths ?region = sort_key affected_path_key entries"
    by (simp_all add: traverse_affected_region_def Let_def rs_def ses_def adj_def entries_def comp_def)
  have keys: "fst ` set (shortest_paths r adj) = ?R\<^sup>* `` {r}" for r
    using dom_shortest_paths [of r adj] by (simp add: dom_map_of_conv_image_fst adj)
  have walks: "walks adj r n = semantic_walks es quarantined r n" for r n
    by (simp add: walks_def semantic_walks_def walk_def adj)
  have least: "is_arg_min path_key (\<lambda>p. p \<in> semantic_walks es quarantined r n) p"
    if "(n, p) \<in> set (shortest_paths r adj)" for r n p
  proof -
    have "map_of (shortest_paths r adj) n = Some p"
      using that shortest_paths_distinct by (intro map_of_is_SomeI) auto
    then show ?thesis
      using shortest_paths_walk [of r adj n p] shortest_paths_least [of _ adj r n]
      unfolding walks by (force simp: is_arg_min_linorder)
  qed
  have pairs: "(\<lambda>i. (ap_root i, ap_target i)) ` set entries
      = {(r, n). r \<in> set roots - set quarantined \<and> (r, n) \<in> ?R\<^sup>*}"
  proof -
    have "(\<lambda>i. (ap_root i, ap_target i)) ` set entries = (\<Union>r \<in> set rs. Pair r ` fst ` set (shortest_paths r adj))"
      by (force simp: entries_def)
    then show ?thesis unfolding keys rs(1) [symmetric] by auto
  qed
  have "set (affected_nodes ?region) = (\<Union>r \<in> set rs. fst ` set (shortest_paths r adj))"
    by (simp add: region)
  then have "set (affected_nodes ?region) = ?R\<^sup>* `` (set roots - set quarantined)"
    unfolding keys rs(1) by auto
  moreover have "distinct (map (\<lambda>i. (ap_root i, ap_target i)) (sort_key affected_path_key entries))"
  proof -
    have "mset (map (\<lambda>i. (ap_root i, ap_target i)) (sort_key affected_path_key entries))
        = mset (map (\<lambda>i. (ap_root i, ap_target i)) entries)" by simp
    from mset_eq_imp_distinct_iff [OF this] show ?thesis
      using distinct_entries [OF rs(2), of "\<lambda>r. shortest_paths r adj", folded entries_def]
        shortest_paths_distinct by blast
  qed
  moreover have "list_all (\<lambda>i. is_arg_min path_key (\<lambda>p. p \<in> semantic_walks es quarantined (ap_root i) (ap_target i))
         (ap_path i)) entries"
  proof (unfold list_all_iff, rule ballI)
    fix i assume "i \<in> set entries"
    then obtain r n p where "i = \<lparr>ap_root = r, ap_target = n, ap_path = p\<rparr>"
      "(n, p) \<in> set (shortest_paths r adj)" by (auto simp: entries_def)
    with least [of n p r] show "is_arg_min path_key
        (\<lambda>p. p \<in> semantic_walks es quarantined (ap_root i) (ap_target i)) (ap_path i)" by simp
  qed
  moreover have "sorted (map node_key (affected_nodes ?region))" "distinct (affected_nodes ?region)"
    by (simp_all add: region sorted_node_set_def sorted_nodes_def)
  ultimately show ?thesis
    using pairs rs(1) unfolding Let_def region(1,3) list_all_iff set_sort by blast
qed

end
