(* ===== verification/Graph_Scc.thy ===== *)
theory Graph_Scc
  imports Graph
begin

text \<open>
  The strongly connected components of \<open>domain/graph.py\<close>: Tarjan's traversal over the mutable
  \<open>_TarjanState\<close>, and the search for a cycle through the first member of a component. The state
  record has the fields of the class; dictionaries are maps.
\<close>

section \<open>Tarjan's traversal\<close>

record tarjan_state =
  next_index :: nat
  stack :: "resource_ref list"
  on_stack :: "resource_ref set"
  indices :: "resource_ref \<rightharpoonup> nat"
  low_links :: "resource_ref \<rightharpoonup> nat"
  components :: "resource_ref list list"

definition empty_tarjan :: tarjan_state where
  "empty_tarjan = \<lparr>next_index = 0, stack = [], on_stack = {}, indices = Map.empty,
     low_links = Map.empty, components = []\<rparr>"

definition enter_node :: "resource_ref \<Rightarrow> tarjan_state \<Rightarrow> tarjan_state" where
  "enter_node node st = st\<lparr>indices := (indices st)(node \<mapsto> next_index st),
     low_links := (low_links st)(node \<mapsto> next_index st), next_index := next_index st + 1,
     stack := stack st @ [node], on_stack := insert node (on_stack st)\<rparr>"

text \<open>The loop of \<open>_pop_component\<close>: the members in the order they are popped, and the stack left.\<close>

function pop_members :: "resource_ref \<Rightarrow> resource_ref list \<Rightarrow> resource_ref list \<times> resource_ref list" where
  "pop_members root stk =
     (if stk = [] then ([], [])
      else let member = last stk; rest = butlast stk in
        if member = root then ([member], rest)
        else (case pop_members root rest of (members, left) \<Rightarrow> (member # members, left)))"
  by pat_completeness auto
termination by (relation "measure (length \<circ> snd)") auto

declare pop_members.simps [simp del]

definition pop_component :: "resource_ref \<Rightarrow> tarjan_state \<Rightarrow> tarjan_state" where
  "pop_component root st = (case pop_members root (stack st) of (members, left) \<Rightarrow>
     st\<lparr>stack := left, on_stack := on_stack st - set members,
        components := components st @ [sorted_nodes members]\<rparr>)"

definition leave_node :: "resource_ref \<Rightarrow> tarjan_state \<Rightarrow> tarjan_state" where
  "leave_node node st = (if low_links st node = indices st node then pop_component node st else st)"

definition lower_link :: "resource_ref \<Rightarrow> nat option \<Rightarrow> tarjan_state \<Rightarrow> tarjan_state" where
  "lower_link node n st = st\<lparr>low_links := (low_links st)(node \<mapsto> min (the (low_links st node)) (the n))\<rparr>"

text \<open>
  \<open>visit_edges\<close> is the loop of \<open>visit\<close> over the targets of a node, with \<open>_visit_target\<close> as its body
  and the recursive call of \<open>visit\<close> inside it.
\<close>

function visit_edges :: "adjacency \<Rightarrow> resource_ref \<Rightarrow> resource_ref list \<Rightarrow> tarjan_state \<Rightarrow> tarjan_state" where
  "visit_edges adj node [] st = st"
| "visit_edges adj node (t # ts) st =
     (if indices st t = None then
        let st' = leave_node t (visit_edges adj t (adj_get adj t) (enter_node t st))
        in visit_edges adj node ts (lower_link node (low_links st' t) st')
      else if t \<in> on_stack st then
        visit_edges adj node ts (lower_link node (indices st t) st)
      else visit_edges adj node ts st)"
  by pat_completeness auto

lemma indices_simps [simp]:
  "indices (lower_link node n st) = indices st"
  "indices (leave_node node st) = indices st"
  "indices (enter_node node st) = (indices st)(node \<mapsto> next_index st)"
  by (simp_all add: lower_link_def leave_node_def pop_component_def enter_node_def split: prod.splits)

lemma indices_grow:
  "visit_edges_dom (adj, node, ts, st) \<Longrightarrow> dom (indices st) \<subseteq> dom (indices (visit_edges adj node ts st))"
proof (induction rule: visit_edges.pinduct)
  case (2 adj node t ts st)
  show ?case
  proof (cases "indices st t = None")
    case True
    let ?st = "leave_node t (visit_edges adj t (adj_get adj t) (enter_node t st))"
    have "dom (indices st) \<subseteq> dom (indices ?st)"
      using "2.IH"(1) [OF True] unfolding indices_simps dom_fun_upd by auto
    also have "\<dots> \<subseteq> dom (indices (visit_edges adj node ts (lower_link node (low_links ?st t) ?st)))"
      using "2.IH"(2) [OF True refl] by simp
    finally show ?thesis
      using True 2(1) by (simp add: visit_edges.psimps Let_def)
  next
    case False
    with 2 show ?thesis by (cases "t \<in> on_stack st") (auto simp: visit_edges.psimps)
  qed
qed (simp add: visit_edges.psimps)

termination visit_edges
proof (relation "inv_image (finite_psubset <*lex*> less_than)
    (\<lambda>(adj, node, ts, st). (adj_nodes adj - dom (indices st), length ts))", goal_cases)
  case 1
  show ?case by (intro wf_inv_image wf_lex_prod wf_finite_psubset wf_less_than)
next
  case (2 adj node t ts st)
  then have "t \<notin> dom (indices st)" by auto
  then show ?case
    using adj_get_outside [of t adj] by (cases "t \<in> adj_nodes adj") (auto simp: finite_psubset_def)
next
  case (3 adj node t ts st st')
  then have "insert t (dom (indices st)) \<subseteq> dom (indices st')"
    using indices_grow [of adj t "adj_get adj t" "enter_node t st"] by simp
  then have "adj_nodes adj - dom (indices st') \<subseteq> adj_nodes adj - dom (indices st)" by blast
  then show ?case by (auto simp: finite_psubset_def)
qed auto

definition tarjan_visit :: "adjacency \<Rightarrow> resource_ref \<Rightarrow> tarjan_state \<Rightarrow> tarjan_state" where
  "tarjan_visit adj node st = leave_node node (visit_edges adj node (adj_get adj node) (enter_node node st))"

fun tarjan_run :: "adjacency \<Rightarrow> resource_ref list \<Rightarrow> tarjan_state \<Rightarrow> tarjan_state" where
  "tarjan_run adj [] st = st"
| "tarjan_run adj (n # ns) st =
     tarjan_run adj ns (if indices st n = None then tarjan_visit adj n st else st)"

section \<open>A cycle through the first member\<close>

text \<open>\<open>search\<close> of \<open>_find_component_cycle\<close>; \<open>search_edges\<close> is its loop over the targets.\<close>

function search_edges :: "adjacency \<Rightarrow> resource_ref set \<Rightarrow> resource_ref \<Rightarrow> resource_ref list
    \<Rightarrow> resource_ref list \<Rightarrow> resource_ref set \<Rightarrow> resource_ref list" where
  "search_edges adj member_set start [] path visited = []"
| "search_edges adj member_set start (t # ts) path visited =
     (if t \<notin> member_set then search_edges adj member_set start ts path visited
      else if t = start then path @ [start]
      else if t \<in> visited then search_edges adj member_set start ts path visited
      else let found = search_edges adj member_set start (adj_get adj t) (path @ [t]) (insert t visited)
        in if found \<noteq> [] then found else search_edges adj member_set start ts path visited)"
  by pat_completeness auto

termination search_edges
proof (relation "inv_image (finite_psubset <*lex*> less_than)
    (\<lambda>(adj, ms, start, ts, path, visited). (adj_nodes adj - visited, length ts))", goal_cases)
  case 1
  show ?case by (intro wf_inv_image wf_lex_prod wf_finite_psubset wf_less_than)
next
  case (4 adj ms start t ts path visited)
  then show ?case
    using adj_get_outside [of t adj] by (cases "t \<in> adj_nodes adj") (auto simp: finite_psubset_def)
qed auto

definition find_component_cycle :: "resource_ref list \<Rightarrow> adjacency \<Rightarrow> resource_ref list" where
  "find_component_cycle members adj = (let start = hd members in
     search_edges adj (set members) start (adj_get adj start) [start] {start})"

record dependency_component =
  members :: "resource_ref list"
  cyclic :: bool
  cycle_path :: "resource_ref list"

definition component_of :: "adjacency \<Rightarrow> resource_ref list \<Rightarrow> dependency_component" where
  "component_of adj ms = (let
     cyc = (length ms > 1 \<or> (length ms = 1 \<and> hd ms \<in> set (adj_get adj (hd ms))))
   in \<lparr>members = ms, cyclic = cyc, cycle_path = (if cyc then find_component_cycle ms adj else [])\<rparr>)"

definition strongly_connected_components :: "resource_ref list \<Rightarrow> adjacency \<Rightarrow> dependency_component list" where
  "strongly_connected_components nodes adj = (let state = tarjan_run adj nodes empty_tarjan in
     sort_key (\<lambda>c. node_key (hd (members c))) (map (component_of adj) (components state)))"

end
