(* ===== verification/Graph_Containment.thy ===== *)
theory Graph_Containment
  imports Graph
begin

text \<open>
  \<open>validate_containment_dag\<close> of \<open>domain/graph.py\<close>: a depth-first search for a directed cycle, then
  Kahn's algorithm with a sorted ready list. The lemmas show that the search reports a cycle
  exactly when there is one, and that the order is a permutation of the nodes with every parent
  before its children.
\<close>

section \<open>Cycle search\<close>

text \<open>
  \<open>visit\<close> of \<open>_find_directed_cycle\<close>. The state is \<open>visited\<close> and the \<open>active\<close> list (\<open>active_set\<close> is its
  set). \<open>visit_targets\<close> is the loop over the targets of a node, with the recursive call of \<open>visit\<close>
  in its body; the returned path is \<open>[]\<close> when nothing was found.
\<close>

definition list_index :: "resource_ref list \<Rightarrow> resource_ref \<Rightarrow> nat" where
  "list_index xs x = length (takeWhile (\<lambda>y. y \<noteq> x) xs)"

function visit_targets :: "adjacency \<Rightarrow> resource_ref list \<Rightarrow> resource_ref set \<Rightarrow> resource_ref list
    \<Rightarrow> resource_ref list \<times> resource_ref set \<times> resource_ref list" where
  "visit_targets adj [] visited active = ([], visited, active)"
| "visit_targets adj (t # ts) visited active =
     (if t \<notin> visited then
        (case visit_targets adj (adj_get adj t) (insert t visited) (active @ [t]) of
          (found, visited', active') \<Rightarrow>
            if found \<noteq> [] then (found, visited', active')
            else visit_targets adj ts visited' (butlast active'))
      else if t \<in> set active then
        (drop (list_index active t) active @ [t], visited, active)
      else visit_targets adj ts visited active)"
  by pat_completeness auto

lemma visited_grows:
  "visit_targets_dom (adj, ts, visited, active) \<Longrightarrow>
     visited \<subseteq> fst (snd (visit_targets adj ts visited active))"
proof (induction rule: visit_targets.pinduct)
  case (2 adj t ts visited active)
  then show ?case
    by (auto simp: visit_targets.psimps split: prod.splits if_splits; blast)
qed (simp add: visit_targets.psimps)

lemma visit_step_decreases:
  assumes "t \<notin> visited"
  shows "adj_nodes adj - insert t visited \<subset> adj_nodes adj - visited
    \<or> adj_nodes adj - insert t visited = adj_nodes adj - visited \<and> adj_get adj t = []"
  using assms adj_get_outside [of t adj] by blast

termination visit_targets
proof (relation "inv_image (finite_psubset <*lex*> less_than)
    (\<lambda>(adj, ts, visited, active). (adj_nodes adj - visited, length ts))", goal_cases)
  case 1
  show ?case by (intro wf_inv_image wf_lex_prod wf_finite_psubset wf_less_than)
next
  case (2 adj t ts visited active)
  then have "t \<notin> visited" by simp
  from visit_step_decreases [OF this, of adj] show ?case
    by (elim disjE conjE) (simp_all add: finite_psubset_def)
next
  case (3 adj t ts visited active x y visited' active')
  then have "insert t visited \<subseteq> visited'"
    using visited_grows [of adj "adj_get adj t" "insert t visited" "active @ [t]"]
    by (metis fst_conv snd_conv)
  then have "adj_nodes adj - visited' \<subseteq> adj_nodes adj - visited" by blast
  then show ?case by (auto simp: finite_psubset_def)
next
  case (4 adj t ts visited active)
  then show ?case by auto
qed

definition visit :: "adjacency \<Rightarrow> resource_ref \<Rightarrow> resource_ref set \<Rightarrow> resource_ref list
    \<Rightarrow> resource_ref list \<times> resource_ref set \<times> resource_ref list" where
  "visit adj node visited active =
     (case visit_targets adj (adj_get adj node) (insert node visited) (active @ [node]) of
       (found, visited', active') \<Rightarrow>
         if found \<noteq> [] then (found, visited', active') else ([], visited', butlast active'))"

fun find_cycle_from :: "adjacency \<Rightarrow> resource_ref list \<Rightarrow> resource_ref set \<Rightarrow> resource_ref list
    \<Rightarrow> resource_ref list" where
  "find_cycle_from adj [] visited active = []"
| "find_cycle_from adj (node # nodes) visited active =
     (if node \<notin> visited then
        (case visit adj node visited active of (found, visited', active') \<Rightarrow>
          if found \<noteq> [] then found else find_cycle_from adj nodes visited' active')
      else find_cycle_from adj nodes visited active)"

definition find_directed_cycle :: "resource_ref list \<Rightarrow> adjacency \<Rightarrow> resource_ref list" where
  "find_directed_cycle nodes adj = find_cycle_from adj nodes {} []"

text \<open>A reported path is a closed walk along edges.\<close>

definition is_cycle :: "adjacency \<Rightarrow> resource_ref list \<Rightarrow> bool" where
  "is_cycle adj p \<longleftrightarrow> 2 \<le> length p \<and> hd p = last p \<and> walk adj p"

lemma walk_drop: "walk adj p \<Longrightarrow> walk adj (drop n p)"
  by (metis append_take_drop_id successively_append_iff walk_def)

lemma drop_list_index:
  assumes "x \<in> set xs"
  shows "\<exists>ys. drop (list_index xs x) xs = x # ys"
proof -
  obtain as bs where xs: "xs = as @ x # bs" "x \<notin> set as"
    using split_list_first [OF assms] by blast
  then have "\<forall>y \<in> set as. y \<noteq> x" by auto
  then have "takeWhile (\<lambda>y. y \<noteq> x) xs = as" by (simp add: xs(1) takeWhile_append2)
  then show ?thesis by (simp add: list_index_def xs(1))
qed

lemma active_restored:
  "fst (visit_targets adj ts visited active) = [] \<Longrightarrow> snd (snd (visit_targets adj ts visited active)) = active"
  by (induction adj ts visited active rule: visit_targets.induct)
    (auto split: prod.splits if_splits)

lemma visit_targets_sound:
  assumes "fst (visit_targets adj ts visited active) \<noteq> []" and "walk adj active"
    and "\<forall>t \<in> set ts. active \<noteq> [] \<longrightarrow> (last active, t) \<in> adj_rel adj"
  shows "is_cycle adj (fst (visit_targets adj ts visited active))"
  using assms
proof (induction adj ts visited active rule: visit_targets.induct)
  case (2 adj t ts visited active)
  obtain f v a where r: "visit_targets adj (adj_get adj t) (insert t visited) (active @ [t]) = (f, v, a)"
    by (metis prod_cases3)
  consider "t \<notin> visited" "f \<noteq> []" | "t \<notin> visited" "f = []"
    | "t \<in> visited" "t \<in> set active" | "t \<in> visited" "t \<notin> set active" by blast
  then show ?case
  proof cases
    case 1
    then have "fst (visit_targets adj (adj_get adj t) (insert t visited) (active @ [t])) \<noteq> []"
      by (simp add: r)
    from "2.IH"(1) [OF 1(1) this] "2.prems"(2,3) show ?thesis
      using 1 by (simp add: r walk_snoc adj_rel_def)
  next
    case 2
    then have "a = active @ [t]"
      using active_restored [of adj "adj_get adj t" "insert t visited" "active @ [t]"] r by simp
    then show ?thesis
      using "2.IH"(2) [OF 2(1) r [symmetric] refl] "2.prems" 2 r by simp
  next
    case 3
    obtain ys where ys: "drop (list_index active t) active = t # ys"
      using drop_list_index [OF 3(2)] by blast
    have "walk adj (t # ys)" using walk_drop [OF "2.prems"(2)] ys by metis
    moreover have "last (t # ys) = last active"
      by (metis last_drop ys drop_all linorder_not_le list.distinct(1))
    moreover have "(last active, t) \<in> adj_rel adj"
      using 3(2) "2.prems"(3) by fastforce
    ultimately show ?thesis
      using 3 ys walk_snoc [of adj "t # ys" t] by (simp add: is_cycle_def)
  next
    case 4
    then show ?thesis using "2.IH"(3) "2.prems" by simp
  qed
qed simp

text \<open>
  A search that finds nothing. The nodes that are visited and no longer active are closed under
  edges, and no cycle runs through them.
\<close>

definition search_inv :: "adjacency \<Rightarrow> resource_ref set \<Rightarrow> resource_ref list \<Rightarrow> bool" where
  "search_inv adj visited active \<longleftrightarrow> set active \<subseteq> visited
     \<and> adj_rel adj `` (visited - set active) \<subseteq> visited - set active
     \<and> acyclic {(a, b) \<in> adj_rel adj. a \<in> visited - set active}"

lemma acyclic_add_source:
  assumes "acyclic {(a, b) \<in> R. a \<in> D}" and "R `` D \<subseteq> D" and "R `` {t} \<subseteq> D" and "t \<notin> D"
  shows "acyclic {(a, b) \<in> R. a \<in> insert t D}"
proof (rule acyclicI, intro allI notI)
  let ?S = "{(a, b) \<in> R. a \<in> insert t D}"
  fix x assume "(x, x) \<in> ?S\<^sup>+"
  have "b \<in> D \<and> (a \<in> D \<longrightarrow> (a, b) \<in> {(a, b) \<in> R. a \<in> D}\<^sup>+)" if "(a, b) \<in> ?S\<^sup>+" for a b
    using that
  proof induction
    case (base y)
    then show ?case using assms(2,3) by auto
  next
    case (step y z)
    then have "(y, z) \<in> {(a, b) \<in> R. a \<in> D}" "z \<in> D" using assms(2,3) by auto
    with step show ?case by (meson trancl.trancl_into_trancl)
  qed
  from this [OF \<open>(x, x) \<in> ?S\<^sup>+\<close>] assms(1) show False by (auto simp: acyclic_def)
qed

lemma visit_targets_complete:
  assumes "fst (visit_targets adj ts visited active) = []" and "search_inv adj visited active"
  shows "search_inv adj (fst (snd (visit_targets adj ts visited active))) active
    \<and> visited \<subseteq> fst (snd (visit_targets adj ts visited active))
    \<and> set ts \<subseteq> fst (snd (visit_targets adj ts visited active)) - set active"
  using assms
proof (induction adj ts visited active rule: visit_targets.induct)
  case (2 adj t ts visited active)
  obtain f v a where r: "visit_targets adj (adj_get adj t) (insert t visited) (active @ [t]) = (f, v, a)"
    by (metis prod_cases3)
  consider "t \<notin> visited" "f \<noteq> []" | "t \<notin> visited" "f = []"
    | "t \<in> visited" "t \<in> set active" | "t \<in> visited" "t \<notin> set active" by blast
  then show ?case
  proof cases
    case 2
    then have a: "a = active @ [t]"
      using active_restored [of adj "adj_get adj t" "insert t visited" "active @ [t]"] r by simp
    have dn: "insert t visited - set (active @ [t]) = visited - set active"
      using 2(1) "2.prems"(2) by (auto simp: search_inv_def)
    have "search_inv adj (insert t visited) (active @ [t])"
      using "2.prems"(2) unfolding search_inv_def dn by auto
    from "2.IH"(1) [OF 2(1) _ this] have inner: "search_inv adj v (active @ [t])"
      "insert t visited \<subseteq> v" "set (adj_get adj t) \<subseteq> v - set (active @ [t])"
      using r 2(2) by simp_all
    have t: "t \<notin> set active" using 2(1) "2.prems"(2) by (auto simp: search_inv_def)
    then have popped: "v - set active = insert t (v - set (active @ [t]))" using inner(2) by auto
    have "adj_rel adj `` {t} \<subseteq> v - set (active @ [t])" using inner(3) by (auto simp: adj_rel_def)
    moreover have "acyclic {(a, b) \<in> adj_rel adj. a \<in> v - set (active @ [t])}"
      "adj_rel adj `` (v - set (active @ [t])) \<subseteq> v - set (active @ [t])"
      using inner(1) unfolding search_inv_def by blast+
    ultimately have "search_inv adj v active"
      unfolding search_inv_def popped
      using acyclic_add_source [of "adj_rel adj" "v - set (active @ [t])" t] inner(1)
      by (auto simp: search_inv_def)
    moreover have rest: "visit_targets adj (t # ts) visited active = visit_targets adj ts v active"
      using 2 r a by simp
    ultimately show ?thesis
      using "2.IH"(2) [OF 2(1) r [symmetric] refl] "2.prems"(1) 2(2) a inner(2) t
      unfolding rest by auto
  next
    case 4
    with "2.IH"(3) "2.prems" show ?thesis by auto
  qed (use "2.prems" r in auto)
qed simp

lemma visit_as_targets:
  "node \<notin> visited \<Longrightarrow> visit adj node visited active = visit_targets adj [node] visited active"
  by (auto simp: visit_def split: prod.splits)

lemma find_cycle_from_spec:
  assumes "search_inv adj visited []"
  shows "(find_cycle_from adj nodes visited [] \<noteq> []
        \<longrightarrow> is_cycle adj (find_cycle_from adj nodes visited []))
    \<and> (find_cycle_from adj nodes visited [] = []
        \<longrightarrow> (\<exists>v. search_inv adj v [] \<and> visited \<union> set nodes \<subseteq> v))"
  using assms
proof (induction nodes arbitrary: visited)
  case (Cons n nodes)
  show ?case
  proof (cases "n \<in> visited")
    case False
    obtain f v a where r: "visit_targets adj [n] visited [] = (f, v, a)" by (metis prod_cases3)
    show ?thesis
    proof (cases "f = []")
      case True
      with r have "a = []" using active_restored [of adj "[n]" visited "[]"] by simp
      moreover have "search_inv adj v []" "visited \<subseteq> v" "n \<in> v"
        using visit_targets_complete [of adj "[n]" visited "[]"] r True Cons.prems by auto
      moreover have "find_cycle_from adj (n # nodes) visited [] = find_cycle_from adj nodes v []"
        using False True r \<open>a = []\<close> by (simp add: visit_as_targets del: visit_targets.simps)
      moreover have "visited \<union> set (n # nodes) \<subseteq> w" if "v \<union> set nodes \<subseteq> w" for w
        using that \<open>visited \<subseteq> v\<close> \<open>n \<in> v\<close> by auto
      ultimately show ?thesis using Cons.IH [of v] by metis
    next
      case found: False
      then have "is_cycle adj f"
        using visit_targets_sound [of adj "[n]" visited "[]"] r by (simp add: walk_def)
      with found False r show ?thesis by (simp add: visit_as_targets del: visit_targets.simps)
    qed
  next
    case True
    have "visited \<union> set (n # nodes) \<subseteq> w" if "visited \<union> set nodes \<subseteq> w" for w
      using that True by auto
    moreover have "find_cycle_from adj (n # nodes) visited [] = find_cycle_from adj nodes visited []"
      using True by simp
    ultimately show ?thesis using Cons.IH [OF Cons.prems] by metis
  qed
qed auto

lemma is_cycle_not_acyclic:
  assumes "is_cycle adj p"
  shows "\<not> acyclic (adj_rel adj)"
proof -
  obtain a b q where p: "p = a # b # q"
    using assms by (cases p; cases "tl p") (auto simp: is_cycle_def)
  have "walk adj (a # b # q)" using assms by (simp only: is_cycle_def p)
  then have "walk adj (b # q)" "(a, b) \<in> adj_rel adj" by (simp_all add: walk_def)
  then have "(b, last p) \<in> (adj_rel adj)\<^sup>*" "(a, b) \<in> adj_rel adj"
    using walk_reaches [of adj "b # q"] by (simp_all add: p)
  then have "(a, last p) \<in> (adj_rel adj)\<^sup>+" by (rule rtrancl_into_trancl2 [rotated])
  moreover have "a = last p" using assms p by (simp add: is_cycle_def)
  ultimately show ?thesis by (auto simp: acyclic_def)
qed

lemma find_directed_cycle_spec:
  assumes "adj_nodes adj \<subseteq> set nodes"
  shows "(find_directed_cycle nodes adj = [] \<longleftrightarrow> acyclic (adj_rel adj))
    \<and> (find_directed_cycle nodes adj \<noteq> [] \<longrightarrow> is_cycle adj (find_directed_cycle nodes adj))"
proof -
  have "search_inv adj {} []" by (simp add: search_inv_def acyclic_def)
  note spec = find_cycle_from_spec [OF this, of nodes, folded find_directed_cycle_def]
  have "acyclic (adj_rel adj)" if "search_inv adj v []" "set nodes \<subseteq> v" for v
  proof -
    have "adj_rel adj = {(a, b) \<in> adj_rel adj. a \<in> v - set []}"
      using assms that(2) by (auto dest: adj_rel_nodes)
    then show ?thesis using that(1) unfolding search_inv_def by metis
  qed
  with spec is_cycle_not_acyclic show ?thesis by (metis Un_subset_iff)
qed

section \<open>Topological order\<close>

definition in_degrees :: "adjacency \<Rightarrow> resource_ref \<Rightarrow> int" where
  "in_degrees adj = foldl (\<lambda>d ts. foldl (\<lambda>d t. d(t := d t + 1)) d ts) (\<lambda>_. 0) (map snd adj)"

text \<open>The body of the loop over the targets of the popped node.\<close>

fun relax :: "(resource_ref \<Rightarrow> int) \<times> resource_ref list \<Rightarrow> resource_ref
    \<Rightarrow> (resource_ref \<Rightarrow> int) \<times> resource_ref list" where
  "relax (d, ready) t = (let d' = d(t := d t - 1) in
     if d' t = 0 then (d', sorted_nodes (ready @ [t])) else (d', ready))"

lemma relax_size:
  assumes "foldl relax (d, ready) ts = (d', ready')" and "set ts \<subseteq> U" and "finite U"
  shows "card {x \<in> U. 0 < d' x} + length ready' \<le> card {x \<in> U. 0 < d x} + length ready"
  using assms(1,2)
proof (induction ts arbitrary: d ready)
  case (Cons t ts)
  obtain d1 r1 where s: "relax (d, ready) t = (d1, r1)" by (cases "relax (d, ready) t") auto
  then have d1: "d1 = d(t := d t - 1)" by (auto simp: Let_def split: if_splits)
  have "card {x \<in> U. 0 < d1 x} + length r1 \<le> card {x \<in> U. 0 < d x} + length ready"
  proof (cases "d t = 1")
    case True
    then have "{x \<in> U. 0 < d x} = insert t {x \<in> U. 0 < d1 x}"
      using Cons.prems(2) d1 by auto
    moreover have "t \<notin> {x \<in> U. 0 < d1 x}" using True d1 by simp
    ultimately show ?thesis using s True \<open>finite U\<close> by auto
  next
    case False
    then have "{x \<in> U. 0 < d1 x} \<subseteq> {x \<in> U. 0 < d x}" using d1 by auto
    then have "card {x \<in> U. 0 < d1 x} \<le> card {x \<in> U. 0 < d x}"
      using \<open>finite U\<close> by (intro card_mono) auto
    then show ?thesis using s False by auto
  qed
  with Cons.IH [of d1 r1] Cons.prems s show ?case by simp
qed simp

function kahn :: "adjacency \<Rightarrow> (resource_ref \<Rightarrow> int) \<Rightarrow> resource_ref list \<Rightarrow> resource_ref list
    \<Rightarrow> resource_ref list" where
  "kahn adj d [] ordered = ordered"
| "kahn adj d (n # ready) ordered =
     (case foldl relax (d, ready) (adj_get adj n) of
       (d', ready') \<Rightarrow> kahn adj d' ready' (ordered @ [n]))"
  by pat_completeness auto

termination kahn
proof (relation "measure (\<lambda>(adj, d, ready, ordered). card {x \<in> adj_nodes adj. 0 < d x} + length ready)",
    goal_cases)
  case (2 adj d n ready ordered d' ready')
  then show ?case
    using relax_size [of d ready "adj_get adj n" d' ready' "adj_nodes adj"] adj_get_nodes by fastforce
qed simp

record containment_analysis =
  ca_nodes :: "resource_ref list"
  topological_order :: "resource_ref list"

definition validate_containment_dag :: "edge list \<Rightarrow> containment_analysis result" where
  "validate_containment_dag es = (let
     contains_edges = filter (\<lambda>e. edge_type e = CONTAINS) es;
     nodes = nodes_from_edges contains_edges;
     adj = adjacency nodes contains_edges;
     cycle_path = find_directed_cycle nodes adj
   in if cycle_path \<noteq> []
      then Inl (DomainInvariantError CONTAINMENT_CYCLE ''contains''
        (''containment cycle detected: '' @ join '' -> '' (map node_label cycle_path)))
      else let in_degree = in_degrees adj;
               ready = sorted_nodes (filter (\<lambda>n. in_degree n = 0) nodes)
        in Inr \<lparr>ca_nodes = nodes, topological_order = kahn adj in_degree ready []\<rparr>)"

text \<open>What one round of relaxation does to the degrees and to the ready list.\<close>

lemma foldl_relax:
  assumes "foldl relax (d, ready) ts = (d', ready')" and "distinct ts"
  shows "d' = (\<lambda>x. if x \<in> set ts then d x - 1 else d x)
    \<and> mset ready' = mset ready + mset (filter (\<lambda>t. d t = 1) ts)"
  using assms
proof (induction ts arbitrary: d ready)
  case (Cons t ts)
  define r1 where "r1 = (if d t = 1 then sorted_nodes (ready @ [t]) else ready)"
  have "foldl relax (d(t := d t - 1), r1) ts = (d', ready')"
    using Cons.prems(1) by (auto simp: r1_def Let_def split: if_splits)
  note ih = Cons.IH [OF this]
  have "filter (\<lambda>x. (d(t := d t - 1)) x = 1) ts = filter (\<lambda>x. d x = 1) ts"
    using Cons.prems(2) by (intro filter_cong) auto
  then have "mset ready' = mset r1 + mset (filter (\<lambda>x. d x = 1) ts)"
    using ih Cons.prems(2) by simp
  moreover have "d' = (\<lambda>x. if x \<in> set (t # ts) then d x - 1 else d x)"
    using ih Cons.prems(2) by auto
  ultimately show ?case by (auto simp: r1_def)
qed simp

text \<open>The initial degrees count the parents of a node.\<close>

lemma foldl_increment:
  "distinct ts \<Longrightarrow> foldl (\<lambda>d t. d(t := d t + 1)) d ts = (\<lambda>x. d x + (if x \<in> set ts then 1 else (0::int)))"
  by (induction ts arbitrary: d) auto

lemma foldl_degrees:
  assumes "\<forall>(n, ts) \<in> set adj. distinct ts"
  shows "foldl (\<lambda>d ts. foldl (\<lambda>d t. d(t := d t + 1)) d ts) d (map snd adj) x
    = d x + int (length (filter (\<lambda>(n, ts). x \<in> set ts) adj))"
  using assms by (induction adj arbitrary: d) (auto simp: foldl_increment)

lemma in_degrees_spec:
  assumes "distinct (map fst adj)" and "\<forall>(n, ts) \<in> set adj. distinct ts"
  shows "in_degrees adj x = int (card {s. (s, x) \<in> adj_rel adj})"
proof -
  let ?f = "filter (\<lambda>(n, ts). x \<in> set ts) adj"
  have d: "distinct (map fst ?f)" using assms(1) by (rule distinct_map_filter)
  have "{s. (s, x) \<in> adj_rel adj} = set (map fst ?f)"
    using assms(1) by (force simp: adj_rel_def adj_get_def split: option.splits dest: map_of_SomeD)
  then have "card {s. (s, x) \<in> adj_rel adj} = length ?f"
    using distinct_card [OF d] by simp
  then show ?thesis using foldl_degrees [OF assms(2), of "\<lambda>_. 0" x] by (simp add: in_degrees_def)
qed

definition kahn_inv :: "adjacency \<Rightarrow> (resource_ref \<Rightarrow> int) \<Rightarrow> resource_ref list \<Rightarrow> resource_ref list \<Rightarrow> bool" where
  "kahn_inv adj d ready ordered \<longleftrightarrow> distinct (ready @ ordered) \<and> set (ready @ ordered) \<subseteq> adj_nodes adj
     \<and> (\<forall>x \<in> adj_nodes adj. d x = int (card {s \<in> adj_nodes adj - set ordered. (s, x) \<in> adj_rel adj}))
     \<and> (\<forall>x \<in> adj_nodes adj. d x = 0 \<longleftrightarrow> x \<in> set (ready @ ordered))
     \<and> sorted_wrt (\<lambda>a b. (b, a) \<notin> adj_rel adj) ordered
     \<and> (\<forall>x \<in> set ordered. \<forall>s. (s, x) \<in> adj_rel adj \<longrightarrow> s \<in> set ordered)"

lemma kahn_inv_step:
  assumes inv: "kahn_inv adj d (n # ready) ordered" and "distinct (adj_get adj n)"
    and step: "foldl relax (d, ready) (adj_get adj n) = (d', ready')" and "(n, n) \<notin> adj_rel adj"
  shows "kahn_inv adj d' ready' (ordered @ [n])"
proof -
  let ?N = "adj_nodes adj" and ?E = "adj_rel adj" and ?T = "adj_get adj n"
  from inv have dist0: "distinct ((n # ready) @ ordered)" and sub: "set ((n # ready) @ ordered) \<subseteq> ?N"
    and dx: "\<And>x. x \<in> ?N \<Longrightarrow> d x = int (card {s \<in> ?N - set ordered. (s, x) \<in> ?E})"
    and zero: "\<And>x. x \<in> ?N \<Longrightarrow> d x = 0 \<longleftrightarrow> x \<in> set ((n # ready) @ ordered)"
    and srt: "sorted_wrt (\<lambda>a b. (b, a) \<notin> ?E) ordered"
    and prd: "\<And>x s. x \<in> set ordered \<Longrightarrow> (s, x) \<in> ?E \<Longrightarrow> s \<in> set ordered"
    unfolding kahn_inv_def by blast+
  have n: "n \<in> ?N" "n \<notin> set ordered" "n \<notin> set ready" using dist0 sub by auto
  have d': "d' = (\<lambda>x. if x \<in> set ?T then d x - 1 else d x)"
    and r': "mset ready' = mset ready + mset (filter (\<lambda>t. d t = 1) ?T)"
    using foldl_relax [OF step assms(2)] by simp_all
  have set_r': "set ready' = set ready \<union> {t \<in> set ?T. d t = 1}"
    using mset_eq_setD [of ready' "ready @ filter (\<lambda>t. d t = 1) ?T"] r' by auto
  have TN: "set ?T \<subseteq> ?N" using adj_get_nodes by blast
  have pos: "0 < d x" if "x \<in> set ?T" for x
  proof -
    have "n \<in> {s \<in> ?N - set ordered. (s, x) \<in> ?E}" using n that by (auto simp: adj_rel_def)
    then have "0 < card {s \<in> ?N - set ordered. (s, x) \<in> ?E}" by (subst card_gt_0_iff) auto
    then show ?thesis using dx [of x] that TN by auto
  qed
  have deg: "d' x = int (card {s \<in> ?N - set (ordered @ [n]). (s, x) \<in> ?E})" if x: "x \<in> ?N" for x
  proof (cases "x \<in> set ?T")
    case True
    have "{s \<in> ?N - set ordered. (s, x) \<in> ?E} = insert n {s \<in> ?N - set (ordered @ [n]). (s, x) \<in> ?E}"
      using True n by (auto simp: adj_rel_def)
    then have "card {s \<in> ?N - set ordered. (s, x) \<in> ?E}
        = Suc (card {s \<in> ?N - set (ordered @ [n]). (s, x) \<in> ?E})" by simp
    then show ?thesis using True d' dx [OF x] by simp
  next
    case False
    then have "{s \<in> ?N - set ordered. (s, x) \<in> ?E} = {s \<in> ?N - set (ordered @ [n]). (s, x) \<in> ?E}"
      by (auto simp: adj_rel_def)
    then show ?thesis using False d' dx [OF x] by simp
  qed
  have preds: "s \<in> set ordered" if "(s, n) \<in> ?E" for s
  proof -
    have "d n = 0" using zero [OF n(1)] by simp
    then have "card {s \<in> ?N - set ordered. (s, n) \<in> ?E} = 0" using dx [OF n(1)] by simp
    then have "{s \<in> ?N - set ordered. (s, n) \<in> ?E} = {}" by (subst (asm) card_eq_0_iff) auto
    then show ?thesis using that adj_rel_nodes by blast
  qed
  have dist: "distinct (ready' @ ordered @ [n])"
  proof -
    have "distinct (ready @ filter (\<lambda>t. d t = 1) ?T)"
      using dist0 assms(2) zero TN by fastforce
    then have "distinct ready'" using r' by (metis mset_append mset_eq_imp_distinct_iff)
    moreover have "set ready' \<inter> set (ordered @ [n]) = {}"
      using dist0 zero TN n unfolding set_r' by fastforce
    ultimately show ?thesis using dist0 n by auto
  qed
  have "d' x = 0 \<longleftrightarrow> x \<in> set (ready' @ ordered @ [n])" if "x \<in> ?N" for x
    using zero [OF that] pos [of x] unfolding d' set_append set_r' by auto
  moreover have "set (ready' @ ordered @ [n]) \<subseteq> ?N"
    using sub TN unfolding set_append set_r' by auto
  moreover have "sorted_wrt (\<lambda>a b. (b, a) \<notin> ?E) (ordered @ [n])"
    using srt prd n(2) by (auto simp: sorted_wrt_append)
  moreover have "s \<in> set (ordered @ [n])" if "x \<in> set (ordered @ [n])" "(s, x) \<in> ?E" for x s
    using that preds prd by auto
  ultimately show ?thesis
    using deg dist unfolding kahn_inv_def by blast
qed

lemma kahn_spec:
  assumes "kahn_inv adj d ready ordered" and "\<forall>n. distinct (adj_get adj n)" and "acyclic (adj_rel adj)"
  shows "distinct (kahn adj d ready ordered) \<and> set (kahn adj d ready ordered) = adj_nodes adj
    \<and> sorted_wrt (\<lambda>a b. (b, a) \<notin> adj_rel adj) (kahn adj d ready ordered)"
  using assms
proof (induction adj d ready ordered rule: kahn.induct)
  case (1 adj d ordered)
  let ?M = "adj_nodes adj - set ordered"
  have "?M = {}"
  proof (rule ccontr)
    assume "?M \<noteq> {}"
    moreover have "wf (adj_rel adj)" using 1(3) by (simp add: finite_acyclic_wf)
    ultimately obtain z where z: "z \<in> ?M" "\<And>y. (y, z) \<in> adj_rel adj \<Longrightarrow> y \<notin> ?M"
      using wfE_min [of "adj_rel adj" _ ?M] by (metis all_not_in_conv)
    then have "{s \<in> ?M. (s, z) \<in> adj_rel adj} = {}" by auto
    then have "d z = 0" using 1(1) z(1) by (simp add: kahn_inv_def)
    then show False using 1(1) z(1) by (auto simp: kahn_inv_def)
  qed
  then show ?case using 1(1) by (auto simp: kahn_inv_def)
next
  case (2 adj d n ready ordered)
  obtain d' r' where s: "foldl relax (d, ready) (adj_get adj n) = (d', r')" by fastforce
  have "(n, n) \<notin> adj_rel adj" using "2.prems"(3) by (auto simp: acyclic_def)
  then have "kahn_inv adj d' r' (ordered @ [n])"
    using kahn_inv_step [OF "2.prems"(1) _ s] "2.prems"(2) by blast
  with "2.IH" [OF s [symmetric]] "2.prems" s show ?case by simp
qed

section \<open>Properties\<close>

text \<open>The containment relation of a set of edges.\<close>

definition contains_rel :: "edge list \<Rightarrow> (resource_ref \<times> resource_ref) set" where
  "contains_rel es = {(source e, target e) | e. e \<in> set es \<and> edge_type e = CONTAINS}"

lemma contains_adjacency:
  fixes es :: "edge list"
  defines "ces \<equiv> filter (\<lambda>e. edge_type e = CONTAINS) es"
  defines "adj \<equiv> adjacency (nodes_from_edges ces) ces"
  shows "adj_rel adj = contains_rel es" and "adj_nodes adj = set (nodes_from_edges ces)"
    and "set (nodes_from_edges ces) = Field (contains_rel es)"
  by (auto simp: adj_def ces_def adj_rel_adjacency adj_nodes_adjacency set_nodes_from_edges
      contains_rel_def Field_def)

lemma kahn_inv_start:
  assumes "distinct (map fst adj)" and "\<forall>(n, ts) \<in> set adj. distinct ts"
    and "distinct nodes" and "set nodes = adj_nodes adj"
  shows "kahn_inv adj (in_degrees adj) (sorted_nodes (filter (\<lambda>n. in_degrees adj n = 0) nodes)) []"
  using assms(3,4) adj_rel_nodes
  by (auto simp: kahn_inv_def in_degrees_spec [OF assms(1,2)] intro: arg_cong [of _ _ card])

text \<open>
  C6: a containment graph is rejected exactly when it has a cycle, with a closed walk along its
  edges rendered in the message; otherwise the result lists every node once, parents before
  children.
\<close>

theorem validate_containment_correct:
  "case validate_containment_dag es of
     Inl e \<Rightarrow> (\<exists>p. 2 \<le> length p \<and> hd p = last p
       \<and> successively (\<lambda>a b. (a, b) \<in> contains_rel es) p
       \<and> e = DomainInvariantError CONTAINMENT_CYCLE ''contains''
           (''containment cycle detected: '' @ join '' -> '' (map node_label p)))
       \<and> \<not> acyclic (contains_rel es)
   | Inr a \<Rightarrow> acyclic (contains_rel es)
       \<and> distinct (topological_order a) \<and> set (topological_order a) = Field (contains_rel es)
       \<and> set (ca_nodes a) = Field (contains_rel es) \<and> sorted (map node_key (ca_nodes a))
       \<and> sorted_wrt (\<lambda>x y. (y, x) \<notin> contains_rel es) (topological_order a)"
proof -
  define ces where "ces = filter (\<lambda>e. edge_type e = CONTAINS) es"
  define nodes where "nodes = nodes_from_edges ces"
  define adj where "adj = adjacency nodes ces"
  note facts = contains_adjacency [of es, folded ces_def, folded nodes_def, folded adj_def]
  have cyc: "find_directed_cycle nodes adj = [] \<longleftrightarrow> acyclic (contains_rel es)"
    "find_directed_cycle nodes adj \<noteq> [] \<Longrightarrow> is_cycle adj (find_directed_cycle nodes adj)"
    using find_directed_cycle_spec [of adj nodes] facts by simp_all
  show ?thesis
  proof (cases "find_directed_cycle nodes adj = []")
    case True
    let ?order = "kahn adj (in_degrees adj)
      (sorted_nodes (filter (\<lambda>n. in_degrees adj n = 0) nodes)) []"
    have "kahn_inv adj (in_degrees adj) (sorted_nodes (filter (\<lambda>n. in_degrees adj n = 0) nodes)) []"
      using facts adjacency_distinct_targets [of nodes ces]
      by (intro kahn_inv_start) (simp_all add: adj_def nodes_def nodes_from_edges_def)
    from kahn_spec [OF this] have "distinct ?order \<and> set ?order = adj_nodes adj
        \<and> sorted_wrt (\<lambda>a b. (b, a) \<notin> contains_rel es) ?order"
      using True cyc facts by (simp add: adj_def)
    moreover have "validate_containment_dag es
        = Inr \<lparr>ca_nodes = nodes, topological_order = ?order\<rparr>"
      using True by (simp add: validate_containment_dag_def Let_def ces_def nodes_def adj_def)
    moreover have "sorted (map node_key nodes)"
      by (simp add: nodes_def nodes_from_edges_def sorted_node_set_def sorted_nodes_def)
    ultimately show ?thesis using True cyc facts by simp
  next
    case False
    then have "validate_containment_dag es = Inl (DomainInvariantError CONTAINMENT_CYCLE ''contains''
        (''containment cycle detected: '' @ join '' -> '' (map node_label (find_directed_cycle nodes adj))))"
      by (simp add: validate_containment_dag_def Let_def ces_def nodes_def adj_def)
    then show ?thesis
      using False cyc facts by (auto simp: is_cycle_def walk_def)
  qed
qed

definition demo_node :: "string \<Rightarrow> resource_ref" where
  "demo_node v = ResourceRef PROGRAM (Ulid ProgramId v)"

definition demo_edge :: "edge_type \<Rightarrow> string \<Rightarrow> string \<Rightarrow> edge" where
  "demo_edge ty s t = \<lparr>edge_id = Ulid EdgeId ''E'', edge_tenant_id = Ulid TenantId ''T'',
     edge_workspace_id = Ulid WorkspaceId ''W'', edge_type = ty, source = demo_node s,
     target = demo_node t, edge_created_at = Datetime 0 (Some 0), origin = USER,
     edge_provenance = ''p'', subtype = None\<rparr>"

theorem validate_containment_correct_witness:
  "isl (validate_containment_dag [demo_edge CONTAINS ''a'' ''b'', demo_edge CONTAINS ''b'' ''a''])"
proof -
  let ?es = "[demo_edge CONTAINS ''a'' ''b'', demo_edge CONTAINS ''b'' ''a'']"
  have "(demo_node ''a'', demo_node ''b'') \<in> contains_rel ?es"
    "(demo_node ''b'', demo_node ''a'') \<in> contains_rel ?es"
    by (auto simp: contains_rel_def demo_edge_def intro: exI [of _ "demo_edge CONTAINS ''a'' ''b''"]
        exI [of _ "demo_edge CONTAINS ''b'' ''a''"])
  then have "\<not> acyclic (contains_rel ?es)"
    unfolding acyclic_def by (meson trancl.r_into_trancl trancl_trans)
  with validate_containment_correct [of ?es] show ?thesis
    by (auto split: sum.splits)
qed

end
