(* ===== verification/Graph_Analysis.thy ===== *)
theory Graph_Analysis
  imports Graph_Paths Graph_Scc Graph_Containment
begin

text \<open>
  \<open>analyze_dependency_graph\<close> of \<open>domain/graph.py\<close>: cyclic components of the block graph are
  quarantined and the blocker, fan-out and root-cause indexes are built on what is left.
\<close>

section \<open>Indexes\<close>

definition blocker_index :: "resource_ref list \<Rightarrow> edge list \<Rightarrow> block_subtype
    \<Rightarrow> (resource_ref \<times> resource_ref list) list" where
  "blocker_index nodes es st = map
     (\<lambda>n. (n, sorted_node_set (map source (filter (\<lambda>e. subtype e = Some st \<and> target e = n) es))))
     (sorted_nodes nodes)"

definition root_cause_index :: "resource_ref list \<Rightarrow> adjacency
    \<Rightarrow> (resource_ref \<times> resource_ref list list) list" where
  "root_cause_index nodes adj = (let
     in_degree = in_degrees adj;
     roots = sorted_nodes (filter (\<lambda>n. in_degree n = 0) nodes);
     paths_by_root = map (\<lambda>root. shortest_paths root adj) roots
   in map (\<lambda>tgt. (tgt, List.map_filter (\<lambda>paths. map_of paths tgt) paths_by_root)) nodes)"

record dependency_projection =
  evaluable_nodes :: "resource_ref list"
  hard_blockers_by_target :: "(resource_ref \<times> resource_ref list) list"
  soft_blockers_by_target :: "(resource_ref \<times> resource_ref list) list"
  downstream_fan_out :: "(resource_ref \<times> nat) list"
  root_cause_paths_by_target :: "(resource_ref \<times> resource_ref list list) list"

definition lookup_node_tuple :: "(resource_ref \<times> 'a list) list \<Rightarrow> resource_ref \<Rightarrow> 'a list" where
  "lookup_node_tuple idx n = (case map_of idx n of Some vs \<Rightarrow> vs | None \<Rightarrow> [])"

definition hard_blockers_for :: "dependency_projection \<Rightarrow> resource_ref \<Rightarrow> resource_ref list" where
  "hard_blockers_for p n = lookup_node_tuple (hard_blockers_by_target p) n"

definition soft_blockers_for :: "dependency_projection \<Rightarrow> resource_ref \<Rightarrow> resource_ref list" where
  "soft_blockers_for p n = lookup_node_tuple (soft_blockers_by_target p) n"

definition fan_out_for :: "dependency_projection \<Rightarrow> resource_ref \<Rightarrow> nat" where
  "fan_out_for p n = (case map_of (downstream_fan_out p) n of Some c \<Rightarrow> c | None \<Rightarrow> 0)"

definition root_cause_paths_for :: "dependency_projection \<Rightarrow> resource_ref \<Rightarrow> resource_ref list list" where
  "root_cause_paths_for p n = lookup_node_tuple (root_cause_paths_by_target p) n"

record dependency_analysis =
  da_components :: "dependency_component list"
  invalid_components :: "dependency_component list"
  projection :: dependency_projection
  da_attention :: "attention_basis list"

section \<open>The analysis\<close>

fun require_work_items :: "resource_ref list \<Rightarrow> unit result" where
  "require_work_items [] = Inr ()"
| "require_work_items (n # ns) =
     (if kind n \<noteq> WORK_ITEM then Inl (DomainInvariantError INVALID_EDGE ''nodes''
        ''dependency graph accepts WorkItem nodes only'')
      else require_work_items ns)"

definition component_attention :: "dependency_component \<Rightarrow> attention_basis" where
  "component_attention c = \<lparr>category = ''invalid_dependency_component'', severity = CRITICAL,
     ab_field = ''blocks'',
     deterministic_basis = ''dependency_scc='' @ join '','' (map node_label (members c))
       @ '';cycle_path='' @ join '' -> '' (map node_label (cycle_path c))\<rparr>"

definition analyze_dependency_graph ::
  "resource_ref list \<Rightarrow> edge list \<Rightarrow> dependency_analysis result" where
  "analyze_dependency_graph nodes es = (let
     block_edges = filter (\<lambda>e. edge_type e = BLOCKS) es;
     all_nodes = sorted_node_set (nodes @ nodes_from_edges block_edges)
   in bind_result (require_work_items all_nodes) (\<lambda>_. let
     adj = adjacency all_nodes block_edges;
     comps = strongly_connected_components all_nodes adj;
     invalid = filter cyclic comps;
     invalid_nodes = concat (map members invalid);
     evaluable = filter (\<lambda>n. n \<notin> set invalid_nodes) all_nodes;
     valid_edges = filter (\<lambda>e. source e \<notin> set invalid_nodes \<and> target e \<notin> set invalid_nodes) block_edges;
     valid_adjacency = adjacency evaluable valid_edges
   in Inr \<lparr>da_components = comps, invalid_components = invalid,
       projection = \<lparr>evaluable_nodes = evaluable,
         hard_blockers_by_target = blocker_index evaluable valid_edges HARD,
         soft_blockers_by_target = blocker_index evaluable valid_edges SOFT,
         downstream_fan_out = fan_out_index evaluable valid_adjacency,
         root_cause_paths_by_target = root_cause_index evaluable valid_adjacency\<rparr>,
       da_attention = map component_attention invalid\<rparr>))"

end
