(* ===== verification/Graph_Scc_Props.thy ===== *)
theory Graph_Scc_Props
  imports Graph_Analysis
begin

text \<open>
  Tarjan's traversal is correct: its components are the strongly connected components of the graph, and
  \<open>analyze_dependency_graph\<close> quarantines exactly the nodes on a cycle. The state of the traversal is
  specified against the set of nodes that are being visited (\<open>active\<close>).
\<close>

section \<open>The environment of a visit\<close>

definition is_scc :: "('a \<times> 'a) set \<Rightarrow> 'a set \<Rightarrow> bool" where
  "is_scc E S \<longleftrightarrow> S \<noteq> {} \<and> (\<forall>x \<in> S. \<forall>y. y \<in> S \<longleftrightarrow> (x, y) \<in> E\<^sup>* \<and> (y, x) \<in> E\<^sup>*)"

abbreviation idx :: "tarjan_state \<Rightarrow> resource_ref \<Rightarrow> nat" where
  "idx st x \<equiv> the (indices st x)"

abbreviation low :: "tarjan_state \<Rightarrow> resource_ref \<Rightarrow> nat" where
  "low st x \<equiv> the (low_links st x)"

definition settled :: "tarjan_state \<Rightarrow> resource_ref set" where
  "settled st = \<Union> (set ` set (components st))"

text \<open>
  The stack is ordered by index and holds what is indexed and not settled; a node that is no longer
  active has only indexed successors, a settled one only settled successors; an active node reaches
  everything above it on the stack, and everything on the stack reaches an active node below it.
\<close>

definition env :: "adjacency \<Rightarrow> resource_ref set \<Rightarrow> tarjan_state \<Rightarrow> bool" where
  "env adj active st \<longleftrightarrow>
     on_stack st = set (stack st) \<and> sorted_wrt (\<lambda>a b. idx st a < idx st b) (stack st)
     \<and> dom (indices st) = set (stack st) \<union> settled st \<and> set (stack st) \<inter> settled st = {}
     \<and> (\<forall>x \<in> dom (indices st). idx st x < next_index st)
     \<and> dom (low_links st) = dom (indices st) \<and> dom (indices st) \<subseteq> adj_nodes adj
     \<and> active \<subseteq> set (stack st)
     \<and> adj_rel adj `` (dom (indices st) - active) \<subseteq> dom (indices st)
     \<and> adj_rel adj `` settled st \<subseteq> settled st
     \<and> (\<forall>x \<in> active. \<forall>y \<in> set (stack st). idx st x \<le> idx st y \<longrightarrow> (x, y) \<in> (adj_rel adj)\<^sup>*)
     \<and> (\<forall>y \<in> set (stack st). \<exists>x \<in> active. idx st x \<le> idx st y \<and> (y, x) \<in> (adj_rel adj)\<^sup>*)
     \<and> (\<forall>c \<in> set (components st). is_scc (adj_rel adj) (set c)) \<and> distinct (concat (components st))"

lemma envD:
  assumes "env adj active st"
  shows "on_stack st = set (stack st)" and "sorted_wrt (\<lambda>a b. idx st a < idx st b) (stack st)"
    and "dom (indices st) = set (stack st) \<union> settled st" and "set (stack st) \<inter> settled st = {}"
    and "\<And>x. x \<in> dom (indices st) \<Longrightarrow> idx st x < next_index st"
    and "active \<subseteq> set (stack st)"
    and "adj_rel adj `` (dom (indices st) - active) \<subseteq> dom (indices st)"
    and "adj_rel adj `` settled st \<subseteq> settled st"
    and "\<And>x y. x \<in> active \<Longrightarrow> y \<in> set (stack st) \<Longrightarrow> idx st x \<le> idx st y \<Longrightarrow> (x, y) \<in> (adj_rel adj)\<^sup>*"
    and "\<And>y. y \<in> set (stack st) \<Longrightarrow> \<exists>x \<in> active. idx st x \<le> idx st y \<and> (y, x) \<in> (adj_rel adj)\<^sup>*"
    and "\<And>c. c \<in> set (components st) \<Longrightarrow> is_scc (adj_rel adj) (set c)" and "distinct (concat (components st))"
    and "dom (low_links st) = dom (indices st)" and "dom (indices st) \<subseteq> adj_nodes adj"
  using assms unfolding env_def
  by - (elim conjE, assumption | elim conjE, erule (1) bspec
      | elim conjE, drule (1) bspec, drule (1) bspec, erule (1) mp)+

text \<open>
  What the loop over the targets of \<open>node\<close> leaves, compared with its start \<open>st\<close>: the stack has grown by
  nodes whose edges into the old stack, like those of \<open>node\<close> itself, are accounted for in its low link,
  and a lowered link is the index of a stack node that is reachable.
\<close>

definition edges_post :: "adjacency \<Rightarrow> resource_ref set \<Rightarrow> resource_ref \<Rightarrow> resource_ref list
    \<Rightarrow> tarjan_state \<Rightarrow> tarjan_state \<Rightarrow> bool" where
  "edges_post adj active node ts st st' \<longleftrightarrow> env adj active st' \<and> indices st \<subseteq>\<^sub>m indices st'
     \<and> set ts \<subseteq> dom (indices st')
     \<and> (\<forall>x \<in> dom (indices st) - {node}. low_links st' x = low_links st x)
     \<and> low st' node \<le> low st node
     \<and> (low st' node = low st node \<or> (\<exists>z \<in> set (stack st'). idx st' z = low st' node \<and> (node, z) \<in> (adj_rel adj)\<^sup>*))
     \<and> (\<exists>new. stack st' = stack st @ new
          \<and> (\<forall>y \<in> set new. \<forall>z \<in> set (stack st). (y, z) \<in> adj_rel adj \<longrightarrow> low st' node \<le> idx st z))
     \<and> (\<forall>z \<in> set ts \<inter> set (stack st). low st' node \<le> idx st z)"

text \<open>What a whole visit leaves: the node is settled, or it stays on the stack with a smaller low link.\<close>

definition visit_post :: "adjacency \<Rightarrow> resource_ref set \<Rightarrow> resource_ref \<Rightarrow> tarjan_state \<Rightarrow> tarjan_state \<Rightarrow> bool" where
  "visit_post adj active t st st' \<longleftrightarrow> env adj active st' \<and> indices st \<subseteq>\<^sub>m indices st'
     \<and> indices st' t = Some (next_index st)
     \<and> (\<forall>x \<in> dom (indices st). low_links st' x = low_links st x)
     \<and> (stack st' = stack st \<and> low st' t = next_index st
        \<or> (\<exists>new. stack st' = stack st @ new
             \<and> (\<forall>y \<in> set new. \<forall>z \<in> set (stack st). (y, z) \<in> adj_rel adj \<longrightarrow> low st' t \<le> idx st z))
          \<and> (\<exists>z \<in> set (stack st). idx st z = low st' t \<and> (t, z) \<in> (adj_rel adj)\<^sup>*))"

lemma idx_extends: "indices st \<subseteq>\<^sub>m indices st' \<Longrightarrow> x \<in> dom (indices st) \<Longrightarrow> indices st' x = indices st x"
  by (auto simp: map_le_def)

lemma idx_extends_dom: "indices st \<subseteq>\<^sub>m indices st' \<Longrightarrow> x \<in> dom (indices st) \<Longrightarrow> x \<in> dom (indices st')"
  using map_le_implies_dom_le by blast

lemma sorted_idx_distinct: "sorted_wrt (\<lambda>a b. (f a :: nat) < f b) xs \<Longrightarrow> distinct xs"
  by (induction xs) auto

section \<open>Entering a node\<close>

lemma enter_simps [simp]:
  "components (enter_node t st) = components st" "settled (enter_node t st) = settled st"
  "stack (enter_node t st) = stack st @ [t]" "next_index (enter_node t st) = next_index st + 1"
  "on_stack (enter_node t st) = insert t (on_stack st)"
  "low_links (enter_node t st) = (low_links st)(t \<mapsto> next_index st)"
  by (simp_all add: enter_node_def settled_def)

lemma enter_env:
  assumes e: "env adj active st" and t: "indices st t = None" "t \<in> adj_nodes adj"
    and reach: "\<And>x. x \<in> active \<Longrightarrow> (x, t) \<in> (adj_rel adj)\<^sup>*"
  shows "env adj (insert t active) (enter_node t st)"
proof -
  let ?st = "enter_node t st"
  note f = envD [OF e]
  have old: "idx ?st x = idx st x" "x \<noteq> t" "idx st x < next_index st" if "x \<in> set (stack st)" for x
  proof -
    have "x \<in> dom (indices st)" using that f(3) by auto
    then show "idx ?st x = idx st x" "x \<noteq> t" "idx st x < next_index st" using t f(5) by auto
  qed
  have act: "x \<in> set (stack st)" if "x \<in> active" for x using that f(6) by blast
  show ?thesis unfolding env_def
  proof (intro conjI ballI impI)
    show "sorted_wrt (\<lambda>a b. idx ?st a < idx ?st b) (stack ?st)"
    proof -
      have "sorted_wrt (\<lambda>a b. idx ?st a < idx ?st b) (stack st)"
        using f(2) by (rule sorted_wrt_mono_rel [rotated]) (simp only: old)
      then show ?thesis using old by (simp add: sorted_wrt_append)
    qed
    show "x \<in> insert t active \<Longrightarrow> y \<in> set (stack ?st) \<Longrightarrow> idx ?st x \<le> idx ?st y
        \<Longrightarrow> (x, y) \<in> (adj_rel adj)\<^sup>*" for x y
      using f(9) [of x y] reach [of x] old(2,3) [of x] old(1,2,3) [of y] old(1) [of x] act [of x]
      by (cases "x \<in> active"; cases "y = t"; cases "x = t") auto
    show "\<exists>x \<in> insert t active. idx ?st x \<le> idx ?st y \<and> (y, x) \<in> (adj_rel adj)\<^sup>*" if "y \<in> set (stack ?st)" for y
    proof (cases "y = t")
      case False
      with that have y: "y \<in> set (stack st)" by simp
      from f(10) [OF y] obtain x where x: "x \<in> active" "idx st x \<le> idx st y" "(y, x) \<in> (adj_rel adj)\<^sup>*" by blast
      then show ?thesis using old(1) [OF y] old(1) [OF act [OF x(1)]] by (intro bexI [of _ x]) auto
    qed auto
    show "x \<in> dom (indices ?st) \<Longrightarrow> idx ?st x < next_index ?st" for x using f(5) [of x] by (cases "x = t") (auto intro: less_SucI)
    show "set (stack ?st) \<inter> settled ?st = {}" using f(3,4) t by auto
  qed (use f t in auto)
qed

section \<open>Lowering a link\<close>

lemma lower_simps [simp]:
  "components (lower_link t n st) = components st" "settled (lower_link t n st) = settled st"
  "stack (lower_link t n st) = stack st" "next_index (lower_link t n st) = next_index st"
  "on_stack (lower_link t n st) = on_stack st"
  "low_links (lower_link t n st) = (low_links st)(t \<mapsto> min (low st t) (the n))"
  by (simp_all add: lower_link_def settled_def)

lemma lower_env: "env adj active st \<Longrightarrow> node \<in> dom (indices st) \<Longrightarrow> env adj active (lower_link node n st)"
  unfolding env_def indices_simps lower_simps
  by (elim conjE, intro conjI; (assumption | simp only: dom_fun_upd option.simps if_False insert_absorb))

section \<open>Leaving a node\<close>

lemma pop_members_append: "t \<notin> set ys \<Longrightarrow> pop_members t (xs @ t # ys) = (rev ys @ [t], xs)"
proof (induction ys rule: rev_induct)
  case Nil
  show ?case by (subst pop_members.simps) simp
next
  case (snoc y ys)
  then have "pop_members t (xs @ t # ys) = (rev ys @ [t], xs)" "y \<noteq> t" by auto
  then show ?case by (subst pop_members.simps) (simp add: butlast_append Let_def)
qed

text \<open>
  The traversal of \<open>t\<close> ends with everything above \<open>t\<close> on the stack. When no link leads below \<open>t\<close>, these
  nodes are a component: every edge out of them stays inside or ends in a settled node.
\<close>

definition visited :: "adjacency \<Rightarrow> resource_ref set \<Rightarrow> resource_ref \<Rightarrow> tarjan_state \<Rightarrow> tarjan_state
    \<Rightarrow> resource_ref list \<Rightarrow> bool" where
  "visited adj active t st st1 new \<longleftrightarrow>
     stack st1 = stack st @ t # new
     \<and> env adj (insert t active) st1
     \<and> indices st1 t = Some (next_index st)
     \<and> (\<forall>x \<in> set (stack st). idx st1 x = idx st x \<and> idx st x < next_index st)
     \<and> set (adj_get adj t) \<subseteq> dom (indices st1)
     \<and> (\<forall>x \<in> set (t # new). next_index st \<le> idx st1 x)
     \<and> indices st \<subseteq>\<^sub>m indices st1
     \<and> (\<forall>x \<in> dom (indices st). low_links st1 x = low_links st x)
     \<and> (\<forall>y \<in> set (t # new). \<forall>z \<in> set (stack st). (y, z) \<in> adj_rel adj \<longrightarrow> low st1 t \<le> idx st z)
     \<and> (low st1 t = next_index st \<or> low st1 t < next_index st
       \<and> (\<exists>z \<in> set (stack st). idx st z = low st1 t \<and> (t, z) \<in> (adj_rel adj)\<^sup>*))
     \<and> active \<subseteq> set (stack st)
     \<and> t \<notin> set new"

lemma visitedD:
  assumes "visited adj active t st st1 new"
  shows "stack st1 = stack st @ t # new"
    and "env adj (insert t active) st1"
    and "indices st1 t = Some (next_index st)"
    and "\<And>x. x \<in> set (stack st) \<Longrightarrow> idx st1 x = idx st x \<and> idx st x < next_index st"
    and "set (adj_get adj t) \<subseteq> dom (indices st1)"
    and "\<And>x. x \<in> set (t # new) \<Longrightarrow> next_index st \<le> idx st1 x"
    and "indices st \<subseteq>\<^sub>m indices st1"
    and "\<And>x. x \<in> dom (indices st) \<Longrightarrow> low_links st1 x = low_links st x"
    and "\<And>y z. y \<in> set (t # new) \<Longrightarrow> z \<in> set (stack st) \<Longrightarrow> (y, z) \<in> adj_rel adj \<Longrightarrow> low st1 t \<le> idx st z"
    and "(low st1 t = next_index st \<or> low st1 t < next_index st
       \<and> (\<exists>z \<in> set (stack st). idx st z = low st1 t \<and> (t, z) \<in> (adj_rel adj)\<^sup>*))"
    and "active \<subseteq> set (stack st)"
    and "t \<notin> set new"
  using assms unfolding visited_def
  by - (elim conjE, assumption | elim conjE, erule (1) bspec
      | elim conjE, drule (1) bspec, drule (1) bspec, erule (1) mp)+

lemma visited_sound:
  assumes "env adj active st" and "indices st t = None" and "edges_post adj (insert t active) t (adj_get adj t) (enter_node t st) st1"
  shows "\<exists>new. visited adj active t st st1 new"
proof -
  let ?st0 = "enter_node t st"
  note f = envD [OF assms(1)]
  from assms(3) obtain new where post: "env adj (insert t active) st1" "indices ?st0 \<subseteq>\<^sub>m indices st1"
      "set (adj_get adj t) \<subseteq> dom (indices st1)"
      "\<And>x. x \<in> dom (indices ?st0) - {t} \<Longrightarrow> low_links st1 x = low_links ?st0 x" "low st1 t \<le> low ?st0 t"
      "low st1 t = low ?st0 t \<or> (\<exists>z \<in> set (stack st1). idx st1 z = low st1 t \<and> (t, z) \<in> (adj_rel adj)\<^sup>*)"
      "stack st1 = stack ?st0 @ new"
      "\<And>y z. y \<in> set new \<Longrightarrow> z \<in> set (stack ?st0) \<Longrightarrow> (y, z) \<in> adj_rel adj \<Longrightarrow> low st1 t \<le> idx ?st0 z"
      "\<And>z. z \<in> set (adj_get adj t) \<inter> set (stack ?st0) \<Longrightarrow> low st1 t \<le> idx ?st0 z"
    unfolding edges_post_def by (elim conjE exE) blast
  note g = envD [OF post(1)]
  have ext: "indices st1 x = indices st x" if "x \<in> dom (indices st)" for x
    using idx_extends [OF post(2), of x] that assms(2) by (cases "x = t") auto
  have it: "indices st1 t = Some (next_index st)" using idx_extends [OF post(2), of t] by simp
  have stk: "stack st1 = stack st @ t # new" using post(7) by simp
  have old: "x \<in> dom (indices st)" "x \<noteq> t" if "x \<in> set (stack st)" for x
    using that f(3) assms(2) by auto
  have idx: "idx st1 x = idx st x \<and> idx st x < next_index st" if "x \<in> set (stack st)" for x
    using ext [OF old(1) [OF that]] f(5) [OF old(1) [OF that]] by simp
  have above: "next_index st \<le> idx st1 x" if "x \<in> set (t # new)" for x
    using g(2) that it by (auto simp: stk sorted_wrt_append)
  show ?thesis unfolding visited_def
  proof (intro exI conjI ballI impI)
    show "stack st1 = stack st @ t # new" "env adj (insert t active) st1" "indices st1 t = Some (next_index st)"
      "set (adj_get adj t) \<subseteq> dom (indices st1)" by fact+
    show "x \<in> set (stack st) \<Longrightarrow> idx st1 x = idx st x" "x \<in> set (stack st) \<Longrightarrow> idx st x < next_index st"
      "x \<in> set (t # new) \<Longrightarrow> next_index st \<le> idx st1 x" for x using idx above by blast+
    show "t \<notin> set new" using sorted_idx_distinct [OF g(2)] by (simp add: stk)
    show "indices st \<subseteq>\<^sub>m indices st1" using ext by (simp add: map_le_def)
    show "low_links st1 x = low_links st x" if "x \<in> dom (indices st)" for x
      using post(4) [of x] that assms(2) by (cases "x = t") auto
    show "low st1 t \<le> idx st z" if "y \<in> set (t # new)" "z \<in> set (stack st)" "(y, z) \<in> adj_rel adj" for y z
      using that post(8) [of y z] post(9) [of z] old(2) [OF that(2)] by (auto simp: adj_rel_def)
    show "low st1 t = next_index st \<or> low st1 t < next_index st
        \<and> (\<exists>z \<in> set (stack st). idx st z = low st1 t \<and> (t, z) \<in> (adj_rel adj)\<^sup>*)"
    proof (cases "low st1 t = next_index st")
      case False
      with post(5,6) obtain z where z: "z \<in> set (stack st1)" "idx st1 z = low st1 t" "(t, z) \<in> (adj_rel adj)\<^sup>*"
        "low st1 t < next_index st" by auto
      then have "z \<in> set (stack st)" using above [of z] by (auto simp: stk)
      then show ?thesis using z idx [of z] by auto
    qed simp
    show "active \<subseteq> set (stack st)" by (rule f(6))
  qed
qed

lemma popped_is_scc:
  assumes "env adj (insert t active) st1" and "stack st1 = stack st @ t # new" and "active \<subseteq> set (stack st)"
    and closed: "\<And>y z. y \<in> set (t # new) \<Longrightarrow> z \<in> set (stack st) \<Longrightarrow> (y, z) \<notin> adj_rel adj"
    and "set (adj_get adj t) \<subseteq> dom (indices st1)"
  shows "adj_rel adj `` (set (t # new) \<union> settled st1) \<subseteq> set (t # new) \<union> settled st1"
    and "is_scc (adj_rel adj) (set (t # new))"
proof -
  note g = envD [OF assms(1)]
  let ?M = "set (t # new)" and ?E = "adj_rel adj"
  have dist: "distinct (stack st @ t # new)" using sorted_idx_distinct [OF g(2)] by (simp only: assms(2))
  have "z \<in> dom (indices st1)" if "y \<in> ?M" "(y, z) \<in> ?E" for y z
  proof (cases "y = t")
    case True
    then show ?thesis using that assms(5) by (auto simp: adj_rel_def)
  next
    case False
    then have "y \<in> dom (indices st1) - insert t active" using that(1) assms(2,3) dist g(3) by auto
    then show ?thesis using g(7) that(2) by blast
  qed
  then show out: "?E `` (?M \<union> settled st1) \<subseteq> ?M \<union> settled st1"
    using closed g(3,8) assms(2) by (simp add: Image_subset_eq) blast
  have stay: "y \<in> ?M \<union> settled st1" if "(x, y) \<in> ?E\<^sup>*" "x \<in> ?M" for x y
    using that Image_closed_trancl [OF out] by blast
  have to: "(x, t) \<in> ?E\<^sup>*" if "x \<in> ?M" for x
  proof -
    have "x \<in> set (stack st1)" using that assms(2) by auto
    from g(10) [OF this] obtain a where a: "a \<in> insert t active" "(x, a) \<in> ?E\<^sup>*" by blast
    have "a \<notin> active" using stay [OF a(2) that] assms(2,3) dist g(4) by auto
    with a show ?thesis by simp
  qed
  have from_t: "(t, x) \<in> ?E\<^sup>*" if "x \<in> ?M" for x
    using g(2) g(9) [of t x] that by (auto simp: assms(2) sorted_wrt_append)
  show "is_scc ?E ?M" unfolding is_scc_def
  proof (intro conjI ballI allI iffI)
    show "(x, y) \<in> ?E\<^sup>*" "(y, x) \<in> ?E\<^sup>*" if "x \<in> ?M" "y \<in> ?M" for x y
      using to [OF that(1)] from_t [OF that(2)] to [OF that(2)] from_t [OF that(1)] by (meson rtrancl_trans)+
    show "y \<in> ?M" if x: "x \<in> ?M" and xy: "(x, y) \<in> ?E\<^sup>* \<and> (y, x) \<in> ?E\<^sup>*" for x y
    proof (rule ccontr)
      assume "y \<notin> ?M"
      with stay x xy have "y \<in> settled st1" by blast
      then have "x \<in> settled st1" using xy Image_closed_trancl [OF g(8)] by blast
      then show False using x g(4) assms(2) by auto
    qed
  qed simp
qed

lemma leave_simps:
  assumes "stack st1 = stk @ t # new" and "t \<notin> set new" and "low_links st1 t = indices st1 t"
  shows "stack (leave_node t st1) = stk" and "on_stack (leave_node t st1) = on_stack st1 - set (t # new)"
    and "components (leave_node t st1) = components st1 @ [sorted_nodes (rev new @ [t])]"
    and "settled (leave_node t st1) = settled st1 \<union> set (t # new)"
    and "low_links (leave_node t st1) = low_links st1" and "next_index (leave_node t st1) = next_index st1"
  using assms by (simp_all add: leave_node_def pop_component_def pop_members_append settled_def Un_commute)

lemma visit_stays:
  assumes "env adj active st" and "indices st t = None"
    and "edges_post adj (insert t active) t (adj_get adj t) (enter_node t st) st1" and "low_links st1 t \<noteq> indices st1 t"
  shows "visit_post adj active t st (leave_node t st1)"
proof -
  from visited_sound [OF assms(1-3)] obtain new where "visited adj active t st st1 new" ..
  note v = visitedD [OF this]
  note f = envD [OF assms(1)] and g = envD [OF v(2)]
  have "t \<in> dom (low_links st1)" using g(13) v(3) by auto
  then have "low st1 t \<noteq> next_index st" using assms(4) v(3) by auto
  with v(10) obtain z where z: "z \<in> set (stack st)" "idx st z = low st1 t" "(t, z) \<in> (adj_rel adj)\<^sup>*"
    "low st1 t < next_index st" by blast
  have "env adj active st1" unfolding env_def
  proof (intro conjI ballI impI)
    show "active \<subseteq> set (stack st1)" using g(6) by simp
    show "adj_rel adj `` (dom (indices st1) - active) \<subseteq> dom (indices st1)"
      using g(7) v(5) by (auto simp: adj_rel_def)
    show "\<exists>x \<in> active. idx st1 x \<le> idx st1 y \<and> (y, x) \<in> (adj_rel adj)\<^sup>*" if "y \<in> set (stack st1)" for y
    proof -
      from g(10) [OF that] obtain x where x: "x \<in> insert t active" "idx st1 x \<le> idx st1 y" "(y, x) \<in> (adj_rel adj)\<^sup>*"
        by blast
      from f(10) [OF z(1)] obtain a where a: "a \<in> active" "idx st a \<le> idx st z" "(z, a) \<in> (adj_rel adj)\<^sup>*" by blast
      show ?thesis
      proof (cases "x \<in> active")
        case False
        with x have "x = t" by simp
        then have "idx st1 a \<le> idx st1 y" using a z x(2) v(3) v(4) [of a] v(11) by auto
        moreover have "(y, a) \<in> (adj_rel adj)\<^sup>*" using x(3) z(3) a(3) \<open>x = t\<close> by (meson rtrancl_trans)
        ultimately show ?thesis using a(1) by blast
      qed (use x in blast)
    qed
  qed (use g in auto)
  moreover have "leave_node t st1 = st1" using assms(4) by (simp add: leave_node_def)
  ultimately show ?thesis using v z unfolding visit_post_def by (auto intro!: exI [of _ "t # new"])
qed

lemma visit_pops:
  assumes "env adj active st" and "indices st t = None"
    and "edges_post adj (insert t active) t (adj_get adj t) (enter_node t st) st1" and root: "low_links st1 t = indices st1 t"
  shows "visit_post adj active t st (leave_node t st1)"
proof -
  from visited_sound [OF assms(1-3)] obtain new where "visited adj active t st st1 new" ..
  note v = visitedD [OF this]
  let ?st = "leave_node t st1"
  note f = envD [OF assms(1)] and g = envD [OF v(2)] and l = leave_simps [OF v(1,12) root]
  have low: "low st1 t = next_index st" using root v(3) by simp
  have inner: "(y, z) \<notin> adj_rel adj" if "y \<in> set (t # new)" "z \<in> set (stack st)" for y z
    using v(9) [OF that] v(4) [OF that(2)] low by auto
  note scc = popped_is_scc [OF v(2,1,11) inner v(5)]
  have dist: "distinct (stack st @ t # new)" using sorted_idx_distinct [OF g(2)] by (simp only: v(1))
  have sub: "x \<in> set (stack st1)" "idx st1 x = idx st x" if "x \<in> set (stack st)" for x
    using that v(1,4) by auto
  have "env adj active ?st" unfolding env_def l indices_simps
  proof (intro conjI ballI impI)
    show "on_stack st1 - set (t # new) = set (stack st)" using g(1) dist by (auto simp: v(1))
    show "sorted_wrt (\<lambda>a b. idx st1 a < idx st1 b) (stack st)" using g(2) by (simp add: v(1) sorted_wrt_append)
    show "dom (indices st1) = set (stack st) \<union> (settled st1 \<union> set (t # new))" using g(3) by (auto simp: v(1))
    show "set (stack st) \<inter> (settled st1 \<union> set (t # new)) = {}" using g(4) dist by (auto simp: v(1))
    show "adj_rel adj `` (dom (indices st1) - active) \<subseteq> dom (indices st1)"
      using g(7) v(5) by (auto simp: adj_rel_def)
    show "adj_rel adj `` (settled st1 \<union> set (t # new)) \<subseteq> settled st1 \<union> set (t # new)"
      using scc(1) by (simp only: Un_commute)
    show "(x, y) \<in> (adj_rel adj)\<^sup>*" if "x \<in> active" "y \<in> set (stack st)" "idx st1 x \<le> idx st1 y" for x y
      using g(9) [of x y] that sub by blast
    show "\<exists>x \<in> active. idx st1 x \<le> idx st1 y \<and> (y, x) \<in> (adj_rel adj)\<^sup>*" if "y \<in> set (stack st)" for y
      using f(10) [OF that] sub(2) [OF that] sub(2) v(11) by (metis subsetD)
    show "is_scc (adj_rel adj) (set c)" if "c \<in> set (components st1 @ [sorted_nodes (rev new @ [t])])" for c
      using that g(11) scc(2) by auto
    show "distinct (concat (components st1 @ [sorted_nodes (rev new @ [t])]))"
      using g(4,12) dist by (auto simp: v(1) settled_def)
  qed (use g(5,13,14) v(11) in auto)
  then show ?thesis using v(3,7,8) low unfolding visit_post_def l indices_simps by simp
qed

lemma visit_correct:
  assumes "env adj active st" and "indices st t = None"
    and "edges_post adj (insert t active) t (adj_get adj t) (enter_node t st) st1"
  shows "visit_post adj active t st (leave_node t st1)"
  using visit_stays [OF assms] visit_pops [OF assms] by blast

section \<open>The loop over the targets\<close>

text \<open>
  What the loop relies on: \<open>node\<close> is the youngest active node, its link does not exceed its index, and
  the targets are its successors.
\<close>

definition edges_pre :: "adjacency \<Rightarrow> resource_ref set \<Rightarrow> resource_ref \<Rightarrow> resource_ref list \<Rightarrow> tarjan_state \<Rightarrow> bool" where
  "edges_pre adj active node ts st \<longleftrightarrow> env adj active st \<and> node \<in> active
     \<and> (\<forall>x \<in> active. idx st x \<le> idx st node) \<and> low st node \<le> idx st node \<and> (\<forall>t \<in> set ts. (node, t) \<in> adj_rel adj)"

lemma edges_pre_enter:
  assumes "env adj active st" and "indices st t = None" and "t \<in> adj_nodes adj"
    and "\<And>x. x \<in> active \<Longrightarrow> (x, t) \<in> (adj_rel adj)\<^sup>*"
  shows "edges_pre adj (insert t active) t (adj_get adj t) (enter_node t st)"
  using enter_env [OF assms] envD(3,5,6) [OF assms(1)] unfolding edges_pre_def
  by (force simp: adj_rel_def dest: less_imp_le)

lemma edges_post_refl:
  "edges_pre adj active node [] st \<Longrightarrow> edges_post adj active node [] st st"
  by (simp add: edges_pre_def edges_post_def)

lemma edges_preD:
  assumes "edges_pre adj active node ts st"
  shows "env adj active st" "node \<in> dom (indices st)" "node \<in> set (stack st)"
    "\<And>x. x \<in> active \<Longrightarrow> (x, node) \<in> (adj_rel adj)\<^sup>*"
  using assms envD(3,6,9) [of adj active st] unfolding edges_pre_def by blast+

lemma edges_postD:
  assumes "edges_post adj active node ts st st'"
  shows "env adj active st'" and "indices st \<subseteq>\<^sub>m indices st'" and "set ts \<subseteq> dom (indices st')"
    and "\<And>x. x \<in> dom (indices st) \<Longrightarrow> x \<noteq> node \<Longrightarrow> low_links st' x = low_links st x"
    and "low st' node \<le> low st node"
    and "low st' node = low st node
      \<or> (\<exists>z \<in> set (stack st'). idx st' z = low st' node \<and> (node, z) \<in> (adj_rel adj)\<^sup>*)"
    and "\<exists>new. stack st' = stack st @ new
      \<and> (\<forall>y \<in> set new. \<forall>z \<in> set (stack st). (y, z) \<in> adj_rel adj \<longrightarrow> low st' node \<le> idx st z)"
    and "\<And>z. z \<in> set ts \<Longrightarrow> z \<in> set (stack st) \<Longrightarrow> low st' node \<le> idx st z"
  using assms unfolding edges_post_def by blast+

lemma visit_postD:
  assumes "visit_post adj active t st st'"
  shows "env adj active st'" and "indices st \<subseteq>\<^sub>m indices st'" and "indices st' t = Some (next_index st)"
    and "\<And>x. x \<in> dom (indices st) \<Longrightarrow> low_links st' x = low_links st x"
    and "\<exists>new. stack st' = stack st @ new
      \<and> (\<forall>y \<in> set new. \<forall>z \<in> set (stack st). (y, z) \<in> adj_rel adj \<longrightarrow> low st' t \<le> idx st z)"
    and "low st' t = next_index st \<or> (\<exists>z \<in> set (stack st). idx st z = low st' t \<and> (t, z) \<in> (adj_rel adj)\<^sup>*)"
  using assms unfolding visit_post_def by auto

lemma edges_pre_lower:
  assumes "edges_pre adj active node (t # ts) st" and "env adj active st1" and "indices st \<subseteq>\<^sub>m indices st1"
    and "low_links st1 node = low_links st node"
  shows "edges_pre adj active node ts (lower_link node n st1)"
proof -
  note f = envD [OF edges_preD(1) [OF assms(1)]]
  have same: "x \<in> active \<Longrightarrow> indices st1 x = indices st x \<and> x \<in> dom (indices st1)" for x
    using idx_extends [OF assms(3), of x] idx_extends_dom [OF assms(3), of x] f(3,6) by blast
  then have "env adj active (lower_link node n st1)"
    using assms(1,2) by (intro lower_env) (auto simp: edges_pre_def)
  then show ?thesis using assms(1,4) same unfolding edges_pre_def indices_simps by (auto simp: min_le_iff_disj)
qed

lemma edges_post_stack:
  assumes "edges_pre adj active node (t # ts) st" and "t \<in> on_stack st"
    and "edges_post adj active node ts (lower_link node (indices st t) st) st'"
  shows "edges_post adj active node (t # ts) st st'"
proof -
  note f = envD [OF edges_preD(1) [OF assms(1)]] and p = edges_postD [OF assms(3), unfolded indices_simps lower_simps]
  have t: "t \<in> set (stack st)" "t \<in> dom (indices st)" "(node, t) \<in> adj_rel adj"
    using assms(1,2) f(1,3) by (auto simp: edges_pre_def)
  obtain new where new: "stack st' = stack st @ new"
    "\<And>y z. y \<in> set new \<Longrightarrow> z \<in> set (stack st) \<Longrightarrow> (y, z) \<in> adj_rel adj \<Longrightarrow> low st' node \<le> idx st z"
    using p(7) by blast
  have le: "low st' node \<le> low st node" "low st' node \<le> idx st t" using p(5) by auto
  have "low st' node = low st node
      \<or> (\<exists>z \<in> set (stack st'). idx st' z = low st' node \<and> (node, z) \<in> (adj_rel adj)\<^sup>*)"
  proof (rule disjE [OF p(6)])
    assume "low st' node = the (((low_links st)(node \<mapsto> min (low st node) (the (indices st t)))) node)"
    then consider "low st' node = low st node" | "low st' node = idx st t" by (auto simp: min_def split: if_splits)
    then show ?thesis
    proof cases
      case 2
      then show ?thesis using t new(1) idx_extends [OF p(2) t(2)] by (intro disjI2 bexI [of _ t]) auto
    qed simp
  qed simp
  moreover have "set (t # ts) \<subseteq> dom (indices st')" using p(3) idx_extends_dom [OF p(2) t(2)] by simp
  ultimately show ?thesis
    using p(1,2,4,8) new le unfolding edges_post_def by auto
qed

lemma edges_post_settled:
  assumes "edges_pre adj active node (t # ts) st" and "indices st t \<noteq> None" "t \<notin> on_stack st"
    and "edges_post adj active node ts st st'"
  shows "edges_post adj active node (t # ts) st st'"
proof -
  have "t \<in> dom (indices st')" using idx_extends_dom [OF edges_postD(2) [OF assms(4)], of t] assms(2) by auto
  then show ?thesis using assms(3,4) envD(1) [OF edges_preD(1) [OF assms(1)]] unfolding edges_post_def by simp
qed

lemma edges_post_white:
  assumes "edges_pre adj active node (t # ts) st" and "indices st t = None"
    and "visit_post adj active t st st1" and "edges_post adj active node ts (lower_link node (low_links st1 t) st1) st'"
  shows "edges_post adj active node (t # ts) st st'"
proof -
  note f = envD [OF edges_preD(1) [OF assms(1)]] and v = visit_postD [OF assms(3)]
    and p = edges_postD [OF assms(4), unfolded indices_simps lower_simps]
  have node: "node \<in> dom (indices st)" "node \<noteq> t" using edges_preD(2) [OF assms(1)] assms(2) by auto
  have node_less: "low st node < next_index st"
    using assms(1) f(5) [OF node(1)] unfolding edges_pre_def by linarith
  have nt: "(node, t) \<in> (adj_rel adj)\<^sup>*" using assms(1) by (auto simp: edges_pre_def)
  obtain new1 where new1: "stack st1 = stack st @ new1"
    "\<And>y z. y \<in> set new1 \<Longrightarrow> z \<in> set (stack st) \<Longrightarrow> (y, z) \<in> adj_rel adj \<Longrightarrow> low st1 t \<le> idx st z"
    using v(5) by blast
  obtain new2 where new2: "stack st' = stack st1 @ new2"
    "\<And>y z. y \<in> set new2 \<Longrightarrow> z \<in> set (stack st1) \<Longrightarrow> (y, z) \<in> adj_rel adj \<Longrightarrow> low st' node \<le> idx st1 z"
    using p(7) by blast
  have dom: "x \<in> dom (indices st)" if "x \<in> set (stack st)" for x using that f(3) by auto
  have idx1: "indices st1 x = indices st x" if "x \<in> dom (indices st)" for x by (rule idx_extends [OF v(2) that])
  have idx': "indices st' x = indices st x" if "x \<in> dom (indices st)" for x
    using idx_extends [OF p(2), of x] idx1 [OF that] idx_extends_dom [OF v(2) that] by simp
  have le: "low st' node \<le> low st node" "low st' node \<le> low st1 t" using p(5) v(4) [OF node(1)] by auto
  have "low st' node = low st node
      \<or> (\<exists>z \<in> set (stack st'). idx st' z = low st' node \<and> (node, z) \<in> (adj_rel adj)\<^sup>*)"
  proof (rule disjE [OF p(6)])
    assume "low st' node = the (((low_links st1)(node \<mapsto> min (low st1 node) (the (low_links st1 t)))) node)"
    then consider "low st' node = low st node" | "low st' node = low st1 t" "low st1 t < low st node"
      using v(4) [OF node(1)] by (auto simp: min_def split: if_splits)
    then show ?thesis
    proof cases
      case 2
      show ?thesis
      proof (rule disjE [OF v(6)])
        assume "\<exists>z \<in> set (stack st). idx st z = low st1 t \<and> (t, z) \<in> (adj_rel adj)\<^sup>*"
        then obtain z where "z \<in> set (stack st)" "idx st z = low st1 t" "(t, z) \<in> (adj_rel adj)\<^sup>*" by blast
        then show ?thesis using 2 nt idx' [OF dom, of z] new1(1) new2(1)
          by (intro disjI2 bexI [of _ z]) (auto intro: rtrancl_trans)
      next
        assume "low st1 t = next_index st"
        then show ?thesis using 2 node_less by simp
      qed
    qed simp
  qed simp
  moreover have "indices st \<subseteq>\<^sub>m indices st'" using idx' by (simp add: map_le_def)
  moreover have "set (t # ts) \<subseteq> dom (indices st')" using p(3) idx_extends_dom [OF p(2), of t] v(3) by auto
  moreover have "low_links st' x = low_links st x" if "x \<in> dom (indices st)" "x \<noteq> node" for x
    using p(4) [of x] v(4) [of x] idx_extends_dom [OF v(2), of x] that by simp
  moreover have "low st' node \<le> idx st z" if "z \<in> set (t # ts)" "z \<in> set (stack st)" for z
    using p(8) [of z] that idx1 [OF dom, of z] new1(1) dom [OF that(2)] assms(2) by auto
  moreover have "low st' node \<le> idx st z" if "y \<in> set (new1 @ new2)" "z \<in> set (stack st)" "(y, z) \<in> adj_rel adj" for y z
    using that new1 new2(2) [of y z] idx1 [OF dom, of z] le(2) by (auto intro: order_trans)
  ultimately show ?thesis
    using p(1) le(1) new1(1) new2(1) unfolding edges_post_def by (auto intro!: exI [of _ "new1 @ new2"])
qed

theorem visit_edges_correct:
  "edges_pre adj active node ts st \<Longrightarrow> edges_post adj active node ts st (visit_edges adj node ts st)"
proof (induction adj node ts st arbitrary: active rule: visit_edges.induct)
  case (1 adj node st)
  then show ?case by (simp add: edges_post_refl)
next
  case (2 adj node t ts st)
  note pre = edges_preD [OF "2.prems"]
  let ?st1 = "leave_node t (visit_edges adj t (adj_get adj t) (enter_node t st))"
  consider "indices st t = None" | "indices st t \<noteq> None" "t \<in> on_stack st" | "indices st t \<noteq> None" "t \<notin> on_stack st"
    by blast
  then show ?case
  proof cases
    case 1
    have edge: "(node, t) \<in> adj_rel adj" using "2.prems" by (simp add: edges_pre_def)
    have "edges_pre adj (insert t active) t (adj_get adj t) (enter_node t st)"
    proof (rule edges_pre_enter [OF pre(1) 1])
      show "t \<in> adj_nodes adj" using edge by (blast dest: adj_rel_nodes)
      show "(x, t) \<in> (adj_rel adj)\<^sup>*" if "x \<in> active" for x
        using pre(4) [OF that] edge by (rule rtrancl_into_rtrancl)
    qed
    then have v: "visit_post adj active t st ?st1" by (intro visit_correct [OF pre(1) 1] "2.IH"(1) [OF 1])
    note vd = visit_postD [OF this]
    have "edges_pre adj active node ts (lower_link node (low_links ?st1 t) ?st1)"
      by (rule edges_pre_lower [OF "2.prems" vd(1,2) vd(4) [OF pre(2)]])
    then show ?thesis using edges_post_white [OF "2.prems" 1 v "2.IH"(2) [OF 1 refl]] 1 by (simp add: Let_def)
  next
    case 2
    have "edges_pre adj active node ts (lower_link node (indices st t) st)"
      by (rule edges_pre_lower [OF "2.prems" pre(1)]) simp_all
    then show ?thesis using edges_post_stack [OF "2.prems" 2(2) "2.IH"(3) [OF 2]] 2
      by (simp only: visit_edges.simps if_False if_True)
  next
    case 3
    have "edges_pre adj active node ts st" using "2.prems" by (simp add: edges_pre_def)
    then show ?thesis using edges_post_settled [OF "2.prems" 3 "2.IH"(4) [OF 3]] 3
      by (simp only: visit_edges.simps if_False)
  qed
qed

lemma tarjan_run_correct:
  "env adj {} st \<Longrightarrow> set ns \<subseteq> adj_nodes adj
    \<Longrightarrow> env adj {} (tarjan_run adj ns st) \<and> set ns \<union> dom (indices st) \<subseteq> dom (indices (tarjan_run adj ns st))"
proof (induction ns arbitrary: st)
  case (Cons n ns)
  show ?case
  proof (cases "indices st n = None")
    case True
    have "edges_pre adj {n} n (adj_get adj n) (enter_node n st)"
      using edges_pre_enter [OF Cons.prems(1) True] Cons.prems(2) by simp
    from visit_correct [OF Cons.prems(1) True visit_edges_correct [OF this]]
    have v: "visit_post adj {} n st (tarjan_visit adj n st)" by (simp only: tarjan_visit_def)
    note vd = visit_postD [OF v]
    have "dom (indices st) \<subseteq> dom (indices (tarjan_visit adj n st))" "n \<in> dom (indices (tarjan_visit adj n st))"
      using vd(2,3) map_le_implies_dom_le by blast+
    then show ?thesis using Cons.IH [OF vd(1)] Cons.prems(2) True by (simp, blast)
  next
    case False
    then have "n \<in> dom (indices st)" by auto
    then show ?thesis using Cons.IH [OF Cons.prems(1)] Cons.prems(2) False by (simp, blast)
  qed
qed simp

lemma empty_env: "env adj {} empty_tarjan"
  by (simp add: env_def empty_tarjan_def settled_def)

section \<open>The components\<close>

text \<open>The traversal from every node of the graph leaves exactly the strongly connected components.\<close>

theorem tarjan_components:
  fixes adj nodes
  assumes "set nodes = adj_nodes adj"
  defines "cs \<equiv> components (tarjan_run adj nodes empty_tarjan)"
  shows "\<forall>c \<in> set cs. is_scc (adj_rel adj) (set c)" and "distinct (concat cs)" and "set (concat cs) = set nodes"
proof -
  let ?st = "tarjan_run adj nodes empty_tarjan"
  have e: "env adj {} ?st" "set nodes \<subseteq> dom (indices ?st)"
    using tarjan_run_correct [OF empty_env, of nodes adj] assms(1) by auto
  note f = envD [OF e(1)]
  show "\<forall>c \<in> set cs. is_scc (adj_rel adj) (set c)" using f(11) by (simp add: cs_def)
  show "distinct (concat cs)" using f(12) by (simp add: cs_def)
  have "set (stack ?st) = {}" using f(10) by (meson all_not_in_conv bexE)
  then have "dom (indices ?st) = settled ?st" using f(3) by simp
  then show "set (concat cs) = set nodes" using e(2) f(14) assms(1) by (auto simp: cs_def settled_def)
qed

lemma scc_unique: "is_scc E S \<Longrightarrow> is_scc E T \<Longrightarrow> x \<in> S \<Longrightarrow> x \<in> T \<Longrightarrow> S = T"
  unfolding is_scc_def by blast

lemma scc_on_cycle:
  assumes "is_scc E S" and "x \<in> S"
  shows "(x, x) \<in> E\<^sup>+ \<longleftrightarrow> (\<exists>y \<in> S. y \<noteq> x) \<or> (x, x) \<in> E"
proof
  assume "(x, x) \<in> E\<^sup>+"
  then obtain y where y: "(x, y) \<in> E" "(y, x) \<in> E\<^sup>*" by (meson tranclD)
  then have "y \<in> S" using assms unfolding is_scc_def by blast
  then show "(\<exists>y \<in> S. y \<noteq> x) \<or> (x, x) \<in> E" using y(1) by (cases "y = x") auto
next
  assume "(\<exists>y \<in> S. y \<noteq> x) \<or> (x, x) \<in> E"
  then show "(x, x) \<in> E\<^sup>+"
  proof
    assume "\<exists>y \<in> S. y \<noteq> x"
    then obtain y where "y \<noteq> x" "(x, y) \<in> E\<^sup>*" "(y, x) \<in> E\<^sup>*" using assms unfolding is_scc_def by blast
    then show ?thesis by (metis rtranclD trancl_rtrancl_trancl)
  qed auto
qed

lemma component_cyclic:
  assumes "is_scc (adj_rel adj) (set ms)" and "distinct ms" and "n \<in> set ms"
  shows "cyclic (component_of adj ms) \<longleftrightarrow> (n, n) \<in> (adj_rel adj)\<^sup>+"
proof -
  have "ms \<noteq> []" using assms(3) by auto
  show ?thesis
  proof (cases "tl ms")
    case Nil
    then have "ms = [n]" using assms(3) \<open>ms \<noteq> []\<close> by (cases ms) auto
    then show ?thesis using scc_on_cycle [OF assms(1,3)] by (simp add: component_of_def adj_rel_def Let_def)
  next
    case (Cons b bs)
    then obtain a where ms: "ms = a # b # bs" using \<open>ms \<noteq> []\<close> by (cases ms) auto
    then have "\<exists>y \<in> set ms. y \<noteq> n" using assms(2) by (cases "n = a") auto
    then show ?thesis using scc_on_cycle [OF assms(1,3)] ms by (simp add: component_of_def Let_def)
  qed
qed

section \<open>The cycle of a component\<close>

text \<open>What the search finds extends the path by members and closes it at the start.\<close>

lemma search_edges_sound:
  "search_edges adj ms start ts path vs \<noteq> [] \<Longrightarrow> path \<noteq> [] \<Longrightarrow> walk adj path
    \<Longrightarrow> \<forall>t \<in> set ts. (last path, t) \<in> adj_rel adj
    \<Longrightarrow> \<exists>q. search_edges adj ms start ts path vs = path @ q @ [start] \<and> set q \<subseteq> ms
          \<and> walk adj (path @ q @ [start])"
proof (induction adj ms start ts path vs rule: search_edges.induct)
  case (2 adj ms start t ts path vs)
  let ?found = "search_edges adj ms start (adj_get adj t) (path @ [t]) (insert t vs)"
  consider "t \<notin> ms" | "t \<in> ms" "t = start" | "t \<in> ms" "t \<noteq> start" "t \<in> vs"
    | "t \<in> ms" "t \<noteq> start" "t \<notin> vs" "?found = []" | "t \<in> ms" "t \<noteq> start" "t \<notin> vs" "?found \<noteq> []" by blast
  then show ?case
  proof cases
    case 2
    then show ?thesis using "2.prems" by (intro exI [of _ "[]"]) (simp add: walk_snoc)
  next
    case 5
    have "walk adj (path @ [t])" using "2.prems" by (simp add: walk_snoc)
    then obtain q where q: "?found = (path @ [t]) @ q @ [start]" "set q \<subseteq> ms" "walk adj ((path @ [t]) @ q @ [start])"
      using "2.IH"(3) 5 by (auto simp: adj_rel_def)
    then show ?thesis using 5 by (intro exI [of _ "t # q"]) (simp add: Let_def)
  qed (use 2 in \<open>auto simp: Let_def\<close>)
qed simp

text \<open>A cycle through the start that keeps to unvisited members is not missed.\<close>

lemma search_edges_complete:
  "distinct q \<Longrightarrow> set q \<inter> vs = {} \<Longrightarrow> set q \<subseteq> ms \<Longrightarrow> start \<in> ms \<Longrightarrow> start \<in> vs \<Longrightarrow> walk adj (q @ [start])
    \<Longrightarrow> hd (q @ [start]) \<in> set ts \<Longrightarrow> search_edges adj ms start ts path vs \<noteq> []"
proof (induction adj ms start ts path vs arbitrary: q rule: search_edges.induct)
  case (2 adj ms start t ts path vs)
  let ?found = "search_edges adj ms start (adj_get adj t) (path @ [t]) (insert t vs)"
  show ?case
  proof (cases "hd (q @ [start]) = t")
    case True
    show ?thesis
    proof (cases q)
      case Nil
      then show ?thesis using True "2.prems"(4) by simp
    next
      case (Cons u q')
      then have t: "q = t # q'" "t \<in> ms" "t \<noteq> start" "t \<notin> vs" using True "2.prems" by auto
      then have "walk adj (q' @ [start])" "hd (q' @ [start]) \<in> set (adj_get adj t)"
        using "2.prems"(6) by (auto simp: walk_def successively_Cons adj_rel_def)
      then have "?found \<noteq> []" using t "2.prems" by (intro "2.IH"(3) [of q']) auto
      then show ?thesis using t by (simp add: Let_def)
    qed
  next
    case False
    then have "hd (q @ [start]) \<in> set ts" using "2.prems"(7) by simp
    then show ?thesis using False "2.prems" "2.IH"(1) [of q] "2.IH"(2) [of q] "2.IH"(4) [of _ q]
      by (auto simp: Let_def)
  qed
qed simp

lemma simple_path_to:
  "(y, s) \<in> (adj_rel adj)\<^sup>* \<Longrightarrow> \<exists>q. distinct q \<and> s \<notin> set q \<and> walk adj (q @ [s]) \<and> hd (q @ [s]) = y"
proof (induction rule: converse_rtrancl_induct)
  case base
  show ?case by (intro exI [of _ "[]"]) (simp add: walk_def)
next
  case (step y z)
  then obtain q where q: "distinct q" "s \<notin> set q" "walk adj (q @ [s])" "hd (q @ [s]) = z" by blast
  consider "y = s" | "y \<in> set q" | "y \<noteq> s" "y \<notin> set q" by blast
  then show ?case
  proof cases
    case 1
    then show ?thesis by (intro exI [of _ "[]"]) (simp add: walk_def)
  next
    case 2
    then obtain u v where "q = u @ y # v" by (meson split_list)
    then show ?thesis using q by (intro exI [of _ "y # v"]) (simp add: walk_def successively_append_iff)
  next
    case 3
    then show ?thesis using q step(1) by (intro exI [of _ "y # q"]) (auto simp: walk_def successively_Cons)
  qed
qed

lemma walk_split: "walk adj (xs @ x # ys) \<longleftrightarrow> walk adj (xs @ [x]) \<and> walk adj (x # ys)"
  by (auto simp: walk_def successively_append_iff)

lemma walk_inside:
  assumes "walk adj (s # q @ [s])" and "x \<in> set q"
  shows "(s, x) \<in> (adj_rel adj)\<^sup>*" and "(x, s) \<in> (adj_rel adj)\<^sup>*"
proof -
  obtain u v where q: "q = u @ x # v" using assms(2) by (meson split_list)
  then have "walk adj (s # u @ [x])" "walk adj (x # v @ [s])"
    using assms(1) walk_split [of adj "s # u" x "v @ [s]"] by simp_all
  then show "(s, x) \<in> (adj_rel adj)\<^sup>*" "(x, s) \<in> (adj_rel adj)\<^sup>*" using walk_reaches by fastforce+
qed

lemma component_cycle_path:
  assumes "is_scc (adj_rel adj) (set ms)" and "distinct ms" and "cyclic (component_of adj ms)"
  shows "\<exists>q. cycle_path (component_of adj ms) = hd ms # q @ [hd ms] \<and> set q \<subseteq> set ms
    \<and> walk adj (hd ms # q @ [hd ms])"
proof -
  let ?s = "hd ms"
  have s: "?s \<in> set ms" using assms(1) by (auto simp: is_scc_def)
  then have "(?s, ?s) \<in> (adj_rel adj)\<^sup>+" using assms component_cyclic by blast
  then obtain y where y: "(?s, y) \<in> adj_rel adj" "(y, ?s) \<in> (adj_rel adj)\<^sup>*" by (meson tranclD)
  obtain q where q: "distinct q" "?s \<notin> set q" "walk adj (q @ [?s])" "hd (q @ [?s]) = y"
    using simple_path_to [OF y(2)] by blast
  have "walk adj (?s # q @ [?s])" using q y(1) by (simp add: walk_def successively_Cons)
  then have "set q \<subseteq> set ms" using walk_inside assms(1) s unfolding is_scc_def by blast
  then have "find_component_cycle ms adj \<noteq> []"
    using search_edges_complete [of q "{?s}" "set ms" ?s adj "adj_get adj ?s"] q y(1) s
    by (simp add: find_component_cycle_def adj_rel_def Let_def)
  then show ?thesis
    using search_edges_sound [of adj "set ms" ?s "adj_get adj ?s" "[?s]" "{?s}"] assms(3)
    by (auto simp: component_of_def find_component_cycle_def Let_def walk_def adj_rel_def)
qed

lemma sort_components:
  "mset (concat (map members (strongly_connected_components nodes adj)))
    = mset (concat (components (tarjan_run adj nodes empty_tarjan)))"
proof -
  let ?cs = "components (tarjan_run adj nodes empty_tarjan)"
  have "mset (concat (map f xs)) = sum_mset (image_mset (mset \<circ> f) (mset xs))" for f :: "'a \<Rightarrow> 'b list" and xs
    by (induction xs) simp_all
  note sum = this
  have "concat (map members (map (component_of adj) ?cs)) = concat ?cs"
    by (simp add: comp_def component_of_def Let_def)
  moreover have "mset (concat (map members (sort_key k cs))) = mset (concat (map members cs))"
    for k :: "dependency_component \<Rightarrow> string \<times> string" and cs unfolding sum by simp
  ultimately show ?thesis unfolding strongly_connected_components_def Let_def by metis
qed

lemma strongly_connected_components_correct:
  assumes "set nodes = adj_nodes adj"
  defines "cs \<equiv> strongly_connected_components nodes adj"
  shows "\<forall>c \<in> set cs. is_scc (adj_rel adj) (set (members c)) \<and> distinct (members c) \<and> c = component_of adj (members c)"
    and "distinct (concat (map members cs))" and "set (concat (map members cs)) = set nodes"
proof -
  note t = tarjan_components [OF assms(1)] and m = sort_components [of nodes adj]
  show "distinct (concat (map members cs))" using t(2) m unfolding cs_def by (metis mset_eq_imp_distinct_iff)
  show "set (concat (map members cs)) = set nodes" using t(3) m unfolding cs_def by (metis mset_eq_setD)
  have "distinct ms" if "ms \<in> set (components (tarjan_run adj nodes empty_tarjan))" for ms
    using t(2) that by (simp add: distinct_concat_iff)
  then show "\<forall>c \<in> set cs. is_scc (adj_rel adj) (set (members c)) \<and> distinct (members c) \<and> c = component_of adj (members c)"
    using t(1) by (auto simp: cs_def strongly_connected_components_def Let_def component_of_def)
qed

section \<open>The analysis\<close>

definition block_rel :: "edge list \<Rightarrow> (resource_ref \<times> resource_ref) set" where
  "block_rel es = {(source e, target e) | e. e \<in> set es \<and> edge_type e = BLOCKS}"

lemma block_graph:
  fixes nodes es
  defines "be \<equiv> filter (\<lambda>e. edge_type e = BLOCKS) es"
  defines "ns \<equiv> sorted_node_set (nodes @ nodes_from_edges be)"
  shows "adj_rel (adjacency ns be) = block_rel es" and "set ns = set nodes \<union> Field (block_rel es)"
    and "adj_nodes (adjacency ns be) = set ns"
proof -
  show "adj_rel (adjacency ns be) = block_rel es" by (auto simp: be_def block_rel_def adj_rel_adjacency)
  show "set ns = set nodes \<union> Field (block_rel es)"
    by (auto simp: ns_def be_def set_nodes_from_edges block_rel_def Field_def)
  show "adj_nodes (adjacency ns be) = set ns" by (auto simp: adj_nodes_adjacency ns_def set_nodes_from_edges)
qed

lemma isl_require_work_items: "isl (require_work_items ns) \<longleftrightarrow> (\<exists>n \<in> set ns. kind n \<noteq> WORK_ITEM)"
  by (induction ns) auto

lemma component_on_cycle:
  assumes "is_scc (adj_rel adj) (set (members c))" and "distinct (members c)" and "c = component_of adj (members c)"
    and "n \<in> set (members c)"
  shows "cyclic c \<longleftrightarrow> (n, n) \<in> (adj_rel adj)\<^sup>+"
  using component_cyclic [OF assms(1,2,4)] assms(3) by simp

text \<open>
  C7: the dependency analysis is exact. It fails exactly when a node is not a work item. Otherwise its
  components are the strongly connected components of the block edges and partition the nodes, the
  quarantined ones are those with a node on a cycle, each with a closed walk through its members as
  evidence, and what stays evaluable are exactly the nodes on no cycle.
\<close>
theorem dependency_analysis_exact:
  "(isl (analyze_dependency_graph nodes es)
      \<longleftrightarrow> (\<exists>n \<in> set nodes \<union> Field (block_rel es). kind n \<noteq> WORK_ITEM))
   \<and> (\<forall>a. analyze_dependency_graph nodes es = Inr a \<longrightarrow>
        (\<forall>c \<in> set (da_components a). is_scc (block_rel es) (set (members c)))
      \<and> distinct (concat (map members (da_components a)))
      \<and> set (concat (map members (da_components a))) = set nodes \<union> Field (block_rel es)
      \<and> invalid_components a = filter (\<lambda>c. (hd (members c), hd (members c)) \<in> (block_rel es)\<^sup>+) (da_components a)
      \<and> (\<forall>c \<in> set (invalid_components a). \<exists>q. cycle_path c = hd (members c) # q @ [hd (members c)]
           \<and> set q \<subseteq> set (members c) \<and> successively (\<lambda>x y. (x, y) \<in> block_rel es) (cycle_path c))
      \<and> set (evaluable_nodes (projection a))
          = {n \<in> set nodes \<union> Field (block_rel es). (n, n) \<notin> (block_rel es)\<^sup>+})"
proof -
  define be where "be = filter (\<lambda>e. edge_type e = BLOCKS) es"
  define ns where "ns = sorted_node_set (nodes @ nodes_from_edges be)"
  define adj where "adj = adjacency ns be"
  define cs where "cs = strongly_connected_components ns adj"
  have g: "adj_rel adj = block_rel es" "set ns = set nodes \<union> Field (block_rel es)" "set ns = adj_nodes adj"
    using block_graph [of nodes es] by (simp_all add: be_def ns_def adj_def)
  note scc = strongly_connected_components_correct [OF g(3), folded cs_def]
  have cyc: "cyclic c \<longleftrightarrow> (n, n) \<in> (block_rel es)\<^sup>+" if "c \<in> set cs" "n \<in> set (members c)" for c n
    using component_on_cycle [of adj c n] scc(1) that g(1) by auto
  have hd_in: "hd (members c) \<in> set (members c)" if "c \<in> set cs" for c
    using scc(1) that by (auto simp: is_scc_def)
  have invalid: "filter cyclic cs = filter (\<lambda>c. (hd (members c), hd (members c)) \<in> (block_rel es)\<^sup>+) cs"
    using cyc hd_in by (intro filter_cong) auto
  have path: "\<exists>q. cycle_path c = hd (members c) # q @ [hd (members c)] \<and> set q \<subseteq> set (members c)
      \<and> successively (\<lambda>x y. (x, y) \<in> block_rel es) (cycle_path c)" if "c \<in> set (filter cyclic cs)" for c
    using component_cycle_path [of adj "members c"] scc(1) that g(1) by (auto simp: walk_def)
  have quarantined: "n \<in> set (concat (map members (filter cyclic cs))) \<longleftrightarrow> (n, n) \<in> (block_rel es)\<^sup>+"
    if "n \<in> set ns" for n
  proof -
    have "n \<in> set (concat (map members cs))" using scc(3) that by simp
    then obtain c where "c \<in> set cs" "n \<in> set (members c)" by auto
    then show ?thesis using cyc by auto
  qed
  have run: "analyze_dependency_graph nodes es = Inr a \<Longrightarrow> da_components a = cs
      \<and> invalid_components a = filter cyclic cs
      \<and> evaluable_nodes (projection a) = filter (\<lambda>n. n \<notin> set (concat (map members (filter cyclic cs)))) ns" for a
    unfolding analyze_dependency_graph_def Let_def be_def [symmetric] ns_def [symmetric] adj_def [symmetric]
      cs_def [symmetric] by (cases "require_work_items ns") auto
  have quarantine: "set (filter (\<lambda>n. n \<notin> set (concat (map members (filter cyclic cs)))) ns)
      = {n \<in> set nodes \<union> Field (block_rel es). (n, n) \<notin> (block_rel es)\<^sup>+}"
    using quarantined unfolding set_filter g(2) by blast
  have "isl (analyze_dependency_graph nodes es) = isl (require_work_items ns)"
    by (cases "require_work_items ns") (simp_all add: analyze_dependency_graph_def be_def ns_def Let_def)
  then show ?thesis
  proof (intro conjI allI impI, goal_cases)
    case 1
    then show ?case by (simp only: isl_require_work_items g(2))
  next
    case (2 a)
    then show ?case using run [of a] scc(1) g(1) by simp
  next
    case (6 a)
    then show ?case using run [of a] path by simp
  qed (use run scc(2,3) g(2) invalid quarantine in \<open>simp_all only:\<close>)
qed

definition demo_block :: "string \<Rightarrow> string \<Rightarrow> edge" where
  "demo_block s t = (demo_edge BLOCKS s t)\<lparr>source := ResourceRef WORK_ITEM (Ulid WorkItemId s),
     target := ResourceRef WORK_ITEM (Ulid WorkItemId t), subtype := Some HARD\<rparr>"

theorem dependency_analysis_exact_witness:
  "case analyze_dependency_graph [] [demo_block ''a'' ''b'', demo_block ''b'' ''a''] of
     Inl e \<Rightarrow> False | Inr a \<Rightarrow> evaluable_nodes (projection a) = []"
proof -
  let ?es = "[demo_block ''a'' ''b'', demo_block ''b'' ''a'']"
  let ?n = "\<lambda>v. ResourceRef WORK_ITEM (Ulid WorkItemId v)"
  have rel: "block_rel ?es = {(?n ''a'', ?n ''b''), (?n ''b'', ?n ''a'')}"
    unfolding block_rel_def
    by (auto simp: demo_block_def demo_edge_def intro: exI [of _ "demo_block ''a'' ''b''"]
        exI [of _ "demo_block ''b'' ''a''"])
  then have "(?n ''a'', ?n ''b'') \<in> block_rel ?es" "(?n ''b'', ?n ''a'') \<in> block_rel ?es" by simp_all
  then have "(?n ''a'', ?n ''a'') \<in> (block_rel ?es)\<^sup>+" "(?n ''b'', ?n ''b'') \<in> (block_rel ?es)\<^sup>+"
    by (blast intro: trancl_into_trancl)+
  then have cyc: "{n \<in> set [] \<union> Field (block_rel ?es). (n, n) \<notin> (block_rel ?es)\<^sup>+} = {}"
    using rel by (auto simp: Field_def)
  have kinds: "\<not> (\<exists>n \<in> set [] \<union> Field (block_rel ?es). kind n \<noteq> WORK_ITEM)"
    using rel by (auto simp: Field_def)
  show ?thesis
    using dependency_analysis_exact [of "[]" ?es] unfolding cyc
    using kinds by (cases "analyze_dependency_graph [] ?es") simp_all
qed

end
