(* ===== verification/Stores.thy ===== *)
theory Stores
  imports Prelude
begin

text \<open>
  The contracts several components rely on, as locales: a store of values under keys
  (\<open>keyed_store\<close>), and a registry in which at most one owner holds a key (\<open>exclusive_owner\<close>). Each
  component that provides one interprets it on its own operations.
\<close>

section \<open>Values under keys\<close>

locale keyed_store =
  fixes look :: "'s \<Rightarrow> 'k \<Rightarrow> 'v option"
    and put :: "'k \<Rightarrow> 'v \<Rightarrow> 's \<Rightarrow> 's"
  assumes look_put_same: "look (put k v s) k = Some v"
    and look_put_other: "k' \<noteq> k \<Longrightarrow> look (put k v s) k' = look s k'"
begin

lemma look_put: "look (put k v s) k' = (if k' = k then Some v else look s k')"
  using look_put_same look_put_other by auto

lemma put_all:
  assumes "\<And>k v. look s k = Some v \<Longrightarrow> P k v" and "P k v" and "look (put k v s) k' = Some v'"
  shows "P k' v'"
  using assms by (auto simp: look_put split: if_splits)

text \<open>Replacing the value of a key keeps what the values are indexed by, when the index does not move.\<close>

lemma put_index:
  assumes "look s k = Some old" and "f v = f old"
  shows "(\<exists>w. look (put k v s) k' = Some w \<and> f w = i) \<longleftrightarrow> (\<exists>w. look s k' = Some w \<and> f w = i)"
  using assms by (auto simp: look_put)

text \<open>A run of writes leaves a key that none of them names alone.\<close>

lemma puts_other:
  "k \<notin> fst ` set kvs \<Longrightarrow> look (fold (\<lambda>(k, v). put k v) kvs s) k = look s k"
  by (induction kvs arbitrary: s) (auto simp: look_put_other)

end

section \<open>One owner per key\<close>

locale exclusive_owner =
  fixes holder :: "'s \<Rightarrow> 'k \<Rightarrow> 'o option"
    and acq :: "'k \<Rightarrow> 'o \<Rightarrow> 's \<Rightarrow> bool \<times> 's"
    and rel :: "'k \<Rightarrow> 'o \<Rightarrow> 's \<Rightarrow> bool \<times> 's"
  assumes acq_taken: "holder s k = Some p \<Longrightarrow> p \<noteq> x \<Longrightarrow> acq k x s = (False, s)"
    and acq_free: "holder s k = None \<or> holder s k = Some x \<Longrightarrow> fst (acq k x s) \<and> holder (snd (acq k x s)) k = Some x"
    and acq_other: "k' \<noteq> k \<Longrightarrow> holder (snd (acq k x s)) k' = holder s k'"
    and rel_foreign: "holder s k \<noteq> Some x \<Longrightarrow> rel k x s = (False, s)"
    and rel_own: "holder s k = Some x \<Longrightarrow> fst (rel k x s) \<and> holder (snd (rel k x s)) k = None"
    and rel_other: "k' \<noteq> k \<Longrightarrow> holder (snd (rel k x s)) k' = holder s k'"
begin

fun attempt :: "bool \<times> 'k \<times> 'o \<Rightarrow> 's \<Rightarrow> 's" where
  "attempt (True, k, x) s = snd (acq k x s)"
| "attempt (False, k, x) s = snd (rel k x s)"

lemma attempt_keeps:
  assumes "holder s k = Some x" and "\<forall>b. op \<noteq> (b, k, x)"
  shows "holder (attempt op s) k = Some x"
proof (cases op)
  case (fields b k' y)
  show ?thesis
  proof (cases "k' = k")
    case True
    then have "y \<noteq> x" using assms(2) fields by auto
    then show ?thesis
      using assms(1) acq_taken [OF assms(1)] rel_foreign [of s k y] True fields by (cases b) auto
  next
    case False
    then show ?thesis using assms(1) acq_other rel_other fields by (cases b) auto
  qed
qed

text \<open>Mutual exclusion: whatever the others try, the holder keeps the key.\<close>

lemma holder_keeps:
  assumes "holder s k = Some x" and "\<forall>op \<in> set ops. \<forall>b. op \<noteq> (b, k, x)"
  shows "holder (fold attempt ops s) k = Some x"
  using assms by (induction ops arbitrary: s) (auto intro: attempt_keeps)

lemma acq_iff: "fst (acq k x s) \<longleftrightarrow> holder s k = None \<or> holder s k = Some x"
  using acq_free [of s k x] acq_taken [of s k] by (cases "holder s k") force+

end

end
