(* ===== verification/Queue.thy ===== *)
theory Queue
  imports Errors Py_Json Py_Sha256 Stores "HOL-Library.AList"
begin

text \<open>
  \<open>platform/queue.py\<close>: the reference state machine of the durable job queue. Every method is a
  function of the queue that returns its result and the queue it leaves; a raise leaves the queue
  as it was at that point. The job dictionary is an association list in insertion order.
\<close>

section \<open>Data\<close>

datatype job_state =
    RECEIVED | VERIFIED | PERSISTED | PENDING | CLAIMED | REFETCHED | NORMALIZED | SOLVED
  | PROJECTED | COMPLETED | RETRY_SCHEDULED | DEAD_LETTER

record queue_policy =
  lease_duration :: timedelta
  base_retry_seconds :: int
  max_retry_seconds :: int

definition default_policy :: queue_policy where
  "default_policy = \<lparr>lease_duration = seconds 30, base_retry_seconds = 1, max_retry_seconds = 300\<rparr>"

definition new_queue_policy :: "queue_policy \<Rightarrow> queue_policy result" where
  "new_queue_policy p =
     (if lease_duration p \<le> 0 then Inl (ValueError ''lease_duration must be positive'')
      else if base_retry_seconds p < 1 then Inl (ValueError ''base_retry_seconds must be positive'')
      else if max_retry_seconds p < base_retry_seconds p
      then Inl (ValueError ''max_retry_seconds must cover the base delay'')
      else Inr p)"

text \<open>A payload maps distinct names to JSON values; \<open>sorted\<close> orders it by name.\<close>

type_synonym payload = "(string \<times> json) list"

record job_submission =
  sub_tenant_id :: string
  sub_workspace_id :: string
  sub_job_id :: string
  sub_job_type :: string
  sub_idempotency_key :: string
  sub_payload :: payload
  sub_max_attempts :: int

definition new_submission :: "job_submission \<Rightarrow> job_submission result" where
  "new_submission s =
     (if \<exists>v \<in> set [sub_tenant_id s, sub_workspace_id s, sub_job_id s, sub_job_type s,
            sub_idempotency_key s]. blank v
      then Inl (ValueError ''job scope and identities are required'')
      else if sub_max_attempts s < 1 then Inl (ValueError ''max_attempts must be positive'')
      else Inr (s\<lparr>sub_payload := sort_key fst (sub_payload s)\<rparr>))"

record workspace_job =
  tenant_id :: string
  workspace_id :: string
  job_id :: string
  job_type :: string
  idempotency_key :: string
  payload :: payload
  state :: job_state
  attempts :: int
  max_attempts :: int
  next_attempt_at :: datetime
  created_at :: datetime
  lease_owner :: "string option"
  lease_expires_at :: "datetime option"
  heartbeat_at :: "datetime option"
  completed_at :: "datetime option"
  job_result :: "payload option"
  dead_letter_reason :: "string option"
  replay_of :: "string option"
  attempt_history :: "string list"

definition pending :: "job_submission \<Rightarrow> datetime \<Rightarrow> workspace_job result" where
  "pending s now =
     (if \<not> aware now then Inl (ValueError ''job timestamps must be timezone-aware'')
      else Inr \<lparr>tenant_id = sub_tenant_id s, workspace_id = sub_workspace_id s,
        job_id = sub_job_id s, job_type = sub_job_type s, idempotency_key = sub_idempotency_key s,
        payload = sub_payload s, state = PENDING, attempts = 0, max_attempts = sub_max_attempts s,
        next_attempt_at = now, created_at = now, lease_owner = None, lease_expires_at = None,
        heartbeat_at = None, completed_at = None, job_result = None, dead_letter_reason = None,
        replay_of = None, attempt_history = []\<rparr>)"

record durable_queue =
  policy :: queue_policy
  jobs :: "(string \<times> workspace_job) list"
  idempotency :: "string \<times> string \<times> string \<rightharpoonup> string"
  tenant_last_claim :: "string \<rightharpoonup> int"
  claim_counter :: int

definition new_queue :: "queue_policy \<Rightarrow> durable_queue" where
  "new_queue p = \<lparr>policy = p, jobs = [], idempotency = Map.empty, tenant_last_claim = Map.empty,
     claim_counter = 0\<rparr>"

section \<open>Operations\<close>

definition retry_delay_seconds :: "string \<Rightarrow> int \<Rightarrow> queue_policy \<Rightarrow> int result" where
  "retry_delay_seconds key attempt p =
     (if attempt < 1 then Inl (ValueError ''attempt must be positive'')
      else let
        exponential = min (max_retry_seconds p) (base_retry_seconds p * 2 ^ nat (attempt - 1));
        digest = sha256_digest (encode (key @ '':'' @ str_int attempt));
        jitter_ceiling = max 1 (exponential div 4);
        jitter = int_of_bytes (take 4 digest) mod (jitter_ceiling + 1)
      in Inr (min (max_retry_seconds p) (exponential + jitter)))"

definition job_key :: "workspace_job \<Rightarrow> string \<times> string \<times> string" where
  "job_key j = (tenant_id j, workspace_id j, idempotency_key j)"

definition store :: "string \<Rightarrow> workspace_job \<Rightarrow> durable_queue \<Rightarrow> durable_queue" where
  "store jid j q = q\<lparr>jobs := AList.update jid j (jobs q)\<rparr>"

definition get :: "durable_queue \<Rightarrow> string \<Rightarrow> workspace_job result" where
  "get q jid = dict_get (map_of (jobs q)) jid jid"

definition enqueue :: "workspace_job \<Rightarrow> durable_queue \<Rightarrow> workspace_job result \<times> durable_queue" where
  "enqueue j q = (case idempotency q (job_key j) of
     Some existing \<Rightarrow> (get q existing, q)
   | None \<Rightarrow>
       if map_of (jobs q) (job_id j) \<noteq> None then (Inl (ValueError ''job_id already exists''), q)
       else (Inr j, (store (job_id j) j q)\<lparr>idempotency := (idempotency q)(job_key j \<mapsto> job_id j)\<rparr>))"

definition claimable :: "workspace_job \<Rightarrow> bool" where
  "claimable j \<longleftrightarrow> state j \<in> {PENDING, RETRY_SCHEDULED}"

definition eligible :: "datetime \<Rightarrow> workspace_job \<Rightarrow> bool" where
  "eligible now j \<longleftrightarrow> claimable j \<and> dt_le (next_attempt_at j) now"

definition last_claim :: "durable_queue \<Rightarrow> string \<Rightarrow> int" where
  "last_claim q t = (case tenant_last_claim q t of None \<Rightarrow> - 1 | Some n \<Rightarrow> n)"

definition claim_key :: "durable_queue \<Rightarrow> workspace_job \<Rightarrow> int \<times> int \<times> string \<times> string \<times> string" where
  "claim_key q j = (last_claim q (tenant_id j), instant (created_at j), tenant_id j,
     workspace_id j, job_id j)"

definition claim_next ::
  "string \<Rightarrow> datetime \<Rightarrow> durable_queue \<Rightarrow> workspace_job option result \<times> durable_queue" where
  "claim_next worker now q =
     (if blank worker then (Inl (ValueError ''worker_id is required''), q)
      else if \<exists>j \<in> snd ` set (jobs q). claimable j \<and> \<not> comparable (next_attempt_at j) now
      then (Inl (TypeError ''can't compare offset-naive and offset-aware datetimes''), q)
      else let candidates = filter (eligible now) (map snd (jobs q)) in
        if candidates = [] then (Inr None, q)
        else let
          selected = hd (sort_key (claim_key q) candidates);
          counter = claim_counter q + 1;
          claimed = selected\<lparr>state := CLAIMED, lease_owner := Some worker,
            lease_expires_at := Some (dt_add now (lease_duration (policy q))),
            heartbeat_at := Some now,
            attempt_history := attempt_history selected
              @ [''claimed:'' @ worker @ '':'' @ isoformat now]\<rparr>
        in (Inr (Some claimed), (store (job_id selected) claimed q)\<lparr>claim_counter := counter,
              tenant_last_claim := (tenant_last_claim q)(tenant_id selected \<mapsto> counter)\<rparr>))"

definition owned_claim :: "string \<Rightarrow> string \<Rightarrow> datetime \<Rightarrow> durable_queue \<Rightarrow> workspace_job result" where
  "owned_claim jid worker now q = bind_result (get q jid) (\<lambda>current.
     if state current \<noteq> CLAIMED \<or> lease_owner current \<noteq> Some worker
     then Inl (ValueError ''worker does not own a live job lease'')
     else case lease_expires_at current of
       None \<Rightarrow> Inl (ValueError ''worker does not own a live job lease'')
     | Some expires \<Rightarrow>
         if \<not> comparable expires now
         then Inl (TypeError ''can't compare offset-naive and offset-aware datetimes'')
         else if dt_less expires now then Inl (ValueError ''worker does not own a live job lease'')
         else Inr current)"

definition heartbeat ::
  "string \<Rightarrow> string \<Rightarrow> datetime \<Rightarrow> durable_queue \<Rightarrow> workspace_job result \<times> durable_queue" where
  "heartbeat jid worker now q = (case owned_claim jid worker now q of
     Inl e \<Rightarrow> (Inl e, q)
   | Inr current \<Rightarrow> let
       updated = current\<lparr>lease_expires_at := Some (dt_add now (lease_duration (policy q))),
         heartbeat_at := Some now\<rparr>
     in (Inr updated, store jid updated q))"

definition complete ::
  "string \<Rightarrow> string \<Rightarrow> datetime \<Rightarrow> payload \<Rightarrow> durable_queue \<Rightarrow> workspace_job result \<times> durable_queue" where
  "complete jid worker now res q = (case owned_claim jid worker now q of
     Inl e \<Rightarrow> (Inl e, q)
   | Inr current \<Rightarrow> let
       updated = current\<lparr>state := COMPLETED, completed_at := Some now,
         job_result := Some (sort_key fst res), lease_owner := None, lease_expires_at := None,
         heartbeat_at := None, attempt_history := attempt_history current
           @ [''completed:'' @ worker @ '':'' @ isoformat now]\<rparr>
     in (Inr updated, store jid updated q))"

definition fail ::
  "string \<Rightarrow> string \<Rightarrow> datetime \<Rightarrow> string \<Rightarrow> bool \<Rightarrow> durable_queue
    \<Rightarrow> workspace_job result \<times> durable_queue" where
  "fail jid worker now reason retryable q =
     (if blank reason then (Inl (ValueError ''failure reason is required''), q)
      else case owned_claim jid worker now q of
        Inl e \<Rightarrow> (Inl e, q)
      | Inr current \<Rightarrow> let
          tries = attempts current + 1;
          history = attempt_history current @ [''failed:'' @ worker @ '':'' @ reason @ '':'' @ isoformat now];
          released = current\<lparr>attempts := tries, lease_owner := None, lease_expires_at := None,
            heartbeat_at := None, attempt_history := history\<rparr>
        in if \<not> retryable \<or> tries \<ge> max_attempts current
           then let updated = released\<lparr>state := DEAD_LETTER, dead_letter_reason := Some reason\<rparr>
             in (Inr updated, store jid updated q)
           else (case retry_delay_seconds (idempotency_key current) tries (policy q) of
               Inl e \<Rightarrow> (Inl e, q)
             | Inr delay \<Rightarrow> let
                 updated = released\<lparr>state := RETRY_SCHEDULED,
                   next_attempt_at := dt_add now (seconds delay)\<rparr>
               in (Inr updated, store jid updated q)))"

text \<open>The body of the loop of \<open>recover_expired\<close>: the recovered job, when its lease has expired.\<close>

definition expired_lease :: "datetime \<Rightarrow> workspace_job \<Rightarrow> bool" where
  "expired_lease now j \<longleftrightarrow> state j = CLAIMED
     \<and> (case lease_expires_at j of None \<Rightarrow> False | Some e \<Rightarrow> dt_less e now)"

definition incomparable_lease :: "datetime \<Rightarrow> workspace_job \<Rightarrow> bool" where
  "incomparable_lease now j \<longleftrightarrow> state j = CLAIMED
     \<and> (case lease_expires_at j of None \<Rightarrow> False | Some e \<Rightarrow> \<not> comparable e now)"

definition recover_job :: "datetime \<Rightarrow> workspace_job \<Rightarrow> workspace_job" where
  "recover_job now j = (let
     tries = attempts j + 1;
     released = j\<lparr>attempts := tries, lease_owner := None, lease_expires_at := None,
       heartbeat_at := None\<rparr>
   in if tries \<ge> max_attempts j
      then released\<lparr>state := DEAD_LETTER, dead_letter_reason := Some ''lease_expired''\<rparr>
      else released\<lparr>state := PENDING, next_attempt_at := now,
        attempt_history := attempt_history j @ [''lease_expired:'' @ isoformat now]\<rparr>)"

fun recover_loop :: "datetime \<Rightarrow> workspace_job list \<Rightarrow> workspace_job list \<Rightarrow> durable_queue
    \<Rightarrow> workspace_job list result \<times> durable_queue" where
  "recover_loop now [] recovered q = (Inr (sort_key job_id recovered), q)"
| "recover_loop now (j # js) recovered q =
     (if incomparable_lease now j
      then (Inl (TypeError ''can't compare offset-naive and offset-aware datetimes''), q)
      else if expired_lease now j
      then recover_loop now js (recovered @ [recover_job now j]) (store (job_id j) (recover_job now j) q)
      else recover_loop now js recovered q)"

definition recover_expired :: "datetime \<Rightarrow> durable_queue \<Rightarrow> workspace_job list result \<times> durable_queue" where
  "recover_expired now q = recover_loop now (map snd (jobs q)) [] q"

definition replay_dead_letter ::
  "string \<Rightarrow> string \<Rightarrow> string \<Rightarrow> datetime \<Rightarrow> durable_queue \<Rightarrow> workspace_job result \<times> durable_queue" where
  "replay_dead_letter jid replay_job_id authorized_by now q = (case get q jid of
     Inl e \<Rightarrow> (Inl e, q)
   | Inr original \<Rightarrow>
       if state original \<noteq> DEAD_LETTER
       then (Inl (ValueError ''only dead-letter jobs can be replayed''), q)
       else if blank authorized_by
       then (Inl (ValueError ''controlled replay requires an authorizing actor''), q)
       else (case bind_result (new_submission \<lparr>sub_tenant_id = tenant_id original,
             sub_workspace_id = workspace_id original, sub_job_id = replay_job_id,
             sub_job_type = job_type original,
             sub_idempotency_key = ''replay:'' @ replay_job_id @ '':'' @ idempotency_key original,
             sub_payload = payload original, sub_max_attempts = max_attempts original\<rparr>)
           (\<lambda>s. pending s now) of
         Inl e \<Rightarrow> (Inl e, q)
       | Inr replay \<Rightarrow> enqueue (replay\<lparr>replay_of := Some (job_id original),
           attempt_history := [''replayed_by:'' @ authorized_by @ '':'' @ isoformat now]\<rparr>) q))"

section \<open>The scheduler fence\<close>

type_synonym scheduler_fence = "string \<rightharpoonup> string"

definition new_fence :: scheduler_fence where
  "new_fence = Map.empty"

definition acquire :: "string \<Rightarrow> string \<Rightarrow> scheduler_fence \<Rightarrow> bool \<times> scheduler_fence" where
  "acquire key owner f = (case f key of
     Some current \<Rightarrow> if current \<noteq> owner then (False, f) else (True, f(key \<mapsto> owner))
   | None \<Rightarrow> (True, f(key \<mapsto> owner)))"

definition release :: "string \<Rightarrow> string \<Rightarrow> scheduler_fence \<Rightarrow> unit result \<times> scheduler_fence" where
  "release key owner f =
     (if f key \<noteq> Some owner then (Inl (ValueError ''scheduler does not own the fence''), f)
      else (Inr (), f(key := None)))"

section \<open>The contracts the queue and the fence provide\<close>

interpretation job_store: keyed_store "\<lambda>q. map_of (jobs q)" store
  by unfold_locales (simp_all add: store_def update_conv')

interpretation fence: exclusive_owner "\<lambda>f k. f k" acquire "\<lambda>k x f. map_prod (Not \<circ> isl) id (release k x f)"
  by unfold_locales (auto simp: acquire_def release_def split: option.splits)

section \<open>Invariant\<close>

definition claims :: "workspace_job \<Rightarrow> int" where
  "claims j = int (length (filter (\<lambda>e. starts_with e ''claimed:'') (attempt_history j)))"

definition job_wf :: "workspace_job \<Rightarrow> bool" where
  "job_wf j \<longleftrightarrow> state j \<in> {PENDING, CLAIMED, COMPLETED, RETRY_SCHEDULED, DEAD_LETTER}
     \<and> aware (next_attempt_at j) \<and> aware (created_at j)
     \<and> 0 \<le> attempts j \<and> attempts j \<le> max_attempts j
     \<and> (state j \<noteq> DEAD_LETTER \<longrightarrow> attempts j < max_attempts j)
     \<and> (lease_owner j \<noteq> None \<longleftrightarrow> state j = CLAIMED)
     \<and> (lease_expires_at j \<noteq> None \<longleftrightarrow> state j = CLAIMED)
     \<and> (heartbeat_at j \<noteq> None \<longleftrightarrow> state j = CLAIMED)
     \<and> (\<forall>e. lease_expires_at j = Some e \<longrightarrow> aware e)
     \<and> (completed_at j \<noteq> None \<longleftrightarrow> state j = COMPLETED) \<and> (job_result j \<noteq> None \<longleftrightarrow> state j = COMPLETED)
     \<and> (dead_letter_reason j \<noteq> None \<longleftrightarrow> state j = DEAD_LETTER)
     \<and> claims j = attempts j + (if state j \<in> {CLAIMED, COMPLETED} then 1 else 0)"

lemma job_wf_outcome:
  assumes "job_wf j"
  shows "completed_at j = None \<longleftrightarrow> state j \<noteq> COMPLETED" and "job_result j = None \<longleftrightarrow> state j \<noteq> COMPLETED"
    and "dead_letter_reason j = None \<longleftrightarrow> state j \<noteq> DEAD_LETTER"
    and "lease_owner j = None \<longleftrightarrow> state j \<noteq> CLAIMED" and "lease_expires_at j = None \<longleftrightarrow> state j \<noteq> CLAIMED"
  using assms unfolding job_wf_def by blast+

definition queue_inv :: "durable_queue \<Rightarrow> bool" where
  "queue_inv q \<longleftrightarrow> distinct (map fst (jobs q))
     \<and> (\<forall>k j. map_of (jobs q) k = Some j \<longrightarrow> job_id j = k \<and> job_wf j)
     \<and> (\<forall>key k. idempotency q key = Some k
          \<longleftrightarrow> (\<exists>j. map_of (jobs q) k = Some j \<and> job_key j = key))"

lemma queue_inv_new: "queue_inv (new_queue p)"
  by (simp add: queue_inv_def new_queue_def)

lemma store_fields [simp]:
  "policy (store k j q) = policy q" "idempotency (store k j q) = idempotency q"
  "tenant_last_claim (store k j q) = tenant_last_claim q" "claim_counter (store k j q) = claim_counter q"
  by (simp_all add: store_def)

lemma map_of_store [simp]: "map_of (jobs (store k j q)) = (map_of (jobs q))(k \<mapsto> j)"
  by (simp add: store_def update_conv')

lemma store_inv:
  assumes inv: "queue_inv q" and old: "map_of (jobs q) k = Some old"
    and "job_id j = k" and "job_key j = job_key old" and "job_wf j"
  shows "queue_inv (store k j q)"
proof -
  have "distinct (map fst (jobs (store k j q)))"
    using inv by (simp add: queue_inv_def store_def distinct_update)
  moreover have "(\<exists>w. map_of (jobs (store k j q)) k' = Some w \<and> job_key w = key)
      \<longleftrightarrow> (\<exists>w. map_of (jobs q) k' = Some w \<and> job_key w = key)" for k' key
    by (rule job_store.put_index [OF old assms(4)])
  moreover have "job_id j' = k' \<and> job_wf j'" if "map_of (jobs (store k j q)) k' = Some j'" for k' j'
    using job_store.put_all [of q "\<lambda>k j. job_id j = k \<and> job_wf j" k j k' j'] inv assms(3,5) that
    by (auto simp: queue_inv_def)
  ultimately show ?thesis
    using inv by (simp add: queue_inv_def del: map_of_store)
qed

lemma get_Inr [result_simps]: "get q k = Inr j \<longleftrightarrow> map_of (jobs q) k = Some j"
  by (simp add: get_def result_simps)

lemma claims_snoc:
  "claims (j\<lparr>attempt_history := h @ [e]\<rparr>)
     = claims (j\<lparr>attempt_history := h\<rparr>) + (if starts_with e ''claimed:'' then 1 else 0)"
  by (simp add: claims_def)

lemma owned_claim_Inr [result_simps]:
  "owned_claim k worker now q = Inr j \<longleftrightarrow> map_of (jobs q) k = Some j \<and> state j = CLAIMED
     \<and> lease_owner j = Some worker
     \<and> (\<exists>e. lease_expires_at j = Some e \<and> comparable e now \<and> dt_le now e)"
  by (cases "map_of (jobs q) k"; cases "lease_expires_at (the (map_of (jobs q) k))")
    (auto simp: owned_claim_def get_def dict_get_def)

lemma new_submission_max:
  assumes "new_submission s = Inr s'"
  shows "1 \<le> sub_max_attempts s'"
proof -
  have "\<not> sub_max_attempts s < 1" "s' = s\<lparr>sub_payload := sort_key fst (sub_payload s)\<rparr>"
    using assms unfolding new_submission_def by (simp_all split: if_split_asm)
  then show ?thesis by simp
qed

lemma fresh_wf:
  assumes "new_submission s = Inr s'" and "pending s' now = Inr j"
    and "\<forall>e \<in> set h. \<not> starts_with e ''claimed:''"
  shows "job_wf (j\<lparr>replay_of := r, attempt_history := h\<rparr>)"
proof -
  have "filter (\<lambda>e. starts_with e ''claimed:'') h = []"
    using assms(3) by (simp add: filter_empty_conv)
  then show ?thesis
    using assms(2) new_submission_max [OF assms(1)]
    by (auto simp: pending_def job_wf_def claimable_def claims_def split: if_splits)
qed

lemma queue_inv_index: "queue_inv q \<Longrightarrow> map_of (jobs q) k = Some i \<Longrightarrow> idempotency q (job_key i) = Some k"
  unfolding queue_inv_def by blast

lemma queue_inv_job: "queue_inv q \<Longrightarrow> map_of (jobs q) k = Some j \<Longrightarrow> job_id j = k \<and> job_wf j"
  unfolding queue_inv_def by blast

lemma queue_inv_idem:
  "queue_inv q \<Longrightarrow> idempotency q key = Some k \<Longrightarrow> \<exists>i. map_of (jobs q) k = Some i \<and> job_key i = key"
  unfolding queue_inv_def by blast

lemma queue_inv_jobs:
  assumes "queue_inv q"
  shows "j \<in> snd ` set (jobs q) \<longleftrightarrow> map_of (jobs q) (job_id j) = Some j"
proof
  assume "j \<in> snd ` set (jobs q)"
  then obtain k where "(k, j) \<in> set (jobs q)" by auto
  moreover have "distinct (map fst (jobs q))" using assms by (simp add: queue_inv_def)
  ultimately have "map_of (jobs q) k = Some j" by (rule map_of_is_SomeI [rotated])
  then show "map_of (jobs q) (job_id j) = Some j" using queue_inv_job [OF assms] by blast
next
  assume "map_of (jobs q) (job_id j) = Some j"
  from map_of_SomeD [OF this] show "j \<in> snd ` set (jobs q)" by force
qed

lemma enqueue_inv:
  assumes "queue_inv q" and "job_wf j" and "enqueue j q = (r, q')"
  shows "queue_inv q'"
proof (cases "idempotency q (job_key j) = None \<and> map_of (jobs q) (job_id j) = None")
  case True
  then have q': "q' = (store (job_id j) j q)\<lparr>idempotency := (idempotency q)(job_key j \<mapsto> job_id j)\<rparr>"
    using assms(3) by (simp add: enqueue_def)
  have "distinct (map fst (jobs q'))"
    using assms(1) by (simp add: q' queue_inv_def store_def distinct_update)
  moreover have "job_id i = k \<and> job_wf i" if "map_of (jobs q') k = Some i" for k i
    using queue_inv_job [OF assms(1)] assms(2) that by (auto simp: q' split: if_splits)
  moreover have "idempotency q' key = Some k \<longleftrightarrow> (\<exists>i. map_of (jobs q') k = Some i \<and> job_key i = key)" for key k
  proof (cases "k = job_id j")
    case k: True
    have "idempotency q key \<noteq> Some k" using queue_inv_idem [OF assms(1), of key k] True k by auto
    then show ?thesis using k by (auto simp: q')
  next
    case False
    have "job_key i \<noteq> job_key j" if "map_of (jobs q) k = Some i" for i
      using queue_inv_index [OF assms(1) that] True by auto
    moreover have "idempotency q key = Some k \<longleftrightarrow> (\<exists>i. map_of (jobs q) k = Some i \<and> job_key i = key)"
      using assms(1) unfolding queue_inv_def by blast
    ultimately show ?thesis using False by (auto simp: q')
  qed
  ultimately show ?thesis unfolding queue_inv_def by blast
next
  case False
  then have "q' = q" using assms(3) by (auto simp: enqueue_def split: option.splits if_splits)
  then show ?thesis using assms(1) by simp
qed

lemma hd_sort_key_in:
  assumes "xs \<noteq> []"
  shows "hd (sort_key f xs) \<in> set xs" and "x \<in> set xs \<Longrightarrow> f (hd (sort_key f xs)) \<le> f x"
proof -
  obtain y ys where s: "sort_key f xs = y # ys"
    using assms by (metis length_0_conv length_sort neq_Nil_conv)
  have set: "set xs = set (y # ys)" by (metis s set_sort)
  have "sorted (map f (y # ys))" by (metis s sorted_sort_key)
  then show "x \<in> set xs \<Longrightarrow> f (hd (sort_key f xs)) \<le> f x" using s set by auto
  show "hd (sort_key f xs) \<in> set xs" using s set by simp
qed

text \<open>A successful claim: the job chosen, and what is stored for it.\<close>

lemma claim_next_Some:
  assumes "claim_next worker now q = (Inr (Some c), q')"
  obtains j where "j \<in> snd ` set (jobs q)" and "eligible now j" and "comparable (next_attempt_at j) now"
    and "\<not> blank worker"
    and "\<And>i. i \<in> snd ` set (jobs q) \<Longrightarrow> eligible now i \<Longrightarrow> claim_key q j \<le> claim_key q i"
    and "c = j\<lparr>state := CLAIMED, lease_owner := Some worker,
      lease_expires_at := Some (dt_add now (lease_duration (policy q))), heartbeat_at := Some now,
      attempt_history := attempt_history j @ [''claimed:'' @ worker @ '':'' @ isoformat now]\<rparr>"
    and "q' = (store (job_id j) c q)\<lparr>claim_counter := claim_counter q + 1,
      tenant_last_claim := (tenant_last_claim q)(tenant_id j \<mapsto> claim_counter q + 1)\<rparr>"
proof -
  let ?cs = "filter (eligible now) (map snd (jobs q))"
  have ne: "?cs \<noteq> []" and ok: "\<not> blank worker"
    "\<not> (\<exists>j \<in> snd ` set (jobs q). claimable j \<and> \<not> comparable (next_attempt_at j) now)"
    using assms by (auto simp: claim_next_def Let_def split: if_splits)
  let ?j = "hd (sort_key (claim_key q) ?cs)"
  have j: "?j \<in> set ?cs" using ne by (rule hd_sort_key_in)
  have "claim_key q ?j \<le> claim_key q i" if "i \<in> set ?cs" for i
    using ne that by (rule hd_sort_key_in)
  moreover have "comparable (next_attempt_at ?j) now" using j ok by (auto simp: eligible_def)
  ultimately show ?thesis
    using assms ne ok j by (intro that [of ?j]) (auto simp: claim_next_def Let_def split: if_splits)
qed

text \<open>Each method keeps the invariant.\<close>

lemma queue_inv_meta [simp]:
  "queue_inv (q\<lparr>claim_counter := n, tenant_last_claim := m\<rparr>) = queue_inv q"
  by (simp add: queue_inv_def)

lemma starts_with_claimed: "starts_with (''claimed:'' @ s) ''claimed:''"
  by (simp add: starts_with_def)

lemma claimed_wf:
  assumes "job_wf j" and "eligible now j" and "comparable (next_attempt_at j) now"
    and "c = j\<lparr>state := CLAIMED, lease_owner := Some w, lease_expires_at := Some (dt_add now d),
      heartbeat_at := Some now, attempt_history := attempt_history j @ [''claimed:'' @ m]\<rparr>"
  shows "job_wf c"
proof -
  have "claims c = claims j + 1"
    unfolding claims_def assms(4) using starts_with_claimed [of m] by simp
  moreover have "claims j = attempts j" "attempts j < max_attempts j" "aware now"
    using assms(1-3) by (auto simp: job_wf_def eligible_def claimable_def comparable_def)
  moreover have "completed_at j = None" "job_result j = None" "dead_letter_reason j = None"
    using job_wf_outcome [OF assms(1)] assms(2) by (simp_all add: eligible_def claimable_def) auto
  ultimately show ?thesis
    using assms(1) unfolding job_wf_def by (simp add: assms(4))
qed

lemma claim_next_inv:
  assumes inv: "queue_inv q" and step: "claim_next worker now q = (r, q')"
  shows "queue_inv q'"
proof (cases "\<exists>c. r = Inr (Some c)")
  case True
  then obtain c where r: "r = Inr (Some c)" by blast
  from claim_next_Some [OF step [unfolded r]] obtain j
    where j: "j \<in> snd ` set (jobs q)" "eligible now j" "comparable (next_attempt_at j) now"
      and c: "c = j\<lparr>state := CLAIMED, lease_owner := Some worker,
      lease_expires_at := Some (dt_add now (lease_duration (policy q))), heartbeat_at := Some now,
      attempt_history := attempt_history j @ [''claimed:'' @ worker @ '':'' @ isoformat now]\<rparr>"
      and q': "q' = (store (job_id j) c q)\<lparr>claim_counter := claim_counter q + 1,
      tenant_last_claim := (tenant_last_claim q)(tenant_id j \<mapsto> claim_counter q + 1)\<rparr>"
    by blast
  have m: "map_of (jobs q) (job_id j) = Some j" using queue_inv_jobs [OF inv] j(1) by simp
  then have wf: "job_wf j" using queue_inv_job [OF inv] by blast
  have "job_wf c"
    using wf j(2,3) by (elim claimed_wf) (simp_all add: c)
  then have "queue_inv (store (job_id j) c q)"
    by (intro store_inv [OF inv m]) (simp_all add: c job_key_def)
  then show ?thesis by (simp add: q')
next
  case False
  then have "q' = q" using step by (auto simp: claim_next_def Let_def split: if_splits)
  then show ?thesis using inv by simp
qed

lemma owned_store_inv:
  assumes inv: "queue_inv q" and own: "owned_claim k worker now q = Inr j"
    and "job_wf j \<Longrightarrow> state j = CLAIMED \<Longrightarrow> aware now \<Longrightarrow> job_wf u"
    and "job_id u = job_id j" and "job_key u = job_key j"
  shows "queue_inv (store k u q)"
proof -
  have m: "map_of (jobs q) k = Some j" and c: "state j = CLAIMED"
    and e: "\<exists>e. lease_expires_at j = Some e \<and> comparable e now"
    using own by (auto simp: owned_claim_Inr)
  have wf: "job_wf j" "job_id j = k" using queue_inv_job [OF inv m] by blast+
  have "aware now" using e wf(1) by (auto simp: job_wf_def comparable_def)
  with assms(3-5) wf c show ?thesis by (intro store_inv [OF inv m]) auto
qed

lemma heartbeat_inv:
  assumes inv: "queue_inv q" and step: "heartbeat k worker now q = (r, q')"
  shows "queue_inv q'"
proof (cases "owned_claim k worker now q")
  case (Inr j)
  then have "q' = store k (j\<lparr>lease_expires_at := Some (dt_add now (lease_duration (policy q))),
      heartbeat_at := Some now\<rparr>) q"
    using step by (auto simp: heartbeat_def Let_def)
  then show ?thesis
    by (auto intro!: owned_store_inv [OF inv Inr] simp: job_wf_def claimable_def claims_def job_key_def)
qed (use inv step in \<open>auto simp: heartbeat_def\<close>)

lemma complete_inv:
  assumes inv: "queue_inv q" and step: "complete k worker now res q = (r, q')"
  shows "queue_inv q'"
proof (cases "owned_claim k worker now q")
  case (Inr j)
  then have "q' = store k (j\<lparr>state := COMPLETED, completed_at := Some now,
      job_result := Some (sort_key fst res), lease_owner := None, lease_expires_at := None,
      heartbeat_at := None, attempt_history := attempt_history j
        @ [''completed:'' @ worker @ '':'' @ isoformat now]\<rparr>) q"
    using step by (auto simp: complete_def Let_def)
  then show ?thesis
    by (auto intro!: owned_store_inv [OF inv Inr]
        simp: job_wf_def claimable_def claims_def job_key_def starts_with_def)
qed (use inv step in \<open>auto simp: complete_def\<close>)

lemma fail_inv:
  assumes inv: "queue_inv q" and step: "fail k worker now reason retryable q = (r, q')"
  shows "queue_inv q'"
proof (cases "owned_claim k worker now q")
  case (Inr j)
  let ?h = "attempt_history j @ [''failed:'' @ worker @ '':'' @ reason @ '':'' @ isoformat now]"
  let ?r = "j\<lparr>attempts := attempts j + 1, lease_owner := None, lease_expires_at := None,
    heartbeat_at := None, attempt_history := ?h\<rparr>"
  have dead: "queue_inv (store k (?r\<lparr>state := DEAD_LETTER, dead_letter_reason := Some reason\<rparr>) q)"
    by (rule owned_store_inv [OF inv Inr])
      (auto simp: job_wf_def claimable_def claims_def job_key_def starts_with_def)
  have retry: "queue_inv (store k (?r\<lparr>state := RETRY_SCHEDULED, next_attempt_at := dt_add now d\<rparr>) q)"
    if "attempts j + 1 < max_attempts j" for d
    using that by (intro owned_store_inv [OF inv Inr])
      (auto simp: job_wf_def claimable_def claims_def job_key_def starts_with_def)
  show ?thesis
    using step Inr inv dead retry
    by (auto simp: fail_def Let_def split: if_splits sum.splits)
qed (use inv step in \<open>auto simp: fail_def split: if_splits\<close>)

lemma recover_job_wf:
  assumes "job_wf j" and "expired_lease now j" and "aware now"
  shows "job_wf (recover_job now j)"
  using assms
  by (auto simp: recover_job_def expired_lease_def job_wf_def claimable_def claims_def starts_with_def Let_def)

lemma recover_job_id [simp]:
  "job_id (recover_job now j) = job_id j" "job_key (recover_job now j) = job_key j"
  by (simp_all add: recover_job_def job_key_def Let_def)

lemma recover_loop_inv:
  assumes "queue_inv q" and "distinct (map job_id js)" and "\<forall>j \<in> set js. map_of (jobs q) (job_id j) = Some j"
    and "recover_loop now js rs q = (r, q')"
  shows "queue_inv q'"
  using assms
proof (induction now js rs q rule: recover_loop.induct)
  case (2 now j js rs q)
  have m: "map_of (jobs q) (job_id j) = Some j" using "2.prems"(3) by simp
  consider "incomparable_lease now j" | "\<not> incomparable_lease now j" "expired_lease now j"
    | "\<not> incomparable_lease now j" "\<not> expired_lease now j" by blast
  then show ?case
  proof cases
    case 2
    have wf: "job_wf j" using queue_inv_job [OF "2.prems"(1) m] by blast
    then have "aware now"
      using 2 by (auto simp: expired_lease_def incomparable_lease_def comparable_def job_wf_def
          split: option.splits)
    then have "queue_inv (store (job_id j) (recover_job now j) q)"
      using recover_job_wf [OF wf 2(2)] by (intro store_inv [OF "2.prems"(1) m]) simp_all
    moreover have "\<forall>i \<in> set js. map_of (jobs (store (job_id j) (recover_job now j) q)) (job_id i) = Some i"
    proof
      fix i assume i: "i \<in> set js"
      then have "job_id i \<noteq> job_id j" using "2.prems"(2) by (metis distinct.simps(2) image_eqI list.simps(9) list.set_map)
      moreover have "map_of (jobs q) (job_id i) = Some i" using "2.prems"(3) i by (meson list.set_intros(2))
      ultimately show "map_of (jobs (store (job_id j) (recover_job now j) q)) (job_id i) = Some i"
        by (simp only: map_of_store fun_upd_def if_False)
    qed
    moreover have "recover_loop now js (rs @ [recover_job now j]) (store (job_id j) (recover_job now j) q) = (r, q')"
      using "2.prems"(4) 2 by simp
    moreover have "distinct (map job_id js)" using "2.prems"(2) by simp
    ultimately show ?thesis using "2.IH"(1) [OF 2] by blast
  next
    case 3
    then show ?thesis using "2.IH"(2) [OF 3 "2.prems"(1)] "2.prems"(2-4) by simp
  qed (use "2.prems" in simp)
qed simp

lemma recover_expired_inv:
  assumes inv: "queue_inv q" and step: "recover_expired now q = (r, q')"
  shows "queue_inv q'"
proof -
  have "map job_id (map snd (jobs q)) = map fst (jobs q)"
    using inv by (auto simp: queue_inv_def intro!: map_cong)
  moreover have "distinct (map fst (jobs q))" using inv by (simp add: queue_inv_def)
  ultimately have "distinct (map job_id (map snd (jobs q)))" by (simp only:)
  moreover have "\<forall>j \<in> set (map snd (jobs q)). map_of (jobs q) (job_id j) = Some j"
    using queue_inv_jobs [OF inv] by simp
  ultimately show ?thesis
    using recover_loop_inv [OF inv] step by (simp only: recover_expired_def)
qed

lemma replay_inv:
  assumes inv: "queue_inv q" and step: "replay_dead_letter k rk actor now q = (r, q')"
  shows "queue_inv q'"
proof (cases "q' = q")
  case False
  then obtain s s' j i h where n: "new_submission s = Inr s'" and p: "pending s' now = Inr j"
    and e: "enqueue (j\<lparr>replay_of := i, attempt_history := [''replayed_by:'' @ h]\<rparr>) q = (r, q')"
    using step by (auto simp: replay_dead_letter_def result_simps split: sum.splits if_splits; blast)
  have "job_wf (j\<lparr>replay_of := i, attempt_history := [''replayed_by:'' @ h]\<rparr>)"
    by (rule fresh_wf [OF n p]) (simp add: starts_with_def)
  from enqueue_inv [OF inv this e] show ?thesis .
qed (use inv in simp)

section \<open>Reachable queues\<close>

text \<open>One call of a method, on jobs the constructors made.\<close>

inductive queue_step :: "durable_queue \<Rightarrow> durable_queue \<Rightarrow> bool" where
  step_enqueue: "new_submission s = Inr s' \<Longrightarrow> pending s' now = Inr j \<Longrightarrow> enqueue j q = (r, q')
    \<Longrightarrow> queue_step q q'"
| step_claim: "claim_next worker now q = (r', q') \<Longrightarrow> queue_step q q'"
| step_heartbeat: "heartbeat k worker now q = (r, q') \<Longrightarrow> queue_step q q'"
| step_complete: "complete k worker now res q = (r, q') \<Longrightarrow> queue_step q q'"
| step_fail: "fail k worker now reason retryable q = (r, q') \<Longrightarrow> queue_step q q'"
| step_recover: "recover_expired now q = (rs, q') \<Longrightarrow> queue_step q q'"
| step_replay: "replay_dead_letter k rk actor now q = (r, q') \<Longrightarrow> queue_step q q'"

inductive_cases queue_stepE: "queue_step q q'"

inductive queue_reachable :: "queue_policy \<Rightarrow> durable_queue \<Rightarrow> bool" where
  reach_new: "queue_reachable p (new_queue p)"
| reach_step: "queue_reachable p q \<Longrightarrow> queue_step q q' \<Longrightarrow> queue_reachable p q'"

lemmas method_inv = claim_next_inv heartbeat_inv complete_inv fail_inv recover_expired_inv replay_inv

lemma pending_wf: "new_submission s = Inr s' \<Longrightarrow> pending s' now = Inr j \<Longrightarrow> job_wf j"
  using fresh_wf [of s s' now j "[]" None] by (auto simp: pending_def split: if_splits)

lemma queue_step_inv: "queue_step q q' \<Longrightarrow> queue_inv q \<Longrightarrow> queue_inv q'"
  by (erule queue_stepE) (blast intro: method_inv enqueue_inv pending_wf)+

lemma queue_reachable_inv: "queue_reachable p q \<Longrightarrow> queue_inv q"
  by (induction rule: queue_reachable.induct) (auto intro: queue_inv_new queue_step_inv)

end
