(* ===== verification/Queue_Props.thy ===== *)
theory Queue_Props
  imports Queue
begin

text \<open>
  What the durable queue promises: exactly one job per idempotency key, bounded claims, tenant
  fairness, leases that hold against every other worker, and final states that stay final.
\<close>

section \<open>Fair claiming\<close>

definition counter_inv :: "durable_queue \<Rightarrow> bool" where
  "counter_inv q \<longleftrightarrow> 0 \<le> claim_counter q \<and> (\<forall>t. last_claim q t \<le> claim_counter q)"

lemma counter_inv_new: "counter_inv (new_queue p)"
  by (simp add: counter_inv_def new_queue_def last_claim_def)

lemma counter_inv_claim:
  assumes "counter_inv q" and "claim_next worker now q = (r, q')"
  shows "counter_inv q'"
proof (cases "\<exists>c. r = Inr (Some c)")
  case True
  then obtain c where "claim_next worker now q = (Inr (Some c), q')" using assms(2) by blast
  then obtain k t where "q' = (store k c q)\<lparr>claim_counter := claim_counter q + 1,
      tenant_last_claim := (tenant_last_claim q)(t \<mapsto> claim_counter q + 1)\<rparr>"
    by (elim claim_next_Some) blast
  moreover have "last_claim q t' \<le> claim_counter q + 1" for t'
    using assms(1) by (simp add: counter_inv_def add_increasing2)
  ultimately show ?thesis
    using assms(1) by (auto simp: counter_inv_def last_claim_def)
next
  case False
  then have "q' = q" using assms(2) by (auto simp: claim_next_def Let_def split: if_splits)
  then show ?thesis using assms(1) by simp
qed

text \<open>The other methods do not touch the claim counters.\<close>

definition claim_meta :: "durable_queue \<Rightarrow> int \<times> (string \<rightharpoonup> int)" where
  "claim_meta q = (claim_counter q, tenant_last_claim q)"

lemma claim_meta_store [simp]: "claim_meta (store k j q) = claim_meta q"
  by (simp add: claim_meta_def)

lemma counter_inv_meta: "claim_meta q' = claim_meta q \<Longrightarrow> counter_inv q \<Longrightarrow> counter_inv q'"
  by (simp add: claim_meta_def counter_inv_def last_claim_def)

lemma enqueue_meta: "enqueue j q = (r, q') \<Longrightarrow> claim_meta q' = claim_meta q"
  by (auto simp: enqueue_def claim_meta_def split: option.splits if_splits)

lemma recover_loop_meta: "recover_loop now js rs q = (r, q') \<Longrightarrow> claim_meta q' = claim_meta q"
  by (induction now js rs q rule: recover_loop.induct) (auto split: if_splits)

lemma owner_methods_meta:
  "heartbeat k worker now q = (r, q') \<Longrightarrow> claim_meta q' = claim_meta q"
  "complete k worker now res q = (r, q') \<Longrightarrow> claim_meta q' = claim_meta q"
  "fail k worker now reason retryable q = (r, q') \<Longrightarrow> claim_meta q' = claim_meta q"
  by (auto simp: heartbeat_def complete_def fail_def Let_def split: sum.splits if_splits)

lemma replay_meta: "replay_dead_letter k rk actor now q = (r, q') \<Longrightarrow> claim_meta q' = claim_meta q"
  by (auto simp: replay_dead_letter_def split: sum.splits if_splits intro: enqueue_meta)

lemma counter_inv_step: "queue_step q q' \<Longrightarrow> counter_inv q \<Longrightarrow> counter_inv q'"
  by (erule queue_stepE)
    (auto simp: recover_expired_def intro: counter_inv_claim counter_inv_meta enqueue_meta
      owner_methods_meta replay_meta recover_loop_meta)

lemma queue_reachable_counter: "queue_reachable p q \<Longrightarrow> counter_inv q"
  by (induction rule: queue_reachable.induct) (auto intro: counter_inv_new counter_inv_step)

definition tenants :: "durable_queue \<Rightarrow> string set" where
  "tenants q = tenant_id ` snd ` set (jobs q)"

text \<open>The tenants served no later than \<open>t\<close>, which may still be preferred to it.\<close>

definition ahead :: "string \<Rightarrow> durable_queue \<Rightarrow> string set" where
  "ahead t q = {u \<in> tenants q - {t}. last_claim q u \<le> last_claim q t}"

text \<open>A run of claims that all serve another tenant although \<open>t\<close> has an eligible job.\<close>

fun starved :: "string \<Rightarrow> durable_queue \<Rightarrow> (string \<times> datetime) list \<Rightarrow> bool" where
  "starved t q [] = True"
| "starved t q ((worker, now) # run) =
     ((\<exists>j \<in> snd ` set (jobs q). eligible now j \<and> tenant_id j = t)
      \<and> (case claim_next worker now q of
           (Inr (Some c), q') \<Rightarrow> tenant_id c \<noteq> t \<and> starved t q' run
         | _ \<Rightarrow> False))"

lemma claim_shrinks_ahead:
  assumes inv: "queue_inv q" "counter_inv q" and "claim_next worker now q = (Inr (Some c), q')"
    and "\<exists>j \<in> snd ` set (jobs q). eligible now j \<and> tenant_id j = t" and "tenant_id c \<noteq> t"
  shows "ahead t q' \<subset> ahead t q" and "finite (ahead t q)"
proof -
  from assms(3) obtain j where j: "j \<in> snd ` set (jobs q)"
    "\<And>i. i \<in> snd ` set (jobs q) \<Longrightarrow> eligible now i \<Longrightarrow> claim_key q j \<le> claim_key q i"
    and c: "c = j\<lparr>state := CLAIMED, lease_owner := Some worker,
      lease_expires_at := Some (dt_add now (lease_duration (policy q))), heartbeat_at := Some now,
      attempt_history := attempt_history j @ [''claimed:'' @ worker @ '':'' @ isoformat now]\<rparr>"
    and q': "q' = (store (job_id j) c q)\<lparr>claim_counter := claim_counter q + 1,
      tenant_last_claim := (tenant_last_claim q)(tenant_id j \<mapsto> claim_counter q + 1)\<rparr>"
    by (elim claim_next_Some) blast
  have jt: "tenant_id c = tenant_id j" by (simp add: c)
  from assms(4) obtain i where i: "i \<in> snd ` set (jobs q)" "eligible now i" "tenant_id i = t" by blast
  from j(2) [OF i(1,2)] have le: "last_claim q (tenant_id j) \<le> last_claim q t"
    using i(3) by (auto simp: claim_key_def)
  then have member: "tenant_id j \<in> ahead t q"
    using j(1) assms(5) jt by (auto simp: ahead_def tenants_def)
  have m: "map_of (jobs q) (job_id j) = Some j" using queue_inv_jobs [OF inv(1)] j(1) by simp
  have inv': "queue_inv q'" using claim_next_inv [OF inv(1) assms(3)] .
  have "tenant_id x \<in> tenants q" if "x \<in> snd ` set (jobs q')" for x
  proof -
    have "map_of (jobs q') (job_id x) = Some x" using queue_inv_jobs [OF inv'] that by simp
    then have "x = c \<or> map_of (jobs q) (job_id x) = Some x" by (auto simp: q' split: if_splits)
    then show ?thesis
    proof
      assume "map_of (jobs q) (job_id x) = Some x"
      then show ?thesis using queue_inv_jobs [OF inv(1)] by (auto simp: tenants_def)
    qed (use j(1) jt in \<open>auto simp: tenants_def\<close>)
  qed
  then have sub: "tenants q' \<subseteq> tenants q" by (auto simp: tenants_def)
  have last: "last_claim q' u = (if u = tenant_id j then claim_counter q + 1 else last_claim q u)" for u
    by (simp add: q' last_claim_def)
  have "last_claim q t \<le> claim_counter q" using inv(2) by (simp add: counter_inv_def)
  then have "ahead t q' \<subseteq> ahead t q - {tenant_id j}"
    using sub assms(5) jt by (auto simp: ahead_def last split: if_splits)
  with member show "ahead t q' \<subset> ahead t q" by blast
  show "finite (ahead t q)" by (simp add: ahead_def tenants_def)
qed

lemma starved_bound:
  "queue_inv q \<Longrightarrow> counter_inv q \<Longrightarrow> starved t q run \<Longrightarrow> length run \<le> card (ahead t q)"
proof (induction t q run rule: starved.induct)
  case (2 t q worker now run)
  then obtain c q' where c: "claim_next worker now q = (Inr (Some c), q')"
    by (auto split: prod.splits sum.splits option.splits)
  then have s: "tenant_id c \<noteq> t" "starved t q' run"
    "\<exists>j \<in> snd ` set (jobs q). eligible now j \<and> tenant_id j = t"
    using "2.prems"(3) by auto
  have "length run \<le> card (ahead t q')"
    using "2.IH" [OF c [symmetric] refl refl] claim_next_inv [OF "2.prems"(1) c]
      counter_inv_claim [OF "2.prems"(2) c] s(2) by blast
  moreover have "card (ahead t q') < card (ahead t q)"
    using claim_shrinks_ahead [OF "2.prems"(1,2) c s(3,1)] by (intro psubset_card_mono) auto
  ultimately show ?case by simp
qed simp

section \<open>Jobs that a step cannot touch\<close>

text \<open>
  The steps the holder of a lease has to fear: every method called by another worker, and the
  recovery of expired leases at a time at which this one has not expired.
\<close>

inductive foreign_step :: "string \<Rightarrow> datetime \<Rightarrow> durable_queue \<Rightarrow> durable_queue \<Rightarrow> bool"
  for w :: string and expires :: datetime where
  foreign_enqueue: "new_submission s = Inr s' \<Longrightarrow> pending s' now = Inr j \<Longrightarrow> enqueue j q = (r, q')
    \<Longrightarrow> foreign_step w expires q q'"
| foreign_claim: "claim_next v now q = (r', q') \<Longrightarrow> foreign_step w expires q q'"
| foreign_heartbeat: "v \<noteq> w \<Longrightarrow> heartbeat k v now q = (r, q') \<Longrightarrow> foreign_step w expires q q'"
| foreign_complete: "v \<noteq> w \<Longrightarrow> complete k v now res q = (r, q') \<Longrightarrow> foreign_step w expires q q'"
| foreign_fail: "v \<noteq> w \<Longrightarrow> fail k v now reason retryable q = (r, q') \<Longrightarrow> foreign_step w expires q q'"
| foreign_recover: "dt_le now expires \<Longrightarrow> recover_expired now q = (rs, q') \<Longrightarrow> foreign_step w expires q q'"
| foreign_replay: "replay_dead_letter k rk actor now q = (r, q') \<Longrightarrow> foreign_step w expires q q'"

inductive_cases foreign_stepE: "foreign_step w expires q q'"

lemma foreign_step_is_step: "foreign_step w e q q' \<Longrightarrow> queue_step q q'"
  by (erule foreign_stepE) (blast intro: queue_step.intros)+

lemma enqueue_keeps:
  "enqueue i q = (r, q') \<Longrightarrow> map_of (jobs q) k = Some j \<Longrightarrow> map_of (jobs q') k = Some j"
  by (auto simp: enqueue_def split: option.splits if_splits)

lemma replay_keeps:
  "replay_dead_letter x rk actor now q = (r, q') \<Longrightarrow> map_of (jobs q) k = Some j \<Longrightarrow> map_of (jobs q') k = Some j"
  by (auto simp: replay_dead_letter_def split: sum.splits if_splits intro: enqueue_keeps)

lemma claim_keeps:
  assumes "queue_inv q" and "claim_next v now q = (r, q')" and "map_of (jobs q) k = Some j" and "\<not> claimable j"
  shows "map_of (jobs q') k = Some j"
proof (cases "\<exists>c. r = Inr (Some c)")
  case True
  then obtain c where "claim_next v now q = (Inr (Some c), q')" using assms(2) by blast
  then obtain i where i: "i \<in> snd ` set (jobs q)" "eligible now i"
    and q': "\<exists>a b. q' = (store (job_id i) c q)\<lparr>claim_counter := a, tenant_last_claim := b\<rparr>"
    by (elim claim_next_Some) blast
  have "map_of (jobs q) (job_id i) = Some i" using queue_inv_jobs [OF assms(1)] i(1) by simp
  then have "job_id i \<noteq> k" using i(2) assms(3,4) by (auto simp: eligible_def)
  then show ?thesis using q' assms(3) by auto
next
  case False
  then have "q' = q" using assms(2) by (auto simp: claim_next_def Let_def split: if_splits)
  then show ?thesis using assms(3) by simp
qed

text \<open>A method on a lease changes the one job whose live lease the caller holds.\<close>

lemma owner_methods_keep:
  assumes "map_of (jobs q) k = Some j" and "x = k \<Longrightarrow> owned_claim x v now q \<noteq> Inr j"
  shows "heartbeat x v now q = (r, q') \<Longrightarrow> map_of (jobs q') k = Some j"
    and "complete x v now res q = (r, q') \<Longrightarrow> map_of (jobs q') k = Some j"
    and "fail x v now reason retryable q = (r, q') \<Longrightarrow> map_of (jobs q') k = Some j"
proof -
  have "x \<noteq> k" if "owned_claim x v now q = Inr i" for i
  proof
    assume "x = k"
    moreover have "map_of (jobs q) x = Some i" using that by (simp add: owned_claim_Inr)
    ultimately show False using assms that by simp
  qed
  then consider e where "owned_claim x v now q = Inl e" | i where "owned_claim x v now q = Inr i" "x \<noteq> k"
    by (cases "owned_claim x v now q") auto
  then have "(heartbeat x v now q = (r, q') \<longrightarrow> map_of (jobs q') k = Some j)
    \<and> (complete x v now res q = (r, q') \<longrightarrow> map_of (jobs q') k = Some j)
    \<and> (fail x v now reason retryable q = (r, q') \<longrightarrow> map_of (jobs q') k = Some j)"
    using assms(1)
    by cases (auto simp: heartbeat_def complete_def fail_def Let_def split: if_splits sum.splits)
  then show "heartbeat x v now q = (r, q') \<Longrightarrow> map_of (jobs q') k = Some j"
    and "complete x v now res q = (r, q') \<Longrightarrow> map_of (jobs q') k = Some j"
    and "fail x v now reason retryable q = (r, q') \<Longrightarrow> map_of (jobs q') k = Some j"
    by blast+
qed

lemma recover_loop_keeps:
  assumes "recover_loop now js rs q = (r, q')" and "map_of (jobs q) k = Some j"
    and "\<forall>i \<in> set js. job_id i = k \<longrightarrow> \<not> expired_lease now i"
  shows "map_of (jobs q') k = Some j"
  using assms
proof (induction now js rs q rule: recover_loop.induct)
  case (2 now i js rs q)
  consider "incomparable_lease now i" | "\<not> incomparable_lease now i" "expired_lease now i"
    | "\<not> incomparable_lease now i" "\<not> expired_lease now i" by blast
  then show ?case
  proof cases
    case 2
    then have "job_id i \<noteq> k" using "2.prems"(3) by auto
    then show ?thesis using "2.IH"(1) [OF 2] "2.prems" 2 by simp
  next
    case 3
    then show ?thesis using "2.IH"(2) [OF 3] "2.prems" by simp
  qed (use "2.prems" in simp)
qed simp

lemma recover_keeps:
  assumes "queue_inv q" and "recover_expired now q = (r, q')" and "map_of (jobs q) k = Some j"
    and "\<not> expired_lease now j"
  shows "map_of (jobs q') k = Some j"
proof (rule recover_loop_keeps [OF assms(2) [unfolded recover_expired_def] assms(3)], intro ballI impI)
  fix i assume "i \<in> set (map snd (jobs q))" "job_id i = k"
  then have "map_of (jobs q) k = Some i" using queue_inv_jobs [OF assms(1)] by auto
  then show "\<not> expired_lease now i" using assms(3,4) by simp
qed

lemma foreign_step_keeps:
  assumes "foreign_step w e q q'" and "queue_inv q" and "map_of (jobs q) k = Some j"
    and "state j = CLAIMED" and "lease_owner j = Some w" and "lease_expires_at j = Some e"
  shows "map_of (jobs q') k = Some j"
proof -
  have c: "\<not> claimable j" using assms(4) by (simp add: claimable_def)
  have o: "owned_claim x v now q \<noteq> Inr j" if "v \<noteq> w" for x v now
    using that assms(5) by (auto simp: owned_claim_Inr)
  from assms(1) show ?thesis
  proof (cases rule: foreign_step.cases)
    case (foreign_recover now rs)
    then have "\<not> expired_lease now j" using assms(6) by (auto simp: expired_lease_def)
    with foreign_recover show ?thesis using recover_keeps [OF assms(2) _ assms(3)] by blast
  qed (use assms(2,3) c o in \<open>blast intro: enqueue_keeps claim_keeps replay_keeps owner_methods_keep\<close>)+
qed

lemma foreign_steps_keep:
  assumes "(foreign_step w e)\<^sup>*\<^sup>* q q'" and "queue_inv q" and "map_of (jobs q) k = Some j"
    and "state j = CLAIMED" and "lease_owner j = Some w" and "lease_expires_at j = Some e"
  shows "map_of (jobs q') k = Some j \<and> queue_inv q'"
  using assms(1)
proof (induction rule: rtranclp_induct)
  case (step y z)
  then show ?case
    using foreign_step_keeps [OF step(2)] queue_step_inv [OF foreign_step_is_step [OF step(2)]] assms(4-6)
    by blast
qed (use assms in simp)

text \<open>Final jobs.\<close>

lemma final_step:
  assumes "queue_step q q'" and "queue_inv q" and "map_of (jobs q) k = Some j"
    and "state j \<in> {COMPLETED, DEAD_LETTER}"
  shows "map_of (jobs q') k = Some j"
proof -
  have c: "\<not> claimable j" and x: "\<not> expired_lease now j" for now
    using assms(4) by (auto simp: claimable_def expired_lease_def)
  have o: "owned_claim y v now q \<noteq> Inr j" for y v now
    using assms(4) by (auto simp: owned_claim_Inr)
  show ?thesis
    using assms(1)
    by (cases rule: queue_step.cases)
      (use assms(2,3) c o x in \<open>blast intro: enqueue_keeps claim_keeps replay_keeps owner_methods_keep recover_keeps\<close>)+
qed

lemma queue_steps_inv: "queue_step\<^sup>*\<^sup>* q q' \<Longrightarrow> queue_inv q \<Longrightarrow> queue_inv q'"
  by (induction rule: rtranclp_induct) (auto intro: queue_step_inv)

lemma final_steps:
  assumes "queue_step\<^sup>*\<^sup>* q q'" and "queue_inv q" and "map_of (jobs q) k = Some j"
    and "state j \<in> {COMPLETED, DEAD_LETTER}"
  shows "map_of (jobs q') k = Some j"
  using assms(1)
  by (induction rule: rtranclp_induct) (use assms in \<open>auto intro: final_step queue_steps_inv\<close>)

text \<open>A key that is taken stays with its job.\<close>

lemma enqueue_index:
  "enqueue i q = (r, q') \<Longrightarrow> idempotency q key = Some k \<Longrightarrow> idempotency q' key = Some k"
  by (auto simp: enqueue_def split: option.splits if_splits)

lemma recover_loop_index: "recover_loop now js rs q = (r, q') \<Longrightarrow> idempotency q' = idempotency q"
  by (induction now js rs q rule: recover_loop.induct) (auto split: if_splits)

lemma claim_index: "claim_next v now q = (r, q') \<Longrightarrow> idempotency q' = idempotency q"
  by (auto simp: claim_next_def Let_def split: if_splits)

lemma owner_methods_index:
  "heartbeat k worker now q = (r, q') \<Longrightarrow> idempotency q' = idempotency q"
  "complete k worker now res q = (r, q') \<Longrightarrow> idempotency q' = idempotency q"
  "fail k worker now reason retryable q = (r, q') \<Longrightarrow> idempotency q' = idempotency q"
  by (auto simp: heartbeat_def complete_def fail_def Let_def split: sum.splits if_splits)

lemma replay_index:
  "replay_dead_letter x rk actor now q = (r, q') \<Longrightarrow> idempotency q key = Some k \<Longrightarrow> idempotency q' key = Some k"
  by (auto simp: replay_dead_letter_def split: sum.splits if_splits intro: enqueue_index)

lemma idempotency_stable:
  "queue_step q q' \<Longrightarrow> idempotency q key = Some k \<Longrightarrow> idempotency q' key = Some k"
  by (erule queue_stepE)
    (auto simp: recover_expired_def claim_index owner_methods_index recover_loop_index
      intro: enqueue_index replay_index)

section \<open>Properties\<close>

text \<open>
  C9: in every reachable queue an idempotency key names one job, a job carries a lease exactly
  while it is claimed, it is never claimed more often than its attempt limit, and a job that may
  still run has attempts left.
\<close>

theorem queue_reachable_safe:
  assumes "queue_reachable p q" and "j \<in> snd ` set (jobs q)"
  shows "(\<forall>i \<in> snd ` set (jobs q). job_key i = job_key j \<longrightarrow> i = j)
    \<and> (lease_owner j \<noteq> None \<longleftrightarrow> state j = CLAIMED) \<and> (lease_expires_at j \<noteq> None \<longleftrightarrow> state j = CLAIMED)
    \<and> claims j \<le> max_attempts j
    \<and> (state j \<in> {PENDING, CLAIMED, RETRY_SCHEDULED} \<longrightarrow> attempts j < max_attempts j)
    \<and> (dead_letter_reason j \<noteq> None \<longleftrightarrow> state j = DEAD_LETTER)"
proof -
  have inv: "queue_inv q" using assms(1) by (rule queue_reachable_inv)
  have m: "map_of (jobs q) (job_id j) = Some j" using queue_inv_jobs [OF inv] assms(2) by simp
  have wf: "job_wf j" using queue_inv_job [OF inv m] by blast
  have "i = j" if "i \<in> snd ` set (jobs q)" "job_key i = job_key j" for i
  proof -
    have i: "map_of (jobs q) (job_id i) = Some i" using queue_inv_jobs [OF inv] that(1) by simp
    show ?thesis using queue_inv_index [OF inv i] queue_inv_index [OF inv m] that(2) i m by simp
  qed
  moreover have "state j \<noteq> DEAD_LETTER \<longrightarrow> attempts j < max_attempts j" "attempts j \<le> max_attempts j"
    "claims j = attempts j + (if state j \<in> {CLAIMED, COMPLETED} then 1 else 0)"
    using wf unfolding job_wf_def by blast+
  moreover from this have "claims j \<le> max_attempts j"
    by (cases "state j \<in> {CLAIMED, COMPLETED}") auto
  ultimately show ?thesis
    using job_wf_outcome [OF wf] by (simp; blast)
qed

text \<open>
  C10: tenant fairness. While tenant \<open>t\<close> has an eligible job, no run of claims passes it over more
  often than there are other tenants.
\<close>

theorem claims_do_not_starve:
  assumes "queue_reachable p q" and "starved t q run"
  shows "length run \<le> card (tenants q - {t})"
proof -
  have "length run \<le> card (ahead t q)"
    using starved_bound queue_reachable_inv queue_reachable_counter assms by blast
  also have "\<dots> \<le> card (tenants q - {t})"
    by (rule card_mono) (auto simp: ahead_def tenants_def)
  finally show ?thesis .
qed

text \<open>
  C11: a live lease holds. Whatever other workers do, and whenever expired leases are recovered up
  to the expiry of this one, the holder finds its job untouched and completes it.
\<close>

theorem lease_holder_completes:
  assumes "queue_reachable p q" and "map_of (jobs q) k = Some j" and "state j = CLAIMED"
    and "lease_owner j = Some w" and "lease_expires_at j = Some e" and "(foreign_step w e)\<^sup>*\<^sup>* q q'"
    and "aware now" and "dt_le now e"
  shows "map_of (jobs q') k = Some j
    \<and> (\<exists>u q''. complete k w now res q' = (Inr u, q'') \<and> state u = COMPLETED
        \<and> map_of (jobs q'') k = Some u)"
proof -
  have inv: "queue_inv q" using assms(1) by (rule queue_reachable_inv)
  have m: "map_of (jobs q') k = Some j"
    using foreign_steps_keep [OF assms(6) inv assms(2-5)] by blast
  have "aware e"
    using queue_inv_job [OF inv assms(2)] assms(5) by (auto simp: job_wf_def)
  then have "owned_claim k w now q' = Inr j"
    using m assms(3-5,7,8) by (simp add: owned_claim_Inr comparable_def)
  then show ?thesis using m by (simp add: complete_def Let_def)
qed

text \<open>
  Completed and dead-lettered jobs are final: no sequence of calls changes them; a replay
  creates a new job.
\<close>

theorem final_jobs_frozen:
  assumes "queue_reachable p q" and "map_of (jobs q) k = Some j"
    and "state j \<in> {COMPLETED, DEAD_LETTER}" and "queue_step\<^sup>*\<^sup>* q q'"
  shows "map_of (jobs q') k = Some j"
  using final_steps [OF assms(4) queue_reachable_inv [OF assms(1)] assms(2,3)] .

text \<open>
  An idempotency key is accepted once. After any number of later calls, a second submission
  under the same scope and key returns the job accepted first and leaves the queue as it is.
\<close>

theorem enqueue_exactly_once:
  assumes "queue_reachable p q" and "new_submission s = Inr s'" and "pending s' now = Inr j"
    and "enqueue j q = (Inr a, q1)" and "queue_step\<^sup>*\<^sup>* q1 q2" and "job_key i = job_key j"
  shows "\<exists>b. enqueue i q2 = (Inr b, q2) \<and> job_id b = job_id a \<and> job_key b = job_key j"
proof -
  have inv: "queue_inv q" using assms(1) by (rule queue_reachable_inv)
  have inv1: "queue_inv q1" by (rule enqueue_inv [OF inv pending_wf [OF assms(2,3)] assms(4)])
  have a: "map_of (jobs q1) (job_id a) = Some a \<and> job_key a = job_key j"
  proof (cases "idempotency q (job_key j)")
    case None
    then show ?thesis using assms(4) by (auto simp: enqueue_def split: if_splits)
  next
    case (Some k)
    then have "get q k = Inr a" "q1 = q" using assms(4) by (auto simp: enqueue_def)
    then show ?thesis
      using queue_inv_idem [OF inv Some] queue_inv_job [OF inv] by (auto simp: get_Inr)
  qed
  then have idx: "idempotency q1 (job_key j) = Some (job_id a)"
    using queue_inv_index [OF inv1] by metis
  have "idempotency q2 (job_key j) = Some (job_id a) \<and> queue_inv q2"
    using assms(5)
  proof (induction rule: rtranclp_induct)
    case base
    then show ?case using idx inv1 by simp
  next
    case (step y z)
    then show ?case using idempotency_stable by (blast intro: queue_step_inv)
  qed
  then obtain b where "map_of (jobs q2) (job_id a) = Some b" "job_key b = job_key j" "job_id b = job_id a"
    using queue_inv_idem queue_inv_job by metis
  then show ?thesis
    using \<open>idempotency q2 (job_key j) = Some (job_id a) \<and> queue_inv q2\<close> assms(6)
    by (intro exI [of _ b]) (simp add: enqueue_def get_def dict_get_def)
qed

lemma clamped_sum:
  "(base::int) \<le> b \<Longrightarrow> b \<le> m \<Longrightarrow> 0 \<le> j \<Longrightarrow> j \<le> c \<Longrightarrow>
    base \<le> min m (b + j) \<and> b \<le> min m (b + j) \<and> min m (b + j) \<le> m \<and> min m (b + j) \<le> b + c"
  by (simp add: min_def)

text \<open>
  A retry is delayed by at least the base delay and at most the maximum, by at least the
  exponential backoff of the attempt and by at most a quarter more than it (one second at least).
\<close>

theorem retry_delay_bounds:
  assumes "new_queue_policy p = Inr p" and "1 \<le> n"
  shows "\<exists>d. retry_delay_seconds key n p = Inr d
    \<and> (let backoff = min (max_retry_seconds p) (base_retry_seconds p * 2 ^ nat (n - 1)) in
        base_retry_seconds p \<le> d \<and> backoff \<le> d \<and> d \<le> max_retry_seconds p
        \<and> d \<le> backoff + max 1 (backoff div 4))"
proof -
  define b where "b = min (max_retry_seconds p) (base_retry_seconds p * 2 ^ nat (n - 1))"
  define c where "c = max 1 (b div 4)"
  define j where "j = int_of_bytes (take 4 (sha256_digest (encode (key @ '':'' @ str_int n)))) mod (c + 1)"
  have p: "1 \<le> base_retry_seconds p" "base_retry_seconds p \<le> max_retry_seconds p"
    using assms(1) by (auto simp: new_queue_policy_def split: if_splits)
  have "base_retry_seconds p * 1 \<le> base_retry_seconds p * 2 ^ nat (n - 1)"
    by (rule mult_left_mono) (use p in simp_all)
  then have b: "base_retry_seconds p \<le> b" "b \<le> max_retry_seconds p" using p by (simp_all add: b_def)
  have "0 < c + 1" by (simp add: c_def)
  then have j: "0 \<le> j" "j \<le> c"
    using pos_mod_sign [of "c + 1"] pos_mod_bound [of "c + 1"] by (simp_all add: j_def)
  have "\<not> n < 1" using assms(2) by simp
  then have "retry_delay_seconds key n p = Inr (min (max_retry_seconds p) (b + j))"
    by (simp only: retry_delay_seconds_def Let_def b_def c_def j_def if_False)
  then show ?thesis
    using clamped_sum [OF b j] by (simp only: Let_def b_def [symmetric] c_def [symmetric]) blast
qed

text \<open>One request to the fence: an acquisition or a release of a key by an owner.\<close>

fun fence_request :: "bool \<times> string \<times> string \<Rightarrow> scheduler_fence \<Rightarrow> scheduler_fence" where
  "fence_request (True, k, x) f = snd (acquire k x f)"
| "fence_request (False, k, x) f = snd (release k x f)"

lemma fence_request_attempt: "fence_request = fence.attempt"
proof (rule ext, rule ext)
  fix op f show "fence_request op f = fence.attempt op f"
    by (cases op; cases "fst op") (auto simp: fence.attempt.simps)
qed

text \<open>
  The fence is exclusive. After an owner has acquired a key, no requests of other owners take
  it away, every acquisition by another owner is refused, and only the owner can release it.
\<close>

theorem fence_exclusive:
  assumes "acquire k x f = (True, f')" and "\<forall>(b, k', y) \<in> set ops. (k', y) \<noteq> (k, x)" and "y \<noteq> x"
  shows "let g = fold fence_request ops f' in
    g k = Some x \<and> acquire k y g = (False, g) \<and> isl (fst (release k y g))
      \<and> release k x g = (Inr (), g(k := None))"
proof -
  have "f' k = Some x" using fence.acq_free [of f k x] assms(1)
    by (auto simp: acquire_def split: option.splits if_splits)
  then have "fold fence_request ops f' k = Some x"
    unfolding fence_request_attempt by (rule fence.holder_keeps) (use assms(2) in auto)
  then show ?thesis
    using assms(3) by (auto simp: Let_def acquire_def release_def)
qed

section \<open>A concrete run\<close>

definition demo_time :: datetime where
  "demo_time = Datetime 0 (Some 0)"

definition demo_submission :: "string \<Rightarrow> job_submission" where
  "demo_submission t = \<lparr>sub_tenant_id = t, sub_workspace_id = ''ws'', sub_job_id = t, sub_job_type = ''sync'',
     sub_idempotency_key = ''key'', sub_payload = [], sub_max_attempts = 2\<rparr>"

definition demo_job :: "string \<Rightarrow> workspace_job" where
  "demo_job t = \<lparr>tenant_id = t, workspace_id = ''ws'', job_id = t, job_type = ''sync'',
     idempotency_key = ''key'', payload = [], state = PENDING, attempts = 0, max_attempts = 2,
     next_attempt_at = demo_time, created_at = demo_time, lease_owner = None, lease_expires_at = None,
     heartbeat_at = None, completed_at = None, job_result = None, dead_letter_reason = None,
     replay_of = None, attempt_history = []\<rparr>"

definition demo_claimed :: workspace_job where
  "demo_claimed = (demo_job ''a'')\<lparr>state := CLAIMED, lease_owner := Some ''w'',
     lease_expires_at := Some (dt_add demo_time (seconds 30)), heartbeat_at := Some demo_time,
     attempt_history := [''claimed:'' @ ''w'' @ '':'' @ isoformat demo_time]\<rparr>"

definition demo_queue :: "workspace_job list \<Rightarrow> durable_queue" where
  "demo_queue js = \<lparr>policy = default_policy, jobs = map (\<lambda>j. (job_id j, j)) js,
     idempotency = map_of (map (\<lambda>j. (job_key j, job_id j)) (rev js)), tenant_last_claim = Map.empty,
     claim_counter = 0\<rparr>"

lemma demo_submission_ok: "t \<in> {''a'', ''b''} \<Longrightarrow> new_submission (demo_submission t) = Inr (demo_submission t)"
  by (auto simp: new_submission_def demo_submission_def blank_iff is_space_def)

lemma demo_pending: "pending (demo_submission t) demo_time = Inr (demo_job t)"
  by (simp add: pending_def demo_submission_def demo_job_def demo_time_def aware_def)

lemma demo_enqueue_a: "enqueue (demo_job ''a'') (new_queue default_policy)
    = (Inr (demo_job ''a''), demo_queue [demo_job ''a''])"
  by (simp add: enqueue_def new_queue_def demo_queue_def store_def demo_job_def job_key_def)

lemma demo_enqueue_b: "enqueue (demo_job ''b'') (demo_queue [demo_job ''a''])
    = (Inr (demo_job ''b''), demo_queue [demo_job ''a'', demo_job ''b''])"
  by (simp add: enqueue_def demo_queue_def store_def demo_job_def job_key_def)

lemma demo_reachable_a: "queue_reachable default_policy (demo_queue [demo_job ''a''])"
  using reach_step [OF reach_new step_enqueue [OF demo_submission_ok demo_pending demo_enqueue_a]] by simp

lemma demo_reachable_ab: "queue_reachable default_policy (demo_queue [demo_job ''a'', demo_job ''b''])"
  using reach_step [OF demo_reachable_a step_enqueue [OF demo_submission_ok demo_pending demo_enqueue_b]]
  by simp

definition demo_claimed_queue :: "workspace_job list \<Rightarrow> durable_queue" where
  "demo_claimed_queue js = (demo_queue (demo_claimed # js))\<lparr>claim_counter := 1,
     tenant_last_claim := [''a'' \<mapsto> 1]\<rparr>"

lemma demo_eligible: "eligible demo_time (demo_job t)" "\<not> eligible demo_time demo_claimed"
  by (simp_all add: eligible_def claimable_def demo_job_def demo_claimed_def dt_le_def)

lemma demo_comparable: "comparable (next_attempt_at (demo_job t)) demo_time"
  by (simp add: comparable_def demo_job_def)

lemma demo_claim_a: "claim_next ''w'' demo_time (demo_queue [demo_job ''a''])
    = (Inr (Some demo_claimed), demo_claimed_queue [])"
  using demo_eligible demo_comparable
  by (simp add: claim_next_def demo_queue_def demo_claimed_queue_def Let_def demo_claimed_def
      blank_iff is_space_def)
    (simp add: demo_job_def store_def default_policy_def job_key_def fun_eq_iff)

lemma demo_sort: "sort_key (claim_key (demo_queue [demo_job ''a'', demo_job ''b''])) [demo_job ''a'', demo_job ''b'']
    = [demo_job ''a'', demo_job ''b'']"
  by (simp add: claim_key_def last_claim_def demo_queue_def demo_job_def less_char_def)

lemma demo_claim_ab: "claim_next ''w'' demo_time (demo_queue [demo_job ''a'', demo_job ''b''])
    = (Inr (Some demo_claimed), demo_claimed_queue [demo_job ''b''])"
  using demo_eligible demo_comparable demo_sort
  by (simp add: claim_next_def demo_queue_def demo_claimed_queue_def Let_def demo_claimed_def
      blank_iff is_space_def)
    (simp add: demo_job_def store_def default_policy_def job_key_def fun_eq_iff)

lemma demo_reachable_claimed: "queue_reachable default_policy (demo_claimed_queue [])"
  using reach_step [OF demo_reachable_a step_claim [OF demo_claim_a]] .

lemma demo_claimed_job: "map_of (jobs (demo_claimed_queue [])) ''a'' = Some demo_claimed"
  "state demo_claimed = CLAIMED" "lease_owner demo_claimed = Some ''w''"
  "lease_expires_at demo_claimed = Some (dt_add demo_time (seconds 30))"
  by (simp_all add: demo_claimed_queue_def demo_queue_def demo_claimed_def demo_job_def)

theorem queue_reachable_safe_witness:
  "queue_reachable default_policy (demo_claimed_queue []) \<and> claims demo_claimed \<le> 2"
  using queue_reachable_safe [OF demo_reachable_claimed, of demo_claimed] demo_reachable_claimed
  by (simp add: demo_claimed_queue_def demo_queue_def) (simp add: demo_claimed_def demo_job_def)

theorem claims_do_not_starve_witness:
  "starved ''b'' (demo_queue [demo_job ''a'', demo_job ''b'']) [(''w'', demo_time)]
    \<and> Suc 0 \<le> card (tenants (demo_queue [demo_job ''a'', demo_job ''b'']) - {''b''})"
proof -
  have s: "starved ''b'' (demo_queue [demo_job ''a'', demo_job ''b'']) [(''w'', demo_time)]"
    using demo_eligible(1) [of "''b''"]
    by (simp add: demo_claim_ab) (simp add: demo_queue_def demo_claimed_def demo_job_def)
  from claims_do_not_starve [OF demo_reachable_ab s] s show ?thesis by simp
qed

theorem lease_holder_completes_witness:
  "\<exists>u q. complete ''a'' ''w'' demo_time [] (demo_claimed_queue []) = (Inr u, q) \<and> state u = COMPLETED"
  using lease_holder_completes [OF demo_reachable_claimed demo_claimed_job rtranclp.rtrancl_refl,
      of demo_time "[]"]
  by (auto simp: demo_time_def aware_def dt_le_def seconds_def)

definition demo_done :: workspace_job where
  "demo_done = demo_claimed\<lparr>state := COMPLETED, completed_at := Some demo_time, job_result := Some [],
     lease_owner := None, lease_expires_at := None, heartbeat_at := None,
     attempt_history := attempt_history demo_claimed @ [''completed:'' @ ''w'' @ '':'' @ isoformat demo_time]\<rparr>"

lemma demo_complete: "complete ''a'' ''w'' demo_time [] (demo_claimed_queue [])
    = (Inr demo_done, store ''a'' demo_done (demo_claimed_queue []))"
proof -
  have "owned_claim ''a'' ''w'' demo_time (demo_claimed_queue []) = Inr demo_claimed"
    using demo_claimed_job by (auto simp: owned_claim_Inr comparable_def demo_time_def dt_le_def seconds_def)
  then show ?thesis by (simp add: complete_def demo_done_def Let_def)
qed

theorem final_jobs_frozen_witness:
  "queue_reachable default_policy (store ''a'' demo_done (demo_claimed_queue []))
    \<and> map_of (jobs (store ''a'' demo_done (demo_claimed_queue []))) ''a'' = Some demo_done"
proof -
  have r: "queue_reachable default_policy (store ''a'' demo_done (demo_claimed_queue []))"
    using reach_step [OF demo_reachable_claimed step_complete [OF demo_complete]] .
  have "map_of (jobs (store ''a'' demo_done (demo_claimed_queue []))) ''a'' = Some demo_done"
    by (rule final_jobs_frozen [OF r]) (simp_all add: demo_done_def)
  with r show ?thesis by blast
qed

theorem enqueue_exactly_once_witness:
  "\<exists>b. enqueue (demo_job ''a'') (demo_claimed_queue []) = (Inr b, demo_claimed_queue []) \<and> job_id b = ''a''"
proof -
  have "queue_step\<^sup>*\<^sup>* (demo_queue [demo_job ''a'']) (demo_claimed_queue [])"
    using step_claim [OF demo_claim_a] by blast
  from enqueue_exactly_once [OF reach_new demo_submission_ok demo_pending demo_enqueue_a this refl]
  show ?thesis by (auto simp: demo_job_def)
qed

theorem retry_delay_bounds_witness:
  "\<exists>d. retry_delay_seconds ''k'' 3 default_policy = Inr d \<and> 4 \<le> d \<and> d \<le> 5"
proof -
  have "new_queue_policy default_policy = Inr default_policy"
    by (simp add: new_queue_policy_def default_policy_def seconds_def)
  from retry_delay_bounds [OF this, of 3 "''k''"] show ?thesis
    by (auto simp: default_policy_def Let_def)
qed

theorem fence_exclusive_witness:
  "acquire ''k'' ''x'' new_fence = (True, [''k'' \<mapsto> ''x''])
    \<and> acquire ''k'' ''y'' [''k'' \<mapsto> ''x''] = (False, [''k'' \<mapsto> ''x''])"
proof -
  have a: "acquire ''k'' ''x'' new_fence = (True, [''k'' \<mapsto> ''x''])"
    by (simp add: acquire_def new_fence_def)
  from fence_exclusive [OF a, of "[]" "''y''"] a show ?thesis by (simp add: Let_def)
qed

end
