(* ===== verification/Policies.thy ===== *)
theory Policies
  imports Entities
begin

text \<open>
  \<open>domain/policies.py\<close>, first part: the enumerations, the gate, evidence, waiver and completion
  policy records and what their constructors check and canonicalise. Theory \<open>Policy_Parse\<close> holds
  the parser of bundles and \<open>Policy_Eval\<close> the evaluation of gates, completion and lifecycle.
\<close>

section \<open>Enumerations\<close>

datatype gate_phase = ENTRY | COMPLETION | CERTIFICATION

datatype gate_type = DEPENDENCY | EVIDENCE | APPROVAL | QUALITY | SAFETY

datatype gate_state = GATE_PENDING | PASSED | FAILED | GATE_WAIVED

datatype evidence_type = COMPUTED | OBSERVED | DECLARED

datatype producer_kind = PRODUCER_AUTOMATION | PRODUCER_HUMAN | PRODUCER_AI

datatype attestation_method = SIGNATURE | CRYPTOGRAPHIC | WITNESSED | DECLARED_METHOD

datatype completion_policy_kind =
    ALL_GATES_PASSED | ALL_DEPENDENCIES_COMPLETE | ALL_CHILDREN_COMPLETE | EVIDENCE_DECLARED
  | COMPOSITE | MANUAL_ONLY

datatype composite_operator = AND_OP | OR_OP

datatype completion_result =
  SATISFIED | INCOMPLETE | CLOSED_UNVERIFIED | PENDING_REVIEW | COMPLETION_UNKNOWN

fun gate_phase_value :: "gate_phase \<Rightarrow> string" where
  "gate_phase_value ENTRY = ''entry''"
| "gate_phase_value COMPLETION = ''completion''"
| "gate_phase_value CERTIFICATION = ''certification''"

fun gate_type_value :: "gate_type \<Rightarrow> string" where
  "gate_type_value DEPENDENCY = ''dependency''"
| "gate_type_value EVIDENCE = ''evidence''"
| "gate_type_value APPROVAL = ''approval''"
| "gate_type_value QUALITY = ''quality''"
| "gate_type_value SAFETY = ''safety''"

fun evidence_type_value :: "evidence_type \<Rightarrow> string" where
  "evidence_type_value COMPUTED = ''computed''"
| "evidence_type_value OBSERVED = ''observed''"
| "evidence_type_value DECLARED = ''declared''"

fun policy_kind_value :: "completion_policy_kind \<Rightarrow> string" where
  "policy_kind_value ALL_GATES_PASSED = ''all_gates_passed''"
| "policy_kind_value ALL_DEPENDENCIES_COMPLETE = ''all_dependencies_complete''"
| "policy_kind_value ALL_CHILDREN_COMPLETE = ''all_children_complete''"
| "policy_kind_value EVIDENCE_DECLARED = ''evidence_declared''"
| "policy_kind_value COMPOSITE = ''composite''"
| "policy_kind_value MANUAL_ONLY = ''manual_only''"

fun operator_value :: "composite_operator \<Rightarrow> string" where
  "operator_value AND_OP = ''and''"
| "operator_value OR_OP = ''or''"

fun authority_status_value :: "authority_status \<Rightarrow> string" where
  "authority_status_value AUTHORITATIVE = ''authoritative''"
| "authority_status_value PROVISIONAL = ''provisional''"
| "authority_status_value STALE = ''stale''"
| "authority_status_value CONFLICTED = ''conflicted''"
| "authority_status_value UNAVAILABLE = ''unavailable''"

definition allowed_evidence_authorities :: "authority_status set" where
  "allowed_evidence_authorities = {AUTHORITATIVE, PROVISIONAL}"

text \<open>\<open>_require_text\<close> and \<open>_require_aware\<close> take the error code of the caller.\<close>

definition policy_text :: "string \<Rightarrow> string \<Rightarrow> domain_error_code \<Rightarrow> unit result" where
  "policy_text v f code =
     (if blank v then Inl (DomainInvariantError code f ''must not be blank'') else Inr ())"

definition policy_aware :: "datetime \<Rightarrow> string \<Rightarrow> domain_error_code \<Rightarrow> unit result" where
  "policy_aware d f code =
     (if \<not> aware d then Inl (DomainInvariantError code f ''timezone-aware datetime required'')
      else Inr ())"

lemma policy_text_Inr [result_simps]: "policy_text v f c = Inr u \<longleftrightarrow> \<not> blank v"
  and policy_aware_Inr [result_simps]: "policy_aware d f c = Inr u \<longleftrightarrow> aware d"
  by (simp_all add: policy_text_def policy_aware_def)

section \<open>Gates\<close>

record gate_policy =
  gp_gate_id :: ulid
  gp_name :: string
  gp_phase :: gate_phase
  gp_type :: gate_type
  gp_accepted :: "evidence_type list"
  gp_attestation_required :: bool
  gp_waivable :: bool
  gp_safety_critical :: bool

definition sorted_types :: "evidence_type list \<Rightarrow> evidence_type list" where
  "sorted_types ts = sort_key evidence_type_value (remdups ts)"

definition new_gate_policy :: "gate_policy \<Rightarrow> gate_policy result" where
  "new_gate_policy g =
     bind_result (policy_text (gp_name g) ''name'' INVALID_GATE) (\<lambda>_.
     let accepted = sorted_types (gp_accepted g) in
     if accepted = []
     then Inl (DomainInvariantError INVALID_GATE ''accepted_evidence_types''
       ''at least one evidence type is required'')
     else if gp_type g = SAFETY \<and> gp_waivable g
     then Inl (DomainInvariantError SAFETY_GATE_WAIVER ''waivable'' ''safety gates cannot be waived'')
     else if gp_type g = SAFETY \<and> (\<not> gp_safety_critical g \<or> \<not> gp_attestation_required g)
     then Inl (DomainInvariantError INVALID_GATE ''safety_critical''
       ''safety gates require safety_critical and attestation_required'')
     else if gp_type g \<noteq> SAFETY \<and> gp_safety_critical g
     then Inl (DomainInvariantError INVALID_GATE ''safety_critical''
       ''only safety gates may be safety-critical'')
     else if gp_waivable g \<and> gp_type g \<notin> {EVIDENCE, QUALITY}
     then Inl (DomainInvariantError INVALID_GATE ''waivable''
       ''only evidence and quality gates may be waived'')
     else Inr (g\<lparr>gp_accepted := accepted\<rparr>))"

definition gate_wf :: "gate_policy \<Rightarrow> bool" where
  "gate_wf g \<longleftrightarrow> \<not> blank (gp_name g) \<and> gp_accepted g \<noteq> []
     \<and> sorted (map evidence_type_value (gp_accepted g)) \<and> distinct (gp_accepted g)
     \<and> (gp_type g = SAFETY \<longleftrightarrow> gp_safety_critical g)
     \<and> (gp_type g = SAFETY \<longrightarrow> gp_attestation_required g)
     \<and> (gp_waivable g \<longrightarrow> gp_type g \<in> {EVIDENCE, QUALITY})"

lemma sorted_types_simps [simp]:
  "set (sorted_types ts) = set ts" "distinct (sorted_types ts)"
  "sorted (map evidence_type_value (sorted_types ts))" "sorted_types ts = [] \<longleftrightarrow> ts = []"
  by (simp_all add: sorted_types_def)

lemma sorted_types_id:
  "sorted (map evidence_type_value ts) \<Longrightarrow> distinct ts \<Longrightarrow> sorted_types ts = ts"
  by (simp add: sorted_types_def distinct_remdups_id sort_key_id)

lemma new_gate_policy_Inr:
  "new_gate_policy g = Inr g' \<longleftrightarrow>
     gate_wf (g\<lparr>gp_accepted := sorted_types (gp_accepted g)\<rparr>)
       \<and> g' = g\<lparr>gp_accepted := sorted_types (gp_accepted g)\<rparr>"
  by (auto simp: new_gate_policy_def gate_wf_def Let_def result_simps)

lemma new_gate_policy_wf: "new_gate_policy g = Inr g' \<Longrightarrow> gate_wf g'"
  by (simp add: new_gate_policy_Inr)

lemma new_gate_policy_id: "gate_wf g \<Longrightarrow> new_gate_policy g = Inr g"
  by (simp add: new_gate_policy_Inr sorted_types_id gate_wf_def)

section \<open>Evidence\<close>

record attestation =
  attestor :: string
  att_method :: attestation_method
  att_timestamp :: datetime
  att_content :: string

definition new_attestation :: "attestation \<Rightarrow> attestation result" where
  "new_attestation a =
     bind_result (policy_text (attestor a) ''attestor'' INVALID_EVIDENCE) (\<lambda>_.
     bind_result (policy_text (att_content a) ''content'' INVALID_EVIDENCE) (\<lambda>_.
     bind_result (policy_aware (att_timestamp a) ''attestation.timestamp'' INVALID_EVIDENCE) (\<lambda>_.
     Inr a)))"

datatype evidence_scalar = EStr string | EInt int | EFloat string | EBool bool | ENone

type_synonym evidence_content = "(string \<times> evidence_scalar) list"

definition canonical_content :: "evidence_content \<Rightarrow> evidence_content result" where
  "canonical_content content =
     (if content = []
      then Inl (DomainInvariantError INVALID_EVIDENCE ''content'' ''evidence content must not be empty'')
      else let keys = map fst content in
        if (\<exists>k \<in> set keys. blank k) \<or> length keys \<noteq> length (remdups keys)
        then Inl (DomainInvariantError INVALID_EVIDENCE ''content''
          ''evidence content keys must be nonblank and unique'')
        else Inr (sort_key fst content))"

record policy_evidence =
  ev_id :: ulid
  ev_gate_id :: ulid
  ev_item_id :: ulid
  ev_type :: evidence_type
  ev_revision :: string
  ev_source :: string
  ev_producer :: producer_kind
  ev_timestamp :: datetime
  ev_content :: evidence_content
  ev_authority :: authority_status
  ev_valid_until :: "datetime option"
  ev_attestation :: "attestation option"

definition new_evidence :: "policy_evidence \<Rightarrow> policy_evidence result" where
  "new_evidence e =
     bind_result (policy_text (ev_revision e) ''revision'' INVALID_EVIDENCE) (\<lambda>_.
     bind_result (policy_text (ev_source e) ''source'' INVALID_EVIDENCE) (\<lambda>_.
     bind_result (policy_aware (ev_timestamp e) ''timestamp'' INVALID_EVIDENCE) (\<lambda>_.
     bind_result (case ev_valid_until e of None \<Rightarrow> Inr () | Some v \<Rightarrow>
       bind_result (policy_aware v ''valid_until'' INVALID_EVIDENCE) (\<lambda>_.
       if dt_le v (ev_timestamp e)
       then Inl (DomainInvariantError INVALID_EVIDENCE ''valid_until'' ''must be later than timestamp'')
       else Inr ())) (\<lambda>_.
     if ev_producer e = PRODUCER_AI
     then Inl (DomainInvariantError INVALID_EVIDENCE ''producer_kind''
       ''AI output never qualifies as evidence'')
     else if ev_type e \<in> {OBSERVED, DECLARED} \<and> ev_producer e \<noteq> PRODUCER_HUMAN
     then Inl (DomainInvariantError INVALID_EVIDENCE ''producer_kind''
       ''observed and declared evidence require a human producer'')
     else if ev_type e = COMPUTED \<and> ev_producer e \<noteq> PRODUCER_AUTOMATION
     then Inl (DomainInvariantError INVALID_EVIDENCE ''producer_kind''
       ''computed evidence requires an automation producer'')
     else if (case ev_attestation e of None \<Rightarrow> False
       | Some a \<Rightarrow> dt_less (att_timestamp a) (ev_timestamp e))
     then Inl (DomainInvariantError INVALID_EVIDENCE ''attestation.timestamp''
       ''attestation must not predate evidence'')
     else bind_result (canonical_content (ev_content e)) (\<lambda>content.
       Inr (e\<lparr>ev_content := content\<rparr>))))))"

definition evidence_wf :: "policy_evidence \<Rightarrow> bool" where
  "evidence_wf e \<longleftrightarrow> \<not> blank (ev_revision e) \<and> \<not> blank (ev_source e) \<and> aware (ev_timestamp e)
     \<and> (\<forall>v. ev_valid_until e = Some v \<longrightarrow> aware v \<and> dt_less (ev_timestamp e) v)
     \<and> ev_producer e = (if ev_type e = COMPUTED then PRODUCER_AUTOMATION else PRODUCER_HUMAN)
     \<and> (\<forall>a. ev_attestation e = Some a \<longrightarrow> dt_le (ev_timestamp e) (att_timestamp a))
     \<and> ev_content e \<noteq> [] \<and> sorted_wrt (<) (map fst (ev_content e))
     \<and> (\<forall>(k, v) \<in> set (ev_content e). \<not> blank k)"

lemma canonical_content_Inr [result_simps]:
  "canonical_content c = Inr d \<longleftrightarrow>
     c \<noteq> [] \<and> (\<forall>(k, v) \<in> set c. \<not> blank k) \<and> distinct (map fst c) \<and> d = sort_key fst c"
  by (auto simp: canonical_content_def Let_def length_remdups_distinct)

lemma evidence_type_cases: "t \<in> {OBSERVED, DECLARED} \<longleftrightarrow> t \<noteq> COMPUTED"
  by (cases t) simp_all

lemma option_ok: "(case x of None \<Rightarrow> Inr () | Some v \<Rightarrow> f v) = Inr u \<longleftrightarrow> (\<forall>v. x = Some v \<longrightarrow> f v = Inr ())"
  by (cases x) simp_all

lemma strict_sorted_fst_sort:
  "distinct (map fst c) \<Longrightarrow> sorted_wrt (<) (map fst (sort_key fst c))"
  by (rule strict_sorted_sort_key) (simp_all add: distinct_map)

lemma new_evidence_wf:
  assumes "new_evidence e = Inr e'"
  shows "evidence_wf e'"
proof -
  have ok: "\<not> blank (ev_revision e)" "\<not> blank (ev_source e)" "aware (ev_timestamp e)"
    "\<forall>v. ev_valid_until e = Some v \<longrightarrow> aware v \<and> dt_less (ev_timestamp e) v"
    "ev_producer e \<noteq> PRODUCER_AI"
    "ev_type e \<noteq> COMPUTED \<longrightarrow> ev_producer e = PRODUCER_HUMAN"
    "ev_type e = COMPUTED \<longrightarrow> ev_producer e = PRODUCER_AUTOMATION"
    "\<forall>a. ev_attestation e = Some a \<longrightarrow> dt_le (ev_timestamp e) (att_timestamp a)"
    "ev_content e \<noteq> []" "\<forall>(k, v) \<in> set (ev_content e). \<not> blank k"
    "distinct (map fst (ev_content e))"
    and e': "e' = e\<lparr>ev_content := sort_key fst (ev_content e)\<rparr>"
    using assms
    by (cases "ev_type e";
        auto simp: new_evidence_def result_simps option_ok option_guard split: if_splits)+
  then show ?thesis
    by (auto simp: evidence_wf_def strict_sorted_fst_sort)
qed

section \<open>Waivers and evaluations\<close>

record gate_waiver =
  gw_gate_id :: ulid
  gw_actor_id :: ulid
  gw_reason :: string
  waived_at :: datetime

definition new_gate_waiver :: "gate_waiver \<Rightarrow> gate_waiver result" where
  "new_gate_waiver w =
     bind_result (policy_text (gw_reason w) ''reason'' INVALID_GATE) (\<lambda>_.
     if length (strip (gw_reason w)) < 10
     then Inl (DomainInvariantError INVALID_GATE ''reason''
       ''waiver reason must contain at least 10 characters'')
     else bind_result (policy_aware (waived_at w) ''waived_at'' INVALID_GATE) (\<lambda>_. Inr w))"

record gate_evaluation =
  ge_gate :: gate_policy
  ge_state :: gate_state
  ge_evidence_ids :: "ulid list"
  ge_reasons :: "string list"

definition new_gate_evaluation :: "gate_evaluation \<Rightarrow> gate_evaluation result" where
  "new_gate_evaluation v =
     (if gp_type (ge_gate v) = SAFETY \<and> ge_state v = GATE_WAIVED
      then Inl (DomainInvariantError SAFETY_GATE_WAIVER ''state''
        ''safety gates cannot enter waived state'')
      else Inr (v\<lparr>ge_evidence_ids := sort_key ulid_value (remdups (ge_evidence_ids v)),
        ge_reasons := sorted_set (ge_reasons v)\<rparr>))"

record phase_evaluation =
  pe_phase :: gate_phase
  pe_lifecycle :: lifecycle
  pe_evaluations :: "gate_evaluation list"
  allows_transition :: bool

section \<open>Completion policies and bundles\<close>

datatype completion_policy = CompletionPolicy
  (cp_kind: completion_policy_kind) (cp_operator: "composite_operator option")
  (cp_operands: "completion_policy list")

definition new_completion_policy ::
    "completion_policy_kind \<Rightarrow> composite_operator option \<Rightarrow> completion_policy list
     \<Rightarrow> completion_policy result" where
  "new_completion_policy k oper operands =
     (if k = COMPOSITE \<and> (oper = None \<or> length operands < 2)
      then Inl (DomainInvariantError INVALID_POLICY ''completion_policy''
        ''composite requires an operator and at least two operands'')
      else if k \<noteq> COMPOSITE \<and> (oper \<noteq> None \<or> operands \<noteq> [])
      then Inl (DomainInvariantError INVALID_POLICY ''completion_policy''
        ''leaf completion policies cannot define operator or operands'')
      else Inr (CompletionPolicy k oper operands))"

fun policy_wf :: "completion_policy \<Rightarrow> bool" where
  "policy_wf (CompletionPolicy k oper operands) \<longleftrightarrow>
     (if k = COMPOSITE then oper \<noteq> None \<and> 2 \<le> length operands else oper = None \<and> operands = [])
     \<and> (\<forall>p \<in> set operands. policy_wf p)"

record policy_bundle =
  pb_schema_version :: string
  pb_policy_id :: string
  pb_gates :: "gate_policy list"
  pb_completion :: completion_policy

definition gate_key :: "gate_policy \<Rightarrow> string" where
  "gate_key g = ulid_value (gp_gate_id g)"

definition new_policy_bundle :: "policy_bundle \<Rightarrow> policy_bundle result" where
  "new_policy_bundle b =
     (if pb_schema_version b \<noteq> ''1.0.0''
      then Inl (DomainInvariantError INVALID_POLICY ''schema_version''
        (''unsupported policy schema version: '' @ py_repr (pb_schema_version b)))
      else bind_result (policy_text (pb_policy_id b) ''policy_id'' INVALID_POLICY) (\<lambda>_.
        let gates = sort_key gate_key (pb_gates b); gate_ids = map gp_gate_id gates in
        if length gate_ids \<noteq> length (remdups gate_ids)
        then Inl (DomainInvariantError INVALID_POLICY ''gates'' ''gate IDs must be unique'')
        else Inr (b\<lparr>pb_gates := gates\<rparr>)))"

definition bundle_wf :: "policy_bundle \<Rightarrow> bool" where
  "bundle_wf b \<longleftrightarrow> pb_schema_version b = ''1.0.0'' \<and> \<not> blank (pb_policy_id b)
     \<and> (\<forall>g \<in> set (pb_gates b). gate_wf g) \<and> sorted (map gate_key (pb_gates b))
     \<and> distinct (map gp_gate_id (pb_gates b)) \<and> policy_wf (pb_completion b)"

record completion_context =
  cc_item_id :: ulid
  cc_lifecycle :: lifecycle
  cc_revision :: string
  cc_now :: datetime
  cc_gate_evaluations :: "gate_evaluation list"
  cc_evidence :: "policy_evidence list"
  cc_dependencies :: "bool option"
  cc_children :: "bool option"
  cc_human_confirmed :: bool

definition new_completion_context :: "completion_context \<Rightarrow> completion_context result" where
  "new_completion_context c =
     bind_result (policy_text (cc_revision c) ''current_revision'' INVALID_POLICY) (\<lambda>_.
     bind_result (policy_aware (cc_now c) ''now'' INVALID_POLICY) (\<lambda>_. Inr c))"

record completion_evaluation =
  ce_result :: completion_result
  ce_satisfied :: "string list"
  ce_unsatisfied :: "string list"
  ce_unknown :: "string list"

record transition_decision =
  td_current :: lifecycle
  td_target :: lifecycle
  td_allowed :: bool
  td_reasons :: "string list"

section \<open>Property\<close>

text \<open>
  An evidence record that can be constructed is never produced by AI: computed evidence comes
  from automation and observed or declared evidence from a human, it expires after it was captured,
  its attestation does not predate it, and its content is nonempty with unique nonblank keys in
  order.
\<close>

theorem new_evidence_never_ai:
  assumes "new_evidence e = Inr e'"
  shows "evidence_wf e' \<and> ev_producer e' \<noteq> PRODUCER_AI \<and> mset (ev_content e') = mset (ev_content e)"
proof -
  have "mset (ev_content e') = mset (ev_content e)"
    using assms by (auto simp: new_evidence_def result_simps split: if_splits)
  with new_evidence_wf [OF assms] show ?thesis by (simp add: evidence_wf_def)
qed

lemma new_evidence_never_ai_witness:
  "evidence_wf \<lparr>ev_id = Ulid EvidenceId ''E'', ev_gate_id = Ulid GateId ''G'',
     ev_item_id = Ulid WorkItemId ''W'', ev_type = OBSERVED, ev_revision = ''r2'', ev_source = ''ui'',
     ev_producer = PRODUCER_HUMAN, ev_timestamp = Datetime 100 (Some 0),
     ev_content = [(''a'', EInt 1), (''b'', ENone)], ev_authority = AUTHORITATIVE,
     ev_valid_until = Some (Datetime 900 (Some 0)), ev_attestation = None\<rparr>"
  (is "evidence_wf ?e")
proof -
  have "new_evidence (?e\<lparr>ev_content := [(''b'', ENone), (''a'', EInt 1)]\<rparr>) = Inr ?e"
    by code_simp
  from new_evidence_never_ai [OF this] show ?thesis by simp
qed

end
