(* ===== verification/Policy_Eval.thy ===== *)
theory Policy_Eval
  imports Policies
begin

text \<open>
  \<open>domain/policies.py\<close>, the evaluation: gates against evidence and waivers, phases, completion
  policies over the truth values true, false and unknown, and the lifecycle transitions. The lemmas
  show what a passed gate stands for, that unknown is exactly the absence of a decision, and that
  an item completes only through its gates and its policy.
\<close>

section \<open>Gates\<close>

definition gate_evaluation_of ::
    "gate_policy \<Rightarrow> gate_state \<Rightarrow> ulid list \<Rightarrow> string list \<Rightarrow> gate_evaluation result" where
  "gate_evaluation_of g st ids reasons = new_gate_evaluation
     \<lparr>ge_gate = g, ge_state = st, ge_evidence_ids = ids, ge_reasons = reasons\<rparr>"

definition evaluate_waiver :: "gate_policy \<Rightarrow> gate_waiver \<Rightarrow> gate_evaluation result" where
  "evaluate_waiver g w =
     (if gw_gate_id w \<noteq> gp_gate_id g
      then Inl (DomainInvariantError INVALID_GATE ''waiver.gate_id''
        ''waiver must target the evaluated gate'')
      else if gp_type g = SAFETY \<or> gp_safety_critical g
      then Inl (DomainInvariantError SAFETY_GATE_WAIVER ''waiver''
        ''safety gates cannot be waived or weakened'')
      else if \<not> gp_waivable g
      then Inl (DomainInvariantError INVALID_GATE ''waiver'' ''gate policy does not permit waiver'')
      else gate_evaluation_of g GATE_WAIVED [] [''human_waiver''])"

definition evidence_failure_reason ::
    "gate_policy \<Rightarrow> policy_evidence \<Rightarrow> string \<Rightarrow> datetime \<Rightarrow> string option" where
  "evidence_failure_reason g e current_revision now =
     (if ev_revision e \<noteq> current_revision then Some ''evidence_revision_mismatch''
      else if ev_type e \<notin> set (gp_accepted g) then Some ''evidence_type_not_accepted''
      else if ev_authority e \<notin> allowed_evidence_authorities
      then Some (''evidence_authority_'' @ authority_status_value (ev_authority e))
      else if (case ev_valid_until e of None \<Rightarrow> False | Some v \<Rightarrow> dt_le v now)
      then Some ''evidence_expired''
      else if gp_attestation_required g \<and> ev_attestation e = None
      then Some ''evidence_attestation_missing''
      else None)"

text \<open>The loop over the candidates of a gate: the identifiers that count and the failures.\<close>

fun grade_candidates ::
    "gate_policy \<Rightarrow> string \<Rightarrow> datetime \<Rightarrow> policy_evidence list \<Rightarrow> ulid list \<times> string list" where
  "grade_candidates g revn now [] = ([], [])"
| "grade_candidates g revn now (e # es) = (let (ids, failures) = grade_candidates g revn now es in
     case evidence_failure_reason g e revn now of
       None \<Rightarrow> (ev_id e # ids, failures)
     | Some reason \<Rightarrow> (ids, reason # failures))"

definition evaluate_gate ::
    "gate_policy \<Rightarrow> ulid \<Rightarrow> string \<Rightarrow> bool option \<Rightarrow> policy_evidence list \<Rightarrow> datetime
     \<Rightarrow> gate_waiver option \<Rightarrow> gate_evaluation result" where
  "evaluate_gate g item_id current_revision condition_met evidence_records now waiver =
     bind_result (policy_text current_revision ''current_revision'' INVALID_GATE) (\<lambda>_.
     bind_result (policy_aware now ''now'' INVALID_GATE) (\<lambda>_.
     case waiver of Some w \<Rightarrow> evaluate_waiver g w
     | None \<Rightarrow> (case condition_met of
         None \<Rightarrow> gate_evaluation_of g FAILED [] [''condition_unknown'']
       | Some False \<Rightarrow> gate_evaluation_of g FAILED [] [''condition_not_met'']
       | Some True \<Rightarrow> (let
           candidates = filter (\<lambda>e. ev_gate_id e = gp_gate_id g \<and> ev_item_id e = item_id)
             evidence_records
         in if candidates = [] then gate_evaluation_of g GATE_PENDING [] [''evidence_missing'']
         else let (valid_ids, failures) = grade_candidates g current_revision now candidates in
           if valid_ids \<noteq> [] then gate_evaluation_of g PASSED valid_ids []
           else gate_evaluation_of g FAILED []
             (if failures = [] then [''evidence_invalid''] else failures)))))"

definition evaluate_phase ::
    "gate_phase \<Rightarrow> gate_evaluation list \<Rightarrow> lifecycle \<Rightarrow> phase_evaluation" where
  "evaluate_phase ph evaluations lc = (let
     applicable = sort_key (\<lambda>v. ulid_value (gp_gate_id (ge_gate v)))
       (filter (\<lambda>v. gp_phase (ge_gate v) = ph) evaluations)
   in \<lparr>pe_phase = ph, pe_lifecycle = lc, pe_evaluations = applicable,
       allows_transition = list_all (\<lambda>v. ge_state v \<in> {PASSED, GATE_WAIVED}) applicable\<rparr>)"

section \<open>Completion\<close>

type_synonym truth = "bool option"

definition truth_result ::
    "truth \<Rightarrow> string \<Rightarrow> truth \<times> string list \<times> string list \<times> string list" where
  "truth_result v label = (case v of
     Some True \<Rightarrow> (v, [label], [], [])
   | Some False \<Rightarrow> (v, [], [label], [])
   | None \<Rightarrow> (v, [], [], [label]))"

definition and_truth :: "truth list \<Rightarrow> truth" where
  "and_truth vs = (if Some False \<in> set vs then Some False
     else if None \<in> set vs then None else Some True)"

definition or_truth :: "truth list \<Rightarrow> truth" where
  "or_truth vs = (if Some True \<in> set vs then Some True
     else if None \<in> set vs then None else Some False)"

definition declared_evidence_is_current :: "policy_evidence \<Rightarrow> completion_context \<Rightarrow> bool" where
  "declared_evidence_is_current e c \<longleftrightarrow> ev_item_id e = cc_item_id c \<and> ev_type e = DECLARED
     \<and> ev_revision e = cc_revision c \<and> ev_authority e \<in> allowed_evidence_authorities
     \<and> (case ev_valid_until e of None \<Rightarrow> True | Some v \<Rightarrow> dt_less (cc_now c) v)"

fun evaluate_policy_node ::
    "completion_policy \<Rightarrow> completion_context \<Rightarrow> truth \<times> string list \<times> string list \<times> string list" where
  "evaluate_policy_node (CompletionPolicy k oper operands) c = (case k of
     ALL_GATES_PASSED \<Rightarrow> truth_result (Some (allows_transition
       (evaluate_phase COMPLETION (cc_gate_evaluations c) (cc_lifecycle c)))) (policy_kind_value k)
   | ALL_DEPENDENCIES_COMPLETE \<Rightarrow> truth_result (cc_dependencies c) (policy_kind_value k)
   | ALL_CHILDREN_COMPLETE \<Rightarrow> truth_result (cc_children c) (policy_kind_value k)
   | EVIDENCE_DECLARED \<Rightarrow> truth_result
       (Some (list_ex (\<lambda>e. declared_evidence_is_current e c) (cc_evidence c))) (policy_kind_value k)
   | MANUAL_ONLY \<Rightarrow> truth_result (Some (cc_human_confirmed c)) (policy_kind_value k)
   | COMPOSITE \<Rightarrow> (let
       child_results = map (\<lambda>operand. evaluate_policy_node operand c) operands;
       values = map fst child_results
     in (if oper = Some AND_OP then and_truth values else or_truth values,
         concat (map (\<lambda>r. fst (snd r)) child_results),
         concat (map (\<lambda>r. fst (snd (snd r))) child_results),
         concat (map (\<lambda>r. snd (snd (snd r))) child_results))))"

fun contains_manual_only :: "completion_policy \<Rightarrow> bool" where
  "contains_manual_only (CompletionPolicy k oper operands) \<longleftrightarrow>
     k = MANUAL_ONLY \<or> list_ex contains_manual_only operands"

definition evaluate_completion ::
    "completion_policy \<Rightarrow> completion_context \<Rightarrow> completion_evaluation" where
  "evaluate_completion p c = (let
     (value, satisfied, unsatisfied, unknown) = evaluate_policy_node p c
   in \<lparr>ce_result = (if value = Some True then SATISFIED
         else if value = None then COMPLETION_UNKNOWN
         else if contains_manual_only p then PENDING_REVIEW
         else if cc_lifecycle c = COMPLETED then CLOSED_UNVERIFIED
         else INCOMPLETE),
       ce_satisfied = sorted_set satisfied, ce_unsatisfied = sorted_set unsatisfied,
       ce_unknown = sorted_set unknown\<rparr>)"

section \<open>Lifecycle transitions\<close>

definition evaluate_lifecycle_transition ::
    "lifecycle \<Rightarrow> lifecycle \<Rightarrow> gate_evaluation list \<Rightarrow> completion_evaluation option
     \<Rightarrow> transition_decision" where
  "evaluate_lifecycle_transition current target_state gate_evaluations completion = (let
     decision = (\<lambda>allowed reasons. \<lparr>td_current = current, td_target = target_state,
       td_allowed = allowed, td_reasons = reasons\<rparr>);
     unconditional = current = target_state
       \<or> (target_state = CANCELLED \<and> current \<in> {PLANNED, ACTIVE})
       \<or> current = UNKNOWN
       \<or> (current = COMPLETED \<and> target_state = UNKNOWN)
   in if unconditional then decision True []
      else if current = PLANNED \<and> target_state = ACTIVE then
        let allowed = allows_transition (evaluate_phase ENTRY gate_evaluations current)
        in decision allowed (if allowed then [] else [''entry_gates_blocked''])
      else if current = ACTIVE \<and> target_state = COMPLETED then
        let phase_allows = allows_transition (evaluate_phase COMPLETION gate_evaluations current);
          completion_satisfied =
            (case completion of None \<Rightarrow> False | Some v \<Rightarrow> ce_result v = SATISFIED)
        in decision (phase_allows \<and> completion_satisfied)
          ((if phase_allows then [] else [''completion_gates_blocked''])
           @ (if completion_satisfied then [] else [''completion_policy_unsatisfied'']))
      else decision False [''forbidden_lifecycle_transition''])"

section \<open>What evidence counts\<close>

definition evidences ::
    "gate_policy \<Rightarrow> ulid \<Rightarrow> string \<Rightarrow> datetime \<Rightarrow> policy_evidence \<Rightarrow> bool" where
  "evidences g item_id revn now e \<longleftrightarrow> ev_gate_id e = gp_gate_id g \<and> ev_item_id e = item_id
     \<and> ev_revision e = revn \<and> ev_type e \<in> set (gp_accepted g)
     \<and> ev_authority e \<in> {AUTHORITATIVE, PROVISIONAL}
     \<and> (\<forall>v. ev_valid_until e = Some v \<longrightarrow> dt_less now v)
     \<and> (gp_attestation_required g \<longrightarrow> ev_attestation e \<noteq> None)"

lemma failure_reason_None:
  "evidence_failure_reason g e revn now = None \<longleftrightarrow> ev_revision e = revn
     \<and> ev_type e \<in> set (gp_accepted g) \<and> ev_authority e \<in> {AUTHORITATIVE, PROVISIONAL}
     \<and> (\<forall>v. ev_valid_until e = Some v \<longrightarrow> dt_less now v)
     \<and> (gp_attestation_required g \<longrightarrow> ev_attestation e \<noteq> None)"
  by (auto simp: evidence_failure_reason_def allowed_evidence_authorities_def split: option.splits)

lemma grade_candidates_sets:
  "set (fst (grade_candidates g revn now es))
     = ev_id ` {e \<in> set es. evidence_failure_reason g e revn now = None}"
  "set (snd (grade_candidates g revn now es))
     = {r. \<exists>e \<in> set es. evidence_failure_reason g e revn now = Some r}"
  by (induction es) (auto split: option.splits prod.splits)

lemma gate_evaluation_of_Inr [result_simps]:
  "gate_evaluation_of g st ids rs = Inr v \<longleftrightarrow> \<not> (gp_type g = SAFETY \<and> st = GATE_WAIVED)
     \<and> v = \<lparr>ge_gate = g, ge_state = st, ge_evidence_ids = sort_key ulid_value (remdups ids),
         ge_reasons = sorted_set rs\<rparr>"
  by (auto simp: gate_evaluation_of_def new_gate_evaluation_def)

text \<open>The evaluation without a waiver and with the condition met, over the set of counting evidence.\<close>

lemma evaluate_gate_met:
  assumes "evaluate_gate g i revn (Some True) es now None = Inr v"
  defines "E \<equiv> {e \<in> set es. evidences g i revn now e}"
  shows "ge_gate v = g \<and> set (ge_evidence_ids v) = ev_id ` E
    \<and> (ge_state v = PASSED \<longleftrightarrow> E \<noteq> {}) \<and> ge_state v \<noteq> GATE_WAIVED"
proof -
  define cs where "cs = filter (\<lambda>e. ev_gate_id e = gp_gate_id g \<and> ev_item_id e = i) es"
  have ids: "set (fst (grade_candidates g revn now cs)) = ev_id ` E"
    unfolding grade_candidates_sets failure_reason_None E_def cs_def evidences_def by auto
  have none: "E = {}" if "cs = []"
    using that unfolding E_def cs_def evidences_def by (auto simp: filter_empty_conv)
  show ?thesis
    using assms(1) ids none
    by (auto simp: evaluate_gate_def result_simps Let_def cs_def [symmetric] split: prod.splits if_splits)
qed

section \<open>The truth value of a policy\<close>

text \<open>
  The reference semantics: a policy holds or not once the completeness of dependencies and children
  is known. The resolutions of a context fill in what is unknown.
\<close>

fun policy_holds :: "completion_policy \<Rightarrow> completion_context \<Rightarrow> bool" where
  "policy_holds (CompletionPolicy k oper operands) c = (case k of
     ALL_GATES_PASSED \<Rightarrow> (\<forall>v \<in> set (cc_gate_evaluations c).
       gp_phase (ge_gate v) = COMPLETION \<longrightarrow> ge_state v \<in> {PASSED, GATE_WAIVED})
   | ALL_DEPENDENCIES_COMPLETE \<Rightarrow> cc_dependencies c = Some True
   | ALL_CHILDREN_COMPLETE \<Rightarrow> cc_children c = Some True
   | EVIDENCE_DECLARED \<Rightarrow> (\<exists>e \<in> set (cc_evidence c). declared_evidence_is_current e c)
   | MANUAL_ONLY \<Rightarrow> cc_human_confirmed c
   | COMPOSITE \<Rightarrow> (if oper = Some AND_OP then \<forall>p \<in> set operands. policy_holds p c
       else \<exists>p \<in> set operands. policy_holds p c))"

definition fill :: "completion_context \<Rightarrow> bool \<Rightarrow> bool \<Rightarrow> completion_context" where
  "fill c d ch = c\<lparr>cc_dependencies := Some (case cc_dependencies c of None \<Rightarrow> d | Some b \<Rightarrow> b),
     cc_children := Some (case cc_children c of None \<Rightarrow> ch | Some b \<Rightarrow> b)\<rparr>"

definition resolutions :: "completion_context \<Rightarrow> completion_context set" where
  "resolutions c = {fill c d ch | d ch. True}"

lemma fill_simps [simp]:
  "cc_gate_evaluations (fill c d ch) = cc_gate_evaluations c" "cc_evidence (fill c d ch) = cc_evidence c"
  "cc_human_confirmed (fill c d ch) = cc_human_confirmed c" "cc_item_id (fill c d ch) = cc_item_id c"
  "cc_revision (fill c d ch) = cc_revision c" "cc_now (fill c d ch) = cc_now c"
  by (simp_all add: fill_def)

lemma declared_evidence_fill [simp]:
  "declared_evidence_is_current e (fill c d ch) = declared_evidence_is_current e c"
  by (simp only: declared_evidence_is_current_def fill_simps)

lemma fill_dependencies:
  "cc_dependencies (fill c d ch) = Some True \<longleftrightarrow> cc_dependencies c = Some True \<or> (cc_dependencies c = None \<and> d)"
  "cc_children (fill c d ch) = Some True \<longleftrightarrow> cc_children c = Some True \<or> (cc_children c = None \<and> ch)"
  by (auto simp: fill_def split: option.splits)

lemma policy_holds_mono:
  "policy_holds p (fill c d ch) \<Longrightarrow> (d \<longrightarrow> d') \<Longrightarrow> (ch \<longrightarrow> ch') \<Longrightarrow> policy_holds p (fill c d' ch')"
proof (induction p)
  case (CompletionPolicy k oper operands)
  then show ?case
    by (cases k) (auto simp: fill_dependencies split: if_splits)
qed

lemma allows_transition_iff:
  "allows_transition (evaluate_phase ph vs lc) \<longleftrightarrow>
     (\<forall>v \<in> set vs. gp_phase (ge_gate v) = ph \<longrightarrow> ge_state v \<in> {PASSED, GATE_WAIVED})"
  by (auto simp: evaluate_phase_def Let_def list_all_iff)

lemma truth_result_fst [simp]: "fst (truth_result v l) = v"
  by (simp add: truth_result_def split: option.splits bool.splits)

lemma truth_cases:
  "fst (evaluate_policy_node p c) =
     (if policy_holds p (fill c False False) then Some True
      else if policy_holds p (fill c True True) then None else Some False)"
proof (induction p)
  case (CompletionPolicy k oper operands)
  have low_high: "policy_holds p (fill c False False) \<Longrightarrow> policy_holds p (fill c True True)" for p
    by (erule policy_holds_mono) simp_all
  let ?v = "\<lambda>p. fst (evaluate_policy_node p c)"
  have F: "?v p = Some False \<longleftrightarrow> \<not> policy_holds p (fill c True True)"
    and N: "?v p = None \<longleftrightarrow> policy_holds p (fill c True True) \<and> \<not> policy_holds p (fill c False False)"
    and T: "?v p = Some True \<longleftrightarrow> policy_holds p (fill c False False)" if "p \<in> set operands" for p
    using CompletionPolicy [OF that] low_high by auto
  have mem: "b \<in> set (map fst (map (\<lambda>p. evaluate_policy_node p c) operands))
      \<longleftrightarrow> (\<exists>p \<in> set operands. ?v p = b)" for b
    by auto
  show ?case
  proof (cases k)
    case COMPOSITE
    then show ?thesis
    proof (cases "oper = Some AND_OP")
      case True
      with COMPOSITE show ?thesis
        using F N T low_high
        by (simp only: evaluate_policy_node.simps completion_policy_kind.case Let_def fst_conv
            and_truth_def mem policy_holds.simps if_True) (simp cong: bex_cong ball_cong; blast)
    next
      case False
      with COMPOSITE show ?thesis
        using F N T low_high
        by (simp only: evaluate_policy_node.simps completion_policy_kind.case Let_def fst_conv
            or_truth_def mem policy_holds.simps if_False) (simp cong: bex_cong ball_cong; blast)
    qed
  qed (auto simp: allows_transition_iff fill_dependencies list_ex_iff
      split: option.splits)
qed

lemma resolutions_holds:
  "resolutions c \<subseteq> Collect (policy_holds p) \<longleftrightarrow> policy_holds p (fill c False False)"
  "resolutions c \<inter> Collect (policy_holds p) = {} \<longleftrightarrow> \<not> policy_holds p (fill c True True)"
  unfolding resolutions_def by (auto intro: policy_holds_mono)

section \<open>Properties of gates\<close>

text \<open>
  C12: a gate passes exactly when nobody waives it, its condition is met and some evidence record
  of the gate and item counts: current revision, accepted type, authoritative or provisional, not
  expired, attested where the gate asks for it; the evaluation then names exactly the records that
  count. A waived state needs a waiver on a waivable evidence or quality gate, so a safety gate
  passes on attested evidence or not at all.
\<close>

theorem evaluate_gate_outcome:
  assumes "evaluate_gate g i revn cond es now w = Inr v" and "gate_wf g"
  defines "E \<equiv> {e \<in> set es. evidences g i revn now e}"
  shows "(ge_state v = PASSED \<longleftrightarrow> w = None \<and> cond = Some True \<and> E \<noteq> {})
    \<and> (ge_state v = GATE_WAIVED \<longleftrightarrow> w \<noteq> None)
    \<and> (w \<noteq> None \<longrightarrow> gp_waivable g \<and> gp_type g \<in> {EVIDENCE, QUALITY})
    \<and> set (ge_evidence_ids v) = (if ge_state v = PASSED then ev_id ` E else {})
    \<and> (gp_type g = SAFETY \<longrightarrow> ge_state v \<noteq> GATE_WAIVED \<and> (\<forall>e \<in> E. ev_attestation e \<noteq> None))"
proof -
  have safe: "\<forall>e \<in> E. ev_attestation e \<noteq> None" if "gp_type g = SAFETY"
    using that assms(2) by (auto simp: E_def evidences_def gate_wf_def)
  consider (waiver) x where "w = Some x" | (met) "w = None" "cond = Some True"
    | (unmet) "w = None" "cond \<noteq> Some True"
    by (cases w) auto
  then show ?thesis
  proof cases
    case waiver
    with assms(1,2) show ?thesis
      by (auto simp: evaluate_gate_def evaluate_waiver_def result_simps gate_wf_def split: if_splits)
  next
    case met
    with assms(1) have "evaluate_gate g i revn (Some True) es now None = Inr v" by simp
    from evaluate_gate_met [OF this] met safe show ?thesis by (auto simp: E_def)
  next
    case unmet
    with assms(1) safe show ?thesis
      by (auto simp: evaluate_gate_def result_simps split: option.splits bool.splits)
  qed
qed

definition sample_gate :: gate_policy where
  "sample_gate = \<lparr>gp_gate_id = Ulid GateId ''G'', gp_name = ''interlock'', gp_phase = COMPLETION,
     gp_type = SAFETY, gp_accepted = [COMPUTED], gp_attestation_required = True,
     gp_waivable = False, gp_safety_critical = True\<rparr>"

definition sample_evidence :: "string \<Rightarrow> attestation option \<Rightarrow> policy_evidence" where
  "sample_evidence k att = \<lparr>ev_id = Ulid EvidenceId k, ev_gate_id = Ulid GateId ''G'',
     ev_item_id = Ulid WorkItemId ''W'', ev_type = COMPUTED, ev_revision = ''r2'', ev_source = ''ci'',
     ev_producer = PRODUCER_AUTOMATION, ev_timestamp = Datetime 100 (Some 0),
     ev_content = [(''passed'', EBool True)], ev_authority = AUTHORITATIVE,
     ev_valid_until = Some (Datetime 900 (Some 0)), ev_attestation = att\<rparr>"

definition sample_attestation :: attestation where
  "sample_attestation = \<lparr>attestor = ''ci'', att_method = CRYPTOGRAPHIC,
     att_timestamp = Datetime 100 (Some 0), att_content = ''sig''\<rparr>"

lemma evaluate_gate_outcome_witness:
  "\<exists>v. evaluate_gate sample_gate (Ulid WorkItemId ''W'') ''r2'' (Some True)
      [sample_evidence ''B'' None, sample_evidence ''A'' (Some sample_attestation)]
      (Datetime 500 (Some 0)) None = Inr v
    \<and> ge_state v = PASSED \<and> set (ge_evidence_ids v) = {Ulid EvidenceId ''A''}"
proof -
  let ?es = "[sample_evidence ''B'' None, sample_evidence ''A'' (Some sample_attestation)]"
  let ?v = "\<lparr>ge_gate = sample_gate, ge_state = PASSED, ge_evidence_ids = [Ulid EvidenceId ''A''],
    ge_reasons = []\<rparr>"
  have v: "evaluate_gate sample_gate (Ulid WorkItemId ''W'') ''r2'' (Some True) ?es
      (Datetime 500 (Some 0)) None = Inr ?v"
    by code_simp
  have "gate_wf sample_gate" by code_simp
  from evaluate_gate_outcome [OF v this] v show ?thesis by auto
qed

text \<open>
  The evaluation of a gate depends on the set of evidence records alone, neither on their order
  nor on repetitions, and it raises on the same inputs.
\<close>

theorem evaluate_gate_order_independent:
  assumes "set es = set es'" and "ev_id ` set es \<subseteq> range (Ulid EvidenceId)"
  shows "evaluate_gate g i revn cond es now w = evaluate_gate g i revn cond es' now w"
proof -
  define cand where "cand xs = filter (\<lambda>e. ev_gate_id e = gp_gate_id g \<and> ev_item_id e = i) xs"
    for xs :: "policy_evidence list"
  define G where "G xs = grade_candidates g revn now (cand xs)" for xs
  have cs: "set (cand es) = set (cand es')" using assms(1) by (simp add: cand_def)
  then have empty: "cand es = [] \<longleftrightarrow> cand es' = []" by (metis set_empty)
  have ids: "set (fst (G es)) = set (fst (G es'))" and fs: "set (snd (G es)) = set (snd (G es'))"
    unfolding G_def grade_candidates_sets cs by simp_all
  have ne: "fst (G es) = [] \<longleftrightarrow> fst (G es') = []" "snd (G es) = [] \<longleftrightarrow> snd (G es') = []"
    using ids fs by (metis set_empty)+
  have "inj_on ulid_value (set (fst (G es)))"
  proof (rule inj_on_subset)
    show "set (fst (G es)) \<subseteq> range (Ulid EvidenceId)"
      using assms(2) unfolding G_def grade_candidates_sets cand_def by auto
  qed (auto intro: inj_onI)
  then have "sort_key ulid_value (remdups (fst (G es))) = sort_key ulid_value (remdups (fst (G es')))"
    using ids by (intro sort_key_mset_cong) (simp_all add: set_eq_iff_mset_remdups_eq [symmetric])
  moreover have "sorted_set (snd (G es)) = sorted_set (snd (G es'))"
    using fs by (rule sorted_set_cong)
  ultimately have "gate_evaluation_of g st (fst (G es)) rs = gate_evaluation_of g st (fst (G es')) rs"
    "gate_evaluation_of g st [] (snd (G es)) = gate_evaluation_of g st [] (snd (G es'))" for st rs
    by (simp_all add: gate_evaluation_of_def new_gate_evaluation_def)
  with ne empty have
    "evaluate_gate g i revn (Some True) es now None = evaluate_gate g i revn (Some True) es' now None"
    by (simp add: evaluate_gate_def Let_def cand_def [symmetric] G_def [symmetric] case_prod_beta)
  moreover have "evaluate_gate g i revn cond es now w = evaluate_gate g i revn cond es' now w"
    if "w \<noteq> None \<or> cond \<noteq> Some True"
    using that by (cases w; cases cond; auto simp: evaluate_gate_def split: bool.split)
  ultimately show ?thesis by (cases "w = None \<and> cond = Some True") auto
qed

lemma evaluate_gate_order_independent_witness:
  "evaluate_gate sample_gate (Ulid WorkItemId ''W'') ''r2'' (Some True)
      [sample_evidence ''B'' (Some sample_attestation), sample_evidence ''A'' (Some sample_attestation)]
      (Datetime 500 (Some 0)) None
    = evaluate_gate sample_gate (Ulid WorkItemId ''W'') ''r2'' (Some True)
      [sample_evidence ''A'' (Some sample_attestation), sample_evidence ''B'' (Some sample_attestation)]
      (Datetime 500 (Some 0)) None"
  by (rule evaluate_gate_order_independent) (auto simp: sample_evidence_def)

section \<open>Properties of completion\<close>

text \<open>
  C13: the three-valued evaluation of a completion policy is exact. The result is satisfied when the
  policy holds however the unknown dependencies and children turn out, unknown when both outcomes
  are still possible, and one of the negative results when no resolution satisfies the policy.
\<close>

theorem evaluate_completion_exact:
  "(ce_result (evaluate_completion p c) = SATISFIED \<longleftrightarrow> resolutions c \<subseteq> Collect (policy_holds p))
   \<and> (ce_result (evaluate_completion p c) = COMPLETION_UNKNOWN \<longleftrightarrow>
        resolutions c \<inter> Collect (policy_holds p) \<noteq> {} \<and> \<not> resolutions c \<subseteq> Collect (policy_holds p))
   \<and> (ce_result (evaluate_completion p c) \<in> {INCOMPLETE, CLOSED_UNVERIFIED, PENDING_REVIEW} \<longleftrightarrow>
        resolutions c \<inter> Collect (policy_holds p) = {})"
proof -
  have "policy_holds p (fill c False False) \<Longrightarrow> policy_holds p (fill c True True)"
    by (erule policy_holds_mono) simp_all
  moreover have "ce_result (evaluate_completion p c) = (let value = fst (evaluate_policy_node p c) in
      if value = Some True then SATISFIED else if value = None then COMPLETION_UNKNOWN
      else if contains_manual_only p then PENDING_REVIEW
      else if cc_lifecycle c = COMPLETED then CLOSED_UNVERIFIED else INCOMPLETE)"
    by (simp add: evaluate_completion_def Let_def case_prod_beta)
  ultimately show ?thesis
    unfolding resolutions_holds by (simp add: truth_cases Let_def)
qed

text \<open>The leaves of a policy, and the list each leaf's label is reported in.\<close>

fun leaf_kinds :: "completion_policy \<Rightarrow> completion_policy_kind set" where
  "leaf_kinds (CompletionPolicy k oper operands) =
     (if k = COMPOSITE then \<Union> (leaf_kinds ` set operands) else {k})"

definition leaf_truth :: "completion_context \<Rightarrow> completion_policy_kind \<Rightarrow> truth" where
  "leaf_truth c k = fst (evaluate_policy_node (CompletionPolicy k None []) c)"

lemma node_labels:
  "set (fst (snd (evaluate_policy_node p c))) = policy_kind_value ` {k \<in> leaf_kinds p. leaf_truth c k = Some True}
   \<and> set (fst (snd (snd (evaluate_policy_node p c)))) = policy_kind_value ` {k \<in> leaf_kinds p. leaf_truth c k = Some False}
   \<and> set (snd (snd (snd (evaluate_policy_node p c)))) = policy_kind_value ` {k \<in> leaf_kinds p. leaf_truth c k = None}"
proof (induction p)
  case (CompletionPolicy k oper operands)
  show ?case
  proof (cases "k = COMPOSITE")
    case True
    with CompletionPolicy show ?thesis by (auto simp: Let_def)
  next
    case False
    then show ?thesis
      by (cases k) (auto simp: leaf_truth_def truth_result_def split: option.splits bool.splits)
  qed
qed

text \<open>
  The diagnostics of a completion evaluation name each leaf condition of the policy exactly
  once, by its truth value: satisfied, unsatisfied and unknown conditions are disjoint sorted lists
  whose union is the set of leaves, whatever the composite structure.
\<close>

theorem completion_diagnostics_partition:
  "set (ce_satisfied (evaluate_completion p c))
       = policy_kind_value ` {k \<in> leaf_kinds p. leaf_truth c k = Some True}
   \<and> set (ce_unsatisfied (evaluate_completion p c))
       = policy_kind_value ` {k \<in> leaf_kinds p. leaf_truth c k = Some False}
   \<and> set (ce_unknown (evaluate_completion p c))
       = policy_kind_value ` {k \<in> leaf_kinds p. leaf_truth c k = None}
   \<and> distinct (ce_satisfied (evaluate_completion p c) @ ce_unsatisfied (evaluate_completion p c)
        @ ce_unknown (evaluate_completion p c))"
proof -
  have inj: "policy_kind_value k = policy_kind_value k' \<longleftrightarrow> k = k'" for k k'
    by (cases k; cases k'; simp)
  show ?thesis
    using node_labels [of p c] by (auto simp: evaluate_completion_def Let_def case_prod_beta inj)
qed

section \<open>Lifecycle runs\<close>

text \<open>A run: the transitions the decision allows, each with the evaluations it was taken on.\<close>

record transition =
  tr_from :: lifecycle
  tr_to :: lifecycle
  tr_gates :: "gate_evaluation list"
  tr_completion :: "completion_evaluation option"

definition transition_allowed :: "transition \<Rightarrow> bool" where
  "transition_allowed t \<longleftrightarrow>
     td_allowed (evaluate_lifecycle_transition (tr_from t) (tr_to t) (tr_gates t) (tr_completion t))"

inductive lifecycle_run :: "lifecycle \<Rightarrow> transition list \<Rightarrow> lifecycle \<Rightarrow> bool" where
  run_start: "lifecycle_run s [] s"
| run_step: "lifecycle_run s ts (tr_from t) \<Longrightarrow> transition_allowed t \<Longrightarrow> lifecycle_run s (ts @ [t]) (tr_to t)"

definition phase_passed :: "gate_phase \<Rightarrow> gate_evaluation list \<Rightarrow> bool" where
  "phase_passed ph vs \<longleftrightarrow>
     (\<forall>v \<in> set vs. gp_phase (ge_gate v) = ph \<longrightarrow> ge_state v \<in> {PASSED, GATE_WAIVED})"

lemma transition_allowed_iff:
  "transition_allowed t \<longleftrightarrow>
     tr_from t = tr_to t \<or> tr_from t = UNKNOWN
     \<or> (tr_from t \<in> {PLANNED, ACTIVE} \<and> tr_to t = CANCELLED)
     \<or> (tr_from t = COMPLETED \<and> tr_to t = UNKNOWN)
     \<or> (tr_from t = PLANNED \<and> tr_to t = ACTIVE \<and> phase_passed ENTRY (tr_gates t))
     \<or> (tr_from t = ACTIVE \<and> tr_to t = COMPLETED \<and> phase_passed COMPLETION (tr_gates t)
        \<and> (\<exists>v. tr_completion t = Some v \<and> ce_result v = SATISFIED))"
  by (cases "tr_from t"; cases "tr_to t")
    (auto simp: transition_allowed_def evaluate_lifecycle_transition_def Let_def allows_transition_iff
      phase_passed_def split: option.splits)

text \<open>The two guarded transitions a run contains.\<close>

definition started :: "transition list \<Rightarrow> bool" where
  "started ts \<longleftrightarrow> (\<exists>t \<in> set ts. tr_from t = PLANNED \<and> tr_to t = ACTIVE \<and> phase_passed ENTRY (tr_gates t))"

definition certified :: "transition list \<Rightarrow> bool" where
  "certified ts \<longleftrightarrow> (\<exists>t \<in> set ts. tr_from t = ACTIVE \<and> tr_to t = COMPLETED
     \<and> phase_passed COMPLETION (tr_gates t)
     \<and> (\<exists>v. tr_completion t = Some v \<and> ce_result v = SATISFIED))"

lemma started_snoc: "started ts \<Longrightarrow> started (ts @ [t])"
  and certified_snoc: "certified ts \<Longrightarrow> certified (ts @ [t])"
  by (auto simp: started_def certified_def)

lemma lifecycle_run_planned:
  assumes "lifecycle_run s ts l" and "s = PLANNED"
  shows "(l = ACTIVE \<longrightarrow> started ts) \<and> (l \<in> {COMPLETED, UNKNOWN} \<longrightarrow> started ts \<and> certified ts)
    \<and> (l = PLANNED \<longrightarrow> started ts \<or> set (map tr_to ts) \<subseteq> {PLANNED})"
  using assms
proof (induction rule: lifecycle_run.induct)
  case (run_start s)
  then show ?case by simp
next
  case (run_step s ts t)
  then have ih: "(tr_from t = ACTIVE \<longrightarrow> started ts)
      \<and> (tr_from t \<in> {COMPLETED, UNKNOWN} \<longrightarrow> started ts \<and> certified ts)
      \<and> (tr_from t = PLANNED \<longrightarrow> started ts \<or> set (map tr_to ts) \<subseteq> {PLANNED})" by simp
  from \<open>transition_allowed t\<close> [unfolded transition_allowed_iff] ih started_snoc [of ts t]
    certified_snoc [of ts t]
  show ?case
    by (cases "tr_from t"; cases "tr_to t") (auto simp: started_def certified_def)
qed

lemma lifecycle_run_cancelled:
  "lifecycle_run s ts l \<Longrightarrow> s = CANCELLED \<Longrightarrow> l = CANCELLED"
  by (induction rule: lifecycle_run.induct) (auto simp: transition_allowed_iff)

text \<open>
  C14: an item that starts planned is completed, and its state becomes unknown, only after a run that
  entered \<open>active\<close> with every entry gate passed or waived and left it for \<open>completed\<close> with every
  completion gate passed or waived and a satisfied completion policy; a run that starts cancelled
  stays cancelled.
\<close>

theorem completion_only_through_gates:
  assumes "lifecycle_run s ts l"
  shows "(s = PLANNED \<and> l \<in> {COMPLETED, UNKNOWN} \<longrightarrow> started ts \<and> certified ts)
    \<and> (s = PLANNED \<and> l = ACTIVE \<longrightarrow> started ts) \<and> (s = CANCELLED \<longrightarrow> l = CANCELLED)"
  using lifecycle_run_planned [OF assms] lifecycle_run_cancelled [OF assms] by blast

definition sample_run :: "transition list" where
  "sample_run =
     [\<lparr>tr_from = PLANNED, tr_to = ACTIVE, tr_gates = [\<lparr>ge_gate = sample_gate, ge_state = FAILED,
         ge_evidence_ids = [], ge_reasons = []\<rparr>], tr_completion = None\<rparr>,
      \<lparr>tr_from = ACTIVE, tr_to = COMPLETED, tr_gates = [\<lparr>ge_gate = sample_gate, ge_state = PASSED,
         ge_evidence_ids = [], ge_reasons = []\<rparr>],
       tr_completion = Some \<lparr>ce_result = SATISFIED, ce_satisfied = [''manual_only''],
         ce_unsatisfied = [], ce_unknown = []\<rparr>\<rparr>]"

lemma completion_only_through_gates_witness:
  "lifecycle_run PLANNED sample_run COMPLETED \<and> started sample_run \<and> certified sample_run"
proof -
  have "lifecycle_run PLANNED ([] @ [sample_run ! 0]) (tr_to (sample_run ! 0))"
    by (rule lifecycle_run.run_step) (simp_all add: sample_run_def transition_allowed_iff phase_passed_def
        sample_gate_def lifecycle_run.run_start)
  then have "lifecycle_run PLANNED (([] @ [sample_run ! 0]) @ [sample_run ! 1]) (tr_to (sample_run ! 1))"
    by (intro lifecycle_run.run_step) (simp_all add: sample_run_def transition_allowed_iff phase_passed_def
        sample_gate_def)
  then have "lifecycle_run PLANNED sample_run COMPLETED" by (simp add: sample_run_def)
  with completion_only_through_gates [OF this] show ?thesis by simp
qed

section \<open>Review pending on a policy that is not met\<close>

text \<open>
  A policy that asks for the gates and a confirmation evaluates to pending review whenever a gate
  has not passed, although the human has confirmed and there is nothing left to confirm.
\<close>

lemma pending_review_after_confirmation:
  "ce_result (evaluate_completion (CompletionPolicy COMPOSITE (Some AND_OP)
       [CompletionPolicy ALL_GATES_PASSED None [], CompletionPolicy MANUAL_ONLY None []])
     \<lparr>cc_item_id = Ulid WorkItemId ''W'', cc_lifecycle = COMPLETED, cc_revision = ''r2'',
       cc_now = Datetime 500 (Some 0),
       cc_gate_evaluations = [\<lparr>ge_gate = sample_gate, ge_state = FAILED, ge_evidence_ids = [],
         ge_reasons = []\<rparr>],
       cc_evidence = [], cc_dependencies = None, cc_children = None, cc_human_confirmed = True\<rparr>)
   = PENDING_REVIEW"
  by code_simp

end
