(* ===== verification/Policy_Parse.thy ===== *)
theory Policy_Parse
  imports Policies
begin

text \<open>
  \<open>domain/policies.py\<close>, the parser: an untrusted Python object becomes a policy bundle or a
  \<open>DomainInvariantError\<close>. An object keeps its Python type, since the checks are on types
  (\<open>True\<close> is not coerced, a tuple is not a list); \<open>OOther\<close> is any other value. The lemmas show that
  the only error is \<open>INVALID_POLICY\<close>, that a parsed bundle is well formed, and that the parser
  inverts the rendering of well-formed bundles.
\<close>

section \<open>Objects and expectations\<close>

datatype py_object =
    ONone | OBool bool | OInt int | OFloat string | OStr string
  | OList "py_object list" | OMapping "(py_object \<times> py_object) list" | OOther

definition invalid_policy :: "string \<Rightarrow> string \<Rightarrow> 'a result" where
  "invalid_policy f d = Inl (DomainInvariantError INVALID_POLICY f d)"

fun is_str :: "py_object \<Rightarrow> bool" where
  "is_str (OStr s) = True"
| "is_str _ = False"

fun the_str :: "py_object \<Rightarrow> string" where
  "the_str (OStr s) = s"
| "the_str _ = []"

definition expect_mapping :: "py_object \<Rightarrow> string \<Rightarrow> (string \<times> py_object) list result" where
  "expect_mapping v f = (case v of
     OMapping kvs \<Rightarrow>
       if \<not> (\<forall>(k, x) \<in> set kvs. is_str k) then invalid_policy f ''object keys must be strings''
       else Inr (map (\<lambda>(k, x). (the_str k, x)) kvs)
   | _ \<Rightarrow> invalid_policy f ''expected an object'')"

definition expect_list :: "py_object \<Rightarrow> string \<Rightarrow> py_object list result" where
  "expect_list v f = (case v of OList vs \<Rightarrow> Inr vs | _ \<Rightarrow> invalid_policy f ''expected an array'')"

definition expect_str :: "py_object \<Rightarrow> string \<Rightarrow> string result" where
  "expect_str v f = (case v of
     OStr s \<Rightarrow> if blank s then invalid_policy f ''expected a nonblank string'' else Inr s
   | _ \<Rightarrow> invalid_policy f ''expected a nonblank string'')"

definition expect_bool :: "py_object \<Rightarrow> string \<Rightarrow> bool result" where
  "expect_bool v f = (case v of
     OBool b \<Rightarrow> Inr b | _ \<Rightarrow> invalid_policy f ''expected a boolean without coercion'')"

definition require_keys ::
    "(string \<times> py_object) list \<Rightarrow> string list \<Rightarrow> string list \<Rightarrow> string \<Rightarrow> unit result" where
  "require_keys m allowed required f = (let
     keys = map fst m;
     missing = sorted_set (filter (\<lambda>k. k \<notin> set keys) required);
     unknown = sorted_set (filter (\<lambda>k. k \<notin> set allowed) keys)
   in if missing \<noteq> [] \<or> unknown \<noteq> []
      then invalid_policy f (''strict object mismatch: missing='' @ repr_list missing
        @ '', unknown='' @ repr_list unknown)
      else Inr ())"

text \<open>\<open>mapping[key]\<close>\<close>

definition item :: "(string \<times> py_object) list \<Rightarrow> string \<Rightarrow> py_object result" where
  "item m k = dict_get (map_of m) k (py_repr k)"

text \<open>\<open>E(value)\<close> of a \<open>StrEnum\<close>: a value that names no member raises \<open>ValueError\<close>.\<close>

definition enum_of :: "string \<Rightarrow> 'e list \<Rightarrow> ('e \<Rightarrow> string) \<Rightarrow> string \<Rightarrow> 'e result" where
  "enum_of name members val s = (case find (\<lambda>e. val e = s) members of
     Some e \<Rightarrow> Inr e
   | None \<Rightarrow> Inl (ValueError (py_repr s @ '' is not a valid '' @ name)))"

definition evidence_type_of :: "string \<Rightarrow> evidence_type result" where
  "evidence_type_of = enum_of ''EvidenceType'' [COMPUTED, OBSERVED, DECLARED] evidence_type_value"

definition gate_phase_of :: "string \<Rightarrow> gate_phase result" where
  "gate_phase_of = enum_of ''GatePhase'' [ENTRY, COMPLETION, CERTIFICATION] gate_phase_value"

definition gate_type_of :: "string \<Rightarrow> gate_type result" where
  "gate_type_of =
     enum_of ''GateType'' [DEPENDENCY, EVIDENCE, APPROVAL, QUALITY, SAFETY] gate_type_value"

definition policy_kind_of :: "string \<Rightarrow> completion_policy_kind result" where
  "policy_kind_of = enum_of ''CompletionPolicyKind''
     [ALL_GATES_PASSED, ALL_DEPENDENCIES_COMPLETE, ALL_CHILDREN_COMPLETE, EVIDENCE_DECLARED,
      COMPOSITE, MANUAL_ONLY] policy_kind_value"

definition operator_of :: "string \<Rightarrow> composite_operator result" where
  "operator_of = enum_of ''CompositeOperator'' [AND_OP, OR_OP] operator_value"

text \<open>\<open>except ValueError\<close> around a computation: the handler replaces a caught exception.\<close>

definition rescue_value_error :: "(exn \<Rightarrow> exn) \<Rightarrow> 'a result \<Rightarrow> 'a result" where
  "rescue_value_error h r = (case r of
     Inl e \<Rightarrow> Inl (if is_value_error e then h e else e) | Inr a \<Rightarrow> Inr a)"

section \<open>The parser\<close>

text \<open>\<open>f"{field}[{index}]"\<close>\<close>

definition indexed :: "string \<Rightarrow> nat \<Rightarrow> string" where
  "indexed f i = f @ ''['' @ str_nat i @ '']''"

definition gate_keys :: "string list" where
  "gate_keys = [''gate_id'', ''name'', ''phase'', ''gate_type'', ''accepted_evidence_types'',
     ''attestation_required'', ''waivable'', ''safety_critical'']"

text \<open>The \<open>try\<close> block of \<open>_parse_gate\<close>, in the order in which Python evaluates the arguments.\<close>

definition parse_gate_body ::
    "(string \<times> py_object) list \<Rightarrow> py_object list \<Rightarrow> string \<Rightarrow> gate_policy result" where
  "parse_gate_body m evidence_values f =
     bind_result (map_result (\<lambda>(position, v).
       bind_result (expect_str v (indexed (f @ ''.accepted_evidence_types'') position)) evidence_type_of)
       (enumerate 0 evidence_values)) (\<lambda>accepted.
     bind_result (item m ''gate_id'') (\<lambda>v. bind_result (expect_str v (f @ ''.gate_id'')) (\<lambda>s.
     bind_result (new_ulid GateId s) (\<lambda>gate_id.
     bind_result (item m ''name'') (\<lambda>v. bind_result (expect_str v (f @ ''.name'')) (\<lambda>name.
     bind_result (item m ''phase'') (\<lambda>v. bind_result (expect_str v (f @ ''.phase'')) (\<lambda>s.
     bind_result (gate_phase_of s) (\<lambda>phase.
     bind_result (item m ''gate_type'') (\<lambda>v. bind_result (expect_str v (f @ ''.gate_type'')) (\<lambda>s.
     bind_result (gate_type_of s) (\<lambda>gtype.
     bind_result (item m ''attestation_required'') (\<lambda>v.
     bind_result (expect_bool v (f @ ''.attestation_required'')) (\<lambda>att.
     bind_result (item m ''waivable'') (\<lambda>v. bind_result (expect_bool v (f @ ''.waivable'')) (\<lambda>waivable.
     bind_result (item m ''safety_critical'') (\<lambda>v.
     bind_result (expect_bool v (f @ ''.safety_critical'')) (\<lambda>critical.
     new_gate_policy \<lparr>gp_gate_id = gate_id, gp_name = name, gp_phase = phase, gp_type = gtype,
       gp_accepted = accepted, gp_attestation_required = att, gp_waivable = waivable,
       gp_safety_critical = critical\<rparr>))))))))))))))))))"

definition parse_gate :: "py_object \<Rightarrow> nat \<Rightarrow> gate_policy result" where
  "parse_gate raw index = (let f = indexed ''gates'' index in
     bind_result (expect_mapping raw f) (\<lambda>m.
     bind_result (require_keys m gate_keys gate_keys f) (\<lambda>_.
     bind_result (item m ''accepted_evidence_types'') (\<lambda>v.
     bind_result (expect_list v (f @ ''.accepted_evidence_types'')) (\<lambda>evidence_values.
     rescue_value_error (\<lambda>e. DomainInvariantError INVALID_POLICY f
         (''unknown gate construct: '' @ exn_str e))
       (parse_gate_body m evidence_values f))))))"

lemma size_map_of: "map_of m k = Some v \<Longrightarrow> size v < size_list (\<lambda>(a, b). size b) m + 1"
  by (induction m) (auto split: if_splits)

lemma size_expect_mapping:
  "expect_mapping raw f = Inr m \<Longrightarrow> size_list (\<lambda>(a, b). size b) m + 1 \<le> size raw"
proof (cases raw)
  case (OMapping kvs)
  moreover have "size_list (\<lambda>(a, b). size b) (map (\<lambda>(k, x). (the_str k, x)) kvs)
    \<le> size_list (size_prod size size) kvs"
    by (induction kvs) auto
  moreover assume "expect_mapping raw f = Inr m"
  ultimately show ?thesis
    by (auto simp: expect_mapping_def invalid_policy_def split: if_splits)
qed (simp_all add: expect_mapping_def invalid_policy_def)

lemma size_operand:
  assumes "expect_mapping raw f = Inr m" and "item m k = Inr v" and "expect_list v g = Inr ops"
    and "(i, p) \<in> set (enumerate 0 ops)"
  shows "size p < size raw"
proof -
  have "v = OList ops"
    using assms(3) by (auto simp: expect_list_def invalid_policy_def split: py_object.splits)
  moreover have "p \<in> set ops" using assms(4) by (auto simp: in_set_enumerate_eq)
  ultimately have "size p < size v" by (simp add: less_Suc_eq_le size_list_estimation')
  moreover have "map_of m k = Some v" using assms(2) by (simp add: item_def result_simps)
  ultimately show ?thesis
    using size_map_of size_expect_mapping [OF assms(1)] by fastforce
qed

function parse_completion_policy :: "py_object \<Rightarrow> string \<Rightarrow> completion_policy result" where
  "parse_completion_policy raw f =
     bind_result (expect_mapping raw f) (\<lambda>m.
     if map_of m ''kind'' = None then invalid_policy f (''missing required field '' @ py_repr ''kind'')
     else bind_result (item m ''kind'') (\<lambda>v.
       bind_result (expect_str v (f @ ''.kind'')) (\<lambda>kind_value.
       bind_result (rescue_value_error (\<lambda>e. DomainInvariantError INVALID_POLICY (f @ ''.kind'')
         (''unknown completion policy kind: '' @ py_repr kind_value)) (policy_kind_of kind_value)) (\<lambda>k.
       if k = COMPOSITE then
         bind_result (require_keys m [''kind'', ''operator'', ''operands'']
           [''kind'', ''operator'', ''operands''] f) (\<lambda>_.
         bind_result (item m ''operator'') (\<lambda>ov.
         bind_result (expect_str ov (f @ ''.operator'')) (\<lambda>operator_value.
         bind_result (rescue_value_error (\<lambda>e. DomainInvariantError INVALID_POLICY (f @ ''.operator'')
           (''unknown composite operator: '' @ py_repr operator_value)) (operator_of operator_value)) (\<lambda>oper.
         bind_result (item m ''operands'') (\<lambda>rv.
         bind_result (expect_list rv (f @ ''.operands'')) (\<lambda>raw_operands.
         bind_result (map_result (\<lambda>(index, operand).
           parse_completion_policy operand (indexed (f @ ''.operands'') index))
           (enumerate 0 raw_operands)) (\<lambda>operands.
         new_completion_policy k (Some oper) operands)))))))
       else bind_result (require_keys m [''kind''] [''kind''] f) (\<lambda>_.
         new_completion_policy k None [])))))"
  by auto
termination
  by (relation "measure (\<lambda>(raw, f). size raw)") (auto intro: size_operand)

declare parse_completion_policy.simps [simp del]

definition bundle_keys :: "string list" where
  "bundle_keys = [''schema_version'', ''policy_id'', ''gates'', ''completion_policy'']"

definition parse_policy_bundle :: "(string \<times> py_object) list \<Rightarrow> policy_bundle result" where
  "parse_policy_bundle payload =
     bind_result (require_keys payload bundle_keys bundle_keys ''policy_bundle'') (\<lambda>_.
     bind_result (item payload ''schema_version'') (\<lambda>v.
     bind_result (expect_str v ''schema_version'') (\<lambda>schema_version.
     bind_result (item payload ''policy_id'') (\<lambda>v.
     bind_result (expect_str v ''policy_id'') (\<lambda>policy_id.
     bind_result (item payload ''gates'') (\<lambda>v.
     bind_result (expect_list v ''gates'') (\<lambda>raw_gates.
     bind_result (map_result (\<lambda>(index, raw). parse_gate raw index) (enumerate 0 raw_gates)) (\<lambda>gates.
     bind_result (item payload ''completion_policy'') (\<lambda>v.
     bind_result (parse_completion_policy v ''completion_policy'') (\<lambda>completion.
     new_policy_bundle \<lparr>pb_schema_version = schema_version, pb_policy_id = policy_id,
       pb_gates = gates, pb_completion = completion\<rparr>))))))))))"

section \<open>The errors of the parser\<close>

fun is_invalid_policy :: "exn \<Rightarrow> bool" where
  "is_invalid_policy (DomainInvariantError c f d) = (c = INVALID_POLICY)"
| "is_invalid_policy _ = False"

definition raises_only :: "(exn \<Rightarrow> bool) \<Rightarrow> 'a result \<Rightarrow> bool" where
  "raises_only P r \<longleftrightarrow> (\<forall>e. r = Inl e \<longrightarrow> P e)"

named_theorems raises "which exceptions an operation of the parser raises"

lemma raises_Inr [raises, simp]: "raises_only P (Inr a)"
  by (simp add: raises_only_def)

lemma raises_bind [raises]:
  "raises_only P r \<Longrightarrow> (\<And>a. r = Inr a \<Longrightarrow> raises_only P (f a)) \<Longrightarrow> raises_only P (bind_result r f)"
  by (auto simp: raises_only_def bind_result_eq_Inl)

lemma raises_map [raises]:
  "(\<And>x. x \<in> set xs \<Longrightarrow> raises_only P (f x)) \<Longrightarrow> raises_only P (map_result f xs)"
  by (auto simp: raises_only_def dest: map_result_Inl)

lemma raises_rescue:
  "raises_only is_value_error r \<Longrightarrow> (\<And>e. is_invalid_policy (h e))
     \<Longrightarrow> raises_only is_invalid_policy (rescue_value_error h r)"
  by (auto simp: raises_only_def rescue_value_error_def split: sum.splits)

lemma invalid_policy_value_error: "is_invalid_policy e \<Longrightarrow> is_value_error e"
  by (cases e) simp_all

lemma raises_value_error: "raises_only is_invalid_policy r \<Longrightarrow> raises_only is_value_error r"
  by (auto simp: raises_only_def invalid_policy_value_error)

lemma raises_expect [raises]:
  "raises_only is_invalid_policy (expect_mapping v f)"
  "raises_only is_invalid_policy (expect_list v f)"
  "raises_only is_invalid_policy (expect_str v f)"
  "raises_only is_invalid_policy (expect_bool v f)"
  "raises_only is_invalid_policy (require_keys m a r f)"
  "raises_only is_invalid_policy (invalid_policy f d :: 'a result)"
  by (auto simp: raises_only_def expect_mapping_def expect_list_def expect_str_def expect_bool_def
      require_keys_def invalid_policy_def Let_def split: py_object.splits if_splits)

lemma raises_enum [raises]: "raises_only is_value_error (enum_of n ms f s)"
  by (auto simp: raises_only_def enum_of_def split: option.splits)

lemma raises_enums [raises]:
  "raises_only is_value_error (evidence_type_of s)" "raises_only is_value_error (gate_phase_of s)"
  "raises_only is_value_error (gate_type_of s)" "raises_only is_value_error (policy_kind_of s)"
  "raises_only is_value_error (operator_of s)"
  by (simp_all add: evidence_type_of_def gate_phase_of_def gate_type_of_def policy_kind_of_def
      operator_of_def raises_enum)

lemma raises_constructors [raises]:
  "raises_only is_value_error (new_ulid c v)"
  "raises_only is_value_error (new_gate_policy g)"
  "raises_only is_invalid_policy (new_completion_policy k oper ops)"
  "raises_only is_invalid_policy (new_policy_bundle b)"
  by (auto simp: raises_only_def new_ulid_def new_gate_policy_def new_completion_policy_def
      new_policy_bundle_def policy_text_def Let_def bind_result_eq_Inl split: if_splits)

lemma require_keys_Inr:
  assumes "set required \<subseteq> set allowed"
  shows "require_keys m allowed required f = Inr u \<longleftrightarrow>
    set required \<subseteq> fst ` set m \<and> fst ` set m \<subseteq> set allowed"
proof -
  have "sorted_set (filter P ks) = [] \<longleftrightarrow> (\<forall>k \<in> set ks. \<not> P k)" for P :: "string \<Rightarrow> bool" and ks
    by (metis (no_types, lifting) empty_filter_conv set_empty set_sorted_set)
  then show ?thesis by (auto simp: require_keys_def Let_def invalid_policy_def)
qed

lemma item_ok:
  assumes "require_keys m allowed required f = Inr u" and "k \<in> set required"
    and "set required \<subseteq> set allowed"
  shows "\<exists>v. item m k = Inr v"
  using assms by (auto simp: require_keys_Inr item_def result_simps weak_map_of_SomeI map_of_eq_None_iff
      dict_get_def split: option.splits)

lemma raises_item:
  "require_keys m allowed required f = Inr u \<Longrightarrow> k \<in> set required \<Longrightarrow> set required \<subseteq> set allowed
     \<Longrightarrow> raises_only P (item m k)"
  using item_ok by (fastforce simp: raises_only_def)

lemma raises_gate_body:
  assumes "require_keys m gate_keys gate_keys f = Inr u"
  shows "raises_only is_value_error (parse_gate_body m evs g)"
proof -
  have it: "raises_only is_value_error (item m k)" if "k \<in> set gate_keys" for k
    using raises_item [OF assms that] by simp
  show ?thesis
    unfolding parse_gate_body_def
    by (intro raises_bind raises_map it raises_enums raises_constructors
        raises_expect [THEN raises_value_error]) (auto simp: gate_keys_def
        intro!: raises_bind raises_enums raises_expect [THEN raises_value_error])
qed

lemma raises_parse_gate [raises]: "raises_only is_invalid_policy (parse_gate raw i)"
  unfolding parse_gate_def Let_def
  by (intro raises_bind raises_expect raises_rescue)
    (auto simp: gate_keys_def intro: raises_item raises_gate_body)

lemma raises_policy_items:
  assumes "require_keys m [''kind'', ''operator'', ''operands''] [''kind'', ''operator'', ''operands''] f = Inr u"
  shows "raises_only P (item m ''operator'')" "raises_only P (item m ''operands'')"
  by (rule raises_item [OF assms]; simp)+

lemma raises_parse_completion [raises]:
  "raises_only is_invalid_policy (parse_completion_policy raw f)"
proof (induction raw f rule: parse_completion_policy.induct)
  case (1 raw f)
  have kind: "raises_only P (item m ''kind'')" if "map_of m ''kind'' \<noteq> None" for m P
    using that by (auto simp: item_def dict_get_def)
  show ?case
    apply (subst parse_completion_policy.simps)
    apply (intro raises_bind raises_expect)
    apply (split if_split, intro conjI impI raises_expect raises_bind kind raises_rescue raises_enums)
    apply (simp_all)
    apply (intro conjI impI raises_bind raises_expect raises_map raises_constructors raises_rescue raises_enums)
    apply (simp_all add: raises_policy_items)
    apply (clarsimp)
    apply (rule 1)
    apply (assumption | rule refl | simp)+
    done
qed

section \<open>Parsed values are well formed\<close>

definition gate_id_wf :: "gate_policy \<Rightarrow> bool" where
  "gate_id_wf g \<longleftrightarrow> ulid_class (gp_gate_id g) = GateId \<and> ulid_pattern (ulid_value (gp_gate_id g))"

lemma rescue_Inr [result_simps]: "rescue_value_error h r = Inr a \<longleftrightarrow> r = Inr a"
  by (auto simp: rescue_value_error_def split: sum.splits)

lemma parse_gate_body_Inr:
  assumes "parse_gate_body m evs f = Inr g"
  shows "\<exists>h s. new_gate_policy h = Inr g \<and> new_ulid GateId s = Inr (gp_gate_id h)"
  using assms unfolding parse_gate_body_def bind_result_eq_Inr
  by (elim exE conjE) (intro exI conjI, assumption, simp)

lemma parse_gate_wf:
  assumes "parse_gate raw i = Inr g"
  shows "gate_wf g \<and> gate_id_wf g"
proof -
  obtain h s where h: "new_gate_policy h = Inr g" and s: "new_ulid GateId s = Inr (gp_gate_id h)"
    using assms parse_gate_body_Inr by (fastforce simp: parse_gate_def Let_def result_simps)
  have "gp_gate_id g = gp_gate_id h" using h by (simp add: new_gate_policy_Inr)
  moreover have "gp_gate_id h = Ulid GateId s \<and> ulid_pattern s"
    using s by (auto simp: new_ulid_def split: if_splits)
  ultimately show ?thesis
    using new_gate_policy_wf [OF h] by (simp add: gate_id_wf_def)
qed

lemma new_completion_policy_Inr [result_simps]:
  "new_completion_policy k oper ops = Inr p \<longleftrightarrow> p = CompletionPolicy k oper ops
     \<and> (if k = COMPOSITE then oper \<noteq> None \<and> 2 \<le> length ops else oper = None \<and> ops = [])"
  by (auto simp: new_completion_policy_def)

lemma map_result_set:
  "map_result f xs = Inr ys \<Longrightarrow> y \<in> set ys \<Longrightarrow> \<exists>x \<in> set xs. f x = Inr y"
  by (induction xs arbitrary: ys) (auto simp: bind_result_eq_Inr)

lemma parse_completion_wf:
  "parse_completion_policy raw f = Inr p \<Longrightarrow> policy_wf p"
proof (induction raw f arbitrary: p rule: parse_completion_policy.induct)
  case (1 raw f)
  from 1(2) [unfolded parse_completion_policy.simps [of raw f]]
  obtain m v kind_value k where m: "expect_mapping raw f = Inr m" "map_of m ''kind'' \<noteq> None"
    "item m ''kind'' = Inr v" "expect_str v (f @ ''.kind'') = Inr kind_value"
    and k: "rescue_value_error (\<lambda>e. DomainInvariantError INVALID_POLICY (f @ ''.kind'')
         (''unknown completion policy kind: '' @ py_repr kind_value)) (policy_kind_of kind_value) = Inr k"
    and rest: "(if k = COMPOSITE then
         bind_result (require_keys m [''kind'', ''operator'', ''operands'']
           [''kind'', ''operator'', ''operands''] f) (\<lambda>_.
         bind_result (item m ''operator'') (\<lambda>ov.
         bind_result (expect_str ov (f @ ''.operator'')) (\<lambda>operator_value.
         bind_result (rescue_value_error (\<lambda>e. DomainInvariantError INVALID_POLICY (f @ ''.operator'')
           (''unknown composite operator: '' @ py_repr operator_value)) (operator_of operator_value)) (\<lambda>oper.
         bind_result (item m ''operands'') (\<lambda>rv.
         bind_result (expect_list rv (f @ ''.operands'')) (\<lambda>raw_operands.
         bind_result (map_result (\<lambda>(index, operand).
           parse_completion_policy operand (indexed (f @ ''.operands'') index))
           (enumerate 0 raw_operands)) (\<lambda>operands.
         new_completion_policy k (Some oper) operands)))))))
       else bind_result (require_keys m [''kind''] [''kind''] f) (\<lambda>_.
         new_completion_policy k None [])) = Inr p"
    by (auto simp: bind_result_eq_Inr invalid_policy_def split: if_split_asm)
  note ih = 1(1) [OF m k]
  show ?case
  proof (cases "k = COMPOSITE")
    case False
    with rest show ?thesis by (auto simp: result_simps)
  next
    case True
    obtain u ov operator_value oper rv raw_operands operands where
      c: "require_keys m [''kind'', ''operator'', ''operands''] [''kind'', ''operator'', ''operands''] f = Inr u"
        "item m ''operator'' = Inr ov" "expect_str ov (f @ ''.operator'') = Inr operator_value"
        "rescue_value_error (\<lambda>e. DomainInvariantError INVALID_POLICY (f @ ''.operator'')
          (''unknown composite operator: '' @ py_repr operator_value)) (operator_of operator_value) = Inr oper"
        "item m ''operands'' = Inr rv" "expect_list rv (f @ ''.operands'') = Inr raw_operands"
      and ops: "map_result (\<lambda>(index, operand).
           parse_completion_policy operand (indexed (f @ ''.operands'') index))
           (enumerate 0 raw_operands) = Inr operands"
      and p: "new_completion_policy k (Some oper) operands = Inr p"
      using rest unfolding True if_P [OF refl] bind_result_eq_Inr by blast
    have "policy_wf q" if qin: "q \<in> set operands" for q
    proof -
      obtain i y where x: "(i, y) \<in> set (enumerate 0 raw_operands)"
        and q: "parse_completion_policy y (indexed (f @ ''.operands'') i) = Inr q"
        using map_result_set [OF ops qin] by (auto split: prod.splits)
      show ?thesis by (rule ih [OF True c x refl q])
    qed
    with p True show ?thesis by (auto simp: new_completion_policy_Inr)
  qed
qed

lemma parse_bundle_Inr:
  assumes "parse_policy_bundle payload = Inr b"
  shows "set bundle_keys = fst ` set payload \<and> bundle_wf b \<and> (\<forall>g \<in> set (pb_gates b). gate_id_wf g)"
proof -
  obtain u sv pid rg gates v c where keys: "require_keys payload bundle_keys bundle_keys ''policy_bundle'' = Inr u"
    and gates: "map_result (\<lambda>(index, raw). parse_gate raw index) (enumerate 0 rg) = Inr gates"
    and c: "parse_completion_policy v ''completion_policy'' = Inr c"
    and b: "new_policy_bundle \<lparr>pb_schema_version = sv, pb_policy_id = pid,
       pb_gates = gates, pb_completion = c\<rparr> = Inr b"
    using assms unfolding parse_policy_bundle_def bind_result_eq_Inr by blast
  have g: "\<forall>g \<in> set gates. gate_wf g \<and> gate_id_wf g"
    using gates parse_gate_wf by (fastforce dest: map_result_set)
  have "pb_gates b = sort_key gate_key gates" "pb_completion b = c"
    "pb_schema_version b = ''1.0.0''" "\<not> blank (pb_policy_id b)" "distinct (map gp_gate_id (pb_gates b))"
    using b by (auto simp: new_policy_bundle_def Let_def result_simps length_remdups_distinct
        length_remdups_distinct [of "map _ _", simplified] split: if_splits)
  with g parse_completion_wf [OF c] have "bundle_wf b \<and> (\<forall>g \<in> set (pb_gates b). gate_id_wf g)"
    by (simp add: bundle_wf_def)
  with keys show ?thesis by (auto simp: require_keys_Inr)
qed

section \<open>Rendering and parsing\<close>

definition render_gate :: "gate_policy \<Rightarrow> py_object" where
  "render_gate g = OMapping
     [(OStr ''gate_id'', OStr (ulid_value (gp_gate_id g))),
      (OStr ''name'', OStr (gp_name g)),
      (OStr ''phase'', OStr (gate_phase_value (gp_phase g))),
      (OStr ''gate_type'', OStr (gate_type_value (gp_type g))),
      (OStr ''accepted_evidence_types'', OList (map (OStr \<circ> evidence_type_value) (gp_accepted g))),
      (OStr ''attestation_required'', OBool (gp_attestation_required g)),
      (OStr ''waivable'', OBool (gp_waivable g)),
      (OStr ''safety_critical'', OBool (gp_safety_critical g))]"

fun render_completion :: "completion_policy \<Rightarrow> py_object" where
  "render_completion (CompletionPolicy k oper operands) = OMapping
     ((OStr ''kind'', OStr (policy_kind_value k)) # (case oper of None \<Rightarrow> []
        | Some x \<Rightarrow> [(OStr ''operator'', OStr (operator_value x)),
                     (OStr ''operands'', OList (map render_completion operands))]))"

definition render_bundle :: "policy_bundle \<Rightarrow> (string \<times> py_object) list" where
  "render_bundle b = [(''schema_version'', OStr (pb_schema_version b)),
     (''policy_id'', OStr (pb_policy_id b)),
     (''gates'', OList (map render_gate (pb_gates b))),
     (''completion_policy'', render_completion (pb_completion b))]"

lemma of_value [simp]:
  "evidence_type_of (evidence_type_value t) = Inr t" "gate_phase_of (gate_phase_value ph) = Inr ph"
  "gate_type_of (gate_type_value ty) = Inr ty" "policy_kind_of (policy_kind_value k) = Inr k"
  "operator_of (operator_value x) = Inr x"
      apply (cases t; simp add: evidence_type_of_def enum_of_def)
     apply (cases ph; simp add: gate_phase_of_def enum_of_def)
    apply (cases ty; simp add: gate_type_of_def enum_of_def)
   apply (cases k; simp add: policy_kind_of_def enum_of_def)
  by (cases x; simp add: operator_of_def enum_of_def)

lemma value_not_blank [simp]:
  "\<not> blank (evidence_type_value t)" "\<not> blank (gate_phase_value ph)" "\<not> blank (gate_type_value ty)"
  "\<not> blank (policy_kind_value k)" "\<not> blank (operator_value x)"
      apply (cases t; simp add: blank_iff is_space_def)
     apply (cases ph; simp add: blank_iff is_space_def)
    apply (cases ty; simp add: blank_iff is_space_def)
   apply (cases k; simp add: blank_iff is_space_def)
  by (cases x; simp add: blank_iff is_space_def)

lemma expect_simps [simp]:
  "expect_str (OStr s) f = (if blank s then invalid_policy f ''expected a nonblank string'' else Inr s)"
  "expect_bool (OBool b) f = Inr b"
  "expect_list (OList vs) f = Inr vs"
  by (simp_all add: expect_str_def expect_bool_def expect_list_def)

lemma map_result_enumerate:
  assumes "\<And>i x. x \<in> set xs \<Longrightarrow> f (i, r x) = Inr x"
  shows "map_result f (enumerate n (map r xs)) = Inr xs"
  using assms by (induction xs arbitrary: n) simp_all

lemma parse_evidence_types:
  "map_result (\<lambda>(position, v). bind_result (expect_str v (indexed g position)) evidence_type_of)
     (enumerate n (map (OStr \<circ> evidence_type_value) ts)) = Inr ts"
  by (rule map_result_enumerate)  simp

lemma parse_render_gate:
  assumes "gate_wf g" and "gate_id_wf g"
  shows "parse_gate (render_gate g) i = Inr g"
proof -
  have "new_ulid GateId (ulid_value (gp_gate_id g)) = Inr (gp_gate_id g)"
    using assms(2) by (cases "gp_gate_id g") (simp add: gate_id_wf_def new_ulid_def)
  moreover have "\<not> blank (ulid_value (gp_gate_id g))"
    using assms(2) by (auto simp: gate_id_wf_def ulid_pattern_def blank_iff is_space_def
        split: list.splits)
  moreover have "\<not> blank (gp_name g)" using assms(1) by (simp add: gate_wf_def)
  ultimately show ?thesis
    using new_gate_policy_id [OF assms(1)]
    unfolding parse_gate_def parse_gate_body_def render_gate_def
    by (cases g) (simp add: Let_def expect_mapping_def require_keys_def gate_keys_def item_def dict_get_def
        rescue_value_error_def parse_evidence_types sorted_set_def del: comp_apply)
qed

lemma parse_render_completion:
  "policy_wf p \<Longrightarrow> parse_completion_policy (render_completion p) f = Inr p"
proof (induction p arbitrary: f)
  case (CompletionPolicy k oper operands)
  have ops: "map_result (\<lambda>(index, operand). parse_completion_policy operand (indexed (f @ ''.operands'') index))
      (enumerate 0 (map render_completion operands)) = Inr operands"
    using CompletionPolicy by (intro map_result_enumerate) simp
  show ?case
  proof (cases oper)
    case None
    with CompletionPolicy.prems show ?thesis
      by (subst parse_completion_policy.simps)
        (simp add: expect_mapping_def require_keys_def item_def dict_get_def
          rescue_value_error_def sorted_set_def new_completion_policy_def split: if_splits)
  next
    case (Some x)
    with CompletionPolicy.prems ops show ?thesis
      by (subst parse_completion_policy.simps)
        (simp add: expect_mapping_def require_keys_def item_def dict_get_def
          rescue_value_error_def sorted_set_def new_completion_policy_def split: if_splits)
  qed
qed

lemma parse_render_bundle:
  assumes "bundle_wf b" and "\<forall>g \<in> set (pb_gates b). gate_id_wf g"
  shows "parse_policy_bundle (render_bundle b) = Inr b"
proof -
  have gates: "map_result (\<lambda>(index, raw). parse_gate raw index)
      (enumerate 0 (map render_gate (pb_gates b))) = Inr (pb_gates b)"
    using assms by (intro map_result_enumerate) (simp add: parse_render_gate bundle_wf_def)
  have "new_policy_bundle b = Inr b"
    using assms(1)
    by (simp add: new_policy_bundle_def bundle_wf_def policy_text_def sort_key_id Let_def
        distinct_remdups_id)
  moreover have "\<not> blank ''1.0.0''" by (simp add: blank_iff is_space_def)
  ultimately show ?thesis
    using assms(1) gates
    by (cases b) (simp add: parse_policy_bundle_def render_bundle_def require_keys_def bundle_keys_def
        item_def dict_get_def sorted_set_def bundle_wf_def parse_render_completion)
qed

section \<open>Properties\<close>

text \<open>
  The only error the bundle parser can raise on a mapping is a \<open>DomainInvariantError\<close> with code
  \<open>INVALID_POLICY\<close>, whatever the types of its values: no \<open>KeyError\<close> escapes from a lookup, no bare
  \<open>ValueError\<close> from an enumeration, and a gate the constructor refuses is reported under that code.
\<close>

theorem parse_policy_bundle_error:
  assumes "parse_policy_bundle payload = Inl e"
  shows "is_invalid_policy e"
proof -
  have it: "raises_only is_invalid_policy (item payload k)"
    if "require_keys payload bundle_keys bundle_keys f = Inr u" "k \<in> set bundle_keys" for f u k
    using raises_item [OF that] by simp
  have "raises_only is_invalid_policy (parse_policy_bundle payload)"
    unfolding parse_policy_bundle_def
    by (intro raises_bind raises_expect raises_map raises_constructors raises_parse_completion)
      (auto intro: it raises_parse_gate simp: bundle_keys_def)
  with assms show ?thesis by (simp add: raises_only_def)
qed

lemma parse_policy_bundle_error_witness:
  "is_invalid_policy (DomainInvariantError INVALID_POLICY ''gates[0]''
     (''unknown gate construct: safety_gate_waiver: waivable: safety gates cannot be waived''))"
proof (rule parse_policy_bundle_error [of "[(''schema_version'', OStr ''1.0.0''),
    (''policy_id'', OStr ''p''),
    (''gates'', OList [OMapping [(OStr ''gate_id'', OStr ''01ARZ3NDEKTSV4RRFFQ69G5FAV''),
      (OStr ''name'', OStr ''n''), (OStr ''phase'', OStr ''entry''), (OStr ''gate_type'', OStr ''safety''),
      (OStr ''accepted_evidence_types'', OList [OStr ''computed'']),
      (OStr ''attestation_required'', OBool True), (OStr ''waivable'', OBool True),
      (OStr ''safety_critical'', OBool True)]]),
    (''completion_policy'', OMapping [(OStr ''kind'', OStr ''manual_only'')])]"])
qed code_simp

text \<open>
  C15: the parser and the rendering of bundles are inverse. A parsed payload has exactly the four
  keys, its bundle is well formed (version 1.0.0, gates ordered with unique identifiers, safety
  gates not waivable, composite nodes with an operator and two operands), and rendering that bundle
  and parsing it again gives the same bundle; conversely every well-formed bundle is the result of
  parsing its rendering.
\<close>

theorem parse_policy_bundle_roundtrip:
  "(\<forall>payload b. parse_policy_bundle payload = Inr b \<longrightarrow>
      fst ` set payload = set bundle_keys \<and> bundle_wf b \<and> parse_policy_bundle (render_bundle b) = Inr b)
   \<and> (\<forall>b. bundle_wf b \<and> (\<forall>g \<in> set (pb_gates b). gate_id_wf g)
        \<longrightarrow> parse_policy_bundle (render_bundle b) = Inr b)"
  using parse_bundle_Inr parse_render_bundle by metis

definition sample_bundle :: policy_bundle where
  "sample_bundle = \<lparr>pb_schema_version = ''1.0.0'', pb_policy_id = ''release'',
     pb_gates = [\<lparr>gp_gate_id = Ulid GateId ''01ARZ3NDEKTSV4RRFFQ69G5FAV'', gp_name = ''tests'',
       gp_phase = COMPLETION, gp_type = QUALITY, gp_accepted = [COMPUTED, OBSERVED],
       gp_attestation_required = False, gp_waivable = True, gp_safety_critical = False\<rparr>],
     pb_completion = CompletionPolicy COMPOSITE (Some AND_OP)
       [CompletionPolicy ALL_GATES_PASSED None [], CompletionPolicy MANUAL_ONLY None []]\<rparr>"

lemma parse_policy_bundle_roundtrip_witness:
  "parse_policy_bundle (render_bundle sample_bundle) = Inr sample_bundle
   \<and> bundle_wf sample_bundle \<and> fst ` set (render_bundle sample_bundle) = set bundle_keys"
proof -
  have "bundle_wf sample_bundle \<and> (\<forall>g \<in> set (pb_gates sample_bundle). gate_id_wf g)"
    by code_simp
  with parse_policy_bundle_roundtrip show ?thesis by metis
qed

end
