(* ===== verification/Authorization.thy ===== *)
theory Authorization
  imports Errors
begin

text \<open>
  \<open>domain/authorization.py\<close>: roles and permissions, six-level resource scopes, grants and denies,
  separation of duties and the narrow break-glass grant. The lemmas show that scopes are ordered by
  containment, that a deny wins over every grant, that a decision does not depend on the order of
  the grants, and what four-eyes approval rules out.
\<close>

section \<open>Roles, permissions and scopes\<close>

datatype role =
    VIEWER | BUILDER | COORDINATOR | OPERATOR | POLICY_ADMINISTRATOR | TENANT_ADMINISTRATOR

datatype permission =
    PROGRAM_CREATE | PROGRAM_READ | PROGRAM_READ_ALL | PROGRAM_UPDATE | PROGRAM_DELETE
  | WORK_ITEM_CREATE | WORK_ITEM_READ | WORK_ITEM_UPDATE_OWN | WORK_ITEM_UPDATE_ALL
  | WORK_ITEM_CLAIM | WORK_ITEM_SUBMIT
  | DECISION_CREATE | DECISION_OVERRIDE | DECISION_VIEW_HISTORY
  | POLICY_READ | POLICY_MANAGE
  | EVIDENCE_COLLECT | EVIDENCE_VERIFY | EVIDENCE_VIEW
  | PROPOSED_CHANGE_DECIDE | PROPOSED_CHANGE_VIEW
  | CONNECTION_VIEW | CONNECTION_CONFIGURE | CONNECTION_RECONNECT
  | WORKSPACE_SETTINGS | USER_INVITE | USER_ASSIGN_ROLE | AUDIT_VIEW | BREAK_GLASS_INVOKE

datatype scope_kind =
    TENANT_SCOPE | ORGANIZATION_SCOPE | WORKSPACE_SCOPE | PROGRAM_SCOPE | REPOSITORY_SCOPE
  | CONNECTION_SCOPE

fun scope_order :: "scope_kind \<Rightarrow> nat" where
  "scope_order TENANT_SCOPE = 0"
| "scope_order ORGANIZATION_SCOPE = 1"
| "scope_order WORKSPACE_SCOPE = 2"
| "scope_order PROGRAM_SCOPE = 3"
| "scope_order REPOSITORY_SCOPE = 4"
| "scope_order CONNECTION_SCOPE = 5"

datatype scope_segment = ScopeSegment (seg_kind: scope_kind) (seg_resource: string)

definition new_scope_segment :: "scope_segment \<Rightarrow> scope_segment result" where
  "new_scope_segment s =
     (if blank (seg_resource s) then Inl (ValueError ''scope resource_id is required'') else Inr s)"

type_synonym resource_scope = "scope_segment list"

definition new_resource_scope :: "scope_segment list \<Rightarrow> resource_scope result" where
  "new_resource_scope segments =
     (if segments = [] then Inl (ValueError ''resource scope must not be empty'')
      else let positions = map (scope_order \<circ> seg_kind) segments in
        if positions \<noteq> sorted_set positions
        then Inl (ValueError ''resource scope levels must be unique and ordered'')
        else Inr segments)"

definition scope_contains :: "resource_scope \<Rightarrow> resource_scope \<Rightarrow> bool" where
  "scope_contains s other \<longleftrightarrow> take (length s) other = s"

fun role_permissions :: "role \<Rightarrow> permission set" where
  "role_permissions VIEWER = {PROGRAM_READ, WORK_ITEM_READ, DECISION_VIEW_HISTORY, POLICY_READ,
     EVIDENCE_VERIFY, EVIDENCE_VIEW, PROPOSED_CHANGE_VIEW}"
| "role_permissions BUILDER = {PROGRAM_CREATE, PROGRAM_READ, WORK_ITEM_CREATE, WORK_ITEM_READ,
     WORK_ITEM_UPDATE_OWN, WORK_ITEM_CLAIM, WORK_ITEM_SUBMIT, DECISION_CREATE, DECISION_OVERRIDE,
     DECISION_VIEW_HISTORY, POLICY_READ, EVIDENCE_COLLECT, EVIDENCE_VERIFY, EVIDENCE_VIEW,
     PROPOSED_CHANGE_DECIDE, PROPOSED_CHANGE_VIEW}"
| "role_permissions COORDINATOR = {PROGRAM_CREATE, PROGRAM_READ, PROGRAM_READ_ALL, PROGRAM_UPDATE,
     WORK_ITEM_CREATE, WORK_ITEM_READ, WORK_ITEM_UPDATE_OWN, WORK_ITEM_UPDATE_ALL, WORK_ITEM_CLAIM,
     DECISION_VIEW_HISTORY, POLICY_READ, EVIDENCE_VERIFY, EVIDENCE_VIEW, PROPOSED_CHANGE_VIEW}"
| "role_permissions OPERATOR = {PROGRAM_READ, PROGRAM_READ_ALL, WORK_ITEM_READ,
     DECISION_VIEW_HISTORY, POLICY_READ, EVIDENCE_VIEW, PROPOSED_CHANGE_VIEW, CONNECTION_VIEW,
     CONNECTION_RECONNECT, AUDIT_VIEW}"
| "role_permissions POLICY_ADMINISTRATOR = {PROGRAM_READ, PROGRAM_READ_ALL, WORK_ITEM_READ,
     DECISION_VIEW_HISTORY, POLICY_READ, POLICY_MANAGE, EVIDENCE_VERIFY, EVIDENCE_VIEW,
     PROPOSED_CHANGE_VIEW}"
| "role_permissions TENANT_ADMINISTRATOR = UNIV"

definition permissions_for_role :: "role \<Rightarrow> permission set" where
  "permissions_for_role r = role_permissions r"

definition four_eyes :: "permission set" where
  "four_eyes = {PROGRAM_DELETE, CONNECTION_CONFIGURE, USER_ASSIGN_ROLE}"

section \<open>Records\<close>

record role_grant =
  rg_actor_id :: string
  rg_role :: role
  rg_scope :: resource_scope
  rg_grant_id :: string
  rg_revision :: int

definition new_role_grant :: "role_grant \<Rightarrow> role_grant result" where
  "new_role_grant g =
     (if blank (rg_actor_id g) \<or> blank (rg_grant_id g)
      then Inl (ValueError ''role grant actor_id and grant_id are required'')
      else if rg_revision g < 1 then Inl (ValueError ''role grant revision must be positive'')
      else Inr g)"

record deny_rule =
  dr_actor_id :: string
  dr_permission :: permission
  dr_scope :: resource_scope
  dr_reason :: string

definition new_deny_rule :: "deny_rule \<Rightarrow> deny_rule result" where
  "new_deny_rule d =
     (if blank (dr_actor_id d) \<or> blank (dr_reason d)
      then Inl (ValueError ''deny rule actor_id and reason are required'') else Inr d)"

record access_request =
  ar_actor_id :: string
  ar_permission :: permission
  ar_scope :: resource_scope

definition new_access_request :: "access_request \<Rightarrow> access_request result" where
  "new_access_request r =
     (if blank (ar_actor_id r) then Inl (ValueError ''access request actor_id is required'') else Inr r)"

record authorization_decision =
  ad_allowed :: bool
  ad_reason :: string
  matched_grant_ids :: "string list"

record approval_context =
  performer_id :: string
  approver_ids :: "string list"
  claimant_id :: "string option"
  connection_configurer_id :: "string option"

definition new_approval_context :: "approval_context \<Rightarrow> approval_context result" where
  "new_approval_context c =
     (if blank (performer_id c) then Inl (ValueError ''approval performer_id is required'')
      else Inr (c\<lparr>approver_ids := sorted_set (approver_ids c)\<rparr>))"

record separation_decision =
  sd_allowed :: bool
  sd_reason :: string

record emergency_grant =
  eg_actor_id :: string
  eg_permission :: permission
  eg_scope :: resource_scope
  eg_reason :: string
  strong_reauthenticated :: bool
  second_factor_verified :: bool
  eg_duration :: timedelta

definition new_emergency_grant :: "emergency_grant \<Rightarrow> emergency_grant result" where
  "new_emergency_grant g =
     (if length (strip (eg_reason g)) < 20
      then Inl (ValueError ''break-glass reason must contain at least twenty characters'')
      else if \<not> strong_reauthenticated g \<or> \<not> second_factor_verified g
      then Inl (ValueError ''break-glass requires strong reauthentication and a second factor'')
      else if eg_duration g \<le> 0 \<or> hours 2 < eg_duration g
      then Inl (ValueError ''break-glass duration must be positive and no longer than two hours'')
      else if eg_permission g \<in> {USER_ASSIGN_ROLE, POLICY_MANAGE, CONNECTION_CONFIGURE}
      then Inl (ValueError ''break-glass cannot grant role, policy, or connection configuration'')
      else Inr g)"

section \<open>Decisions\<close>

definition authorize :: "access_request \<Rightarrow> role_grant list \<Rightarrow> deny_rule list \<Rightarrow> authorization_decision" where
  "authorize r grants denies = (let
     matching_denies = filter (\<lambda>d. dr_actor_id d = ar_actor_id r \<and> dr_permission d = ar_permission r
       \<and> scope_contains (dr_scope d) (ar_scope r)) denies;
     matching = filter (\<lambda>g. rg_actor_id g = ar_actor_id r \<and> scope_contains (rg_scope g) (ar_scope r)
       \<and> ar_permission r \<in> role_permissions (rg_role g)) grants
   in if matching_denies \<noteq> []
      then \<lparr>ad_allowed = False, ad_reason = ''explicit_deny'', matched_grant_ids = []\<rparr>
      else if matching = []
      then \<lparr>ad_allowed = False, ad_reason = ''deny_by_default'', matched_grant_ids = []\<rparr>
      else \<lparr>ad_allowed = True, ad_reason = ''explicit_role_grant'',
        matched_grant_ids = sort (map rg_grant_id matching)\<rparr>)"

definition evaluate_separation_of_duties :: "permission \<Rightarrow> approval_context \<Rightarrow> separation_decision" where
  "evaluate_separation_of_duties p c = (let approvers = set (approver_ids c) in
     if p = DECISION_CREATE \<and> (case claimant_id c of None \<Rightarrow> False | Some a \<Rightarrow> approvers \<subseteq> {a})
     then \<lparr>sd_allowed = False, sd_reason = ''claimant_cannot_be_sole_approver''\<rparr>
     else if p = CONNECTION_RECONNECT
       \<and> (case connection_configurer_id c of None \<Rightarrow> False | Some a \<Rightarrow> approvers \<subseteq> {a})
     then \<lparr>sd_allowed = False, sd_reason = ''configurer_cannot_be_sole_operator''\<rparr>
     else if p \<in> four_eyes \<and> card (approvers - {performer_id c}) < 1
     then \<lparr>sd_allowed = False, sd_reason = ''four_eyes_required''\<rparr>
     else \<lparr>sd_allowed = True, sd_reason = ''separation_satisfied''\<rparr>)"

section \<open>Scopes are ordered by containment\<close>

lemma scope_contains_prefix: "scope_contains s t \<longleftrightarrow> prefix s t"
  by (auto simp: scope_contains_def prefix_def) (metis append_take_drop_id)

lemma scope_contains_refl [simp]: "scope_contains s s"
  by (simp add: scope_contains_prefix)

lemma scope_contains_trans: "scope_contains s t \<Longrightarrow> scope_contains t u \<Longrightarrow> scope_contains s u"
  by (simp add: scope_contains_prefix)

lemma scope_contains_antisym: "scope_contains s t \<Longrightarrow> scope_contains t s \<Longrightarrow> s = t"
  by (simp add: scope_contains_prefix prefix_order.antisym)

text \<open>Two scopes that contain a third are comparable: the scopes form a forest.\<close>

lemma scope_contains_linear:
  "scope_contains s u \<Longrightarrow> scope_contains t u \<Longrightarrow> scope_contains s t \<or> scope_contains t s"
  by (simp add: scope_contains_prefix prefix_same_cases)

lemma authorize_allowed:
  "ad_allowed (authorize r grants denies) \<longleftrightarrow>
     (\<forall>d \<in> set denies. \<not> (dr_actor_id d = ar_actor_id r \<and> dr_permission d = ar_permission r
        \<and> scope_contains (dr_scope d) (ar_scope r)))
     \<and> (\<exists>g \<in> set grants. rg_actor_id g = ar_actor_id r \<and> scope_contains (rg_scope g) (ar_scope r)
        \<and> ar_permission r \<in> role_permissions (rg_role g))"
  by (auto simp: authorize_def Let_def filter_empty_conv)

lemma matched_ids_allowed:
  "ad_allowed (authorize r grants denies) \<Longrightarrow> set (matched_grant_ids (authorize r grants denies))
     = rg_grant_id ` {g \<in> set grants. rg_actor_id g = ar_actor_id r
         \<and> scope_contains (rg_scope g) (ar_scope r) \<and> ar_permission r \<in> role_permissions (rg_role g)}"
  by (auto simp: authorize_def Let_def split: if_splits)

section \<open>Properties\<close>

text \<open>A grant that covers a request: of its actor, on a containing scope, with the permission.\<close>

definition grant_covers :: "access_request \<Rightarrow> role_grant \<Rightarrow> bool" where
  "grant_covers r g \<longleftrightarrow> rg_actor_id g = ar_actor_id r \<and> prefix (rg_scope g) (ar_scope r)
     \<and> ar_permission r \<in> role_permissions (rg_role g)"

lemma authorize_grants:
  "ad_allowed (authorize r grants denies) \<Longrightarrow> \<exists>g \<in> set grants. grant_covers r g"
  by (auto simp: authorize_allowed grant_covers_def scope_contains_prefix)

lemma matched_ids_cover:
  "ad_allowed (authorize r grants denies) \<Longrightarrow> set (matched_grant_ids (authorize r grants denies))
     = rg_grant_id ` {g \<in> set grants. grant_covers r g}"
  by (simp add: matched_ids_allowed grant_covers_def scope_contains_prefix)

lemma authorize_revoked:
  assumes "ad_allowed (authorize r grants denies)" and "set gs \<subseteq> set grants"
    and "\<forall>g \<in> set gs. rg_grant_id g \<notin> set (matched_grant_ids (authorize r grants denies))"
  shows "ad_reason (authorize r gs denies) = ''deny_by_default''"
proof -
  have "filter (\<lambda>g. rg_actor_id g = ar_actor_id r \<and> scope_contains (rg_scope g) (ar_scope r)
      \<and> ar_permission r \<in> role_permissions (rg_role g)) gs = []"
    using assms(2,3) unfolding matched_ids_allowed [OF assms(1)] by (auto simp: filter_empty_conv)
  moreover have "filter (\<lambda>d. dr_actor_id d = ar_actor_id r \<and> dr_permission d = ar_permission r
      \<and> scope_contains (dr_scope d) (ar_scope r)) denies = []"
    using assms(1) by (auto simp: authorize_allowed filter_empty_conv)
  ultimately show ?thesis by (simp add: authorize_def)
qed

text \<open>
  C16: an access is allowed only on a grant that covers it: a grant to that actor, on the scope or
  one above it, of a role that has the permission. The grants named as its reason are exactly those,
  so revoking them denies the access by default. What is allowed on a scope stays allowed on every
  resource below it, with more grants, and with fewer denies, unless a deny between the two scopes
  says otherwise; the grants named stay among those named. A deny at the scope or above refuses the
  access whatever the grants. (The inheritance is the code's: AUTH-09 of docs/security/authorization.md
  asks for levels that are checked independently, which a finding records.)
\<close>

theorem authorize_hierarchical:
  assumes "ad_allowed (authorize r grants denies)"
    and "set grants \<subseteq> set grants'" and "set denies' \<subseteq> set denies"
    and "scope_contains (ar_scope r) t"
    and "\<forall>d \<in> set denies'. dr_actor_id d = ar_actor_id r \<and> dr_permission d = ar_permission r
      \<and> scope_contains (dr_scope d) t \<longrightarrow> scope_contains (dr_scope d) (ar_scope r)"
  shows "ad_allowed (authorize (r\<lparr>ar_scope := t\<rparr>) grants' denies')
    \<and> (\<exists>g \<in> set grants. grant_covers r g)
    \<and> set (matched_grant_ids (authorize r grants denies)) = rg_grant_id ` {g \<in> set grants. grant_covers r g}
    \<and> (\<forall>gs. set gs \<subseteq> set grants
          \<and> (\<forall>g \<in> set gs. rg_grant_id g \<notin> set (matched_grant_ids (authorize r grants denies)))
        \<longrightarrow> ad_reason (authorize r gs denies) = ''deny_by_default'')
    \<and> set (matched_grant_ids (authorize r grants denies))
        \<subseteq> set (matched_grant_ids (authorize (r\<lparr>ar_scope := t\<rparr>) grants' denies'))
    \<and> (\<forall>d. dr_actor_id d = ar_actor_id r \<and> dr_permission d = ar_permission r
          \<and> scope_contains (dr_scope d) t
        \<longrightarrow> ad_reason (authorize (r\<lparr>ar_scope := t\<rparr>) grants' (d # denies')) = ''explicit_deny'')"
proof -
  have up: "scope_contains s t" if "scope_contains s (ar_scope r)" for s
    using that assms(4) by (rule scope_contains_trans)
  have allowed: "ad_allowed (authorize (r\<lparr>ar_scope := t\<rparr>) grants' denies')"
    using assms(1,2,3,5) up unfolding authorize_allowed by (simp; blast)
  moreover have "set (matched_grant_ids (authorize r grants denies))
      \<subseteq> set (matched_grant_ids (authorize (r\<lparr>ar_scope := t\<rparr>) grants' denies'))"
    unfolding matched_ids_allowed [OF assms(1)] matched_ids_allowed [OF allowed]
    using assms(2) up by auto
  moreover have "ad_reason (authorize (r\<lparr>ar_scope := t\<rparr>) grants' (d # denies')) = ''explicit_deny''"
    if "dr_actor_id d = ar_actor_id r" "dr_permission d = ar_permission r" "scope_contains (dr_scope d) t" for d
    using that by (simp add: authorize_def)
  ultimately show ?thesis
    using authorize_grants [OF assms(1)] matched_ids_cover [OF assms(1)] authorize_revoked [OF assms(1)]
    by blast
qed

text \<open>The example: a builder of a workspace claims an item of one of its programs.\<close>

definition sample_scope :: "string list \<Rightarrow> resource_scope" where
  "sample_scope ids = map (\<lambda>(k, i). ScopeSegment k i)
     (zip [TENANT_SCOPE, WORKSPACE_SCOPE, PROGRAM_SCOPE] ids)"

definition sample_grant :: role_grant where
  "sample_grant = \<lparr>rg_actor_id = ''ana'', rg_role = BUILDER, rg_scope = sample_scope [''t'', ''w''],
     rg_grant_id = ''g1'', rg_revision = 1\<rparr>"

lemma authorize_hierarchical_witness:
  "ad_allowed (authorize \<lparr>ar_actor_id = ''ana'', ar_permission = WORK_ITEM_CLAIM,
     ar_scope = sample_scope [''t'', ''w'', ''p'']\<rparr> [sample_grant] [])
   \<and> ad_reason (authorize \<lparr>ar_actor_id = ''ana'', ar_permission = WORK_ITEM_CLAIM,
     ar_scope = sample_scope [''t'', ''w'']\<rparr> [] []) = ''deny_by_default''"
proof -
  let ?r = "\<lparr>ar_actor_id = ''ana'', ar_permission = WORK_ITEM_CLAIM, ar_scope = sample_scope [''t'', ''w'']\<rparr>"
  have "ad_allowed (authorize ?r [sample_grant] [])"
    "scope_contains (ar_scope ?r) (sample_scope [''t'', ''w'', ''p''])"
    by code_simp+
  note hier = authorize_hierarchical [OF this(1) _ _ this(2), of "[sample_grant]" "[]"]
  have "ad_reason (authorize ?r [] []) = ''deny_by_default''"
    by (rule hier [THEN conjunct2, THEN conjunct2, THEN conjunct2, THEN conjunct1, rule_format]) simp_all
  with hier show ?thesis by simp
qed

text \<open>
  Separation of duties holds exactly when somebody else takes part. Deleting a program,
  configuring a connection or assigning a role needs an approver other than the performer; a
  decision needs one other than the claimant and a reconnection one other than the configurer;
  nothing else is restricted, and the outcome depends on the set of approvers alone.
\<close>

theorem separation_of_duties_exact:
  "sd_allowed (evaluate_separation_of_duties p c) \<longleftrightarrow>
     (p \<in> {PROGRAM_DELETE, CONNECTION_CONFIGURE, USER_ASSIGN_ROLE} \<longrightarrow>
        (\<exists>a \<in> set (approver_ids c). a \<noteq> performer_id c))
     \<and> (\<forall>k. p = DECISION_CREATE \<and> claimant_id c = Some k \<longrightarrow> (\<exists>a \<in> set (approver_ids c). a \<noteq> k))
     \<and> (\<forall>k. p = CONNECTION_RECONNECT \<and> connection_configurer_id c = Some k
          \<longrightarrow> (\<exists>a \<in> set (approver_ids c). a \<noteq> k))"
proof -
  have "card (set (approver_ids c) - {performer_id c}) < 1 \<longleftrightarrow> set (approver_ids c) \<subseteq> {performer_id c}"
    by simp
  then show ?thesis
    by (auto simp: evaluate_separation_of_duties_def four_eyes_def Let_def split: option.splits)
qed

definition sample_approval :: approval_context where
  "sample_approval = \<lparr>performer_id = ''ana'', approver_ids = [''ana'', ''bo''], claimant_id = Some ''ana'',
     connection_configurer_id = None\<rparr>"

lemma separation_of_duties_exact_witness:
  "sd_allowed (evaluate_separation_of_duties USER_ASSIGN_ROLE sample_approval)
   \<and> \<not> sd_allowed (evaluate_separation_of_duties USER_ASSIGN_ROLE (sample_approval\<lparr>approver_ids := [''ana'']\<rparr>))"
  unfolding separation_of_duties_exact by (simp add: sample_approval_def)

section \<open>An override needs no second pair of eyes\<close>

text \<open>Overriding a decision is not among the four-eyes operations: the performer alone suffices.\<close>

lemma decision_override_alone:
  "evaluate_separation_of_duties DECISION_OVERRIDE c = \<lparr>sd_allowed = True, sd_reason = ''separation_satisfied''\<rparr>"
  by (simp add: evaluate_separation_of_duties_def four_eyes_def Let_def)

end
