(* ===== verification/Coordination.thy ===== *)
theory Coordination
  imports Errors Py_Sha256
begin

text \<open>
  \<open>domain/coordination.py\<close>: the lease of one work item and the attention records. Every operation
  maps a lease to a new one or raises \<open>ClaimError\<close>; comparing a naive with an aware time raises
  \<open>TypeError\<close>. The reachable leases are those a sequence of operations can produce from nothing; the
  lemmas show their invariant and that an exclusive lease cannot be taken before it expires.
\<close>

section \<open>Data\<close>

datatype lease_mode = EXCLUSIVE | COLLABORATIVE

datatype lease_state = LEASE_ACTIVE | LEASE_SUSPENDED | LEASE_RELEASED | LEASE_EXPIRED

datatype attention_state = ATTENTION_OPEN | ATTENTION_RESOLVED

record claim_request =
  cr_lease_id :: string
  cr_item_id :: string
  cr_actor :: string
  cr_mode :: lease_mode
  cr_decision_id :: string
  expected_version :: int
  ttl :: timedelta

record work_lease =
  lease_id :: string
  wl_item_id :: string
  lease_owner :: string
  collaborators :: "string list"
  lease_mode :: lease_mode
  lease_state :: lease_state
  wl_decision_id :: string
  lease_version :: int
  expires_at :: datetime
  heartbeat_at :: datetime
  handoff_to :: "string option"

record coordination_event =
  event_type :: string
  event_actor :: string
  event_item_id :: string
  event_reason :: string
  occurred_at :: datetime

record attention_item =
  attention_id :: string
  attention_item_id :: "string option"
  attention_category :: string
  attention_severity :: string
  attention_basis :: string
  attention_state :: attention_state
  opened_at :: datetime
  resolved_at :: "datetime option"
  resolution :: "string option"

definition claim_aware :: "datetime \<Rightarrow> string \<Rightarrow> unit result" where
  "claim_aware d f = (if \<not> aware d then Inl (ClaimError (f @ '' must be timezone-aware'')) else Inr ())"

text \<open>\<open>a >= b\<close> on times nothing has validated\<close>

definition reached :: "datetime \<Rightarrow> datetime \<Rightarrow> bool result" where
  "reached a b = (if \<not> comparable a b
     then Inl (TypeError ''can't compare offset-naive and offset-aware datetimes'')
     else Inr (dt_le b a))"

section \<open>Leases\<close>

definition participants :: "work_lease \<Rightarrow> string set" where
  "participants l = insert (lease_owner l) (set (collaborators l))"

text \<open>The lease that still stands at a claim: active and not expired.\<close>

definition standing_lease :: "work_lease option \<Rightarrow> datetime \<Rightarrow> work_lease option result" where
  "standing_lease existing now = (case existing of
     None \<Rightarrow> Inr None
   | Some l \<Rightarrow> if lease_state l \<noteq> LEASE_ACTIVE then Inr None
       else bind_result (reached now (expires_at l)) (\<lambda>expired.
         Inr (if expired then None else Some l)))"

definition claim_item ::
    "work_lease option \<Rightarrow> claim_request \<Rightarrow> string \<Rightarrow> datetime \<Rightarrow> work_lease result" where
  "claim_item existing r current_decision_id now =
     bind_result (claim_aware now ''now'') (\<lambda>_.
     if cr_decision_id r \<noteq> current_decision_id
     then Inl (ClaimError ''stale DecisionRecord cannot support a lease'')
     else if ttl r \<le> 0 then Inl (ClaimError ''claim TTL must be positive'')
     else bind_result (standing_lease existing now) (\<lambda>active_lease. case active_lease of
       Some l \<Rightarrow>
         if lease_mode l = EXCLUSIVE \<or> cr_mode r = EXCLUSIVE
         then Inl (ClaimError ''item is already claimed by an active exclusive lease'')
         else if lease_version l \<noteq> expected_version r
         then Inl (ClaimError ''lease compare-and-swap version changed'')
         else let members = sorted_set (lease_owner l # collaborators l @ [cr_actor r]) in
           Inr (l\<lparr>collaborators := filter (\<lambda>m. m \<noteq> lease_owner l) members,
             lease_version := lease_version l + 1,
             expires_at := dt_add now (ttl r), heartbeat_at := now\<rparr>)
     | None \<Rightarrow>
         if expected_version r \<noteq> 0
         then Inl (ClaimError ''new lease requires expected version zero'')
         else Inr \<lparr>lease_id = cr_lease_id r, wl_item_id = cr_item_id r, lease_owner = cr_actor r,
           collaborators = [], lease_mode = cr_mode r, lease_state = LEASE_ACTIVE,
           wl_decision_id = cr_decision_id r, lease_version = 1,
           expires_at = dt_add now (ttl r), heartbeat_at = now, handoff_to = None\<rparr>))"

definition heartbeat_lease :: "work_lease \<Rightarrow> string \<Rightarrow> datetime \<Rightarrow> work_lease result" where
  "heartbeat_lease l actor now =
     bind_result (claim_aware now ''now'') (\<lambda>_.
     if actor \<notin> participants l then Inl (ClaimError ''only lease participants may heartbeat'')
     else if lease_state l \<noteq> LEASE_ACTIVE
     then Inl (ClaimError ''inactive or expired lease cannot heartbeat'')
     else bind_result (reached now (expires_at l)) (\<lambda>expired.
       if expired then Inl (ClaimError ''inactive or expired lease cannot heartbeat'')
       else if \<not> comparable (expires_at l) (heartbeat_at l)
       then Inl (TypeError ''can't subtract offset-naive and offset-aware datetimes'')
       else let extension = dt_diff (expires_at l) (heartbeat_at l) in
         Inr (l\<lparr>lease_version := lease_version l + 1, heartbeat_at := now,
           expires_at := dt_add now extension\<rparr>)))"

definition request_handoff :: "work_lease \<Rightarrow> string \<Rightarrow> string \<Rightarrow> work_lease result" where
  "request_handoff l actor handoff_target =
     (if blank actor \<or> blank handoff_target \<or> handoff_target = lease_owner l
      then Inl (ClaimError ''handoff requires distinct actor and target identities'')
      else if lease_state l \<noteq> LEASE_ACTIVE
      then Inl (ClaimError ''only active leases accept handoff requests'')
      else Inr (l\<lparr>handoff_to := Some handoff_target, lease_version := lease_version l + 1\<rparr>))"

definition force_override ::
    "work_lease \<Rightarrow> string \<Rightarrow> string \<Rightarrow> string \<Rightarrow> datetime \<Rightarrow> (work_lease \<times> coordination_event) result" where
  "force_override l actor new_owner reason now =
     bind_result (claim_aware now ''now'') (\<lambda>_.
     if length (strip reason) < 20
     then Inl (ClaimError ''forced override reason must contain at least 20 characters'')
     else Inr
       (l\<lparr>lease_owner := new_owner, collaborators := [], lease_version := lease_version l + 1,
          heartbeat_at := now, handoff_to := None\<rparr>,
        \<lparr>event_type = ''lease_forced_override'', event_actor = actor, event_item_id = wl_item_id l,
         event_reason = strip reason, occurred_at = now\<rparr>))"

definition release_lease :: "work_lease \<Rightarrow> string \<Rightarrow> datetime \<Rightarrow> work_lease result" where
  "release_lease l actor now =
     bind_result (claim_aware now ''now'') (\<lambda>_.
     if actor \<notin> participants l then Inl (ClaimError ''only lease participants may release'')
     else Inr (l\<lparr>lease_state := LEASE_RELEASED, lease_version := lease_version l + 1,
       heartbeat_at := now\<rparr>))"

section \<open>Attention\<close>

definition open_attention ::
    "string option \<Rightarrow> string \<Rightarrow> string \<Rightarrow> string \<Rightarrow> datetime \<Rightarrow> attention_item result" where
  "open_attention item_id category severity basis opened =
     bind_result (claim_aware opened ''opened_at'') (\<lambda>_. let
       subj = (case item_id of None \<Rightarrow> ''workspace'' | Some i \<Rightarrow> if i = [] then ''workspace'' else i);
       identity = subj @ ''|'' @ category @ ''|'' @ basis
     in Inr \<lparr>attention_id = take 32 (sha256_hex identity), attention_item_id = item_id,
       attention_category = category, attention_severity = severity, attention_basis = basis,
       attention_state = ATTENTION_OPEN, opened_at = opened, resolved_at = None, resolution = None\<rparr>)"

definition resolve_attention ::
    "attention_item \<Rightarrow> string \<Rightarrow> string \<Rightarrow> datetime \<Rightarrow> attention_item result" where
  "resolve_attention i actor text now =
     bind_result (claim_aware now ''now'') (\<lambda>_.
     if attention_state i \<noteq> ATTENTION_OPEN \<or> blank text
     then Inl (ClaimError ''only open attention with a resolution may be closed'')
     else Inr (i\<lparr>attention_state := ATTENTION_RESOLVED, resolved_at := Some now,
       resolution := Some (strip text)\<rparr>))"

section \<open>The invariant of a lease\<close>

definition lease_wf :: "work_lease \<Rightarrow> bool" where
  "lease_wf l \<longleftrightarrow> 1 \<le> lease_version l \<and> aware (expires_at l) \<and> aware (heartbeat_at l)
     \<and> sorted (collaborators l) \<and> distinct (collaborators l) \<and> lease_owner l \<notin> set (collaborators l)
     \<and> (lease_mode l = EXCLUSIVE \<longrightarrow> collaborators l = [])"

definition opt_wf :: "work_lease option \<Rightarrow> bool" where
  "opt_wf existing \<longleftrightarrow> (\<forall>l. existing = Some l \<longrightarrow> lease_wf l)"

lemma claim_aware_Inr [result_simps]: "claim_aware d f = Inr u \<longleftrightarrow> aware d"
  by (simp add: claim_aware_def)

lemma reached_aware: "aware a \<Longrightarrow> aware b \<Longrightarrow> reached a b = Inr (dt_le b a)"
  by (simp add: reached_def comparable_def)

lemma standing_lease_wf:
  assumes "opt_wf existing" and "aware now"
  shows "standing_lease existing now = Inr (case existing of None \<Rightarrow> None
    | Some l \<Rightarrow> if lease_state l = LEASE_ACTIVE \<and> dt_less now (expires_at l) then Some l else None)"
  using assms by (auto simp: standing_lease_def opt_wf_def lease_wf_def reached_aware dt_le_def dt_less_def split: option.split)

lemma claim_item_wf:
  assumes "claim_item existing r cur now = Inr l" and "opt_wf existing"
  shows "lease_wf l"
proof -
  have now: "aware now" using assms(1) by (auto simp: claim_item_def result_simps)
  show ?thesis
    using assms(1) standing_lease_wf [OF assms(2) now] assms(2) now
    by (auto simp: claim_item_def result_simps lease_wf_def opt_wf_def sorted_wrt_filter Let_def
        split: if_splits option.splits)
qed

lemma heartbeat_lease_wf: "heartbeat_lease l a now = Inr l' \<Longrightarrow> lease_wf l \<Longrightarrow> lease_wf l'"
  by (auto simp: heartbeat_lease_def result_simps lease_wf_def reached_aware Let_def split: if_splits)

lemma request_handoff_wf: "request_handoff l a t = Inr l' \<Longrightarrow> lease_wf l \<Longrightarrow> lease_wf l'"
  by (auto simp: request_handoff_def lease_wf_def split: if_splits)

lemma force_override_wf: "force_override l a o2 reason now = Inr (l', ev) \<Longrightarrow> lease_wf l \<Longrightarrow> lease_wf l'"
  by (auto simp: force_override_def result_simps lease_wf_def split: if_splits)

lemma release_lease_wf: "release_lease l a now = Inr l' \<Longrightarrow> lease_wf l \<Longrightarrow> lease_wf l'"
  by (auto simp: release_lease_def result_simps lease_wf_def split: if_splits)

section \<open>Runs\<close>

text \<open>One operation on the lease of an item; the coordinator stores the result when it returns one.\<close>

inductive lease_step :: "work_lease option \<Rightarrow> work_lease \<Rightarrow> bool" where
  step_claim: "claim_item existing r cur now = Inr l \<Longrightarrow> lease_step existing l"
| step_heartbeat: "heartbeat_lease l a now = Inr l' \<Longrightarrow> lease_step (Some l) l'"
| step_handoff: "request_handoff l a t = Inr l' \<Longrightarrow> lease_step (Some l) l'"
| step_override: "force_override l a new_owner reason now = Inr (l', ev) \<Longrightarrow> lease_step (Some l) l'"
| step_release: "release_lease l a now = Inr l' \<Longrightarrow> lease_step (Some l) l'"

inductive lease_reachable :: "work_lease option \<Rightarrow> bool" where
  no_lease: "lease_reachable None"
| next_lease: "lease_reachable existing \<Longrightarrow> lease_step existing l \<Longrightarrow> lease_reachable (Some l)"

inductive_cases lease_stepE: "lease_step existing l"

lemma lease_step_wf: "lease_step existing l \<Longrightarrow> opt_wf existing \<Longrightarrow> lease_wf l"
  by (erule lease_stepE)
    (auto simp: opt_wf_def intro: claim_item_wf heartbeat_lease_wf request_handoff_wf
      force_override_wf release_lease_wf)

lemma lease_reachable_wf: "lease_reachable existing \<Longrightarrow> opt_wf existing"
  by (induction rule: lease_reachable.induct) (auto simp: opt_wf_def intro: lease_step_wf)

fun is_claim_error :: "exn \<Rightarrow> bool" where
  "is_claim_error (ClaimError m) = True"
| "is_claim_error _ = False"

definition claim_error_only :: "'a result \<Rightarrow> bool" where
  "claim_error_only r \<longleftrightarrow> (case r of Inl e \<Rightarrow> is_claim_error e | Inr a \<Rightarrow> True)"

lemma claim_error_only_bind:
  "claim_error_only r \<Longrightarrow> (\<And>a. r = Inr a \<Longrightarrow> claim_error_only (f a)) \<Longrightarrow> claim_error_only (bind_result r f)"
  by (cases r) (auto simp: claim_error_only_def)

lemma claim_error_only_simps [simp]:
  "claim_error_only (Inr a)" "claim_error_only (Inl (ClaimError m))" "claim_error_only (claim_aware d f)"
  by (simp_all add: claim_error_only_def claim_aware_def)

section \<open>Properties of leases\<close>

lemma claim_item_version:
  assumes "claim_item existing r cur now = Inr l'" and "opt_wf existing"
  shows "lease_version l' = (case existing of None \<Rightarrow> 1
    | Some l \<Rightarrow> if lease_state l = LEASE_ACTIVE \<and> dt_less now (expires_at l) then lease_version l + 1 else 1)
    \<and> lease_version l' = expected_version r + 1"
proof -
  have now: "aware now" using assms(1) by (auto simp: claim_item_def result_simps)
  show ?thesis
    using assms(1) standing_lease_wf [OF assms(2) now]
    by (auto simp: claim_item_def result_simps Let_def dt_le_def dt_less_def
        split: if_splits option.splits)
qed

lemma holder_version:
  "heartbeat_lease l a now = Inr l' \<Longrightarrow> lease_version l' = lease_version l + 1"
  "request_handoff l a t = Inr l' \<Longrightarrow> lease_version l' = lease_version l + 1"
  "force_override l a b reason now = Inr (l', ev) \<Longrightarrow> lease_version l' = lease_version l + 1"
  "release_lease l a now = Inr l' \<Longrightarrow> lease_version l' = lease_version l + 1"
  by (auto simp: heartbeat_lease_def request_handoff_def force_override_def release_lease_def
      result_simps Let_def split: if_splits)

text \<open>
  C17: every lease a sequence of claims, heartbeats, handoffs, overrides and releases can produce is
  well formed: it has a positive version and aware times, its owner is not a collaborator, the
  collaborators are sorted without duplicates, and an exclusive lease has none. So on a reachable
  lease every one of the five operations raises \<open>ClaimError\<close> and nothing else. A heartbeat, a
  handoff, an override and a release increment the version by one; a claim does so when it joins a
  lease that still stands (active and not expired) and starts at 1 exactly when there is none; either
  way the version is the one the claimant expected plus one.
\<close>

theorem lease_reachable_invariant:
  assumes "lease_reachable existing"
  shows "opt_wf existing
    \<and> claim_error_only (claim_item existing r cur now)
    \<and> (\<forall>l'. claim_item existing r cur now = Inr l' \<longrightarrow>
        lease_version l' = (case existing of None \<Rightarrow> 1
          | Some l \<Rightarrow> if lease_state l = LEASE_ACTIVE \<and> dt_less now (expires_at l)
              then lease_version l + 1 else 1)
        \<and> lease_version l' = expected_version r + 1)
    \<and> (\<forall>l. existing = Some l \<longrightarrow> claim_error_only (heartbeat_lease l a now)
        \<and> claim_error_only (request_handoff l a t)
        \<and> claim_error_only (force_override l a b reason now)
        \<and> claim_error_only (release_lease l a now)
        \<and> (\<forall>l'. (heartbeat_lease l a now = Inr l' \<or> request_handoff l a t = Inr l'
              \<or> (\<exists>ev. force_override l a b reason now = Inr (l', ev)) \<or> release_lease l a now = Inr l')
            \<longrightarrow> lease_version l' = lease_version l + 1))"
proof -
  have wf: "opt_wf existing" using assms by (rule lease_reachable_wf)
  have "claim_error_only (claim_item existing r cur now)"
    unfolding claim_item_def using standing_lease_wf [OF wf]
    by (auto intro!: claim_error_only_bind simp: result_simps Let_def split: option.splits)
  moreover have "claim_error_only (heartbeat_lease l a now)" "claim_error_only (request_handoff l a t)"
    "claim_error_only (force_override l a b reason now)" "claim_error_only (release_lease l a now)"
    if "existing = Some l" for l
    using wf that
    unfolding heartbeat_lease_def request_handoff_def release_lease_def force_override_def
    by (auto intro!: claim_error_only_bind
        simp: opt_wf_def lease_wf_def result_simps reached_aware comparable_def Let_def)
  ultimately show ?thesis
    using wf by (intro conjI allI impI) (auto dest: holder_version claim_item_version [OF _ wf])
qed

definition sample_request :: "string \<Rightarrow> lease_mode \<Rightarrow> int \<Rightarrow> claim_request" where
  "sample_request who m v = \<lparr>cr_lease_id = who, cr_item_id = ''W'', cr_actor = who, cr_mode = m,
     cr_decision_id = ''d'', expected_version = v, ttl = 100\<rparr>"

definition sample_lease :: work_lease where
  "sample_lease = \<lparr>lease_id = ''ana'', wl_item_id = ''W'', lease_owner = ''ana'',
     collaborators = [''bo''], lease_mode = COLLABORATIVE, lease_state = LEASE_ACTIVE,
     wl_decision_id = ''d'', lease_version = 2, expires_at = Datetime 150 (Some 0),
     heartbeat_at = Datetime 50 (Some 0), handoff_to = None\<rparr>"

lemma sample_lease_reachable: "lease_reachable (Some sample_lease)"
proof -
  have "\<exists>l. claim_item None (sample_request ''ana'' COLLABORATIVE 0) ''d'' (Datetime 0 (Some 0)) = Inr l
    \<and> claim_item (Some l) (sample_request ''bo'' COLLABORATIVE 1) ''d'' (Datetime 50 (Some 0)) = Inr sample_lease"
    by (rule exI [of _ "sample_lease\<lparr>collaborators := [], lease_version := 1,
        expires_at := Datetime 100 (Some 0), heartbeat_at := Datetime 0 (Some 0)\<rparr>"]) code_simp
  then show ?thesis by (blast intro: lease_reachable.intros lease_step.intros)
qed

lemma lease_reachable_invariant_witness:
  "lease_wf sample_lease \<and> claim_error_only (request_handoff sample_lease ''ana'' ''cy'')
    \<and> (case heartbeat_lease sample_lease ''bo'' (Datetime 60 (Some 0)) of Inl e \<Rightarrow> False
       | Inr l \<Rightarrow> lease_version l = 3)"
proof -
  have h: "heartbeat_lease sample_lease ''bo'' (Datetime 60 (Some 0))
      = Inr (sample_lease\<lparr>lease_version := 3, heartbeat_at := Datetime 60 (Some 0),
          expires_at := Datetime 160 (Some 0)\<rparr>)" by code_simp
  note inv = lease_reachable_invariant [OF sample_lease_reachable]
  note holder = inv [THEN conjunct2, THEN conjunct2, THEN conjunct2, rule_format, OF refl]
  have "opt_wf (Some sample_lease)" by (rule inv [THEN conjunct1])
  moreover have "claim_error_only (request_handoff sample_lease ''ana'' ''cy'')"
    by (rule holder [THEN conjunct2, THEN conjunct1])
  ultimately show ?thesis unfolding h by (simp add: opt_wf_def)
qed

text \<open>A claim somebody attempts: the item keeps its lease when the claim raises.\<close>

fun attempt_claim :: "work_lease option \<Rightarrow> claim_request \<times> string \<times> datetime \<Rightarrow> work_lease option" where
  "attempt_claim existing (r, cur, now) = (case claim_item existing r cur now of
     Inl e \<Rightarrow> existing | Inr l \<Rightarrow> Some l)"

lemma exclusive_claim:
  assumes "claim_item existing r cur now = Inr l" and "opt_wf existing" and "cr_mode r = EXCLUSIVE"
  shows "aware now \<and> lease_state l = LEASE_ACTIVE \<and> lease_mode l = EXCLUSIVE \<and> participants l = {cr_actor r}
    \<and> wl_decision_id l = cur \<and> expires_at l = dt_add now (ttl r) \<and> dt_less now (expires_at l)"
proof -
  have now: "aware now" using assms(1) by (auto simp: claim_item_def result_simps)
  show ?thesis
    using assms(1,3) standing_lease_wf [OF assms(2) now] now
    by (auto simp: claim_item_def result_simps participants_def dt_less_def Let_def
        split: if_splits option.splits)
qed

lemma claim_exclusive_blocked:
  assumes "lease_wf l" and "lease_state l = LEASE_ACTIVE" and "lease_mode l = EXCLUSIVE"
    and "dt_less t (expires_at l)"
  shows "attempt_claim (Some l) (r, cur, t) = Some l"
proof -
  have "opt_wf (Some l)" using assms(1) by (simp add: opt_wf_def)
  from standing_lease_wf [OF this, of t] assms
  have "claim_item (Some l) r cur t \<noteq> Inr l'" for l'
    by (auto simp: claim_item_def result_simps)
  then show ?thesis by (simp split: sum.split)
qed

text \<open>
  C18: a successful exclusive claim gives its actor the item alone until the lease expires: whatever
  claims the others attempt before then, in any order and mode, the lease stays as it is. When it
  has expired, the next valid claim takes the item.
\<close>

theorem exclusive_lease_holds:
  assumes "lease_reachable existing" and "claim_item existing r cur now = Inr l"
    and "cr_mode r = EXCLUSIVE" and "\<forall>(r', cur', t) \<in> set attempts. dt_less t (dt_add now (ttl r))"
  shows "foldl attempt_claim (Some l) attempts = Some l \<and> participants l = {cr_actor r}
    \<and> (\<forall>r' cur' t. aware t \<and> dt_le (expires_at l) t \<and> cr_decision_id r' = cur' \<and> 0 < ttl r'
          \<and> expected_version r' = 0
        \<longrightarrow> (\<exists>l'. attempt_claim (Some l) (r', cur', t) = Some l' \<and> participants l' = {cr_actor r'}))"
proof -
  have wf: "opt_wf existing" using assms(1) by (rule lease_reachable_wf)
  have lwf: "lease_wf l" using assms(2) wf by (rule claim_item_wf)
  note ex = exclusive_claim [OF assms(2) wf assms(3)]
  have "foldl attempt_claim (Some l) attempts = Some l"
    using assms(4)
  proof (induction attempts)
    case (Cons a attempts)
    obtain r' cur' t where a: "a = (r', cur', t)" by (cases a)
    with Cons.prems ex have "dt_less t (expires_at l)" by simp
    then have "attempt_claim (Some l) a = Some l"
      unfolding a using claim_exclusive_blocked [OF lwf] ex by blast
    with Cons show ?case by simp
  qed simp
  moreover have "\<exists>l'. attempt_claim (Some l) (r', cur', t) = Some l' \<and> participants l' = {cr_actor r'}"
    if "aware t" "dt_le (expires_at l) t" "cr_decision_id r' = cur'" "0 < ttl r'" "expected_version r' = 0"
    for r' cur' t
  proof -
    have "opt_wf (Some l)" using lwf by (simp add: opt_wf_def)
    from standing_lease_wf [OF this that(1)] that show ?thesis
      by (simp add: claim_item_def claim_aware_def participants_def dt_le_def dt_less_def)
  qed
  ultimately show ?thesis using ex by blast
qed

lemma exclusive_lease_holds_witness:
  "foldl attempt_claim None [(sample_request ''ana'' EXCLUSIVE 0, ''d'', Datetime 0 (Some 0)),
     (sample_request ''bo'' EXCLUSIVE 0, ''d'', Datetime 99 (Some 0)),
     (sample_request ''cy'' COLLABORATIVE 1, ''d'', Datetime 10 (Some 0))]
   = foldl attempt_claim None [(sample_request ''ana'' EXCLUSIVE 0, ''d'', Datetime 0 (Some 0))]"
proof -
  let ?r = "sample_request ''ana'' EXCLUSIVE 0"
  let ?l = "sample_lease\<lparr>collaborators := [], lease_version := 1, lease_mode := EXCLUSIVE,
    expires_at := Datetime 100 (Some 0), heartbeat_at := Datetime 0 (Some 0)\<rparr>"
  have l: "claim_item None ?r ''d'' (Datetime 0 (Some 0)) = Inr ?l" by code_simp
  let ?as = "[(sample_request ''bo'' EXCLUSIVE 0, ''d'', Datetime 99 (Some 0)),
     (sample_request ''cy'' COLLABORATIVE 1, ''d'', Datetime 10 (Some 0))]"
  have m: "cr_mode ?r = EXCLUSIVE" by (simp add: sample_request_def)
  have before: "\<forall>(r', cur', t) \<in> set ?as. dt_less t (dt_add (Datetime 0 (Some 0)) (ttl ?r))"
    by (simp add: sample_request_def dt_less_def)
  have "foldl attempt_claim (Some ?l) ?as = Some ?l"
    using exclusive_lease_holds [OF no_lease l m before] by (rule conjunct1)
  with l show ?thesis by (simp del: foldl_Cons add: foldl_Cons [of _ _ "(sample_request ''ana'' EXCLUSIVE 0, _)"])
qed

section \<open>What the operations do not guarantee\<close>

text \<open>
  A forced reassignment keeps the expiry of the old lease but moves its heartbeat, so the next
  renewal extends the lease by what was left of it at the override, not by its time to live; after
  the expiry the new owner cannot renew at all.
\<close>

lemma override_shortens_renewal:
  assumes "force_override l a new_owner reason t = Inr (l', ev)" and "heartbeat_lease l' new_owner t' = Inr l''"
  shows "dt_diff (expires_at l'') t' = dt_diff (expires_at l) t \<and> dt_less t' (expires_at l)"
  using assms by (auto simp: force_override_def heartbeat_lease_def result_simps reached_def dt_diff_def
      Let_def split: if_splits)

text \<open>The identity of an attention record does not separate its parts: two bases share one identity.\<close>

lemma attention_identity_ambiguous:
  "map_result (\<lambda>(i, c, b). map_sum id attention_id (open_attention i c ''high'' b (Datetime 0 (Some 0))))
     [(None, ''c'', ''b''), (Some ''workspace'', ''c'', ''b'')]
   = bind_result (open_attention None ''c'' ''high'' ''b'' (Datetime 0 (Some 0)))
       (\<lambda>x. Inr [attention_id x, attention_id x])"
  by (simp add: open_attention_def claim_aware_def aware_def)

end
