(* ===== verification/Emergency.thy ===== *)
theory Emergency
  imports Errors Py_Json Py_Sha256
begin

text \<open>
  \<open>domain/emergency.py\<close>: break-glass requests and the anonymization of a subject. The lemmas show
  what a grant required and that a caller who records every grant stays within two in 24 hours.
\<close>

section \<open>Break glass\<close>

record break_glass_request =
  bg_actor :: string
  bg_permission :: string
  bg_reason :: string
  reauthenticated :: bool
  mfa_verified :: bool
  confirmed :: bool
  requested_at :: datetime
  prior_invocations :: "datetime list"

record break_glass_grant =
  grant_id :: string
  grant_actor :: string
  grant_permissions :: "string list"
  grant_reason :: string
  issued_at :: datetime
  grant_expires_at :: datetime
  review_due_at :: datetime

definition forbidden_permissions :: "string set" where
  "forbidden_permissions =
     {''role.assign'', ''policy.configure'', ''connection.delete'', ''connection.configure''}"

definition emergency_aware :: "datetime \<Rightarrow> string \<Rightarrow> unit result" where
  "emergency_aware d f =
     (if \<not> aware d then Inl (BreakGlassError (f @ '' must be timezone-aware'')) else Inr ())"

text \<open>The invocations from the cutoff on; comparing a naive time with the cutoff raises.\<close>

definition recent_invocations :: "datetime \<Rightarrow> datetime list \<Rightarrow> datetime list result" where
  "recent_invocations cutoff prior =
     (if \<exists>v \<in> set prior. \<not> comparable v cutoff
      then Inl (TypeError ''can't compare offset-naive and offset-aware datetimes'')
      else Inr (filter (\<lambda>v. dt_le cutoff v) prior))"

definition authorize_break_glass :: "break_glass_request \<Rightarrow> break_glass_grant result" where
  "authorize_break_glass r =
     bind_result (emergency_aware (requested_at r) ''requested_at'') (\<lambda>_.
     if \<not> reauthenticated r \<or> \<not> mfa_verified r
     then Inl (BreakGlassError ''strong reauthentication and MFA are required'')
     else if length (strip (bg_reason r)) < 20
     then Inl (BreakGlassError ''break-glass reason must contain at least 20 characters'')
     else if \<not> confirmed r
     then Inl (BreakGlassError ''explicit emergency confirmation is required'')
     else if bg_permission r \<in> forbidden_permissions
     then Inl (BreakGlassError ''requested operation is forbidden during break-glass'')
     else bind_result (recent_invocations (dt_add (requested_at r) (- hours 24)) (prior_invocations r)) (\<lambda>recent.
       if 2 \<le> length recent
       then Inl (BreakGlassError ''break-glass is limited to two invocations per 24 hours'')
       else let identity = bg_actor r @ ''|'' @ bg_permission r @ ''|'' @ isoformat (requested_at r) in
         Inr \<lparr>grant_id = take 32 (sha256_hex identity), grant_actor = bg_actor r,
           grant_permissions = [''read:workspace'', bg_permission r], grant_reason = strip (bg_reason r),
           issued_at = requested_at r, grant_expires_at = dt_add (requested_at r) (hours 2),
           review_due_at = dt_add (requested_at r) (hours 48)\<rparr>))"

section \<open>Retention\<close>

record retention_subject =
  subject_id :: string
  email :: string
  rs_display_name :: string
  metadata :: "(string \<times> string) list"

record retention_proof =
  proof_id :: string
  subject_fingerprint :: string
  policy_id :: string
  authorized_by :: string
  anonymized_at :: datetime
  removed_fields :: "string list"
  retained_metadata_keys :: "string list"

definition proof_canonical_json :: "retention_proof \<Rightarrow> string" where
  "proof_canonical_json p = json_dumps True (JObj
     [(''anonymized_at'', JStr (isoformat (anonymized_at p))),
      (''authorized_by'', JStr (authorized_by p)),
      (''policy_id'', JStr (policy_id p)),
      (''proof_id'', JStr (proof_id p)),
      (''removed_fields'', JList (map JStr (removed_fields p))),
      (''retained_metadata_keys'', JList (map JStr (retained_metadata_keys p))),
      (''subject_fingerprint'', JStr (subject_fingerprint p))])"

definition anonymize_subject ::
    "retention_subject \<Rightarrow> string \<Rightarrow> string \<Rightarrow> datetime \<Rightarrow> retention_proof result" where
  "anonymize_subject s policy authorizer at =
     bind_result (emergency_aware at ''anonymized_at'') (\<lambda>_. let
       fingerprint = sha256_hex (subject_id s @ ''|'' @ email s @ ''|'' @ rs_display_name s);
       payload = fingerprint @ ''|'' @ policy @ ''|'' @ authorizer @ ''|'' @ isoformat at
     in Inr \<lparr>proof_id = take 32 (sha256_hex payload), subject_fingerprint = fingerprint,
       policy_id = policy, authorized_by = authorizer, anonymized_at = at,
       removed_fields = [''display_name'', ''email'', ''subject_id''],
       retained_metadata_keys = sort (map fst (metadata s))\<rparr>)"

text \<open>The proof does not depend on the values of the metadata.\<close>

lemma anonymize_metadata_values:
  assumes "map fst m = map fst (metadata s)"
  shows "anonymize_subject (s\<lparr>metadata := m\<rparr>) policy authorizer at = anonymize_subject s policy authorizer at"
  using assms by (simp add: anonymize_subject_def Let_def)

section \<open>The rate limit\<close>

lemma emergency_aware_Inr [result_simps]: "emergency_aware d f = Inr u \<longleftrightarrow> aware d"
  by (simp add: emergency_aware_def)

lemma authorize_break_glass_Inr:
  assumes "authorize_break_glass r = Inr g"
  shows "aware (requested_at r) \<and> reauthenticated r \<and> mfa_verified r \<and> confirmed r
    \<and> 20 \<le> length (strip (bg_reason r)) \<and> bg_permission r \<notin> forbidden_permissions
    \<and> length (filter (\<lambda>v. dt_le (dt_add (requested_at r) (- hours 24)) v) (prior_invocations r)) < 2
    \<and> grant_actor g = bg_actor r \<and> grant_permissions g = [''read:workspace'', bg_permission r]
    \<and> issued_at g = requested_at r \<and> dt_diff (grant_expires_at g) (issued_at g) = hours 2
    \<and> dt_diff (review_due_at g) (issued_at g) = hours 48"
  using assms
  by (auto simp: authorize_break_glass_def recent_invocations_def result_simps dt_diff_def Let_def
      split: if_splits)

text \<open>A caller that passes the actor's earlier grants as the prior invocations.\<close>

fun invoke_all :: "break_glass_grant list \<Rightarrow> break_glass_request list \<Rightarrow> break_glass_grant list" where
  "invoke_all granted [] = granted"
| "invoke_all granted (r # rs) =
     (case authorize_break_glass (r\<lparr>prior_invocations := map issued_at granted\<rparr>) of
        Inl e \<Rightarrow> invoke_all granted rs
      | Inr g \<Rightarrow> invoke_all (granted @ [g]) rs)"

definition within_limit :: "break_glass_grant list \<Rightarrow> bool" where
  "within_limit gs \<longleftrightarrow> (\<forall>i j k. i < j \<and> j < k \<and> k < length gs \<longrightarrow>
     hours 24 < dt_diff (issued_at (gs ! k)) (issued_at (gs ! i))
     \<or> hours 24 < dt_diff (issued_at (gs ! k)) (issued_at (gs ! j)))"

lemma two_in_filter:
  assumes "length (filter P xs) < 2" and "i < j" and "j < length xs"
  shows "\<not> (P (xs ! i) \<and> P (xs ! j))"
proof
  assume "P (xs ! i) \<and> P (xs ! j)"
  with assms(2,3) have "{i, j} \<subseteq> {k. k < length xs \<and> P (xs ! k)}" by auto
  then have "card {i, j} \<le> card {k. k < length xs \<and> P (xs ! k)}" by (intro card_mono) auto
  with assms show False by (simp add: length_filter_conv_card)
qed

lemma within_limit_snoc:
  assumes "within_limit gs" and "authorize_break_glass (r\<lparr>prior_invocations := map issued_at gs\<rparr>) = Inr g"
  shows "within_limit (gs @ [g])"
proof -
  let ?P = "\<lambda>v. dt_le (dt_add (requested_at r) (- hours 24)) v"
  note g = authorize_break_glass_Inr [OF assms(2), simplified]
  have new: "hours 24 < dt_diff (issued_at g) (issued_at (gs ! i))
      \<or> hours 24 < dt_diff (issued_at g) (issued_at (gs ! j))" if "i < j" "j < length gs" for i j
  proof -
    have "\<not> (?P (map issued_at gs ! i) \<and> ?P (map issued_at gs ! j))"
      using that g by (intro two_in_filter) simp_all
    with that g show ?thesis by (auto simp: dt_diff_def dt_le_def)
  qed
  show ?thesis
    unfolding within_limit_def
  proof (intro allI impI)
    fix i j k assume k: "i < j \<and> j < k \<and> k < length (gs @ [g])"
    show "hours 24 < dt_diff (issued_at ((gs @ [g]) ! k)) (issued_at ((gs @ [g]) ! i))
      \<or> hours 24 < dt_diff (issued_at ((gs @ [g]) ! k)) (issued_at ((gs @ [g]) ! j))"
    proof (cases "k = length gs")
      case True
      with k new show ?thesis by (simp add: nth_append)
    next
      case False
      with k assms(1) show ?thesis by (auto simp: nth_append within_limit_def)
    qed
  qed
qed

lemma invoke_all_within: "within_limit gs \<Longrightarrow> within_limit (invoke_all gs rs)"
  by (induction gs rs rule: invoke_all.induct) (auto split: sum.split intro: within_limit_snoc)

section \<open>Property\<close>

text \<open>
  However the requests of an actor come in, among any three grants the last was issued more than
  24 hours after one of the earlier two, when the caller passes the earlier grants as the prior
  invocations; so no 24 hours hold three grants. Every grant was strongly authenticated, is never
  for a forbidden operation, lasts two hours and is to be reviewed within 48.
\<close>

theorem break_glass_rate_limit:
  "within_limit (invoke_all [] rs)
   \<and> list_all (\<lambda>g. dt_diff (grant_expires_at g) (issued_at g) = hours 2
        \<and> dt_diff (review_due_at g) (issued_at g) = hours 48
        \<and> set (grant_permissions g) \<inter> forbidden_permissions = {}) (invoke_all [] rs)"
proof -
  let ?Q = "\<lambda>g. dt_diff (grant_expires_at g) (issued_at g) = hours 2
    \<and> dt_diff (review_due_at g) (issued_at g) = hours 48
    \<and> set (grant_permissions g) \<inter> forbidden_permissions = {}"
  have Q: "?Q g" if "authorize_break_glass r = Inr g" for r g
    using authorize_break_glass_Inr [OF that] by (auto simp: forbidden_permissions_def)
  have "list_all ?Q (invoke_all gs rs)" if "list_all ?Q gs" for gs
    using that by (induction gs rs rule: invoke_all.induct) (auto split: sum.split dest: Q)
  then have "list_all ?Q (invoke_all [] rs)" by simp
  moreover have "within_limit (invoke_all [] rs)"
    by (rule invoke_all_within) (simp add: within_limit_def)
  ultimately show ?thesis by blast
qed

end
