(* ===== verification/Proposals.thy ===== *)
theory Proposals
  imports Errors Py_Json Py_Sha256
begin

text \<open>
  \<open>domain/proposals.py\<close>: proposed changes, approvals, overrides and the application of an approved
  change. The lemmas show what an applied change required and that its derived decision identity
  names the change.
\<close>

section \<open>Data\<close>

record field_change =
  fc_field :: string
  old_value :: "string option"
  new_value :: "string option"

definition new_field_change :: "field_change \<Rightarrow> field_change result" where
  "new_field_change c =
     (if blank (fc_field c) \<or> old_value c = new_value c
      then Inl (ProposalError ''field changes require a name and distinct values'') else Inr c)"

definition proposal_aware :: "datetime \<Rightarrow> string \<Rightarrow> unit result" where
  "proposal_aware d f = (if \<not> aware d then Inl (ProposalError (f @ '' must be timezone-aware'')) else Inr ())"

record proposed_change =
  proposal_id :: string
  pc_item_id :: string
  proposer :: string
  base_decision_id :: string
  expected_source_revision :: string
  pc_changes :: "field_change list"
  pc_created_at :: datetime

definition create_proposal :: "proposed_change \<Rightarrow> proposed_change result" where
  "create_proposal p =
     bind_result (proposal_aware (pc_created_at p) ''created_at'') (\<lambda>_.
     let ordered = sort_key fc_field (pc_changes p) in
     if ordered = [] \<or> card (fc_field ` set ordered) \<noteq> length ordered
     then Inl (ProposalError ''proposal changes must be non-empty with unique fields'')
     else if \<exists>v \<in> {proposal_id p, pc_item_id p, proposer p, base_decision_id p,
       expected_source_revision p}. blank v
     then Inl (ProposalError ''proposal identities and source revision are required'')
     else Inr (p\<lparr>pc_changes := ordered\<rparr>))"

record approval =
  ap_proposal_id :: string
  approver :: string
  approved_at :: datetime
  ap_base_decision_id :: string
  ap_source_revision :: string

definition new_approval :: "approval \<Rightarrow> approval result" where
  "new_approval a =
     bind_result (proposal_aware (approved_at a) ''approved_at'') (\<lambda>_.
     if \<exists>v \<in> {ap_proposal_id a, approver a, ap_base_decision_id a, ap_source_revision a}. blank v
     then Inl (ProposalError ''approval identities and authority inputs are required'')
     else Inr a)"

record override_record =
  override_id :: string
  or_actor :: string
  or_item_id :: string
  or_reason :: string
  or_expires_at :: datetime
  or_created_at :: datetime

record applied_mutation =
  am_proposal_id :: string
  disposition :: string
  am_derived_from :: string
  new_decision_id :: string
  applied_at :: datetime
  am_changes :: "field_change list"

section \<open>Operations\<close>

definition create_override ::
    "string \<Rightarrow> string \<Rightarrow> string \<Rightarrow> string \<Rightarrow> datetime \<Rightarrow> bool \<Rightarrow> bool \<Rightarrow> datetime \<Rightarrow> override_record result" where
  "create_override oid actor iid reason expires safety_weakening completion_weakening created =
     bind_result (proposal_aware created ''created_at'') (\<lambda>_.
     bind_result (proposal_aware expires ''expires_at'') (\<lambda>_.
     if dt_le expires created then Inl (ProposalError ''override expiry must be after creation'')
     else if safety_weakening \<or> completion_weakening
     then Inl (ProposalError ''overrides cannot weaken safety or completion semantics'')
     else if length (strip reason) < 20
     then Inl (ProposalError ''override reason must contain at least 20 characters'')
     else Inr \<lparr>override_id = oid, or_actor = actor, or_item_id = iid, or_reason = strip reason,
       or_expires_at = expires, or_created_at = created\<rparr>))"

definition opt_str :: "string option \<Rightarrow> json" where
  "opt_str v = (case v of None \<Rightarrow> JNull | Some s \<Rightarrow> JStr s)"

definition change_json :: "field_change \<Rightarrow> json" where
  "change_json c = JObj [(''field'', JStr (fc_field c)), (''new'', opt_str (new_value c)),
     (''old'', opt_str (old_value c))]"

definition mutation_payload ::
    "proposed_change \<Rightarrow> string \<Rightarrow> string \<Rightarrow> datetime \<Rightarrow> (string \<times> json) list" where
  "mutation_payload p current_decision_id current_source_revision at =
     [(''applied_at'', JStr (isoformat at)),
      (''base_decision_id'', JStr current_decision_id),
      (''changes'', JList (map change_json (pc_changes p))),
      (''proposal_id'', JStr (proposal_id p)),
      (''source_revision'', JStr current_source_revision)]"

definition apply_approved_change ::
    "proposed_change \<Rightarrow> approval option \<Rightarrow> string \<Rightarrow> string \<Rightarrow> string \<Rightarrow> datetime \<Rightarrow> applied_mutation result" where
  "apply_approved_change p approval_opt claimant current_decision_id current_source_revision at =
     bind_result (proposal_aware at ''applied_at'') (\<lambda>_. case approval_opt of
       None \<Rightarrow> Inl (ProposalError ''approval is required before an authoritative mutation'')
     | Some a \<Rightarrow>
       if ap_proposal_id a \<noteq> proposal_id p
       then Inl (ProposalError ''approval does not reference this proposal'')
       else if approver a \<in> {proposer p, claimant}
       then Inl (ProposalError ''separation of duties forbids proposer or claimant self-approval'')
       else let anchored = {base_decision_id p, ap_base_decision_id a, current_decision_id};
         revisions = {expected_source_revision p, ap_source_revision a, current_source_revision} in
         if card anchored \<noteq> 1 \<or> card revisions \<noteq> 1
         then Inl (ProposalError ''stale approval must be refreshed before mutation'')
         else let canonical = json_dumps True (JObj
             (mutation_payload p current_decision_id current_source_revision at)) in
           Inr \<lparr>am_proposal_id = proposal_id p, disposition = ''accepted'',
             am_derived_from = current_decision_id, new_decision_id = take 32 (sha256_hex canonical),
             applied_at = at, am_changes = pc_changes p\<rparr>)"

section \<open>What the constructors and the application check\<close>

lemma proposal_aware_Inr [result_simps]: "proposal_aware d f = Inr u \<longleftrightarrow> aware d"
  by (simp add: proposal_aware_def)

lemma card_image_length: "card (f ` set xs) = length xs \<longleftrightarrow> distinct (map f xs)"
  using card_distinct [of "map f xs"] distinct_card [of "map f xs"] by auto

lemma create_proposal_Inr:
  "create_proposal p = Inr q \<longleftrightarrow> aware (pc_created_at p) \<and> pc_changes p \<noteq> []
     \<and> distinct (map fc_field (pc_changes p)) \<and> \<not> blank (proposal_id p) \<and> \<not> blank (pc_item_id p)
     \<and> \<not> blank (proposer p) \<and> \<not> blank (base_decision_id p) \<and> \<not> blank (expected_source_revision p)
     \<and> q = p\<lparr>pc_changes := sort_key fc_field (pc_changes p)\<rparr>"
proof -
  have "card (fc_field ` set (sort_key fc_field (pc_changes p))) = length (sort_key fc_field (pc_changes p))
      \<longleftrightarrow> distinct (map fc_field (pc_changes p))"
    using card_image_length [of fc_field "pc_changes p"] by simp
  moreover have "sort_key fc_field (pc_changes p) = [] \<longleftrightarrow> pc_changes p = []"
    by (metis length_0_conv length_sort)
  ultimately show ?thesis by (auto simp: create_proposal_def result_simps Let_def)
qed

lemma card_three: "card {a, b, c} = Suc 0 \<longleftrightarrow> a = b \<and> b = c"
  by (auto simp: card_insert_if)

lemma apply_approved_change_Inr:
  "apply_approved_change p ao claimant cur rev_now at = Inr m \<longleftrightarrow> aware at
     \<and> (\<exists>a. ao = Some a \<and> ap_proposal_id a = proposal_id p \<and> approver a \<noteq> proposer p \<and> approver a \<noteq> claimant
        \<and> base_decision_id p = cur \<and> ap_base_decision_id a = cur
        \<and> expected_source_revision p = rev_now \<and> ap_source_revision a = rev_now)
     \<and> m = \<lparr>am_proposal_id = proposal_id p, disposition = ''accepted'', am_derived_from = cur,
         new_decision_id = take 32 (sha256_hex (json_dumps True (JObj (mutation_payload p cur rev_now at)))),
         applied_at = at, am_changes = pc_changes p\<rparr>"
  by (cases ao) (auto simp: apply_approved_change_def result_simps card_three Let_def)

lemma opt_str_inject [simp]: "opt_str a = opt_str b \<longleftrightarrow> a = b"
  by (auto simp: opt_str_def split: option.splits)

lemma sort_keys_opt_str [simp]: "sort_keys (opt_str v) = opt_str v"
  by (simp add: opt_str_def split: option.split)

lemma change_json_inject: "sort_keys (change_json c) = sort_keys (change_json d) \<longleftrightarrow> c = d"
proof -
  have "sort_keys (change_json c) = change_json c" for c
    by (simp add: change_json_def)
  then show ?thesis by (cases c; cases d) (auto simp: change_json_def)
qed

lemma mutation_payload_ok:
  "json_wf (JObj (mutation_payload p cur r at))" "distinct (map fst (mutation_payload p cur r at))"
  by (auto simp: mutation_payload_def change_json_def opt_str_def split: option.split)

lemma mutation_payload_inject:
  assumes "json_dumps True (JObj (mutation_payload p cur r at)) = json_dumps True (JObj (mutation_payload q cur' r' at'))"
  shows "proposal_id p = proposal_id q \<and> cur = cur' \<and> r = r' \<and> pc_changes p = pc_changes q
    \<and> isoformat at = isoformat at'"
proof -
  note look = json_dumps_obj_eq [OF mutation_payload_ok(1) mutation_payload_ok(1)
      mutation_payload_ok(2) mutation_payload_ok(2) assms]
  have "map (sort_keys \<circ> change_json) (pc_changes p) = map (sort_keys \<circ> change_json) (pc_changes q)"
    using look [of "''changes''"] by (simp add: mutation_payload_def)
  then have "pc_changes p = pc_changes q"
    by (rule map_injective) (auto simp: inj_def change_json_inject)
  with look [of "''applied_at''"] look [of "''base_decision_id''"] look [of "''proposal_id''"]
    look [of "''source_revision''"]
  show ?thesis by (simp add: mutation_payload_def)
qed

section \<open>Property\<close>

text \<open>The leading 32 hexadecimal digits of two SHA-256 digests agree.\<close>

definition sha_prefix_collision :: "string \<Rightarrow> string \<Rightarrow> bool" where
  "sha_prefix_collision s t \<longleftrightarrow> s \<noteq> t \<and> take 32 (sha256_hex s) = take 32 (sha256_hex t)"

text \<open>
  C19: a change is applied only with an approval of this very proposal by somebody who neither
  proposed nor claimed it, and while proposal, approval and the current state name the same decision
  and source revision. The derived decision identity then names the mutation: two applications with
  the same identity agree on proposal, base decision, source revision, changes and time of day
  rendered with its zone, unless their payloads share a digest prefix.
\<close>

theorem applied_change_approved_and_identified:
  assumes "apply_approved_change p ao claimant cur r at = Inr m"
    and "apply_approved_change q ao' claimant' cur' r' at' = Inr m'"
  shows "(\<exists>a. ao = Some a \<and> ap_proposal_id a = proposal_id p \<and> approver a \<notin> {proposer p, claimant}
      \<and> {base_decision_id p, ap_base_decision_id a} = {cur}
      \<and> {expected_source_revision p, ap_source_revision a} = {r})
    \<and> (new_decision_id m = new_decision_id m' \<longrightarrow>
        am_proposal_id m = am_proposal_id m' \<and> am_derived_from m = am_derived_from m' \<and> r = r'
          \<and> am_changes m = am_changes m' \<and> isoformat (applied_at m) = isoformat (applied_at m')
        \<or> sha_prefix_collision (json_dumps True (JObj (mutation_payload p cur r at)))
            (json_dumps True (JObj (mutation_payload q cur' r' at'))))"
  using assms mutation_payload_inject [of p cur r at q cur' r' at']
  by (auto simp: apply_approved_change_Inr sha_prefix_collision_def)

definition sample_proposal :: proposed_change where
  "sample_proposal = \<lparr>proposal_id = ''P'', pc_item_id = ''W'', proposer = ''copilot'',
     base_decision_id = ''d'', expected_source_revision = ''r'',
     pc_changes = [\<lparr>fc_field = ''title'', old_value = Some ''a'', new_value = Some ''b''\<rparr>],
     pc_created_at = Datetime 0 (Some 0)\<rparr>"

definition sample_approval :: approval where
  "sample_approval = \<lparr>ap_proposal_id = ''P'', approver = ''bo'', approved_at = Datetime 5 (Some 0),
     ap_base_decision_id = ''d'', ap_source_revision = ''r''\<rparr>"

lemma applied_change_approved_and_identified_witness:
  "\<exists>m. apply_approved_change sample_proposal (Some sample_approval) ''ana'' ''d'' ''r''
      (Datetime 9 (Some 0)) = Inr m
    \<and> approver sample_approval \<notin> {proposer sample_proposal, ''ana''}"
proof -
  obtain m where m: "apply_approved_change sample_proposal (Some sample_approval) ''ana'' ''d'' ''r''
      (Datetime 9 (Some 0)) = Inr m"
    unfolding apply_approved_change_Inr
    by (simp add: sample_proposal_def sample_approval_def aware_def)
  from applied_change_approved_and_identified [OF m m] m show ?thesis by auto
qed

end
