(* ===== verification/Py_Float.thy ===== *)
theory Py_Float
  imports Complex_Main
begin

text \<open>
  Python floats the code only compares: the exact rational value of a finite double, the infinities
  and NaN, with the comparison operators of IEEE 754, where NaN is unordered and unequal to itself.
\<close>

datatype py_float = Finite rat | Infinity | Neg_Infinity | Not_A_Number

fun float_less :: "py_float \<Rightarrow> py_float \<Rightarrow> bool" where
  "float_less (Finite a) (Finite b) = (a < b)"
| "float_less (Finite a) Infinity = True"
| "float_less Neg_Infinity (Finite b) = True"
| "float_less Neg_Infinity Infinity = True"
| "float_less _ _ = False"

fun float_eq :: "py_float \<Rightarrow> py_float \<Rightarrow> bool" where
  "float_eq (Finite a) (Finite b) = (a = b)"
| "float_eq Infinity Infinity = True"
| "float_eq Neg_Infinity Neg_Infinity = True"
| "float_eq _ _ = False"

definition float_le :: "py_float \<Rightarrow> py_float \<Rightarrow> bool" where
  "float_le a b \<longleftrightarrow> float_less a b \<or> float_eq a b"

lemma float_trichotomy:
  "a \<noteq> Not_A_Number \<Longrightarrow> b \<noteq> Not_A_Number \<Longrightarrow> float_less a b \<or> float_eq a b \<or> float_less b a"
  by (cases a; cases b) auto

lemma nan_unordered [simp]:
  "\<not> float_less Not_A_Number a" "\<not> float_less a Not_A_Number"
  "\<not> float_eq Not_A_Number a" "\<not> float_eq a Not_A_Number"
  by (cases a; simp)+

end
