(* ===== verification/Cutover.thy ===== *)
theory Cutover
  imports Errors Py_Json Py_Float
begin

text \<open>
  \<open>domain/cutover.py\<close> and \<open>application/cutover_539.py\<close>: the exclusive projection writer of a
  workspace, the shadow comparison, and the eight-phase cutover with its rollback. The lemmas show
  that a state always names one writer, that the frontier writer is activated only from shadow mode
  on parity, ownership and fresh fences, and how a run ends.
\<close>

section \<open>Writer states\<close>

datatype writer_mode = LEGACY_ACTIVE | SHADOW | FRONTIER_ACTIVE

record writer_state =
  ws_mode :: writer_mode
  active_writer :: string
  ws_version :: int
  ws_updated_at :: datetime

definition cutover_aware :: "datetime \<Rightarrow> string \<Rightarrow> unit result" where
  "cutover_aware d f = (if \<not> aware d then Inl (CutoverError (f @ '' must be timezone-aware'')) else Inr ())"

definition new_writer_state :: "writer_state \<Rightarrow> writer_state result" where
  "new_writer_state s =
     bind_result (cutover_aware (ws_updated_at s) ''updated_at'') (\<lambda>_.
     if ws_version s < 0 then Inl (CutoverError ''writer state version must be non-negative'')
     else let expected_writer = (if ws_mode s = FRONTIER_ACTIVE then ''frontier'' else ''legacy'') in
       if active_writer s \<noteq> expected_writer
       then Inl (CutoverError ''writer mode must name exactly one matching active writer'')
       else Inr s)"

record writer_lease =
  wlease_owner :: string
  wlease_version :: int
  wlease_expires_at :: datetime

definition new_writer_lease :: "writer_lease \<Rightarrow> writer_lease result" where
  "new_writer_lease l =
     bind_result (cutover_aware (wlease_expires_at l) ''expires_at'') (\<lambda>_.
     if blank (wlease_owner l) \<or> wlease_version l < 1
     then Inl (CutoverError ''writer lease requires an owner and positive version'')
     else Inr l)"

record projection_fence =
  expected_local_version :: int
  current_local_version :: int
  expected_revision :: string
  current_revision :: string

section \<open>Shadow comparison\<close>

text \<open>
  \<open>==\<close> on two values read separately from JSON. \<open>True\<close> equals 1, an object ignores the order of its
  keys, a float whose text is a whole number equals that integer, and \<open>nan\<close> equals nothing.
\<close>

definition whole_float :: "string \<Rightarrow> int option" where
  "whole_float r = (let
     neg = r \<noteq> [] \<and> hd r = CHR ''-'';
     body = (if neg then tl r else r);
     n = length body - 2
   in if 2 < length body \<and> drop n body = ''.0'' \<and> (\<forall>c \<in> set (take n body). is_digit c)
      then Some ((if neg then -1 else 1) * int (decimal_value (take n body))) else None)"

fun number_of :: "json \<Rightarrow> int option" where
  "number_of (JBool b) = Some (if b then 1 else 0)"
| "number_of (JInt i) = Some i"
| "number_of (JFloat r) = whole_float r"
| "number_of _ = None"

lemma size_map_of_json: "map_of kvs k = Some v \<Longrightarrow> size v < Suc (size_list (size_prod (\<lambda>_. 0) size) kvs)"
  by (induction kvs) (auto split: if_splits)

lemma size_pair_json: "(k, v) \<in> set kvs \<Longrightarrow> size v < Suc (size_list (size_prod (\<lambda>_. 0) size) kvs)"
  by (induction kvs) auto

lemma size_zip_json: "(v, w) \<in> set (zip vs ws) \<Longrightarrow> size v < Suc (size_list size vs)"
  by (auto dest!: set_zip_leftD simp: less_Suc_eq_le size_list_estimation')

function py_eq :: "json \<Rightarrow> json \<Rightarrow> bool" where
  "py_eq v w = (case (v, w) of
     (JNull, JNull) \<Rightarrow> True
   | (JStr s, JStr t) \<Rightarrow> s = t
   | (JList vs, JList ws) \<Rightarrow> length vs = length ws \<and> list_all (\<lambda>(x, y). py_eq x y) (zip vs ws)
   | (JObj kvs, JObj kws) \<Rightarrow> fst ` set kvs = fst ` set kws
       \<and> list_all (\<lambda>(k, x). case map_of kws k of None \<Rightarrow> False | Some y \<Rightarrow> py_eq x y) kvs
   | (JFloat r, JFloat s) \<Rightarrow> r \<noteq> ''nan'' \<and> (r = s \<or> (whole_float r \<noteq> None \<and> whole_float r = whole_float s))
   | _ \<Rightarrow> number_of v \<noteq> None \<and> number_of v = number_of w)"
  by pat_completeness auto
termination
  by (relation "measure (size \<circ> fst)") (auto intro: size_pair_json size_zip_json)

declare py_eq.simps [simp del]

text \<open>\<open>mapping.get(key)\<close>: an absent key reads as \<open>None\<close>.\<close>

definition get_or_none :: "(string \<times> json) list \<Rightarrow> string \<Rightarrow> json" where
  "get_or_none m k = (case map_of m k of None \<Rightarrow> JNull | Some v \<Rightarrow> v)"

record shadow_comparison =
  semantic_equal :: bool
  semantic_differences :: "string list"
  approved_presentation_differences :: "string list"
  legacy_canonical :: string
  frontier_canonical :: string

definition canonical_json :: "(string \<times> json) list \<Rightarrow> string" where
  "canonical_json m = json_dumps False (JObj m)"

definition semantic_part :: "string set \<Rightarrow> (string \<times> json) list \<Rightarrow> (string \<times> json) list" where
  "semantic_part presentation m = filter (\<lambda>(k, v). k \<notin> presentation) (sort_key fst m)"

definition compare_shadow ::
    "(string \<times> json) list \<Rightarrow> (string \<times> json) list \<Rightarrow> string set option \<Rightarrow> shadow_comparison" where
  "compare_shadow legacy frontier presentation_only_fields = (let
     presentation = (case presentation_only_fields of None \<Rightarrow> {} | Some fs \<Rightarrow> fs);
     all_keys = sorted_set (map fst legacy @ map fst frontier);
     differs = (\<lambda>k. \<not> py_eq (get_or_none legacy k) (get_or_none frontier k));
     semantic = filter (\<lambda>k. k \<notin> presentation \<and> differs k) all_keys
   in \<lparr>semantic_equal = (semantic = []), semantic_differences = semantic,
       approved_presentation_differences = filter (\<lambda>k. k \<in> presentation \<and> differs k) all_keys,
       legacy_canonical = canonical_json (semantic_part presentation legacy),
       frontier_canonical = canonical_json (semantic_part presentation frontier)\<rparr>)"

section \<open>Fences, activation and rollback\<close>

text \<open>\<open>lease is None or lease.owner != actor or now >= lease.expires_at\<close>: a constructed lease has an aware expiry.\<close>

definition assert_write_fence ::
    "writer_state \<Rightarrow> writer_lease option \<Rightarrow> string \<Rightarrow> projection_fence \<Rightarrow> datetime \<Rightarrow> unit result" where
  "assert_write_fence s lease actor f now =
     bind_result (cutover_aware now ''now'') (\<lambda>_.
     if (case lease of None \<Rightarrow> True
       | Some l \<Rightarrow> wlease_owner l \<noteq> actor \<or> dt_le (wlease_expires_at l) now)
     then Inl (CutoverError ''valid exclusive writer lease is required'')
     else if expected_local_version f \<noteq> ws_version s
     then Inl (CutoverError ''expected local projection version does not match writer state'')
     else if current_local_version f \<noteq> expected_local_version f
     then Inl (CutoverError ''local projection version changed before write'')
     else if expected_revision f \<noteq> current_revision f
     then Inl (CutoverError ''exact source revision changed before write'')
     else Inr ())"

definition activate_frontier_writer ::
    "writer_state \<Rightarrow> writer_lease option \<Rightarrow> string \<Rightarrow> projection_fence \<Rightarrow> shadow_comparison \<Rightarrow> datetime
     \<Rightarrow> writer_state result" where
  "activate_frontier_writer s lease actor f comparison now =
     (if ws_mode s \<noteq> SHADOW then Inl (CutoverError ''frontier activation requires shadow mode'')
      else if \<not> semantic_equal comparison
      then Inl (CutoverError ''semantic parity is required before frontier activation'')
      else bind_result (assert_write_fence s lease actor f now) (\<lambda>_.
        new_writer_state \<lparr>ws_mode = FRONTIER_ACTIVE, active_writer = ''frontier'',
          ws_version = ws_version s + 1, ws_updated_at = now\<rparr>))"

definition rollback_to_legacy :: "writer_state \<Rightarrow> string \<Rightarrow> datetime \<Rightarrow> writer_state result" where
  "rollback_to_legacy s actor now =
     bind_result (cutover_aware now ''now'') (\<lambda>_.
     if blank actor then Inl (CutoverError ''rollback actor is required'')
     else if ws_mode s = LEGACY_ACTIVE then new_writer_state (s\<lparr>ws_updated_at := now\<rparr>)
     else new_writer_state \<lparr>ws_mode = LEGACY_ACTIVE, active_writer = ''legacy'',
       ws_version = ws_version s + 1, ws_updated_at = now\<rparr>)"

section \<open>The eight-phase cutover\<close>

datatype cutover_phase =
    IMPORT | SHADOW_PHASE | COMPARE | APPROVAL | CLAIM_WRITER | PUBLISH | OBSERVE | LEGACY_VERIFY_ONLY

record cutover_evidence =
  approval_id :: string
  ce_source_revision :: string
  marker_integrity_percent :: py_float
  link_integrity_percent :: py_float
  stale_write_count :: int
  observation_error_rate :: py_float
  rollback_duration :: "timedelta option"

record cutover_run =
  run_phases :: "cutover_phase list"
  run_writer_state :: writer_state
  run_evidence :: cutover_evidence
  run_activated :: bool
  run_rolled_back :: bool

definition required_integrity :: py_float where
  "required_integrity = Finite 100"

text \<open>The double nearest to 0.001.\<close>

definition max_error_rate :: py_float where
  "max_error_rate = Finite (1152921504606847 / 1152921504606846976)"

definition validate_evidence :: "cutover_evidence \<Rightarrow> unit result" where
  "validate_evidence e =
     (if blank (approval_id e) \<or> blank (ce_source_revision e)
      then Inl (CutoverExecutionError ''cutover requires approval and exact source revision'')
      else if \<not> float_eq (marker_integrity_percent e) required_integrity
      then Inl (CutoverExecutionError ''marker integrity must be exactly 100 percent'')
      else if \<not> float_eq (link_integrity_percent e) required_integrity
      then Inl (CutoverExecutionError ''link integrity must be exactly 100 percent'')
      else if stale_write_count e < 0 \<or> float_less (observation_error_rate e) (Finite 0)
      then Inl (CutoverExecutionError ''cutover measurements must be non-negative'')
      else Inr ())"

text \<open>The \<open>try\<close> block: both steps, any \<open>ValueError\<close> reported as a blocked activation.\<close>

definition claim_writer ::
    "writer_state \<Rightarrow> writer_lease \<Rightarrow> string \<Rightarrow> projection_fence \<Rightarrow> shadow_comparison \<Rightarrow> datetime
     \<Rightarrow> writer_state result" where
  "claim_writer s lease actor f comparison now =
     (case bind_result (assert_write_fence s (Some lease) actor f now) (\<lambda>_.
        activate_frontier_writer s (Some lease) actor f comparison now) of
       Inl e \<Rightarrow> Inl (if is_value_error e
         then CutoverExecutionError ''writer ownership or stale-write fence blocked activation'' else e)
     | Inr s' \<Rightarrow> Inr s')"

definition execute_cutover ::
    "writer_state \<Rightarrow> writer_lease \<Rightarrow> string \<Rightarrow> projection_fence \<Rightarrow> shadow_comparison \<Rightarrow> cutover_evidence
     \<Rightarrow> datetime \<Rightarrow> cutover_run result" where
  "execute_cutover s lease actor f comparison evidence now =
     bind_result (validate_evidence evidence) (\<lambda>_. let
       phases = [IMPORT, SHADOW_PHASE, COMPARE, APPROVAL, CLAIM_WRITER] in
     if \<not> semantic_equal comparison
     then Inl (CutoverExecutionError ''semantic mismatch blocks #539 activation'')
     else bind_result (claim_writer s lease actor f comparison now) (\<lambda>activated. let
         phases = phases @ [PUBLISH, OBSERVE] in
       if stale_write_count evidence \<noteq> 0 \<or> float_less max_error_rate (observation_error_rate evidence)
       then let rollback_started = dt_add now (seconds 1);
           rollback_completed = dt_add rollback_started (minutes 1) in
         bind_result (rollback_to_legacy activated actor rollback_completed) (\<lambda>rolled_back. let
           measured = evidence\<lparr>rollback_duration := Some (dt_diff rollback_completed rollback_started)\<rparr> in
           if (case rollback_duration measured of None \<Rightarrow> True | Some d \<Rightarrow> minutes 5 \<le> d)
           then Inl (CutoverExecutionError ''automatic rollback exceeded five minutes'')
           else Inr \<lparr>run_phases = phases, run_writer_state = rolled_back, run_evidence = measured,
             run_activated = False, run_rolled_back = True\<rparr>)
       else Inr \<lparr>run_phases = phases @ [LEGACY_VERIFY_ONLY], run_writer_state = activated,
         run_evidence = evidence, run_activated = (ws_mode activated = FRONTIER_ACTIVE),
         run_rolled_back = False\<rparr>))"

section \<open>One writer at a time\<close>

definition writer_wf :: "writer_state \<Rightarrow> bool" where
  "writer_wf s \<longleftrightarrow> aware (ws_updated_at s) \<and> 0 \<le> ws_version s
     \<and> active_writer s = (if ws_mode s = FRONTIER_ACTIVE then ''frontier'' else ''legacy'')"

lemma cutover_aware_Inr [result_simps]: "cutover_aware d f = Inr u \<longleftrightarrow> aware d"
  by (simp add: cutover_aware_def)

lemma new_writer_state_Inr [result_simps]: "new_writer_state s = Inr t \<longleftrightarrow> writer_wf s \<and> t = s"
  by (auto simp: new_writer_state_def writer_wf_def result_simps Let_def split: if_splits)

definition fence_open :: "writer_state \<Rightarrow> writer_lease option \<Rightarrow> string \<Rightarrow> projection_fence \<Rightarrow> datetime \<Rightarrow> bool" where
  "fence_open s lease actor f now \<longleftrightarrow> aware now
     \<and> (\<exists>l. lease = Some l \<and> wlease_owner l = actor \<and> dt_less now (wlease_expires_at l))
     \<and> expected_local_version f = ws_version s \<and> current_local_version f = ws_version s
     \<and> expected_revision f = current_revision f"

lemma assert_write_fence_Inr [result_simps]:
  "assert_write_fence s lease actor f now = Inr u \<longleftrightarrow> fence_open s lease actor f now"
  by (auto simp: assert_write_fence_def fence_open_def result_simps split: option.splits)

lemma activate_Inr [result_simps]:
  "activate_frontier_writer s lease actor f c now = Inr t \<longleftrightarrow> ws_mode s = SHADOW \<and> semantic_equal c
     \<and> fence_open s lease actor f now \<and> 0 \<le> ws_version s + 1
     \<and> t = \<lparr>ws_mode = FRONTIER_ACTIVE, active_writer = ''frontier'', ws_version = ws_version s + 1,
         ws_updated_at = now\<rparr>"
  by (auto simp: activate_frontier_writer_def result_simps writer_wf_def fence_open_def)

lemma claim_writer_Inr [result_simps]:
  "claim_writer s l actor f c now = Inr t \<longleftrightarrow> activate_frontier_writer s (Some l) actor f c now = Inr t"
proof -
  have "claim_writer s l actor f c now = Inr t \<longleftrightarrow>
      bind_result (assert_write_fence s (Some l) actor f now) (\<lambda>_.
        activate_frontier_writer s (Some l) actor f c now) = Inr t"
    by (simp add: claim_writer_def split: sum.split)
  then show ?thesis by (auto simp: result_simps)
qed

lemma rollback_Inr:
  assumes "rollback_to_legacy s actor now = Inr t"
  shows "writer_wf t \<and> ws_mode t = LEGACY_ACTIVE
    \<and> ws_version t = (if ws_mode s = LEGACY_ACTIVE then ws_version s else ws_version s + 1)"
  using assms by (auto simp: rollback_to_legacy_def result_simps split: if_splits)

section \<open>Canonical equality is finer than semantic equality\<close>

fun json_ok :: "json \<Rightarrow> bool" where
  "json_ok (JFloat r) = (r \<noteq> ''nan'')"
| "json_ok (JList vs) = (\<forall>v \<in> set vs. json_ok v)"
| "json_ok (JObj kvs) = (distinct (map fst kvs) \<and> (\<forall>(k, v) \<in> set kvs. json_ok v))"
| "json_ok _ = True"

lemma py_eq_sort_keys:
  "json_ok v \<Longrightarrow> json_ok w \<Longrightarrow> sort_keys v = sort_keys w \<Longrightarrow> py_eq v w"
proof (induction v arbitrary: w)
  case (JList vs)
  then obtain ws where w: "w = JList ws" by (cases w) auto
  with JList.prems have m: "map sort_keys vs = map sort_keys ws" by simp
  then have len: "length vs = length ws" by (metis length_map)
  have "py_eq x y" if "(x, y) \<in> set (zip vs ws)" for x y
  proof -
    obtain i where i: "i < length vs" "x = vs ! i" "y = ws ! i"
      using \<open>(x, y) \<in> _\<close> len by (auto simp: set_zip)
    with m len have "sort_keys x = sort_keys y" by (metis nth_map)
    moreover have "x \<in> set vs" "y \<in> set ws" using i len by auto
    ultimately show ?thesis using JList w by auto
  qed
  with len w show ?case by (auto simp: py_eq.simps [of "JList vs"] list_all_iff)
next
  case (JObj kvs)
  then obtain kws where w: "w = JObj kws" by (cases w) auto
  have d: "distinct (map fst kvs)" "distinct (map fst kws)" using JObj.prems w by auto
  note look = sort_keys_obj_lookup [OF JObj.prems(3) [unfolded w] d]
  have keys: "fst ` set kvs = fst ` set kws"
    using look by (metis (no_types, opaque_lifting) dom_map_option_comp dom_map_of_conv_image_fst
        comp_def ext)
  have "\<exists>y. map_of kws k = Some y \<and> py_eq x y" if kx: "(k, x) \<in> set kvs" for k x
  proof -
    have "map_of kvs k = Some x" using kx d(1) by simp
    with look [of k] obtain y where y: "map_of kws k = Some y" "sort_keys x = sort_keys y"
      by (cases "map_of kws k") auto
    then have "(k, y) \<in> set kws" by (simp add: map_of_SomeD)
    then have "json_ok y" "json_ok x" using JObj.prems w kx by auto
    with JObj.IH [of "(k, x)" x y] kx y show ?thesis by (auto simp: snds.simps)
  qed
  then have "list_all (\<lambda>(k, x). case map_of kws k of None \<Rightarrow> False | Some y \<Rightarrow> py_eq x y) kvs"
    by (fastforce simp: list_all_iff)
  with keys w show ?case by (simp add: py_eq.simps [of "JObj kvs"])
next
  case (JFloat r)
  then show ?case by (cases w) (auto simp: py_eq.simps [of "JFloat r"])
next
  case (JStr x)
  then show ?case by (cases w) (auto simp: py_eq.simps [of "JStr x"])
next
  case (JInt x)
  then show ?case by (cases w) (auto simp: py_eq.simps [of "JInt x"])
next
  case (JBool x)
  then show ?case by (cases w) (auto simp: py_eq.simps [of "JBool x"])
next
  case JNull
  then show ?case by (cases w) (auto simp: py_eq.simps [of JNull])
qed

lemma map_of_filter_key: "map_of (filter (\<lambda>(k, v). P k) m) k = (if P k then map_of m k else None)"
  by (induction m) auto

lemma map_of_semantic_part:
  "distinct (map fst m) \<Longrightarrow> map_of (semantic_part pr m) k = (if k \<in> pr then None else map_of m k)"
proof -
  assume d: "distinct (map fst m)"
  have "map_of (sort_key fst m) = map_of m"
    using d by (intro map_of_inject_set [THEN iffD2]) (auto simp: distinct_map)
  then show ?thesis
    unfolding semantic_part_def using map_of_filter_key [of "\<lambda>k. k \<notin> pr" "sort_key fst m" k] by simp
qed

lemma semantic_part_ok:
  assumes "json_ok (JObj m)" and "json_wf (JObj m)"
  shows "json_wf (JObj (semantic_part pr m))" "distinct (map fst (semantic_part pr m))"
proof -
  show "json_wf (JObj (semantic_part pr m))" using assms(2) by (auto simp: semantic_part_def)
  have "distinct (map fst (sort_key fst m))" using assms(1) by (simp add: distinct_map)
  then show "distinct (map fst (semantic_part pr m))"
    unfolding semantic_part_def by (rule distinct_map_filter)
qed

section \<open>Properties\<close>

text \<open>A NaN makes a projection differ from itself, under one canonical text.\<close>

lemma canonical_parity_fails_on_nan:
  "legacy_canonical (compare_shadow [(''value'', JFloat ''nan'')] [(''value'', JFloat ''nan'')] None)
     = frontier_canonical (compare_shadow [(''value'', JFloat ''nan'')] [(''value'', JFloat ''nan'')] None)
   \<and> \<not> semantic_equal (compare_shadow [(''value'', JFloat ''nan'')] [(''value'', JFloat ''nan'')] None)
   \<and> json_wf (JObj [(''value'', JFloat ''nan'')])"
  by (simp add: compare_shadow_def get_or_none_def py_eq.simps is_float_repr_def sorted_set_def Let_def)

text \<open>
  C20: on JSON values without NaN, equal canonical texts prove semantic parity: when the legacy and
  the frontier projection render to the same canonical JSON outside the presentation fields, the
  comparison finds no semantic difference, whatever the nesting and the key order of the values. The
  values are those a JSON text denotes: null, booleans, integers, floats, strings, lists, and objects
  with string keys, each once. Both restrictions are needed, as findings record: NaN renders equal and
  differs from itself (\<open>canonical_parity_fails_on_nan\<close>), and so does a tuple from the list it renders
  like, which is why tuples are not among the values.
\<close>

theorem canonical_parity_sound:
  assumes "json_ok (JObj legacy)" "json_wf (JObj legacy)" "json_ok (JObj frontier)" "json_wf (JObj frontier)"
    and "legacy_canonical (compare_shadow legacy frontier pr) = frontier_canonical (compare_shadow legacy frontier pr)"
  shows "semantic_equal (compare_shadow legacy frontier pr)
    \<and> semantic_differences (compare_shadow legacy frontier pr) = []"
proof -
  define P where "P = (case pr of None \<Rightarrow> {} | Some fs \<Rightarrow> fs)"
  note l = semantic_part_ok [OF assms(1,2), of P] and f = semantic_part_ok [OF assms(3,4), of P]
  have d: "distinct (map fst legacy)" "distinct (map fst frontier)" using assms(1,3) by simp_all
  have "json_dumps False (JObj (semantic_part P legacy)) = json_dumps False (JObj (semantic_part P frontier))"
    using assms(5) by (simp add: compare_shadow_def canonical_json_def P_def Let_def)
  note look = json_dumps_obj_eq [OF l(1) f(1) l(2) f(2) this, unfolded map_of_semantic_part [OF d(1)]
      map_of_semantic_part [OF d(2)]]
  have "py_eq (get_or_none legacy k) (get_or_none frontier k)" if "k \<notin> P" for k
  proof (cases "map_of legacy k")
    case None
    with look [of k] that show ?thesis by (simp add: get_or_none_def py_eq.simps)
  next
    case (Some x)
    with look [of k] that obtain y where y: "map_of frontier k = Some y" "sort_keys x = sort_keys y"
      by (cases "map_of frontier k") auto
    then have "json_ok x" "json_ok y" using assms(1,3) Some by (auto dest: map_of_SomeD)
    then show ?thesis using py_eq_sort_keys y Some by (simp add: get_or_none_def)
  qed
  then have "filter (\<lambda>k. k \<notin> P \<and> \<not> py_eq (get_or_none legacy k) (get_or_none frontier k))
      (sorted_set (map fst legacy @ map fst frontier)) = []"
    by (auto simp: filter_empty_conv)
  then show ?thesis by (simp add: compare_shadow_def P_def [symmetric] Let_def)
qed

text \<open>
  C21: a cutover that returns started in shadow mode, on semantic parity, for the lease owner before
  the expiry and with fresh fences and complete integrity, and it ends with exactly one writer. It
  rolls back exactly when a stale write was counted or the error rate exceeds one in a thousand:
  then legacy writes again, two versions later; otherwise frontier writes, all eight phases done.
  The outcome state cannot be cut over again.
\<close>

theorem execute_cutover_outcome:
  assumes "execute_cutover s lease actor f c e now = Inr run" and "writer_wf s"
  shows "ws_mode s = SHADOW \<and> semantic_equal c \<and> fence_open s (Some lease) actor f now
    \<and> float_eq (marker_integrity_percent e) (Finite 100) \<and> float_eq (link_integrity_percent e) (Finite 100)
    \<and> writer_wf (run_writer_state run)
    \<and> (run_rolled_back run \<longleftrightarrow> stale_write_count e \<noteq> 0 \<or> float_less max_error_rate (observation_error_rate e))
    \<and> run_activated run = (\<not> run_rolled_back run)
    \<and> (if run_rolled_back run
       then ws_mode (run_writer_state run) = LEGACY_ACTIVE \<and> ws_version (run_writer_state run) = ws_version s + 2
       else ws_mode (run_writer_state run) = FRONTIER_ACTIVE \<and> ws_version (run_writer_state run) = ws_version s + 1
         \<and> length (run_phases run) = 8 \<and> distinct (run_phases run))
    \<and> (\<exists>m. execute_cutover (run_writer_state run) lease actor f c e now = Inl (CutoverExecutionError m))"
proof -
  obtain t where ev: "validate_evidence e = Inr ()" and eq: "semantic_equal c"
    and t: "claim_writer s lease actor f c now = Inr t"
    and run: "(if stale_write_count e \<noteq> 0 \<or> float_less max_error_rate (observation_error_rate e)
       then run_rolled_back run \<and> \<not> run_activated run
         \<and> rollback_to_legacy t actor (dt_add (dt_add now (seconds 1)) (minutes 1)) = Inr (run_writer_state run)
       else run = \<lparr>run_phases = [IMPORT, SHADOW_PHASE, COMPARE, APPROVAL, CLAIM_WRITER, PUBLISH, OBSERVE,
           LEGACY_VERIFY_ONLY], run_writer_state = t, run_evidence = e,
           run_activated = (ws_mode t = FRONTIER_ACTIVE), run_rolled_back = False\<rparr>)"
    using assms(1) unfolding execute_cutover_def bind_result_eq_Inr Let_def
    by (auto simp: bind_result_eq_Inr split: if_splits)
  have t': "ws_mode s = SHADOW" "fence_open s (Some lease) actor f now"
    "t = \<lparr>ws_mode = FRONTIER_ACTIVE, active_writer = ''frontier'', ws_version = ws_version s + 1, ws_updated_at = now\<rparr>"
    using t by (auto simp: result_simps)
  have integrity: "float_eq (marker_integrity_percent e) (Finite 100)" "float_eq (link_integrity_percent e) (Finite 100)"
    using ev by (auto simp: validate_evidence_def required_integrity_def split: if_splits)
  have now: "aware now" using t'(2) by (simp add: fence_open_def)
  have twf: "writer_wf t" using assms(2) now t'(3) by (simp add: writer_wf_def)
  define failed where "failed = (stale_write_count e \<noteq> 0 \<or> float_less max_error_rate (observation_error_rate e))"
  have state: "writer_wf (run_writer_state run) \<and> ws_mode (run_writer_state run) \<noteq> SHADOW
    \<and> run_rolled_back run = failed \<and> run_activated run = (\<not> failed)
    \<and> (if failed then ws_mode (run_writer_state run) = LEGACY_ACTIVE \<and> ws_version (run_writer_state run) = ws_version s + 2
       else ws_mode (run_writer_state run) = FRONTIER_ACTIVE \<and> ws_version (run_writer_state run) = ws_version s + 1
         \<and> length (run_phases run) = 8 \<and> distinct (run_phases run))"
    using run rollback_Inr [of t actor _ "run_writer_state run"] twf t'(3)
    unfolding failed_def by (auto split: if_splits)
  then have again: "claim_writer (run_writer_state run) lease actor f c now \<noteq> Inr u" for u
    by (auto simp: result_simps)
  let ?b = "bind_result (assert_write_fence (run_writer_state run) (Some lease) actor f now)
    (\<lambda>_. activate_frontier_writer (run_writer_state run) (Some lease) actor f c now)"
  have "\<exists>m. claim_writer (run_writer_state run) lease actor f c now = Inl (CutoverExecutionError m)"
  proof (cases ?b)
    case (Inl x)
    then have "is_value_error x"
      by (auto simp: bind_result_eq_Inl assert_write_fence_def activate_frontier_writer_def
          new_writer_state_def cutover_aware_def Let_def split: if_splits)
    with Inl show ?thesis by (simp add: claim_writer_def)
  next
    case (Inr u)
    with again [of u] show ?thesis by (simp add: claim_writer_def)
  qed
  then have "\<exists>m. execute_cutover (run_writer_state run) lease actor f c e now = Inl (CutoverExecutionError m)"
    using ev eq by (auto simp: execute_cutover_def)
  with state t' integrity eq show ?thesis unfolding failed_def by simp
qed

section \<open>Concrete cutovers\<close>

definition shadow_state :: writer_state where
  "shadow_state = \<lparr>ws_mode = SHADOW, active_writer = ''legacy'', ws_version = 3,
     ws_updated_at = Datetime 0 (Some 0)\<rparr>"

definition sample_writer_lease :: writer_lease where
  "sample_writer_lease = \<lparr>wlease_owner = ''ana'', wlease_version = 1,
     wlease_expires_at = Datetime 100 (Some 0)\<rparr>"

definition sample_fence :: projection_fence where
  "sample_fence = \<lparr>expected_local_version = 3, current_local_version = 3, expected_revision = ''r'',
     current_revision = ''r''\<rparr>"

definition sample_projection :: "json \<Rightarrow> (string \<times> json) list" where
  "sample_projection v = [(''title'', JStr ''a''), (''ready'', v), (''color'', JStr ''red'')]"

definition sample_cutover_evidence :: "int \<Rightarrow> cutover_evidence" where
  "sample_cutover_evidence stale = \<lparr>approval_id = ''A'', ce_source_revision = ''r'',
     marker_integrity_percent = Finite 100, link_integrity_percent = Finite 100,
     stale_write_count = stale, observation_error_rate = Finite 0, rollback_duration = None\<rparr>"

lemma canonical_parity_sound_witness:
  "semantic_equal (compare_shadow (sample_projection (JBool True))
     (rev (sample_projection (JBool True))) (Some {''color''}))"
proof -
  let ?l = "sample_projection (JBool True)" and ?pr = "Some {''color''}"
  have "json_ok (JObj ?l)" "json_wf (JObj ?l)" "json_ok (JObj (rev ?l))" "json_wf (JObj (rev ?l))"
    by (simp_all add: sample_projection_def)
  moreover have "legacy_canonical (compare_shadow ?l (rev ?l) ?pr) = frontier_canonical (compare_shadow ?l (rev ?l) ?pr)"
    by (simp add: compare_shadow_def semantic_part_def sample_projection_def less_char_def
        less_eq_char_def Let_def)
  ultimately show ?thesis using canonical_parity_sound by blast
qed

lemma execute_cutover_outcome_witness:
  "\<exists>run. execute_cutover shadow_state sample_writer_lease ''ana'' sample_fence
      (compare_shadow (sample_projection JNull) (sample_projection JNull) None)
      (sample_cutover_evidence 1) (Datetime 5 (Some 0)) = Inr run
    \<and> run_rolled_back run \<and> ws_mode (run_writer_state run) = LEGACY_ACTIVE
    \<and> ws_version (run_writer_state run) = 5"
proof -
  let ?c = "compare_shadow (sample_projection JNull) (sample_projection JNull) None"
  have eq: "semantic_equal ?c"
    by (simp add: compare_shadow_def sample_projection_def get_or_none_def py_eq.simps Let_def)
  have "\<exists>run. execute_cutover shadow_state sample_writer_lease ''ana'' sample_fence ?c
      (sample_cutover_evidence 1) (Datetime 5 (Some 0)) = Inr run"
    using eq
    by (simp add: execute_cutover_def validate_evidence_def sample_cutover_evidence_def
        claim_writer_def assert_write_fence_def activate_frontier_writer_def rollback_to_legacy_def
        shadow_state_def sample_writer_lease_def sample_fence_def new_writer_state_def cutover_aware_def
        aware_def dt_add_def dt_le_def blank_iff is_space_def required_integrity_def dt_diff_def
        minutes_def seconds_def Let_def)
  then obtain run where run: "execute_cutover shadow_state sample_writer_lease ''ana'' sample_fence ?c
      (sample_cutover_evidence 1) (Datetime 5 (Some 0)) = Inr run" ..
  have "writer_wf shadow_state" by (simp add: writer_wf_def shadow_state_def aware_def)
  from execute_cutover_outcome [OF run this] run show ?thesis
    by (auto simp: sample_cutover_evidence_def shadow_state_def)
qed

section \<open>Where parity and measurements are weaker than they read\<close>

text \<open>
  The converse of canonical parity fails: a key that is absent on one side and null on the other, or
  \<open>True\<close> against 1, compares equal although the canonical texts differ.
\<close>

lemma parity_without_equal_text:
  "semantic_equal (compare_shadow [(''a'', JNull), (''b'', JBool True)] [(''b'', JInt 1)] None)
   \<and> legacy_canonical (compare_shadow [(''a'', JNull), (''b'', JBool True)] [(''b'', JInt 1)] None)
     \<noteq> frontier_canonical (compare_shadow [(''a'', JNull), (''b'', JBool True)] [(''b'', JInt 1)] None)"
  by (simp add: compare_shadow_def get_or_none_def py_eq.simps semantic_part_def canonical_json_def
      json_dumps_def less_char_def less_eq_char_def json_string_def escape_char_def str_int_def Let_def)

text \<open>An error rate that is not a number passes the validation and does not roll back.\<close>

lemma nan_error_rate_accepted:
  "validate_evidence ((sample_cutover_evidence 0)\<lparr>observation_error_rate := Not_A_Number\<rparr>) = Inr ()
   \<and> \<not> float_less max_error_rate Not_A_Number"
  by (simp add: validate_evidence_def sample_cutover_evidence_def blank_iff is_space_def
      required_integrity_def)

text \<open>The measured rollback takes one minute by construction, so the five-minute bound never fails.\<close>

lemma rollback_measured_by_construction:
  "dt_diff (dt_add (dt_add now (seconds 1)) (minutes 1)) (dt_add now (seconds 1)) = minutes 1
   \<and> \<not> minutes 5 \<le> minutes 1"
  by (simp add: dt_diff_def minutes_def seconds_def)

end
