(* ===== verification/Audit_Chain.thy ===== *)
theory Audit_Chain
  imports Errors Py_Json Py_Sha256
begin

text \<open>
  \<open>platform/audit.py\<close>: hash-chained audit segments, their verification against an anchor and the
  purge of whole segments. The lemmas show that every segment built by appending verifies, and that
  a verified segment is determined by its final checksum unless two of the texts it hashes collide.
\<close>

section \<open>Data\<close>

definition genesis_checksum :: string where
  "genesis_checksum = replicate 64 (CHR ''0'')"

definition audit_json :: "(string \<times> json) list \<Rightarrow> string" where
  "audit_json kvs = json_dumps False (JObj kvs)"

record audit_event =
  event_id :: string
  ae_type :: string
  ae_actor :: string
  subject_id :: "string option"
  causation_id :: string
  correlation_id :: string
  ae_created_at :: datetime
  ae_payload :: "(string \<times> json) list"

definition new_audit_event :: "audit_event \<Rightarrow> audit_event result" where
  "new_audit_event e =
     (if \<exists>v \<in> {event_id e, ae_type e, ae_actor e, causation_id e, correlation_id e}. blank v
      then Inl (ValueError ''audit event identities must not be blank'')
      else if \<not> aware (ae_created_at e)
      then Inl (ValueError ''audit event timestamp must be timezone-aware'')
      else let ordered = sort_key fst (ae_payload e) in
        if length ordered \<noteq> card (fst ` set ordered)
        then Inl (ValueError ''audit payload keys must be unique'')
        else Inr (e\<lparr>ae_payload := ordered\<rparr>))"

record audit_entry =
  en_tenant_id :: string
  en_workspace_id :: string
  en_segment_id :: string
  en_seq :: int
  en_event :: audit_event
  payload_hash :: string
  previous_checksum :: string
  checksum :: string

record audit_segment =
  seg_tenant_id :: string
  seg_workspace_id :: string
  segment_id :: string
  entries :: "audit_entry list"
  closed :: bool
  final_checksum :: string

definition open_segment :: "string \<Rightarrow> string \<Rightarrow> string \<Rightarrow> audit_segment result" where
  "open_segment tenant workspace segment =
     (if blank tenant \<or> blank workspace \<or> blank segment
      then Inl (ValueError ''audit segment scope and identity are required'')
      else Inr \<lparr>seg_tenant_id = tenant, seg_workspace_id = workspace, segment_id = segment,
        entries = [], closed = False, final_checksum = genesis_checksum\<rparr>)"

definition close_segment :: "audit_segment \<Rightarrow> audit_segment result" where
  "close_segment s =
     (if entries s = [] then Inl (ValueError ''empty audit segments cannot be closed'')
      else Inr (s\<lparr>closed := True\<rparr>))"

record signed_anchor =
  an_segment_id :: string
  an_checksum :: string
  an_signer :: string
  an_signature :: string

definition anchor_text :: "string \<Rightarrow> string \<Rightarrow> string \<Rightarrow> string" where
  "anchor_text segment chk signer = segment @ '':'' @ chk @ '':'' @ signer"

definition sign_for_test :: "audit_segment \<Rightarrow> string \<Rightarrow> signed_anchor result" where
  "sign_for_test s signer =
     (if \<not> closed s \<or> blank signer
      then Inl (ValueError ''only closed segments with a signer can be anchored'')
      else Inr \<lparr>an_segment_id = segment_id s, an_checksum = final_checksum s, an_signer = signer,
        an_signature = sha256_hex (anchor_text (segment_id s) (final_checksum s) signer)\<rparr>)"

definition anchor_verifies :: "signed_anchor \<Rightarrow> audit_segment \<Rightarrow> bool" where
  "anchor_verifies a s \<longleftrightarrow> an_segment_id a = segment_id s \<and> an_checksum a = final_checksum s
     \<and> an_signature a = sha256_hex (anchor_text (an_segment_id a) (an_checksum a) (an_signer a))"

record verification_result =
  valid :: bool
  failure :: "string option"

record deletion_proof =
  dp_tenant_id :: string
  dp_workspace_id :: string
  dp_segment_id :: string
  dp_checksum :: string
  entry_count :: int
  dp_policy_id :: string
  dp_authorized_by :: string
  purged_at :: datetime
  anchor_signature :: string
  proof_hash :: string

section \<open>Appending and verifying\<close>

definition opt_text :: "string option \<Rightarrow> json" where
  "opt_text v = (case v of None \<Rightarrow> JNull | Some s \<Rightarrow> JStr s)"

definition envelope_of :: "audit_segment \<Rightarrow> int \<Rightarrow> audit_event \<Rightarrow> (string \<times> json) list" where
  "envelope_of s seq e =
     [(''actor'', JStr (ae_actor e)),
      (''causation_id'', JStr (causation_id e)),
      (''correlation_id'', JStr (correlation_id e)),
      (''created_at'', JStr (isoformat (ae_created_at e))),
      (''event_id'', JStr (event_id e)),
      (''event_type'', JStr (ae_type e)),
      (''segment_id'', JStr (segment_id s)),
      (''seq'', JInt seq),
      (''subject_id'', opt_text (subject_id e)),
      (''tenant_id'', JStr (seg_tenant_id s)),
      (''workspace_id'', JStr (seg_workspace_id s))]"

definition payload_digest :: "audit_event \<Rightarrow> string" where
  "payload_digest e = sha256_hex (audit_json (ae_payload e))"

text \<open>The text whose digest is the checksum of an entry.\<close>

definition link_text :: "audit_segment \<Rightarrow> string \<Rightarrow> int \<Rightarrow> audit_event \<Rightarrow> string" where
  "link_text s previous seq e = previous @ audit_json (envelope_of s seq e) @ payload_digest e"

definition append_event :: "audit_segment \<Rightarrow> audit_event \<Rightarrow> audit_segment result" where
  "append_event s e =
     (if closed s then Inl (ValueError ''closed audit segments are immutable'')
      else if \<exists>n \<in> set (entries s). event_id (en_event n) = event_id e
      then Inl (ValueError ''event_id must be unique within a segment'')
      else let seq = int (length (entries s)) + 1;
        chk = sha256_hex (link_text s (final_checksum s) seq e) in
        Inr (s\<lparr>entries := entries s @ [\<lparr>en_tenant_id = seg_tenant_id s,
            en_workspace_id = seg_workspace_id s, en_segment_id = segment_id s, en_seq = seq,
            en_event = e, payload_hash = payload_digest e, previous_checksum = final_checksum s,
            checksum = chk\<rparr>],
          final_checksum := chk\<rparr>))"

definition entry_failure ::
    "audit_segment \<Rightarrow> audit_entry \<Rightarrow> int \<Rightarrow> string \<Rightarrow> string set \<Rightarrow> string option \<times> string" where
  "entry_failure s n expected_seq previous event_ids = (let
     chk = sha256_hex (link_text s previous (en_seq n) (en_event n))
   in (if en_seq n \<noteq> expected_seq then Some ''sequence_mismatch''
       else if event_id (en_event n) \<in> event_ids then Some ''duplicate_event_id''
       else if previous_checksum n \<noteq> previous then Some ''previous_checksum_mismatch''
       else if payload_hash n \<noteq> payload_digest (en_event n) then Some ''payload_hash_mismatch''
       else if checksum n \<noteq> chk then Some ''checksum_mismatch''
       else None, chk))"

text \<open>The loop of \<open>verify_segment\<close>: the failure it breaks with, or the checksum it ends on.\<close>

fun verify_entries ::
    "audit_segment \<Rightarrow> int \<Rightarrow> string \<Rightarrow> string set \<Rightarrow> audit_entry list \<Rightarrow> string option \<times> string" where
  "verify_entries s i previous ids [] = (None, previous)"
| "verify_entries s i previous ids (n # ns) = (case entry_failure s n i previous ids of
     (Some f, chk) \<Rightarrow> (Some f, previous)
   | (None, chk) \<Rightarrow> verify_entries s (i + 1) chk (insert (event_id (en_event n)) ids) ns)"

definition verify_segment :: "audit_segment \<Rightarrow> signed_anchor option \<Rightarrow> bool \<Rightarrow> verification_result" where
  "verify_segment s anchor require_external_anchor = (let
     (f, previous) = verify_entries s 1 genesis_checksum {} (entries s);
     anchor_valid = (case anchor of None \<Rightarrow> False | Some a \<Rightarrow> anchor_verifies a s);
     f' = (if f = None \<and> previous \<noteq> final_checksum s then Some ''final_checksum_mismatch''
       else if f = None \<and> require_external_anchor \<and> \<not> anchor_valid then Some ''external_anchor_required''
       else if f = None \<and> anchor \<noteq> None \<and> \<not> anchor_valid then Some ''invalid_external_anchor''
       else f)
   in \<lparr>valid = (f' = None), failure = f'\<rparr>)"

definition purge_segment ::
    "audit_segment \<Rightarrow> signed_anchor option \<Rightarrow> string \<Rightarrow> string \<Rightarrow> datetime \<Rightarrow> deletion_proof result" where
  "purge_segment s anchor policy authorizer at =
     (if \<not> closed s then Inl (ValueError ''only closed audit segments can be purged'')
      else if \<not> aware at then Inl (ValueError ''purged_at must be timezone-aware'')
      else if blank policy \<or> blank authorizer
      then Inl (ValueError ''purge policy and actor are required'')
      else let v = verify_segment s anchor True in
        case anchor of
          None \<Rightarrow> Inl (ValueError (case failure v of None \<Rightarrow> ''invalid audit segment'' | Some f \<Rightarrow> f))
        | Some a \<Rightarrow>
            if \<not> valid v
            then Inl (ValueError (case failure v of None \<Rightarrow> ''invalid audit segment'' | Some f \<Rightarrow> f))
            else Inr \<lparr>dp_tenant_id = seg_tenant_id s, dp_workspace_id = seg_workspace_id s,
              dp_segment_id = segment_id s, dp_checksum = final_checksum s,
              entry_count = int (length (entries s)), dp_policy_id = policy,
              dp_authorized_by = authorizer, purged_at = at, anchor_signature = an_signature a,
              proof_hash = sha256_hex (audit_json
                [(''anchor_signature'', JStr (an_signature a)),
                 (''authorized_by'', JStr authorizer),
                 (''entry_count'', JInt (int (length (entries s)))),
                 (''policy_id'', JStr policy),
                 (''purged_at'', JStr (isoformat at)),
                 (''segment_checksum'', JStr (final_checksum s)),
                 (''segment_id'', JStr (segment_id s)),
                 (''tenant_id'', JStr (seg_tenant_id s)),
                 (''workspace_id'', JStr (seg_workspace_id s))])\<rparr>)"

section \<open>Chains\<close>

lemma scope_updates [simp]:
  "link_text (s\<lparr>entries := x\<rparr>) = link_text s" "link_text (s\<lparr>closed := b\<rparr>) = link_text s"
  "link_text (s\<lparr>final_checksum := c\<rparr>) = link_text s"
  by (intro ext, simp add: link_text_def envelope_of_def)+

lemma entry_failure_updates [simp]: "entry_failure (s\<lparr>entries := x\<rparr>) n i p ids = entry_failure s n i p ids"
  by (simp add: entry_failure_def)

lemma verify_scope_updates [simp]:
  "verify_entries (s\<lparr>entries := x\<rparr>) i p ids ns = verify_entries s i p ids ns"
  "verify_entries (s\<lparr>closed := b\<rparr>) i p ids ns = verify_entries s i p ids ns"
  "verify_entries (s\<lparr>final_checksum := c\<rparr>) i p ids ns = verify_entries s i p ids ns"
  by (induction ns arbitrary: i p ids) (auto simp: entry_failure_def Let_def split: option.split)

lemma verify_entries_snoc:
  "verify_entries s i p ids (ns @ [n]) = (case verify_entries s i p ids ns of
     (Some f, q) \<Rightarrow> (Some f, q)
   | (None, q) \<Rightarrow> (case entry_failure s n (i + int (length ns)) q
         (ids \<union> (\<lambda>m. event_id (en_event m)) ` set ns) of
       (Some f, chk) \<Rightarrow> (Some f, q) | (None, chk) \<Rightarrow> (None, chk)))"
  by (induction ns arbitrary: i p ids) (auto simp: algebra_simps split: prod.split option.split)

definition verified :: "audit_segment \<Rightarrow> bool" where
  "verified s \<longleftrightarrow> verify_entries s 1 genesis_checksum {} (entries s) = (None, final_checksum s)"

lemma valid_verify_segment:
  "valid (verify_segment s anchor req) \<longleftrightarrow> verified s
     \<and> (case anchor of None \<Rightarrow> \<not> req | Some a \<Rightarrow> anchor_verifies a s)"
  by (cases "verify_entries s 1 genesis_checksum {} (entries s)")
    (auto simp: verify_segment_def verified_def Let_def split: option.splits if_splits)

lemma append_verified:
  assumes "append_event s e = Inr t" and "verified s"
  shows "verified t"
proof -
  have fresh: "event_id e \<notin> (\<lambda>m. event_id (en_event m)) ` set (entries s)"
    using assms(1) by (auto simp: append_event_def split: if_splits)
  have t: "t = s\<lparr>entries := entries s @ [\<lparr>en_tenant_id = seg_tenant_id s,
            en_workspace_id = seg_workspace_id s, en_segment_id = segment_id s,
            en_seq = int (length (entries s)) + 1,
            en_event = e, payload_hash = payload_digest e, previous_checksum = final_checksum s,
            checksum = sha256_hex (link_text s (final_checksum s) (int (length (entries s)) + 1) e)\<rparr>],
          final_checksum := sha256_hex (link_text s (final_checksum s) (int (length (entries s)) + 1) e)\<rparr>"
    using assms(1) by (auto simp: append_event_def Let_def split: if_splits)
  show ?thesis
    using assms(2) fresh unfolding verified_def t
    by (simp add: verify_entries_snoc entry_failure_def Let_def algebra_simps)
qed

text \<open>The checksum of a sequence of events, the latest first, and the texts hashed on the way.\<close>

fun chain_checksum :: "audit_segment \<Rightarrow> audit_event list \<Rightarrow> string" where
  "chain_checksum s [] = genesis_checksum"
| "chain_checksum s (e # es) = sha256_hex (link_text s (chain_checksum s es) (int (length es) + 1) e)"

fun chain_texts :: "audit_segment \<Rightarrow> audit_event list \<Rightarrow> string list" where
  "chain_texts s [] = []"
| "chain_texts s (e # es) = link_text s (chain_checksum s es) (int (length es) + 1) e
     # audit_json (ae_payload e) # chain_texts s es"

lemma verify_entries_chain:
  "verify_entries s 1 genesis_checksum {} ns = (None, c) \<Longrightarrow> c = chain_checksum s (rev (map en_event ns))
     \<and> map en_seq ns = map (\<lambda>k. int k + 1) [0..<length ns]"
proof (induction ns arbitrary: c rule: rev_induct)
  case Nil
  then show ?case by simp
next
  case (snoc n ns)
  then obtain q where q: "verify_entries s 1 genesis_checksum {} ns = (None, q)"
    and n: "entry_failure s n (1 + int (length ns)) q ((\<lambda>m. event_id (en_event m)) ` set ns) = (None, c)"
    by (auto simp: verify_entries_snoc split: prod.splits option.splits)
  from n have "en_seq n = 1 + int (length ns)" "c = sha256_hex (link_text s q (en_seq n) (en_event n))"
    by (auto simp: entry_failure_def Let_def split: if_splits)
  with snoc.IH [OF q] show ?case by (simp add: algebra_simps)
qed

definition same_event :: "audit_event \<Rightarrow> audit_event \<Rightarrow> bool" where
  "same_event e f \<longleftrightarrow> event_id e = event_id f \<and> ae_type e = ae_type f \<and> ae_actor e = ae_actor f
     \<and> subject_id e = subject_id f \<and> causation_id e = causation_id f
     \<and> correlation_id e = correlation_id f
     \<and> isoformat (ae_created_at e) = isoformat (ae_created_at f)
     \<and> sort_keys (JObj (ae_payload e)) = sort_keys (JObj (ae_payload f))"

definition same_scope :: "audit_segment \<Rightarrow> audit_segment \<Rightarrow> bool" where
  "same_scope s t \<longleftrightarrow> seg_tenant_id s = seg_tenant_id t \<and> seg_workspace_id s = seg_workspace_id t
     \<and> segment_id s = segment_id t"

text \<open>The hash is broken on the texts of two segments: a collision, or a preimage of the genesis value.\<close>

definition hash_broken :: "string list \<Rightarrow> string list \<Rightarrow> bool" where
  "hash_broken xs ys \<longleftrightarrow> (\<exists>x \<in> set xs. \<exists>y \<in> set ys. sha256_collision x y)
     \<or> (\<exists>x \<in> set xs \<union> set ys. sha256_hex x = genesis_checksum)"

lemma envelope_ok: "json_wf (JObj (envelope_of s q e))" "distinct (map fst (envelope_of s q e))"
  by (auto simp: envelope_of_def opt_text_def split: option.split)

lemma opt_text_inject [simp]: "opt_text a = opt_text b \<longleftrightarrow> a = b"
  by (auto simp: opt_text_def split: option.splits)

lemma sort_keys_opt_text [simp]: "sort_keys (opt_text v) = opt_text v"
  by (simp add: opt_text_def split: option.split)

lemma envelope_inject:
  assumes "audit_json (envelope_of s q e) = audit_json (envelope_of t r f)"
  shows "same_scope s t \<and> q = r \<and> event_id e = event_id f \<and> ae_type e = ae_type f \<and> ae_actor e = ae_actor f
    \<and> subject_id e = subject_id f \<and> causation_id e = causation_id f \<and> correlation_id e = correlation_id f
    \<and> isoformat (ae_created_at e) = isoformat (ae_created_at f)"
proof -
  note look = json_dumps_obj_eq [OF envelope_ok(1) envelope_ok(1) envelope_ok(2) envelope_ok(2)
      assms [unfolded audit_json_def]]
  from look [of "''actor''"] look [of "''causation_id''"] look [of "''correlation_id''"]
    look [of "''created_at''"] look [of "''event_id''"] look [of "''event_type''"]
    look [of "''segment_id''"] look [of "''seq''"] look [of "''subject_id''"]
    look [of "''tenant_id''"] look [of "''workspace_id''"]
  show ?thesis by (simp add: envelope_of_def same_scope_def)
qed

lemma length_chain_checksum [simp]: "length (chain_checksum s es) = 64"
  by (cases es) (simp_all add: genesis_checksum_def)

lemma link_text_inject:
  assumes "link_text s p q e = link_text t p' r f" and "length p = 64" and "length p' = 64"
  shows "p = p' \<and> audit_json (envelope_of s q e) = audit_json (envelope_of t r f)
    \<and> payload_digest e = payload_digest f"
proof -
  have "length (payload_digest e) = length (payload_digest f)" by (simp add: payload_digest_def)
  with assms show ?thesis by (simp add: link_text_def append_eq_append_conv)
qed

lemma chain_checksum_eq:
  assumes "chain_checksum s es = chain_checksum t fs"
    and "\<forall>e \<in> set es \<union> set fs. json_wf (JObj (ae_payload e))"
    and "\<not> hash_broken (chain_texts s es) (chain_texts t fs)"
  shows "list_all2 same_event es fs \<and> (es \<noteq> [] \<longrightarrow> same_scope s t)"
  using assms
proof (induction es arbitrary: fs)
  case Nil
  then show ?case by (cases fs) (auto simp: hash_broken_def)
next
  case (Cons e es)
  show ?case
  proof (cases fs)
    case Nil
    with Cons.prems(1,3) show ?thesis by (auto simp: hash_broken_def)
  next
    case fs: (Cons f fs')
    let ?x = "link_text s (chain_checksum s es) (int (length es) + 1) e"
      and ?y = "link_text t (chain_checksum t fs') (int (length fs') + 1) f"
    have "sha256_hex ?x = sha256_hex ?y" using Cons.prems(1) fs by simp
    moreover have "\<not> sha256_collision ?x ?y" using Cons.prems(3) fs by (auto simp: hash_broken_def)
    ultimately have "?x = ?y" using sha256_hex_eq by blast
    then have link: "chain_checksum s es = chain_checksum t fs'"
      "audit_json (envelope_of s (int (length es) + 1) e) = audit_json (envelope_of t (int (length fs') + 1) f)"
      "payload_digest e = payload_digest f"
      using link_text_inject by simp_all
    have "\<not> sha256_collision (audit_json (ae_payload e)) (audit_json (ae_payload f))"
      using Cons.prems(3) fs by (auto simp: hash_broken_def)
    with link(3) have "audit_json (ae_payload e) = audit_json (ae_payload f)"
      unfolding payload_digest_def using sha256_hex_eq by blast
    then have "sort_keys (JObj (ae_payload e)) = sort_keys (JObj (ae_payload f))"
      unfolding audit_json_def by (intro json_dumps_eq [of _ _ False]) (use Cons.prems(2) fs in simp_all)
    with envelope_inject [OF link(2)] have "same_event e f" "same_scope s t"
      by (simp_all add: same_event_def)
    moreover have "\<not> hash_broken (chain_texts s es) (chain_texts t fs')"
      using Cons.prems(3) fs by (auto simp: hash_broken_def)
    then have "list_all2 same_event es fs'"
      using Cons.IH [OF link(1)] Cons.prems(2) fs by simp
    ultimately show ?thesis using fs by simp
  qed
qed

section \<open>Runs of a segment\<close>

inductive audit_step :: "audit_segment \<Rightarrow> audit_segment \<Rightarrow> bool" where
  step_append: "append_event s e = Inr t \<Longrightarrow> audit_step s t"
| step_close: "close_segment s = Inr t \<Longrightarrow> audit_step s t"

inductive audit_reachable :: "audit_segment \<Rightarrow> bool" where
  opened: "open_segment tenant workspace segment = Inr s \<Longrightarrow> audit_reachable s"
| stepped: "audit_reachable s \<Longrightarrow> audit_step s t \<Longrightarrow> audit_reachable t"

inductive_cases audit_stepE: "audit_step s t"

lemma audit_step_verified: "audit_step s t \<Longrightarrow> verified s \<Longrightarrow> verified t"
  by (erule audit_stepE, erule append_verified, assumption)
    (auto simp: close_segment_def verified_def split: if_splits)

lemma audit_reachable_verified: "audit_reachable s \<Longrightarrow> verified s"
proof (induction rule: audit_reachable.induct)
  case (opened tenant workspace segment s)
  then show ?case by (auto simp: open_segment_def verified_def split: if_splits)
next
  case (stepped s t)
  then show ?case by (blast intro: audit_step_verified)
qed

lemma audit_step_prefix: "audit_step s t \<Longrightarrow> prefix (entries s) (entries t) \<and> (closed s \<longrightarrow> entries t = entries s)"
  by (erule audit_stepE) (auto simp: append_event_def close_segment_def Let_def split: if_splits)

section \<open>Properties\<close>

text \<open>
  C22: every segment that was opened, appended to and closed verifies, and so does its test anchor;
  its entries are never rewritten, only extended, and not at all once it is closed; and a closed
  segment is purged exactly with a verifying anchor, a policy and an actor, under a proof that names
  its checksum and the number of its entries.
\<close>

theorem audit_reachable_verifies:
  assumes "audit_reachable s"
  shows "valid (verify_segment s None False)
    \<and> (\<forall>t. audit_step s t \<longrightarrow> prefix (entries s) (entries t) \<and> (closed s \<longrightarrow> entries t = entries s))
    \<and> (\<forall>signer a. sign_for_test s signer = Inr a \<longrightarrow> valid (verify_segment s (Some a) True))
    \<and> ((\<exists>d. purge_segment s anchor policy authorizer at = Inr d) \<longleftrightarrow>
        closed s \<and> aware at \<and> \<not> blank policy \<and> \<not> blank authorizer
        \<and> (\<exists>a. anchor = Some a \<and> anchor_verifies a s))
    \<and> (\<forall>d. purge_segment s anchor policy authorizer at = Inr d \<longrightarrow>
        dp_checksum d = final_checksum s \<and> entry_count d = int (length (entries s)))"
proof -
  have v: "verified s" using assms by (rule audit_reachable_verified)
  have "anchor_verifies a s" if "sign_for_test s signer = Inr a" for signer a
    using that by (auto simp: sign_for_test_def anchor_verifies_def split: if_splits)
  then show ?thesis
    using v audit_step_prefix
    by (auto simp: valid_verify_segment purge_segment_def Let_def split: option.splits if_splits)
qed

text \<open>
  C23: the final checksum determines the chain. Two segments that verify and end on the same checksum
  have the same scope and, entry by entry, the same sequence number, event identity, type, actor,
  subject, causation, correlation, rendered time and canonical payload, or the hash is broken on the
  texts of these two chains.
\<close>

theorem audit_chain_tamper_evident:
  assumes "valid (verify_segment s a req)" and "valid (verify_segment t b req')"
    and "final_checksum s = final_checksum t" and "entries s \<noteq> []"
    and "\<forall>n \<in> set (entries s) \<union> set (entries t). json_wf (JObj (ae_payload (en_event n)))"
  shows "same_scope s t \<and> list_all2 same_event (map en_event (entries s)) (map en_event (entries t))
      \<and> map en_seq (entries s) = map en_seq (entries t)
    \<or> hash_broken (chain_texts s (rev (map en_event (entries s)))) (chain_texts t (rev (map en_event (entries t))))"
proof (rule disjCI)
  assume unbroken: "\<not> hash_broken (chain_texts s (rev (map en_event (entries s)))) (chain_texts t (rev (map en_event (entries t))))"
  show "same_scope s t \<and> list_all2 same_event (map en_event (entries s)) (map en_event (entries t))
    \<and> map en_seq (entries s) = map en_seq (entries t)"
proof -
  have s: "final_checksum s = chain_checksum s (rev (map en_event (entries s)))"
    "map en_seq (entries s) = map (\<lambda>k. int k + 1) [0..<length (entries s)]"
    and t: "final_checksum t = chain_checksum t (rev (map en_event (entries t)))"
    "map en_seq (entries t) = map (\<lambda>k. int k + 1) [0..<length (entries t)]"
    using assms(1,2) verify_entries_chain by (auto simp: valid_verify_segment verified_def)
  have "chain_checksum s (rev (map en_event (entries s))) = chain_checksum t (rev (map en_event (entries t)))"
    using s t assms(3) by simp
  from chain_checksum_eq [OF this _ unbroken] assms(4,5)
  have c: "list_all2 same_event (rev (map en_event (entries s))) (rev (map en_event (entries t)))" "same_scope s t"
    by (auto simp: ball_Un)
  then have "list_all2 same_event (map en_event (entries s)) (map en_event (entries t))"
    by (simp only: list_all2_rev)
  moreover from this have "length (entries s) = length (entries t)"
    by (metis list_all2_lengthD length_map)
  ultimately show ?thesis using c s(2) t(2) by simp
qed
qed

section \<open>A concrete segment\<close>

definition sample_event :: "string \<Rightarrow> audit_event" where
  "sample_event k = \<lparr>event_id = k, ae_type = ''t'', ae_actor = ''ana'', subject_id = None,
     causation_id = ''c'', correlation_id = ''c'', ae_created_at = Datetime 0 (Some 0),
     ae_payload = [(''n'', JInt 1)]\<rparr>"

definition sample_segment :: audit_segment where
  "sample_segment = \<lparr>seg_tenant_id = ''t'', seg_workspace_id = ''w'', segment_id = ''s'',
     entries = [], closed = False, final_checksum = genesis_checksum\<rparr>"

lemma append_event_entries:
  "append_event s e = Inr t \<Longrightarrow> map en_event (entries t) = map en_event (entries s) @ [e] \<and> closed t = closed s"
  by (auto simp: append_event_def Let_def split: if_splits)

lemma append_event_ok:
  "\<not> closed s \<Longrightarrow> event_id e \<notin> event_id ` set (map en_event (entries s)) \<Longrightarrow> \<exists>t. append_event s e = Inr t"
  by (auto simp: append_event_def Let_def image_iff)

lemma sample_segment_run:
  "\<exists>s. audit_reachable s \<and> map en_event (entries s) = [sample_event ''a'', sample_event ''b'']"
proof -
  have "open_segment ''t'' ''w'' ''s'' = Inr sample_segment"
    by (simp add: open_segment_def sample_segment_def blank_iff is_space_def)
  then have r: "audit_reachable sample_segment" by (rule opened)
  have o: "entries sample_segment = []" "\<not> closed sample_segment" by (simp_all add: sample_segment_def)
  obtain s where s: "append_event sample_segment (sample_event ''a'') = Inr s"
    using append_event_ok [of sample_segment "sample_event ''a''"] o by auto
  note se = append_event_entries [OF s]
  have "event_id (sample_event ''b'') \<notin> event_id ` set (map en_event (entries s))"
    unfolding se [THEN conjunct1] using o by (simp add: sample_event_def)
  then obtain t where t: "append_event s (sample_event ''b'') = Inr t"
    using append_event_ok [of s "sample_event ''b''"] se o by auto
  have "audit_reachable t" using r s t by (blast intro: stepped step_append)
  moreover have "map en_event (entries t) = [sample_event ''a'', sample_event ''b'']"
    using append_event_entries [OF t] se o by simp
  ultimately show ?thesis by (intro exI conjI)
qed

lemma audit_reachable_verifies_witness:
  "\<exists>s. valid (verify_segment s None False) \<and> length (entries s) = 2"
proof -
  obtain s where s: "audit_reachable s" "map en_event (entries s) = [sample_event ''a'', sample_event ''b'']"
    using sample_segment_run by (elim exE conjE)
  from s(2) have "length (entries s) = 2" by (auto simp: map_eq_Cons_conv)
  with audit_reachable_verifies [OF s(1)] show ?thesis by blast
qed

lemma audit_chain_tamper_evident_witness:
  "\<exists>s. valid (verify_segment s None False) \<and> entries s \<noteq> []
     \<and> (list_all2 same_event (map en_event (entries s)) (map en_event (entries s))
       \<or> hash_broken (chain_texts s (rev (map en_event (entries s)))) (chain_texts s (rev (map en_event (entries s)))))"
proof -
  obtain s where s: "audit_reachable s" "map en_event (entries s) = [sample_event ''a'', sample_event ''b'']"
    using sample_segment_run by (elim exE conjE)
  have v: "valid (verify_segment s None False)"
    using audit_reachable_verified [OF s(1)] by (simp add: valid_verify_segment)
  have ne: "entries s \<noteq> []" using s(2) by auto
  have "json_wf (JObj (ae_payload (en_event n)))" if "n \<in> set (entries s)" for n
  proof -
    have "en_event n \<in> set (map en_event (entries s))" using that by simp
    then show ?thesis unfolding s(2) by (auto simp: sample_event_def)
  qed
  then have "\<forall>n \<in> set (entries s) \<union> set (entries s). json_wf (JObj (ae_payload (en_event n)))" by blast
  from audit_chain_tamper_evident [OF v v refl ne this] ne v show ?thesis by blast
qed

section \<open>What verification does not cover\<close>

text \<open>The scope an entry carries is not compared with its segment: rewriting it leaves the segment valid.\<close>

lemma entry_scope_unverified:
  assumes "valid (verify_segment s None False)" and "entries s = ns @ [n]"
  shows "valid (verify_segment (s\<lparr>entries := ns @ [n\<lparr>en_tenant_id := x, en_workspace_id := y, en_segment_id := z\<rparr>]\<rparr>)
    None False)"
proof -
  have "entry_failure u (n\<lparr>en_tenant_id := x, en_workspace_id := y, en_segment_id := z\<rparr>) i p ids
      = entry_failure u n i p ids" for u i p ids
    by (cases n) (simp add: entry_failure_def Let_def)
  with assms show ?thesis
    by (simp add: valid_verify_segment verified_def verify_entries_snoc
        cong: option.case_cong prod.case_cong)
qed

end
