(* ===== verification/Setup_Contracts.thy ===== *)
theory Setup_Contracts
  imports Errors Py_Json
begin

text \<open>
  \<open>contracts/setup.py\<close>: the models of the setup centre and their validators. A model that fails its
  validation raises \<open>ValidationError\<close>, a \<open>ValueError\<close> whose report text is not modelled. A dict of
  scalars is an association list with distinct keys.
\<close>

section \<open>Enumerations and scalars\<close>

datatype setup_profile = DEVELOPMENT | PRODUCTION

datatype capability_name =
  LOCAL_RUNTIME | GITHUB_INTEGRATION | RELEASE_CERTIFICATION | PRODUCTION_CUTOVER

datatype check_state = READY | REPAIRABLE | NEEDS_INPUT | BLOCKED | NOT_REQUIRED

datatype action_state =
    ACTION_PENDING | RUNNING | APPLIED | VERIFIED | FAILED | COMPENSATING | COMPENSATED
  | MANUAL_RECOVERY_REQUIRED

fun profile_value :: "setup_profile \<Rightarrow> string" where
  "profile_value DEVELOPMENT = ''development''"
| "profile_value PRODUCTION = ''production''"

fun capability_value :: "capability_name \<Rightarrow> string" where
  "capability_value LOCAL_RUNTIME = ''local_runtime''"
| "capability_value GITHUB_INTEGRATION = ''github_integration''"
| "capability_value RELEASE_CERTIFICATION = ''release_certification''"
| "capability_value PRODUCTION_CUTOVER = ''production_cutover''"

fun check_state_value :: "check_state \<Rightarrow> string" where
  "check_state_value READY = ''ready''"
| "check_state_value REPAIRABLE = ''repairable''"
| "check_state_value NEEDS_INPUT = ''needs_input''"
| "check_state_value BLOCKED = ''blocked''"
| "check_state_value NOT_REQUIRED = ''not_required''"

fun action_state_value :: "action_state \<Rightarrow> string" where
  "action_state_value ACTION_PENDING = ''pending''"
| "action_state_value RUNNING = ''running''"
| "action_state_value APPLIED = ''applied''"
| "action_state_value VERIFIED = ''verified''"
| "action_state_value FAILED = ''failed''"
| "action_state_value COMPENSATING = ''compensating''"
| "action_state_value COMPENSATED = ''compensated''"
| "action_state_value MANUAL_RECOVERY_REQUIRED = ''manual_recovery_required''"

datatype scalar = SStr string | SInt int | SBool bool | SNone

type_synonym payload = "(string \<times> scalar) list"

fun scalar_json :: "scalar \<Rightarrow> json" where
  "scalar_json (SStr s) = JStr s"
| "scalar_json (SInt i) = JInt i"
| "scalar_json (SBool b) = JBool b"
| "scalar_json SNone = JNull"

definition payload_json :: "payload \<Rightarrow> json" where
  "payload_json p = JObj (map (\<lambda>(k, v). (k, scalar_json v)) p)"

section \<open>Secrets\<close>

text \<open>\<open>str.casefold\<close> below code point 256; the micro sign folds outside that range and is kept.\<close>

definition casefold_char :: "char \<Rightarrow> string" where
  "casefold_char c = (let n = (of_char c :: nat) in
     if n = 223 then ''ss''
     else if (65 \<le> n \<and> n \<le> 90) \<or> (192 \<le> n \<and> n \<le> 222 \<and> n \<noteq> 215) then [char_of (n + 32)]
     else [c])"

definition normalized_key :: "string \<Rightarrow> string" where
  "normalized_key k = map (\<lambda>c. if c = CHR ''-'' then CHR ''_'' else c) (concat (map casefold_char k))"

definition secret_markers :: "string list" where
  "secret_markers = [''password'', ''token'', ''private_key'', ''private_key'', ''secret'']"

definition reference_schemes :: "string list" where
  "reference_schemes = [''keyring://'', ''env://'', ''gh-cli://'']"

definition secret_key :: "string \<Rightarrow> bool" where
  "secret_key k \<longleftrightarrow> (\<exists>m \<in> set secret_markers. sublist m (normalized_key k))"

definition is_reference :: "scalar \<Rightarrow> bool" where
  "is_reference v \<longleftrightarrow> (case v of SStr s \<Rightarrow> \<exists>p \<in> set reference_schemes. starts_with s p | _ \<Rightarrow> False)"

definition secret_free :: "payload \<Rightarrow> bool" where
  "secret_free p \<longleftrightarrow> (\<forall>(k, v) \<in> set p. secret_key k \<longrightarrow> is_reference v)"

definition reject_secret_mapping :: "payload \<Rightarrow> unit result" where
  "reject_secret_mapping p = (case find (\<lambda>(k, v). secret_key k \<and> \<not> is_reference v) p of
     None \<Rightarrow> Inr ()
   | Some (k, v) \<Rightarrow> Inl (ValueError (''secret-bearing field is forbidden: '' @ k)))"

text \<open>\<open>value.partition(sep)\<close>\<close>

fun partition_str :: "string \<Rightarrow> string \<Rightarrow> string \<times> string \<times> string" where
  "partition_str sep [] = ([], [], [])"
| "partition_str sep (c # s) =
     (if starts_with (c # s) sep then ([], sep, drop (length sep) (c # s))
      else let (a, m, b) = partition_str sep s in
        if m = [] then (c # s, [], []) else (c # a, m, b))"

record secret_reference =
  uri :: string

definition validation_error :: "string \<Rightarrow> exn" where
  "validation_error model = ValueError (''validation error for '' @ model)"

definition sized :: "nat \<Rightarrow> nat \<Rightarrow> string \<Rightarrow> bool" where
  "sized lo hi s \<longleftrightarrow> lo \<le> length s \<and> length s \<le> hi"

definition new_secret_reference :: "secret_reference \<Rightarrow> secret_reference result" where
  "new_secret_reference r = (let (scheme, separator, remainder) = partition_str ''://'' (uri r) in
     if \<not> sized 8 512 (uri r) then Inl (validation_error ''SecretReference'')
     else if separator \<noteq> ''://'' \<or> scheme \<notin> {''keyring'', ''env'', ''gh-cli''}
     then Inl (ValueError ''secret reference must use keyring://, env://, or gh-cli://'')
     else if remainder = [] \<or> (\<exists>c \<in> set (uri r). is_space c)
     then Inl (ValueError ''secret reference must contain a non-empty opaque path'')
     else Inr r)"

definition reference_scheme :: "secret_reference \<Rightarrow> string" where
  "reference_scheme r = fst (partition_str ''://'' (uri r))"

section \<open>Models\<close>

record detection_check =
  check_id :: string
  check_state :: check_state
  check_summary :: string
  check_impact :: string
  remediation :: "string list"
  check_evidence :: payload

definition new_detection_check :: "detection_check \<Rightarrow> detection_check result" where
  "new_detection_check c =
     (if \<not> sized 1 128 (check_id c) \<or> \<not> sized 1 512 (check_summary c) \<or> \<not> sized 1 1024 (check_impact c)
      then Inl (validation_error ''DetectionCheck'')
      else bind_result (reject_secret_mapping (check_evidence c)) (\<lambda>_. Inr c))"

record detection_snapshot =
  snapshot_id :: string
  ds_profile :: setup_profile
  ds_config_revision :: string
  checks :: "detection_check list"

datatype risk = LOW | MEDIUM | HIGH

record setup_action =
  action_id :: string
  action_title :: string
  action_reason :: string
  action_risk :: risk
  reversible :: bool
  depends_on :: "string list"
  action_kind :: string
  parameters :: payload

definition new_setup_action :: "setup_action \<Rightarrow> setup_action result" where
  "new_setup_action a =
     (if \<not> sized 1 128 (action_id a) \<or> \<not> sized 1 256 (action_title a) \<or> \<not> sized 1 1024 (action_reason a)
       \<or> \<not> sized 1 128 (action_kind a)
      then Inl (validation_error ''SetupAction'')
      else bind_result (reject_secret_mapping (parameters a)) (\<lambda>_.
        if action_id a \<in> set (depends_on a) then Inl (ValueError ''action cannot depend on itself'')
        else Inr a))"

record setup_plan =
  plan_id :: string
  plan_profile :: setup_profile
  detection_snapshot_id :: string
  plan_config_revision :: string
  plan_actions :: "setup_action list"

fun dependency_ordered :: "string set \<Rightarrow> setup_action list \<Rightarrow> bool" where
  "dependency_ordered known [] = True"
| "dependency_ordered known (a # as) \<longleftrightarrow>
     set (depends_on a) \<subseteq> known \<and> dependency_ordered (insert (action_id a) known) as"

definition new_setup_plan :: "setup_plan \<Rightarrow> setup_plan result" where
  "new_setup_plan p = (let action_ids = map action_id (plan_actions p) in
     if length action_ids \<noteq> card (set action_ids) then Inl (ValueError ''setup action IDs must be unique'')
     else if \<not> dependency_ordered {} (plan_actions p)
     then Inl (ValueError ''actions must be serialized in dependency order'')
     else Inr p)"

definition assert_current :: "setup_plan \<Rightarrow> detection_snapshot \<Rightarrow> string \<Rightarrow> unit result" where
  "assert_current p snapshot config_revision =
     (if detection_snapshot_id p \<noteq> snapshot_id snapshot \<or> plan_config_revision p \<noteq> config_revision
      then Inl (StaleSetupPlanError ''setup plan is stale; detect and review again'')
      else Inr ())"

record action_result =
  result_action_id :: string
  result_state :: action_state
  result_message :: string
  redacted_evidence :: payload

definition new_action_result :: "action_result \<Rightarrow> action_result result" where
  "new_action_result r = bind_result (reject_secret_mapping (redacted_evidence r)) (\<lambda>_. Inr r)"

record capability_report =
  capability :: capability_name
  cap_state :: check_state
  cap_reason :: string
  cap_impact :: string
  next_actions :: "string list"
  supporting_check_ids :: "string list"

record setup_envelope =
  env_session_id :: "string option"
  env_detection :: "detection_snapshot option"
  env_plan :: "setup_plan option"
  env_capabilities :: "capability_report list"
  env_results :: "action_result list"

section \<open>What the validators accept\<close>

lemma reject_secret_mapping_Inr [result_simps]: "reject_secret_mapping p = Inr u \<longleftrightarrow> secret_free p"
proof -
  have "find (\<lambda>(k, v). secret_key k \<and> \<not> is_reference v) p = None \<longleftrightarrow> secret_free p"
    by (auto simp: find_None_iff secret_free_def)
  then show ?thesis
    by (auto simp: reject_secret_mapping_def split: option.splits prod.splits)
qed

lemma new_action_result_Inr [result_simps]:
  "new_action_result r = Inr s \<longleftrightarrow> secret_free (redacted_evidence r) \<and> s = r"
  by (auto simp: new_action_result_def result_simps)

lemma distinct_card_list: "length xs = card (set xs) \<longleftrightarrow> distinct xs"
  by (metis card_distinct distinct_card)

lemma new_setup_plan_Inr [result_simps]:
  "new_setup_plan p = Inr q \<longleftrightarrow> distinct (map action_id (plan_actions p))
     \<and> dependency_ordered {} (plan_actions p) \<and> q = p"
  using distinct_card_list [of "map action_id (plan_actions p)"]
  by (auto simp: new_setup_plan_def Let_def)

lemma dependency_ordered_snoc:
  "dependency_ordered known (as @ [a]) \<longleftrightarrow> dependency_ordered known as
     \<and> set (depends_on a) \<subseteq> known \<union> action_id ` set as"
  by (induction as arbitrary: known) auto

lemma dependency_ordered_nth:
  "dependency_ordered {} as \<Longrightarrow> i < length as \<Longrightarrow> d \<in> set (depends_on (as ! i))
     \<Longrightarrow> \<exists>j < i. action_id (as ! j) = d"
proof (induction as rule: rev_induct)
  case (snoc a as)
  then show ?case
  proof (cases "i = length as")
    case True
    then have "d \<in> set (depends_on a)" using snoc.prems(3) by simp
    then have "d \<in> action_id ` set as"
      using snoc.prems(1) unfolding dependency_ordered_snoc by blast
    then obtain j where "j < length as" "action_id (as ! j) = d" by (auto simp: in_set_conv_nth)
    with True show ?thesis by (intro exI [of _ j]) (simp add: nth_append)
  next
    case False
    with snoc.prems(2) have i: "i < length as" by simp
    have o: "dependency_ordered {} as" using snoc.prems(1) by (simp add: dependency_ordered_snoc)
    have d: "d \<in> set (depends_on (as ! i))" using snoc.prems(3) i by (simp add: nth_append)
    obtain j where "j < i" "action_id (as ! j) = d" using snoc.IH [OF o i d] by (elim exE conjE)
    with i show ?thesis by (intro exI [of _ j]) (simp add: nth_append)
  qed
qed simp

end
