(* ===== verification/Setup_Plan.thy ===== *)
theory Setup_Plan
  imports Setup_Contracts Py_Sha256
begin

text \<open>
  \<open>application/setup/planning.py\<close>: from the desired configuration to a plan. The lemmas show when a
  plan exists and that its actions form one chain from the configuration to the final checks.
\<close>

section \<open>Actions\<close>

definition make_action ::
    "string \<Rightarrow> string \<Rightarrow> string \<Rightarrow> risk \<Rightarrow> bool \<Rightarrow> string list \<Rightarrow> string \<Rightarrow> payload \<Rightarrow> setup_action result" where
  "make_action aid title reason r rev_ok deps k params = new_setup_action
     \<lparr>action_id = aid, action_title = title, action_reason = reason, action_risk = r, reversible = rev_ok,
      depends_on = deps, action_kind = k, parameters = params\<rparr>"

text \<open>\<open>desired.get(name)\<close>, and \<open>in (None, "")\<close>\<close>

definition desired_get :: "payload \<Rightarrow> string \<Rightarrow> scalar" where
  "desired_get d k = (case map_of d k of None \<Rightarrow> SNone | Some v \<Rightarrow> v)"

definition unset :: "scalar \<Rightarrow> bool" where
  "unset v \<longleftrightarrow> v = SNone \<or> v = SStr []"

definition required_parameters :: "payload \<Rightarrow> string list \<Rightarrow> string \<Rightarrow> payload result" where
  "required_parameters desired names sect = (let
     missing = filter (\<lambda>n. unset (desired_get desired n)) names
   in if missing \<noteq> []
      then Inl (SetupPlanningInputError (sect @ '' requires: '' @ join '', '' missing))
      else Inr (map (\<lambda>n. (n, desired_get desired n)) names))"

definition config_action :: "setup_profile \<Rightarrow> setup_action result" where
  "config_action p = make_action ''config.write'' ''Write configuration''
     ''Persist selected non-secret configuration'' LOW True [] ''write_config''
     [(''profile'', SStr (profile_value p))]"

definition reference_action :: "string \<Rightarrow> setup_action result" where
  "reference_action repository = make_action ''github.reference'' ''Reference GitHub identity''
     ''Use the selected GitHub sandbox or installation'' LOW True [''config.write'']
     ''github_reference'' [(''repository'', SStr repository)]"

definition development_actions :: "string \<Rightarrow> setup_action list result" where
  "development_actions predecessor = map_result id
     [make_action ''services.local.start'' ''Start local data services''
        ''Provide PostgreSQL and object storage'' MEDIUM True [predecessor] ''docker_compose_up''
        [(''profile'', SStr ''development'')],
      make_action ''database.migrate'' ''Apply database migrations''
        ''Bring the local schema to the supported revision'' MEDIUM False [''services.local.start'']
        ''database_migrate'' [],
      make_action ''storage.verify'' ''Verify object storage'' ''Confirm evidence object lifecycle''
        LOW False [''database.migrate''] ''storage_verify'' [],
      make_action ''checks.fast'' ''Run fast verification'' ''Confirm the runtime is safe to enter''
        LOW False [''storage.verify''] ''run_fast_checks'' []]"

definition github_names :: "string list" where
  "github_names = [''github_repository'', ''github_app_id'', ''github_installation_id'',
     ''github_app_credential_reference'', ''github_webhook_reference'']"

definition service_names :: "string list" where
  "service_names = [''database_endpoint'', ''database_credential_reference'',
     ''object_storage_endpoint'', ''object_storage_credential_reference'']"

definition release_names :: "string list" where
  "release_names = [''release_signing_key_reference'', ''release_key_id'',
     ''release_sandbox_repository'', ''soak_duration_seconds'']"

definition cutover_names :: "string list" where
  "cutover_names = [''cutover_approval_id'', ''cutover_source_revision'', ''cutover_repository'']"

definition optional_action ::
    "bool \<Rightarrow> setup_action list \<Rightarrow> (string \<Rightarrow> setup_action result) \<Rightarrow> setup_action list result" where
  "optional_action wanted actions f = (if \<not> wanted then Inr actions
     else bind_result (f (action_id (last actions))) (\<lambda>a. Inr (actions @ [a])))"

definition production_actions :: "payload \<Rightarrow> string \<Rightarrow> setup_action list result" where
  "production_actions desired predecessor =
     bind_result (required_parameters desired github_names ''GitHub App'') (\<lambda>github_parameters.
     bind_result (required_parameters desired service_names ''external data services'') (\<lambda>service_parameters.
     bind_result (map_result id
       [make_action ''github.app.verify'' ''Verify GitHub App installation''
          ''Validate machine identity and repository permissions'' HIGH False [predecessor]
          ''github_app_verify'' github_parameters,
        make_action ''services.external.verify'' ''Verify external data services''
          ''Confirm TLS, authentication, and service capabilities'' HIGH False
          [''github.app.verify''] ''verify_external_services'' service_parameters]) (\<lambda>actions.
     bind_result (optional_action (desired_get desired ''prepare_release'' = SBool True) actions (\<lambda>prev.
       bind_result (required_parameters desired release_names ''release certification'') (\<lambda>release_parameters.
         make_action ''release.prepare'' ''Prepare Standard release certification''
           ''Validate signing, sandbox, and real soak inputs'' HIGH False [prev]
           ''prepare_release'' release_parameters))) (\<lambda>actions.
     bind_result (optional_action (desired_get desired ''prepare_cutover'' = SBool True) actions (\<lambda>prev.
       bind_result (required_parameters desired cutover_names ''production cutover'') (\<lambda>cutover_parameters.
         make_action ''cutover.prepare'' ''Prepare controlled production cutover''
           ''Validate approval, exact source revision, and target repository'' HIGH False [prev]
           ''prepare_cutover'' cutover_parameters))) (\<lambda>actions.
     optional_action True actions (\<lambda>prev.
       make_action ''checks.fast'' ''Run fast verification''
         ''Confirm configured production dependencies'' LOW False [prev] ''run_fast_checks'' []))))))"

section \<open>The plan\<close>

fun risk_value :: "risk \<Rightarrow> string" where
  "risk_value LOW = ''low''"
| "risk_value MEDIUM = ''medium''"
| "risk_value HIGH = ''high''"

text \<open>\<open>action.model_dump(mode="json")\<close>\<close>

definition action_json :: "setup_action \<Rightarrow> json" where
  "action_json a = JObj
     [(''action_id'', JStr (action_id a)), (''title'', JStr (action_title a)),
      (''reason'', JStr (action_reason a)), (''risk'', JStr (risk_value (action_risk a))),
      (''reversible'', JBool (reversible a)), (''depends_on'', JList (map JStr (depends_on a))),
      (''kind'', JStr (action_kind a)), (''parameters'', payload_json (parameters a))]"

definition plan_canonical ::
    "setup_profile \<Rightarrow> payload \<Rightarrow> detection_snapshot \<Rightarrow> setup_action list \<Rightarrow> string" where
  "plan_canonical p desired snapshot actions = json_dumps True (JObj
     [(''profile'', JStr (profile_value p)), (''snapshot'', JStr (snapshot_id snapshot)),
      (''config_revision'', JStr (ds_config_revision snapshot)), (''desired'', payload_json desired),
      (''actions'', JList (map action_json actions))])"

definition build_plan ::
    "setup_profile \<Rightarrow> payload \<Rightarrow> detection_snapshot \<Rightarrow> setup_action list \<Rightarrow> setup_plan result" where
  "build_plan p desired snapshot actions = new_setup_plan
     \<lparr>plan_id = sha256_hex (plan_canonical p desired snapshot actions), plan_profile = p,
      detection_snapshot_id = snapshot_id snapshot, plan_config_revision = ds_config_revision snapshot,
      plan_actions = actions\<rparr>"

definition build_setup_plan ::
    "setup_profile \<Rightarrow> payload \<Rightarrow> detection_snapshot \<Rightarrow> setup_plan result" where
  "build_setup_plan p desired snapshot =
     bind_result (config_action p) (\<lambda>config.
     bind_result (case desired_get desired ''github_repository'' of
         SStr repository \<Rightarrow> if repository = [] then Inr [config]
           else bind_result (reference_action repository) (\<lambda>a. Inr [config, a])
       | _ \<Rightarrow> Inr [config]) (\<lambda>actions.
     bind_result (if p = DEVELOPMENT then development_actions (action_id (last actions))
       else production_actions desired (action_id (last actions))) (\<lambda>more.
     build_plan p desired snapshot (actions @ more))))"

definition assert_plan_current :: "setup_plan \<Rightarrow> detection_snapshot \<Rightarrow> string \<Rightarrow> unit result" where
  "assert_plan_current p snapshot config_revision =
     (if detection_snapshot_id p \<noteq> snapshot_id snapshot \<or> plan_config_revision p \<noteq> config_revision
      then Inl (StaleSetupPlanError ''setup plan is stale; detect and review again'')
      else Inr ())"

lemma assert_plan_current_Inr [result_simps]:
  "assert_plan_current p snapshot r = Inr u \<longleftrightarrow>
     detection_snapshot_id p = snapshot_id snapshot \<and> plan_config_revision p = r"
  by (simp add: assert_plan_current_def)

section \<open>The actions are well formed\<close>

lemma secret_free_keys: "list_all (\<lambda>k. \<not> secret_key k) (map fst p) \<Longrightarrow> secret_free p"
  by (auto simp: secret_free_def list_all_iff)

definition public_keys :: "string set" where
  "public_keys = set (''profile'' # ''repository'' # github_names @ service_names
     @ release_names @ cutover_names)"

lemma public_keys_not_secret: "k \<in> public_keys \<Longrightarrow> \<not> secret_key k"
proof -
  have "list_all (\<lambda>k. \<not> secret_key k) (''profile'' # ''repository'' # github_names @ service_names
      @ release_names @ cutover_names)"
    by code_simp
  then show "k \<in> public_keys \<Longrightarrow> \<not> secret_key k" unfolding list_all_iff public_keys_def by blast
qed

lemma public_names [simp]:
  "''profile'' \<in> public_keys" "''repository'' \<in> public_keys" "set github_names \<subseteq> public_keys"
  "set service_names \<subseteq> public_keys" "set release_names \<subseteq> public_keys" "set cutover_names \<subseteq> public_keys"
  by (auto simp: public_keys_def)

lemma make_action_ok [simp]:
  assumes "sized 1 128 aid" "sized 1 256 title" "sized 1 1024 reason" "sized 1 128 k"
    and "fst ` set params \<subseteq> public_keys" and "aid \<notin> set deps"
  shows "make_action aid title reason r b deps k params = Inr
     \<lparr>action_id = aid, action_title = title, action_reason = reason, action_risk = r, reversible = b,
      depends_on = deps, action_kind = k, parameters = params\<rparr>"
proof -
  have "secret_free params"
    by (rule secret_free_keys) (use assms(5) public_keys_not_secret in \<open>auto simp: list_all_iff\<close>)
  then have "reject_secret_mapping params = Inr ()" by (simp add: result_simps)
  with assms show ?thesis by (simp add: make_action_def new_setup_action_def)
qed

lemma sized_literal [simp]: "sized lo hi s \<longleftrightarrow> lo \<le> length s \<and> length s \<le> hi"
  by (simp add: sized_def)

lemma required_parameters_Inr:
  "required_parameters d ns s = Inr ps \<longleftrightarrow> (\<forall>n \<in> set ns. \<not> unset (desired_get d n))
     \<and> ps = map (\<lambda>n. (n, desired_get d n)) ns"
  by (auto simp: required_parameters_def Let_def filter_empty_conv)

text \<open>One chain: every action depends on the one before it and on nothing else.\<close>

fun chained :: "string list \<Rightarrow> setup_action list \<Rightarrow> bool" where
  "chained prev [] = True"
| "chained prev (a # as) \<longleftrightarrow> depends_on a = prev \<and> chained [action_id a] as"

lemma chained_ordered: "chained prev as \<Longrightarrow> set prev \<subseteq> known \<Longrightarrow> dependency_ordered known as"
  by (induction prev as arbitrary: known rule: chained.induct) auto

definition requested :: "payload \<Rightarrow> string \<Rightarrow> bool" where
  "requested d k \<longleftrightarrow> desired_get d k = SBool True"

definition provided :: "payload \<Rightarrow> string list \<Rightarrow> bool" where
  "provided d ns \<longleftrightarrow> (\<forall>n \<in> set ns. \<not> unset (desired_get d n))"

text \<open>What a profile needs of the desired configuration.\<close>

definition inputs_complete :: "setup_profile \<Rightarrow> payload \<Rightarrow> bool" where
  "inputs_complete p d \<longleftrightarrow> p = DEVELOPMENT \<or> provided d github_names \<and> provided d service_names
     \<and> (requested d ''prepare_release'' \<longrightarrow> provided d release_names)
     \<and> (requested d ''prepare_cutover'' \<longrightarrow> provided d cutover_names)"

lemma required_parameters_cases:
  "required_parameters d ns s = (if provided d ns then Inr (map (\<lambda>n. (n, desired_get d n)) ns)
     else Inl (SetupPlanningInputError (s @ '' requires: ''
       @ join '', '' (filter (\<lambda>n. unset (desired_get d n)) ns))))"
  by (auto simp: required_parameters_def provided_def Let_def filter_empty_conv)

lemma image_fst_desired [simp]: "fst ` (\<lambda>n. (n, desired_get d n)) ` A = A"
  by force

definition base_actions :: "setup_profile \<Rightarrow> payload \<Rightarrow> setup_action list result" where
  "base_actions p desired = bind_result (config_action p) (\<lambda>config.
     case desired_get desired ''github_repository'' of
         SStr repository \<Rightarrow> if repository = [] then Inr [config]
           else bind_result (reference_action repository) (\<lambda>a. Inr [config, a])
       | _ \<Rightarrow> Inr [config])"

definition earlier_ids :: "string set" where
  "earlier_ids = {''config.write'', ''github.reference''}"

lemma base_actions_Inr:
  "\<exists>as. base_actions p d = Inr as \<and> chained [] as \<and> as \<noteq> [] \<and> action_id (hd as) = ''config.write''
     \<and> action_id (last as) \<in> earlier_ids \<and> distinct (map action_id as)
     \<and> set (map action_id as) \<subseteq> earlier_ids"
  by (simp add: base_actions_def config_action_def reference_action_def earlier_ids_def split: scalar.split)

lemma bind_result_assoc: "bind_result (bind_result r f) g = bind_result r (\<lambda>a. bind_result (f a) g)"
  by (cases r) simp_all

lemma build_setup_plan_base:
  "build_setup_plan p d snapshot = bind_result (base_actions p d) (\<lambda>actions.
     bind_result (if p = DEVELOPMENT then development_actions (action_id (last actions))
       else production_actions d (action_id (last actions))) (\<lambda>more.
     build_plan p d snapshot (actions @ more)))"
  by (simp add: build_setup_plan_def base_actions_def bind_result_assoc)

text \<open>A chain that continues after \<open>pred\<close> with new identifiers and ends on the final checks.\<close>

definition continues :: "string \<Rightarrow> setup_action list \<Rightarrow> bool" where
  "continues pred as \<longleftrightarrow> chained [pred] as \<and> distinct (map action_id as) \<and> as \<noteq> []
     \<and> set (map action_id as) \<inter> earlier_ids = {} \<and> action_id (last as) = ''checks.fast''"

lemma development_actions_Inr:
  "pred \<in> earlier_ids \<Longrightarrow> \<exists>as. development_actions pred = Inr as \<and> continues pred as"
  by (auto simp: development_actions_def continues_def earlier_ids_def)

lemma chained_append:
  "chained prev (as @ bs) \<longleftrightarrow> chained prev as \<and> chained (if as = [] then prev else [action_id (last as)]) bs"
  by (induction prev as rule: chained.induct) auto

text \<open>The part of the chain built so far, with the identifiers it may use.\<close>

definition chain_part :: "string \<Rightarrow> string set \<Rightarrow> setup_action list \<Rightarrow> bool" where
  "chain_part pred S as \<longleftrightarrow> chained [pred] as \<and> distinct (map action_id as) \<and> as \<noteq> []
     \<and> set (map action_id as) \<subseteq> S"

lemma chain_part_snoc:
  assumes "chain_part pred S as" and "action_id a \<notin> S" and "depends_on a = [action_id (last as)]"
  shows "chain_part pred (insert (action_id a) S) (as @ [a])"
  using assms by (auto simp: chain_part_def chained_append)

lemma chain_part_mono: "chain_part pred S as \<Longrightarrow> S \<subseteq> T \<Longrightarrow> chain_part pred T as"
  by (auto simp: chain_part_def)

lemma chain_part_continues:
  "chain_part pred S as \<Longrightarrow> S \<inter> earlier_ids = {} \<Longrightarrow> action_id (last as) = ''checks.fast''
     \<Longrightarrow> continues pred as"
  by (auto simp: chain_part_def continues_def)

lemma optional_action_cases:
  assumes "chain_part pred S as" and "aid \<notin> S"
    and "\<And>prev. prev \<in> S \<Longrightarrow> case f prev of
      Inr a \<Rightarrow> ok \<and> action_id a = aid \<and> depends_on a = [prev]
    | Inl e \<Rightarrow> \<not> ok \<and> (\<exists>m. e = SetupPlanningInputError m)"
  shows "case optional_action wanted as f of
      Inr bs \<Rightarrow> (wanted \<longrightarrow> ok \<and> action_id (last bs) = aid) \<and> chain_part pred (insert aid S) bs
    | Inl e \<Rightarrow> wanted \<and> \<not> ok \<and> (\<exists>m. e = SetupPlanningInputError m)"
proof (cases wanted)
  case False
  then show ?thesis
    using chain_part_mono [OF assms(1), of "insert aid S"] by (simp add: optional_action_def subset_insertI)
next
  case True
  have "action_id (last as) \<in> S" using assms(1) by (auto simp: chain_part_def)
  note f = assms(3) [OF this]
  show ?thesis
  proof (cases "f (action_id (last as))")
    case (Inl e)
    with f True show ?thesis by (simp add: optional_action_def)
  next
    case (Inr a)
    with f True chain_part_snoc [OF assms(1), of a] assms(2) show ?thesis
      by (simp add: optional_action_def)
  qed
qed

definition verify_ids :: "string set" where
  "verify_ids = {''github.app.verify'', ''services.external.verify''}"

lemma release_step:
  assumes "prev \<in> verify_ids"
  shows "case bind_result (required_parameters d release_names ''release certification'') (\<lambda>ps.
         make_action ''release.prepare'' ''Prepare Standard release certification''
           ''Validate signing, sandbox, and real soak inputs'' HIGH False [prev] ''prepare_release'' ps) of
      Inr a \<Rightarrow> provided d release_names \<and> action_id a = ''release.prepare'' \<and> depends_on a = [prev]
    | Inl e \<Rightarrow> \<not> provided d release_names \<and> (\<exists>m. e = SetupPlanningInputError m)"
  using assms by (auto simp: required_parameters_cases verify_ids_def)

lemma cutover_step:
  assumes "prev \<in> insert ''release.prepare'' verify_ids"
  shows "case bind_result (required_parameters d cutover_names ''production cutover'') (\<lambda>ps.
         make_action ''cutover.prepare'' ''Prepare controlled production cutover''
           ''Validate approval, exact source revision, and target repository'' HIGH False [prev]
           ''prepare_cutover'' ps) of
      Inr a \<Rightarrow> provided d cutover_names \<and> action_id a = ''cutover.prepare'' \<and> depends_on a = [prev]
    | Inl e \<Rightarrow> \<not> provided d cutover_names \<and> (\<exists>m. e = SetupPlanningInputError m)"
  using assms by (auto simp: required_parameters_cases verify_ids_def)

lemma checks_step:
  assumes "prev \<in> insert ''cutover.prepare'' (insert ''release.prepare'' verify_ids)"
  shows "case make_action ''checks.fast'' ''Run fast verification''
         ''Confirm configured production dependencies'' LOW False [prev] ''run_fast_checks'' [] of
      Inr a \<Rightarrow> True \<and> action_id a = ''checks.fast'' \<and> depends_on a = [prev]
    | Inl e \<Rightarrow> \<not> True \<and> (\<exists>m. e = SetupPlanningInputError m)"
  using assms by (auto simp: verify_ids_def)

lemma verify_actions:
  assumes "pred \<in> earlier_ids" and "provided d github_names" and "provided d service_names"
  shows "\<exists>as. map_result id
       [make_action ''github.app.verify'' ''Verify GitHub App installation''
          ''Validate machine identity and repository permissions'' HIGH False [pred]
          ''github_app_verify'' (map (\<lambda>n. (n, desired_get d n)) github_names),
        make_action ''services.external.verify'' ''Verify external data services''
          ''Confirm TLS, authentication, and service capabilities'' HIGH False
          [''github.app.verify''] ''verify_external_services''
          (map (\<lambda>n. (n, desired_get d n)) service_names)] = Inr as \<and> chain_part pred verify_ids as"
  using assms(1) unfolding earlier_ids_def
  by (elim insertE emptyE) (simp_all add: chain_part_def verify_ids_def)

lemma production_actions_Inr:
  assumes "pred \<in> earlier_ids"
  shows "case production_actions d pred of
      Inr as \<Rightarrow> inputs_complete PRODUCTION d \<and> continues pred as
    | Inl e \<Rightarrow> \<not> inputs_complete PRODUCTION d \<and> (\<exists>m. e = SetupPlanningInputError m)"
proof (cases "provided d github_names \<and> provided d service_names")
  case False
  then show ?thesis
    by (auto simp: production_actions_def required_parameters_cases inputs_complete_def)
next
  case True
  obtain as where as: "map_result id
       [make_action ''github.app.verify'' ''Verify GitHub App installation''
          ''Validate machine identity and repository permissions'' HIGH False [pred]
          ''github_app_verify'' (map (\<lambda>n. (n, desired_get d n)) github_names),
        make_action ''services.external.verify'' ''Verify external data services''
          ''Confirm TLS, authentication, and service capabilities'' HIGH False
          [''github.app.verify''] ''verify_external_services''
          (map (\<lambda>n. (n, desired_get d n)) service_names)] = Inr as" and part: "chain_part pred verify_ids as"
    using verify_actions [OF assms True [THEN conjunct1] True [THEN conjunct2]] by (elim exE conjE)
  let ?rel = "\<lambda>prev. bind_result (required_parameters d release_names ''release certification'') (\<lambda>ps.
         make_action ''release.prepare'' ''Prepare Standard release certification''
           ''Validate signing, sandbox, and real soak inputs'' HIGH False [prev] ''prepare_release'' ps)"
  let ?cut = "\<lambda>prev. bind_result (required_parameters d cutover_names ''production cutover'') (\<lambda>ps.
         make_action ''cutover.prepare'' ''Prepare controlled production cutover''
           ''Validate approval, exact source revision, and target repository'' HIGH False [prev]
           ''prepare_cutover'' ps)"
  let ?chk = "\<lambda>prev. make_action ''checks.fast'' ''Run fast verification''
         ''Confirm configured production dependencies'' LOW False [prev] ''run_fast_checks'' []"
  have eq: "production_actions d pred = bind_result (optional_action (requested d ''prepare_release'') as ?rel) (\<lambda>bs.
      bind_result (optional_action (requested d ''prepare_cutover'') bs ?cut) (\<lambda>cs. optional_action True cs ?chk))"
    using True as by (simp only: production_actions_def required_parameters_cases simp_thms if_True
        bind_result_simps requested_def)
  have com: "inputs_complete PRODUCTION d \<longleftrightarrow> (requested d ''prepare_release'' \<longrightarrow> provided d release_names)
     \<and> (requested d ''prepare_cutover'' \<longrightarrow> provided d cutover_names)"
    using True by (simp add: inputs_complete_def)
  have new: "''release.prepare'' \<notin> verify_ids" "''cutover.prepare'' \<notin> insert ''release.prepare'' verify_ids"
    "''checks.fast'' \<notin> insert ''cutover.prepare'' (insert ''release.prepare'' verify_ids)"
    by (simp_all add: verify_ids_def)
  note rel = optional_action_cases [OF part new(1) release_step [where d = d], where wanted = "requested d ''prepare_release''"]
  show ?thesis
  proof (cases "optional_action (requested d ''prepare_release'') as ?rel")
    case (Inl e)
    with rel eq com show ?thesis by simp
  next
    case (Inr bs)
    with rel have b: "requested d ''prepare_release'' \<longrightarrow> provided d release_names"
      "chain_part pred (insert ''release.prepare'' verify_ids) bs" by simp_all
    note cut = optional_action_cases [OF b(2) new(2) cutover_step [where d = d], where wanted = "requested d ''prepare_cutover''"]
    show ?thesis
    proof (cases "optional_action (requested d ''prepare_cutover'') bs ?cut")
      case (Inl e)
      with cut eq com Inr show ?thesis by simp
    next
      case c: (Inr cs)
      with cut have cs: "requested d ''prepare_cutover'' \<longrightarrow> provided d cutover_names"
        "chain_part pred (insert ''cutover.prepare'' (insert ''release.prepare'' verify_ids)) cs" by simp_all
      note chk = optional_action_cases [OF cs(2) new(3) checks_step, where wanted = True]
      show ?thesis
      proof (cases "optional_action True cs ?chk")
        case (Inl e)
        with chk show ?thesis by simp
      next
        case f: (Inr fs)
        with chk have "action_id (last fs) = ''checks.fast''" "chain_part pred (insert ''checks.fast''
            (insert ''cutover.prepare'' (insert ''release.prepare'' verify_ids))) fs" by simp_all
        moreover have "insert ''checks.fast'' (insert ''cutover.prepare'' (insert ''release.prepare'' verify_ids))
            \<inter> earlier_ids = {}"
          by (simp add: verify_ids_def earlier_ids_def)
        ultimately have "continues pred fs" by (intro chain_part_continues)
        with eq com Inr c f b(1) cs(1) show ?thesis by simp
      qed
    qed
  qed
qed

lemma build_setup_plan_cases:
  "case build_setup_plan p d snapshot of
     Inr plan \<Rightarrow> inputs_complete p d \<and> plan_profile plan = p \<and> assert_current plan snapshot (ds_config_revision snapshot) = Inr ()
       \<and> distinct (map action_id (plan_actions plan)) \<and> chained [] (plan_actions plan)
       \<and> dependency_ordered {} (plan_actions plan) \<and> plan_actions plan \<noteq> []
       \<and> action_id (hd (plan_actions plan)) = ''config.write''
       \<and> action_id (last (plan_actions plan)) = ''checks.fast''
   | Inl e \<Rightarrow> \<not> inputs_complete p d \<and> (\<exists>m. e = SetupPlanningInputError m)"
proof -
  obtain as where as: "base_actions p d = Inr as" "chained [] as" "as \<noteq> []" "action_id (hd as) = ''config.write''"
    and last: "action_id (last as) \<in> earlier_ids"
    and ids: "distinct (map action_id as)" "set (map action_id as) \<subseteq> earlier_ids"
    using base_actions_Inr [of p d] by (elim exE conjE)
  define more where "more = (if p = DEVELOPMENT then development_actions (action_id (last as))
    else production_actions d (action_id (last as)))"
  have more: "case more of Inr bs \<Rightarrow> inputs_complete p d \<and> continues (action_id (last as)) bs
    | Inl e \<Rightarrow> \<not> inputs_complete p d \<and> (\<exists>m. e = SetupPlanningInputError m)"
    using development_actions_Inr [OF last] production_actions_Inr [OF last, of d]
    by (cases p) (auto simp: more_def inputs_complete_def)
  have eq: "build_setup_plan p d snapshot = bind_result more (\<lambda>bs. build_plan p d snapshot (as @ bs))"
    using as(1) by (simp add: build_setup_plan_base more_def)
  show ?thesis
  proof (cases more)
    case (Inl e)
    with more eq show ?thesis by simp
  next
    case (Inr bs)
    with more have c: "inputs_complete p d" "continues (action_id (last as)) bs" by simp_all
    have chain: "chained [] (as @ bs)"
      using as(2,3) c(2) by (simp add: chained_append continues_def)
    have d: "distinct (map action_id (as @ bs))"
      using ids c(2) unfolding continues_def map_append distinct_append by blast
    have o: "dependency_ordered {} (as @ bs)" using chained_ordered [OF chain] by simp
    have "action_id (last (as @ bs)) = ''checks.fast''" "action_id (hd (as @ bs)) = ''config.write''"
      using c(2) as(3,4) by (simp_all add: continues_def)
    moreover have "build_plan p d snapshot (as @ bs) = Inr
      \<lparr>plan_id = sha256_hex (plan_canonical p d snapshot (as @ bs)), plan_profile = p,
       detection_snapshot_id = snapshot_id snapshot, plan_config_revision = ds_config_revision snapshot,
       plan_actions = as @ bs\<rparr>"
      unfolding build_plan_def new_setup_plan_Inr using d o by simp
    ultimately show ?thesis
      using Inr c(1) chain d o as(3) eq by (simp add: assert_current_def)
  qed
qed

lemma build_setup_plan_facts:
  assumes "build_setup_plan p d snapshot = Inr plan"
  shows "distinct (map action_id (plan_actions plan)) \<and> assert_current plan snapshot (ds_config_revision snapshot) = Inr ()"
  using build_setup_plan_cases [of p d snapshot] unfolding assms sum.case by (elim conjE) (intro conjI)

section \<open>Property\<close>

text \<open>
  Planning succeeds exactly when the desired configuration holds everything the profile and the
  requested steps need, and fails only with \<open>SetupPlanningInputError\<close>. A plan is bound to the
  snapshot and revision it was built from, its action identifiers are unique, and its actions form
  one chain from writing the configuration to the final checks, so it is in dependency order.
\<close>

theorem build_setup_plan_chain:
  "case build_setup_plan p d snapshot of
     Inr plan \<Rightarrow> inputs_complete p d \<and> plan_profile plan = p \<and> assert_current plan snapshot (ds_config_revision snapshot) = Inr ()
       \<and> distinct (map action_id (plan_actions plan)) \<and> chained [] (plan_actions plan)
       \<and> dependency_ordered {} (plan_actions plan) \<and> plan_actions plan \<noteq> []
       \<and> action_id (hd (plan_actions plan)) = ''config.write''
       \<and> action_id (last (plan_actions plan)) = ''checks.fast''
   | Inl e \<Rightarrow> \<not> inputs_complete p d \<and> (\<exists>m. e = SetupPlanningInputError m)"
  by (rule build_setup_plan_cases)

end
