(* ===== verification/Setup_Journal.thy ===== *)
theory Setup_Journal
  imports Setup_Contracts Py_Sha256 Stores
begin

text \<open>
  \<open>platform/configuration/setup_storage.py\<close>: the SQLite journal of setup plans, sessions, installation
  locks and action transitions, and the TOML configuration with its compare-and-swap. The tables
  are maps from their primary key; the append-only transitions are a list in the order of their
  sequence number. The time stamps are not modelled. The lemmas show that replaying the log
  implements a table of the latest state of every action.
\<close>

section \<open>Configuration\<close>

definition validate_document :: "payload \<Rightarrow> unit result" where
  "validate_document document = (case find (\<lambda>(k, v). secret_key k \<and> \<not> is_reference v) document of
     None \<Rightarrow> Inr ()
   | Some (k, v) \<Rightarrow> Inl (ValueError (''secret-bearing field '' @ k
       @ '' must be a secret reference, not plaintext'')))"

definition empty_config :: string where
  "empty_config = ''schema_version = 1'' @ [CHR 0x0A]"

text \<open>The content of the configuration file, when there is one.\<close>

type_synonym config_file = "string option"

definition read_content :: "config_file \<Rightarrow> string" where
  "read_content f = (case f of None \<Rightarrow> empty_config | Some content \<Rightarrow> content)"

definition config_revision_of :: "string \<Rightarrow> string" where
  "config_revision_of content = sha256_hex content"

text \<open>
  \<open>tomlkit.parse\<close> and \<open>tomlkit.dumps\<close> are parameters; \<open>None\<close> stands for a TOML value that is no
  string, integer or boolean.
\<close>

type_synonym toml_parser = "string \<Rightarrow> (string \<times> scalar option) list result"
type_synonym toml_printer = "payload \<Rightarrow> string"

definition parse_simple_toml :: "toml_parser \<Rightarrow> string \<Rightarrow> payload result" where
  "parse_simple_toml parse content = bind_result (parse content) (\<lambda>parsed.
     Inr (List.map_filter (\<lambda>(k, v). map_option (Pair k) v) parsed))"

definition render_simple_toml :: "toml_printer \<Rightarrow> payload \<Rightarrow> string" where
  "render_simple_toml dumps document =
     dumps (sort_key fst (py_dict ((''schema_version'', SInt 1) # document)))"

definition read_config :: "toml_parser \<Rightarrow> config_file \<Rightarrow> (payload \<times> string) result" where
  "read_config parse f = bind_result (parse_simple_toml parse (read_content f)) (\<lambda>document.
     Inr (document, config_revision_of (read_content f)))"

definition compare_and_swap ::
    "toml_printer \<Rightarrow> string \<Rightarrow> payload \<Rightarrow> config_file \<Rightarrow> (config_file \<times> string) result" where
  "compare_and_swap dumps expected_revision document f =
     (if config_revision_of (read_content f) \<noteq> expected_revision
      then Inl (ConfigurationConflictError ''configuration changed after it was read'')
      else bind_result (validate_document document) (\<lambda>_.
        let content = render_simple_toml dumps document in
        Inr (Some content, config_revision_of content)))"

section \<open>The journal\<close>

record transition =
  tr_session :: string
  tr_action :: string
  tr_state :: action_state
  tr_payload :: payload

record journal =
  saved_plans :: "string \<rightharpoonup> setup_plan"
  session_plans :: "string \<rightharpoonup> string"
  locks :: "string \<rightharpoonup> string"
  transitions :: "transition list"

definition new_journal :: journal where
  "new_journal = \<lparr>saved_plans = Map.empty, session_plans = Map.empty, locks = Map.empty, transitions = []\<rparr>"

definition acquire_installation_lock :: "string \<Rightarrow> string \<Rightarrow> journal \<Rightarrow> journal result" where
  "acquire_installation_lock installation s j = (case locks j installation of
     Some owner \<Rightarrow> if owner \<noteq> s
       then Inl (SetupLockConflictError ''another setup session holds the installation writer lock'')
       else Inr (j\<lparr>locks := (locks j)(installation \<mapsto> s)\<rparr>)
   | None \<Rightarrow> Inr (j\<lparr>locks := (locks j)(installation \<mapsto> s)\<rparr>))"

definition release_installation_lock :: "string \<Rightarrow> string \<Rightarrow> journal \<Rightarrow> journal" where
  "release_installation_lock installation s j =
     (if locks j installation = Some s then j\<lparr>locks := (locks j)(installation := None)\<rparr> else j)"

definition save_plan :: "setup_plan \<Rightarrow> journal \<Rightarrow> journal" where
  "save_plan p j = j\<lparr>saved_plans := (saved_plans j)(plan_id p \<mapsto> p)\<rparr>"

text \<open>\<open>model_validate_json\<close> runs the validators of the plan and its actions again.\<close>

definition load_plan :: "string \<Rightarrow> journal \<Rightarrow> setup_plan result" where
  "load_plan pid j = (case saved_plans j pid of
     None \<Rightarrow> Inl (KeyError pid)
   | Some p \<Rightarrow> bind_result (map_result new_setup_action (plan_actions p)) (\<lambda>_. new_setup_plan p))"

definition create_session :: "string \<Rightarrow> string \<Rightarrow> journal \<Rightarrow> journal" where
  "create_session s pid j = (case session_plans j s of
     None \<Rightarrow> j\<lparr>session_plans := (session_plans j)(s \<mapsto> pid)\<rparr>
   | Some _ \<Rightarrow> j)"

text \<open>
  The payload is stored as JSON with sorted keys. The foreign key refuses a session that does not
  exist; \<open>sqlite3.IntegrityError\<close> is represented by \<open>RuntimeError\<close>.
\<close>

definition record_transition ::
    "string \<Rightarrow> string \<Rightarrow> action_state \<Rightarrow> payload \<Rightarrow> journal \<Rightarrow> journal result" where
  "record_transition s aid st payload j = bind_result (validate_document payload) (\<lambda>_.
     if session_plans j s = None then Inl (RuntimeError ''FOREIGN KEY constraint failed'')
     else Inr (j\<lparr>transitions := transitions j
       @ [\<lparr>tr_session = s, tr_action = aid, tr_state = st, tr_payload = sort_key fst payload\<rparr>]\<rparr>))"

type_synonym journal_action = "action_state \<times> payload"

record journal_session =
  js_session_id :: string
  js_plan_id :: string
  js_actions :: "(string \<times> journal_action) list"

definition session_log :: "journal \<Rightarrow> string \<Rightarrow> (string \<times> journal_action) list" where
  "session_log j s = map (\<lambda>t. (tr_action t, tr_state t, tr_payload t))
     (filter (\<lambda>t. tr_session t = s) (transitions j))"

definition load_session :: "string \<Rightarrow> journal \<Rightarrow> journal_session result" where
  "load_session s j = (case session_plans j s of
     None \<Rightarrow> Inl (KeyError s)
   | Some pid \<Rightarrow> Inr \<lparr>js_session_id = s, js_plan_id = pid, js_actions = py_dict (session_log j s)\<rparr>)"

section \<open>Facts\<close>

lemma validate_document_Inr [result_simps]: "validate_document p = Inr u \<longleftrightarrow> secret_free p"
proof -
  have "find (\<lambda>(k, v). secret_key k \<and> \<not> is_reference v) p = None \<longleftrightarrow> secret_free p"
    by (auto simp: find_None_iff secret_free_def)
  then show ?thesis
    by (auto simp: validate_document_def split: option.splits prod.splits)
qed

lemma validate_document_free [simp]: "secret_free p \<Longrightarrow> validate_document p = Inr ()"
  by (simp add: result_simps)

lemma secret_free_sort [simp]: "secret_free (sort_key fst p) = secret_free p"
  by (simp add: secret_free_def)

lemma py_dict_lookup: "map_of (py_dict kvs) = map_of (rev kvs)"
proof
  fix k
  show "map_of (py_dict kvs) k = map_of (rev kvs) k"
  proof (cases "k \<in> fst ` set kvs")
    case True
    then obtain v where v: "map_of (rev kvs) k = Some v"
      by (metis (no_types, lifting) domD dom_map_of_conv_image_fst set_rev)
    have "map_of (map (\<lambda>k. (k, f k)) ks) k = Some (f k)" if "k \<in> set ks" for f :: "'a \<Rightarrow> 'b" and ks
      using that by (induction ks) auto
    moreover have "k \<in> set (rev (remdups (rev (map fst kvs))))" using True by simp
    ultimately show ?thesis using v unfolding py_dict_def by simp
  next
    case False
    then have "map_of (rev kvs) k = None" "map_of (py_dict kvs) k = None"
      by (auto simp: map_of_eq_None_iff py_dict_def image_image)
    then show ?thesis by simp
  qed
qed

lemma record_transition_Inr [result_simps]:
  "record_transition s aid st p j = Inr j' \<longleftrightarrow> secret_free p \<and> session_plans j s \<noteq> None
     \<and> j' = j\<lparr>transitions := transitions j
       @ [\<lparr>tr_session = s, tr_action = aid, tr_state = st, tr_payload = sort_key fst p\<rparr>]\<rparr>"
  by (auto simp: record_transition_def result_simps bind_result_eq_Inr)

section \<open>The lock is an exclusive owner\<close>

definition lock_attempt :: "string \<Rightarrow> string \<Rightarrow> journal \<Rightarrow> bool \<times> journal" where
  "lock_attempt i s j = (case acquire_installation_lock i s j of Inl _ \<Rightarrow> (False, j) | Inr j' \<Rightarrow> (True, j'))"

definition unlock_attempt :: "string \<Rightarrow> string \<Rightarrow> journal \<Rightarrow> bool \<times> journal" where
  "unlock_attempt i s j = (locks j i = Some s, release_installation_lock i s j)"

interpretation setup_lock: exclusive_owner locks lock_attempt unlock_attempt
  by unfold_locales
    (auto simp: lock_attempt_def unlock_attempt_def acquire_installation_lock_def
       release_installation_lock_def split: option.splits if_splits)

section \<open>The abstract table\<close>

text \<open>
  What the log promises: for every session its plan, and the latest state and payload of each of
  its actions. Recording a transition overwrites one entry; nothing else changes.
\<close>

type_synonym session_table = "string \<rightharpoonup> string \<times> (string \<rightharpoonup> journal_action)"

definition status :: "journal \<Rightarrow> string \<Rightarrow> string \<Rightarrow> journal_action option" where
  "status j s = map_of (rev (session_log j s))"

definition table_of :: "journal \<Rightarrow> session_table" where
  "table_of j = (\<lambda>s. map_option (\<lambda>pid. (pid, status j s)) (session_plans j s))"

definition table_create :: "string \<Rightarrow> string \<Rightarrow> session_table \<Rightarrow> session_table" where
  "table_create s pid t = (if s \<in> dom t then t else t(s \<mapsto> (pid, Map.empty)))"

definition table_record ::
    "string \<Rightarrow> string \<Rightarrow> action_state \<Rightarrow> payload \<Rightarrow> session_table \<Rightarrow> session_table result" where
  "table_record s aid st payload t = bind_result (validate_document payload) (\<lambda>_. case t s of
     None \<Rightarrow> Inl (RuntimeError ''FOREIGN KEY constraint failed'')
   | Some (pid, actions) \<Rightarrow> Inr (t(s \<mapsto> (pid, actions(aid \<mapsto> (st, sort_key fst payload))))))"

text \<open>Every transition belongs to a session, and no stored payload holds a secret in clear text.\<close>

definition journal_ok :: "journal \<Rightarrow> bool" where
  "journal_ok j \<longleftrightarrow> (\<forall>t \<in> set (transitions j). session_plans j (tr_session t) \<noteq> None \<and> secret_free (tr_payload t))"

lemma session_log_append [simp]:
  "session_log (j\<lparr>transitions := ts\<rparr>) s = map (\<lambda>t. (tr_action t, tr_state t, tr_payload t))
     (filter (\<lambda>t. tr_session t = s) ts)"
  by (simp add: session_log_def)

lemma session_log_unchanged [simp]:
  "session_log (j\<lparr>locks := l\<rparr>) s = session_log j s" "session_log (j\<lparr>saved_plans := p\<rparr>) s = session_log j s"
  "session_log (j\<lparr>session_plans := q\<rparr>) s = session_log j s"
  by (simp_all add: session_log_def)

lemma status_unchanged [simp]:
  "status (j\<lparr>locks := l\<rparr>) = status j" "status (j\<lparr>saved_plans := p\<rparr>) = status j"
  "status (j\<lparr>session_plans := q\<rparr>) = status j"
  by (simp_all add: status_def fun_eq_iff)

lemma status_record:
  "status (j\<lparr>transitions := transitions j
      @ [\<lparr>tr_session = s, tr_action = aid, tr_state = st, tr_payload = p\<rparr>]\<rparr>)
   = (status j)(s := (status j s)(aid \<mapsto> (st, p)))"
  by (simp add: status_def session_log_def fun_eq_iff)

lemma journal_ok_new [simp]: "journal_ok new_journal"
  by (simp add: journal_ok_def new_journal_def)

lemma journal_ok_ops [simp]:
  "journal_ok j \<Longrightarrow> journal_ok (j\<lparr>locks := l\<rparr>)"
  "journal_ok j \<Longrightarrow> journal_ok (j\<lparr>saved_plans := p\<rparr>)"
  "journal_ok j \<Longrightarrow> journal_ok (create_session s pid j)"
  by (auto simp: journal_ok_def create_session_def split: option.splits)

lemma journal_ok_record:
  "journal_ok j \<Longrightarrow> record_transition s aid st p j = Inr j' \<Longrightarrow> journal_ok j'"
  unfolding record_transition_Inr journal_ok_def by auto

lemma status_secret_free:
  assumes "journal_ok j" and "status j s a = Some (st, p)"
  shows "secret_free p"
proof -
  have "(a, st, p) \<in> set (session_log j s)"
    using assms(2) unfolding status_def by (metis map_of_SomeD set_rev)
  with assms(1) show ?thesis by (auto simp: session_log_def journal_ok_def)
qed

lemma status_no_session:
  assumes "journal_ok j" and "session_plans j s = None"
  shows "status j s = Map.empty"
proof -
  have "filter (\<lambda>t. tr_session t = s) (transitions j) = []"
    using assms by (auto simp: filter_empty_conv journal_ok_def)
  then show ?thesis by (simp add: status_def session_log_def)
qed

lemma load_session_table:
  "load_session s j = Inr q \<longleftrightarrow> (\<exists>pid. session_plans j s = Some pid \<and> q = \<lparr>js_session_id = s, js_plan_id = pid,
     js_actions = py_dict (session_log j s)\<rparr>)"
  by (auto simp: load_session_def split: option.splits)

lemma load_session_status:
  "load_session s j = Inr q \<Longrightarrow> map_of (js_actions q) = status j s"
  by (auto simp: load_session_table py_dict_lookup status_def)

lemma table_of_create:
  "journal_ok j \<Longrightarrow> table_of (create_session s pid j) = table_create s pid (table_of j)"
  using status_no_session [of j s]
  by (auto simp: table_of_def table_create_def create_session_def fun_eq_iff domIff split: option.split)

lemma table_of_record:
  "map_sum id table_of (record_transition s aid st p j) = table_record s aid st p (table_of j)"
  by (cases "validate_document p"; cases "session_plans j s")
    (auto simp: record_transition_def table_record_def table_of_def status_record fun_eq_iff)

lemma table_of_others [simp]:
  "table_of (save_plan plan j) = table_of j"
  "table_of (release_installation_lock i s j) = table_of j"
  "table_of (j\<lparr>locks := l\<rparr>) = table_of j"
  by (simp_all add: save_plan_def release_installation_lock_def table_of_def)

lemma load_session_row:
  "map_sum id (\<lambda>q. (js_plan_id q, map_of (js_actions q))) (load_session s j) =
     (case table_of j s of None \<Rightarrow> Inl (KeyError s) | Some row \<Rightarrow> Inr row)"
  by (simp add: load_session_def table_of_def py_dict_lookup status_def split: option.split)

section \<open>Property\<close>

text \<open>
  C24: the append-only transition log refines a table that keeps, per session, the plan and the latest
  state of every action. Creating a session and recording a transition are the table's operations,
  errors included; plans and locks leave the table alone; loading a session reads its row.
\<close>

theorem journal_refines_table:
  assumes "journal_ok j"
  shows "table_of (create_session s pid j) = table_create s pid (table_of j)
    \<and> map_sum id table_of (record_transition s aid st p j) = table_record s aid st p (table_of j)
    \<and> table_of (save_plan plan j) = table_of j
    \<and> table_of (release_installation_lock i s j) = table_of j
    \<and> map_sum id table_of (acquire_installation_lock i s j) =
        map_sum id (\<lambda>_. table_of j) (acquire_installation_lock i s j)
    \<and> map_sum id (\<lambda>q. (js_plan_id q, map_of (js_actions q))) (load_session s j) =
        (case table_of j s of None \<Rightarrow> Inl (KeyError s) | Some row \<Rightarrow> Inr row)"
  using table_of_create [OF assms] table_of_record load_session_row
  by (simp add: acquire_installation_lock_def split: option.split)

theorem journal_refines_table_witness:
  "journal_ok new_journal \<and>
   table_of (create_session ''s'' ''p'' new_journal) = table_create ''s'' ''p'' (table_of new_journal)"
  using journal_refines_table [OF journal_ok_new] by simp

end
