(* ===== verification/Py_Text.thy ===== *)
theory Py_Text
  imports Prelude
begin

text \<open>
  Lowering, splitting and searching texts, shared by the redaction, the link header of GitHub, the harness
  registry and the assistant.
\<close>

text \<open>The ASCII letters without regard to case, as in a pattern with the flag \<open>(?i)\<close>\<close>

definition lower_char :: "char \<Rightarrow> char" where
  "lower_char c = (let n = (of_char c :: nat) in if 65 \<le> n \<and> n \<le> 90 then char_of (n + 32) else c)"

text \<open>\<open>text.split(c)\<close>, and what follows the first occurrence of a marker\<close>

fun split_char :: "char \<Rightarrow> string \<Rightarrow> string list" where
  "split_char c [] = [[]]"
| "split_char c (d # s) = (if d = c then [] # split_char c s
     else case split_char c s of [] \<Rightarrow> [[d]] | p # ps \<Rightarrow> (d # p) # ps)"

fun after_first :: "string \<Rightarrow> string \<Rightarrow> string option" where
  "after_first m [] = (if m = [] then Some [] else None)"
| "after_first m (c # s) = (if starts_with (c # s) m then Some (drop (length m) (c # s)) else after_first m s)"

end
