(* ===== verification/Setup_Redaction.thy ===== *)
theory Setup_Redaction
  imports Setup_Contracts Py_Text
begin

text \<open>
  The redaction of texts and payloads in \<open>application/setup/execution.py\<close>. The pattern
  \<open>(?i)(password|token|private[_-]?key|secret)\s*[:=]\s*[^\s,;]+\<close> is written out as a matcher at a
  position; \<open>re.sub\<close> scans from the left and goes on after each match. The theorem shows that no
  match with another value than the marker is left in the result.
\<close>

section \<open>The pattern\<close>

definition secret_words :: "string list" where
  "secret_words = [''password'', ''token'', ''private_key'', ''private-key'', ''privatekey'', ''secret'']"

definition keyword_at :: "string \<Rightarrow> string option" where
  "keyword_at s = find (\<lambda>kw. map lower_char (take (length kw) s) = kw) secret_words"

definition value_char :: "char \<Rightarrow> bool" where
  "value_char c \<longleftrightarrow> \<not> is_space c \<and> c \<noteq> CHR '','' \<and> c \<noteq> CHR '';''"

definition is_separator :: "char \<Rightarrow> bool" where
  "is_separator c \<longleftrightarrow> c = CHR '':'' \<or> c = CHR ''=''"

text \<open>The group, the value, and what follows.\<close>

definition secret_match :: "string \<Rightarrow> (string \<times> string \<times> string) option" where
  "secret_match s = (case keyword_at s of
     None \<Rightarrow> None
   | Some kw \<Rightarrow> (case dropWhile is_space (drop (length kw) s) of
       [] \<Rightarrow> None
     | c # r \<Rightarrow>
         if is_separator c \<and> takeWhile value_char (dropWhile is_space r) \<noteq> []
         then Some (take (length kw) s, takeWhile value_char (dropWhile is_space r),
           dropWhile value_char (dropWhile is_space r))
         else None))"

definition marker :: string where
  "marker = ''[REDACTED]''"

lemma keyword_at_Some:
  "keyword_at s = Some kw \<Longrightarrow> kw \<in> set secret_words \<and> map lower_char (take (length kw) s) = kw \<and> length kw \<le> length s"
proof -
  assume "keyword_at s = Some kw"
  then have k: "kw \<in> set secret_words" "map lower_char (take (length kw) s) = kw"
    unfolding keyword_at_def by (auto simp: find_Some_iff)
  from k(2) have "length (take (length kw) s) = length kw" by (metis length_map)
  with k show ?thesis by simp
qed

lemma keyword_facts:
  "list_all (\<lambda>k. list_all (\<lambda>l. (take (length k) l = k \<or> drop (length k - length l) k = l) \<longrightarrow> k = l) secret_words) secret_words"
  "list_all (\<lambda>k. k \<noteq> [] \<and> CHR ''='' \<notin> set k \<and> \<not> is_space (last k) \<and> \<not> is_separator (last k)) secret_words"
  by code_simp+

lemma keyword_prefix: "k \<in> set secret_words \<Longrightarrow> l \<in> set secret_words \<Longrightarrow> take (length k) l = k \<Longrightarrow> k = l"
  using keyword_facts(1) unfolding list_all_iff by blast

lemma keyword_suffix: "k \<in> set secret_words \<Longrightarrow> l \<in> set secret_words \<Longrightarrow> k = p @ l \<Longrightarrow> p = []"
  using keyword_facts(1) unfolding list_all_iff
  by (metis add_diff_cancel_right' append_eq_conv_conj append_self_conv2 length_append)

lemma keyword_letters:
  "k \<in> set secret_words \<Longrightarrow> k \<noteq> [] \<and> CHR ''='' \<notin> set k \<and> \<not> is_space (last k) \<and> \<not> is_separator (last k)"
  using keyword_facts(2) unfolding list_all_iff by blast

lemma words_of_one_text:
  assumes "k \<in> set secret_words" "l \<in> set secret_words" "take (length k) L = k" "take (length l) L = l"
  shows "k = l"
proof (cases "length k \<le> length l")
  case True
  then have "take (length k) l = k" using assms(3,4) by (metis min.absorb1 take_take)
  then show ?thesis using keyword_prefix assms(1,2) by blast
next
  case False
  then have "take (length l) k = l" using assms(3,4) by (metis min.absorb1 nat_le_linear take_take)
  then show ?thesis using keyword_prefix assms(1,2) by metis
qed

lemma keyword_at_prefix:
  assumes "map lower_char g \<in> set secret_words"
  shows "keyword_at (g @ s) = Some (map lower_char g)"
proof -
  have g: "map lower_char (take (length (map lower_char g)) (g @ s)) = map lower_char g" by simp
  then obtain kw where kw: "keyword_at (g @ s) = Some kw"
    using assms unfolding keyword_at_def
    by (cases "find (\<lambda>kw. map lower_char (take (length kw) (g @ s)) = kw) secret_words")
      (simp_all only: find_None_iff, blast)
  have "kw = map lower_char g"
    using words_of_one_text [of kw "map lower_char g" "map lower_char (g @ s)"] keyword_at_Some [OF kw] g assms
    by (simp only: take_map simp_thms)
  with kw show ?thesis by simp
qed

lemma value_not_space: "value_char c \<Longrightarrow> \<not> is_space c"
  by (simp add: value_char_def)

lemma separator_not_space: "is_separator c \<Longrightarrow> \<not> is_space c"
  by (auto simp: is_separator_def is_space_def)

text \<open>The matcher is the pattern.\<close>

lemma secret_match_Some:
  assumes "secret_match s = Some (g, v, r)"
  obtains a c b where "s = g @ a @ c # b @ v @ r" "map lower_char g \<in> set secret_words"
    "\<forall>x \<in> set a. is_space x" "is_separator c" "\<forall>x \<in> set b. is_space x" "v \<noteq> []"
    "\<forall>x \<in> set v. value_char x" "r = [] \<or> \<not> value_char (hd r)"
proof -
  obtain kw where kw: "keyword_at s = Some kw"
    using assms by (auto simp: secret_match_def split: option.splits)
  obtain c t where c: "dropWhile is_space (drop (length kw) s) = c # t" "is_separator c"
    "g = take (length kw) s" "v = takeWhile value_char (dropWhile is_space t)" "v \<noteq> []"
    "r = dropWhile value_char (dropWhile is_space t)"
    using assms kw by (auto simp: secret_match_def split: list.splits if_splits)
  note k = keyword_at_Some [OF kw]
  have "s = g @ drop (length kw) s" using c(3) by simp
  also have "drop (length kw) s = takeWhile is_space (drop (length kw) s) @ c # t"
    using c(1) by (metis takeWhile_dropWhile_id)
  also have "t = takeWhile is_space t @ v @ r" using c(4,6) by (metis takeWhile_dropWhile_id)
  finally have s: "s = g @ takeWhile is_space (drop (length kw) s) @ c # takeWhile is_space t @ v @ r" .
  have g: "map lower_char g \<in> set secret_words" using k c(3) by metis
  have "\<forall>x \<in> set v. value_char x" using c(4) by (metis set_takeWhileD)
  moreover have "r = [] \<or> \<not> value_char (hd r)" using c(6) by (metis hd_dropWhile)
  ultimately show thesis
    using that [OF s g _ c(2) _ c(5)] set_takeWhileD by metis
qed

lemma secret_match_intro:
  assumes "map lower_char g \<in> set secret_words" "\<forall>x \<in> set a. is_space x" "is_separator c"
    "\<forall>x \<in> set b. is_space x" "v \<noteq> []" "\<forall>x \<in> set v. value_char x" "r = [] \<or> \<not> value_char (hd r)"
  shows "secret_match (g @ a @ c # b @ v @ r) = Some (g, v, r)"
proof -
  have d: "dropWhile is_space (a @ c # b @ v @ r) = c # b @ v @ r"
    using assms(2,3) separator_not_space by (simp add: dropWhile_append2)
  obtain w vs where "v = w # vs" using assms(5) by (cases v) auto
  with assms(4,6) have e: "dropWhile is_space (b @ v @ r) = v @ r"
    using value_not_space by (simp add: dropWhile_append2)
  have f: "takeWhile value_char (v @ r) = v" "dropWhile value_char (v @ r) = r"
    using assms(6,7) by (cases r; simp)+
  show ?thesis
    using keyword_at_prefix [OF assms(1)] assms(3,5) d e f by (simp add: secret_match_def)
qed

lemma secret_match_shorter: "secret_match s = Some (g, v, r) \<Longrightarrow> length r < length s"
  by (elim secret_match_Some) simp

section \<open>Redaction\<close>

function redact_text :: "string \<Rightarrow> string" where
  "redact_text [] = []"
| "redact_text (c # s) = (case secret_match (c # s) of
     Some (g, v, r) \<Rightarrow> g @ CHR ''='' # marker @ redact_text r
   | None \<Rightarrow> c # redact_text s)"
  by pat_completeness auto
termination
  by (relation "measure length") (auto dest: secret_match_shorter)

fun redact_scalar :: "scalar \<Rightarrow> scalar" where
  "redact_scalar (SStr s) = SStr (redact_text s)"
| "redact_scalar v = v"

definition redact_mapping :: "payload \<Rightarrow> payload" where
  "redact_mapping p = map (\<lambda>(k, v). (k, redact_scalar v)) p"

text \<open>A match that still has a value of its own.\<close>

fun leaks :: "string \<Rightarrow> bool" where
  "leaks [] = False"
| "leaks (c # s) \<longleftrightarrow> (case secret_match (c # s) of Some (g, v, r) \<Rightarrow> v \<noteq> marker | None \<Rightarrow> False) \<or> leaks s"

text \<open>Where the result first differs from the text.\<close>

lemma redact_text_first:
  "redact_text s = s \<or> (\<exists>p g t u. redact_text s = p @ g @ CHR ''='' # t \<and> s = p @ g @ u \<and> map lower_char g \<in> set secret_words)"
proof (induction s rule: redact_text.induct)
  case (2 c s)
  show ?case
  proof (cases "secret_match (c # s)")
    case None
    from 2(1) [OF None] show ?thesis
    proof
      assume "redact_text s = s"
      with None show ?thesis by simp
    next
      assume "\<exists>p g t u. redact_text s = p @ g @ CHR ''='' # t \<and> s = p @ g @ u \<and> map lower_char g \<in> set secret_words"
      then obtain p g t u where "redact_text s = p @ g @ CHR ''='' # t" "s = p @ g @ u"
        "map lower_char g \<in> set secret_words" by (elim exE conjE)
      with None show ?thesis by (intro disjI2 exI [of _ "c # p"] exI conjI) simp_all
    qed
  next
    case (Some m)
    then obtain g v r where m: "secret_match (c # s) = Some (g, v, r)" by (cases m) simp
    then obtain a d b where e: "c # s = g @ a @ d # b @ v @ r" and g: "map lower_char g \<in> set secret_words"
      by (elim secret_match_Some) blast
    have red: "redact_text (c # s) = g @ CHR ''='' # marker @ redact_text r" using m by simp
    show ?thesis
      by (rule disjI2, rule exI [of _ "[]"], rule exI [of _ g], rule exI [of _ "marker @ redact_text r"],
          rule exI [of _ "a @ d # b @ v @ r"]) (use red e g in \<open>simp only: append_Nil simp_thms\<close>)
  qed
qed simp

lemma lower_equals: "lower_char (CHR ''='') = CHR ''=''"
  by (simp add: lower_char_def)

lemma word_last:
  assumes "map lower_char g \<in> set secret_words"
  shows "g \<noteq> [] \<and> CHR ''='' \<notin> set g \<and> \<not> is_space (last g) \<and> \<not> is_separator (last g)"
proof -
  note k = keyword_letters [OF assms]
  have ne: "g \<noteq> []" using k by auto
  have eq: "CHR ''='' \<notin> set g" using k lower_equals by (metis imageI set_map)
  have low: "is_space c \<or> is_separator c \<Longrightarrow> lower_char c = c" for c
    by (auto simp: is_space_def is_separator_def lower_char_def Let_def)
  have "last (map lower_char g) = lower_char (last g)" using ne by (simp add: last_map)
  with k low [of "last g"] ne eq show ?thesis by auto
qed

lemma append_split: "xs @ ys = us @ ws \<Longrightarrow> length us \<le> length xs \<Longrightarrow> \<exists>zs. xs = us @ zs"
  by (metis append_eq_append_conv_if append_take_drop_id)

text \<open>A match that begins before the first difference also begins there in the original text.\<close>

lemma match_before_difference:
  assumes "secret_match (c # redact_text s) \<noteq> None"
  shows "secret_match (c # s) \<noteq> None"
proof (cases "redact_text s = s")
  case True
  with assms show ?thesis by simp
next
  case False
  then obtain p g t u where R: "redact_text s = p @ g @ CHR ''='' # t" and S: "s = p @ g @ u"
    and g: "map lower_char g \<in> set secret_words"
    using redact_text_first [of s] by (elim disjE exE conjE) simp_all
  obtain g' v' r' where "secret_match (c # redact_text s) = Some (g', v', r')"
    using assms by (cases "secret_match (c # redact_text s)") auto
  then obtain a d b where M: "c # redact_text s = g' @ a @ d # b @ v' @ r'" and g': "map lower_char g' \<in> set secret_words"
    and a: "\<forall>x \<in> set a. is_space x" and d: "is_separator d" and b: "\<forall>x \<in> set b. is_space x"
    and v: "v' \<noteq> []" "\<forall>x \<in> set v'. value_char x"
    by (elim secret_match_Some) blast
  define P where "P = c # p @ g"
  obtain w vs where w: "v' = w # vs" using v(1) by (cases v') auto
  have PM: "P @ CHR ''='' # t = (g' @ a @ d # b @ [w]) @ vs @ r'" using R M w by (simp add: P_def)
  have lastP: "last P = last g" "P \<noteq> []" using word_last [OF g] by (simp_all add: P_def)
  show ?thesis
  proof (cases "length (g' @ a @ d # b @ [w]) \<le> length P")
    case True
    then obtain z where z: "P = (g' @ a @ d # b @ [w]) @ z" using append_split [OF PM True] by (elim exE)
    let ?x = "w # z @ u"
    have "c # s = g' @ a @ d # b @ takeWhile value_char ?x @ dropWhile value_char ?x"
      using S z by (simp add: P_def takeWhile_dropWhile_id del: takeWhile.simps dropWhile.simps)
    moreover have "takeWhile value_char ?x \<noteq> []" using v(2) w by simp
    ultimately show ?thesis
      using secret_match_intro [OF g' a d b, of "takeWhile value_char ?x" "dropWhile value_char ?x"]
      by (metis hd_dropWhile option.distinct(1) set_takeWhileD)
  next
    case False
    then have "length P \<le> length (g' @ a @ d # b)" by simp
    moreover have "(g' @ a @ d # b) @ w # vs @ r' = P @ CHR ''='' # t" using PM by simp
    ultimately obtain z where z: "g' @ a @ d # b = P @ z" using append_split by blast
    show ?thesis
    proof (cases "length P < length g'")
      case True
      have "g' @ a @ d # b @ v' @ r' = (P @ [CHR ''='']) @ t" using PM w by simp
      moreover have "length (P @ [CHR ''='']) \<le> length g'" using True by simp
      ultimately obtain y where "g' = (P @ [CHR ''='']) @ y" using append_split by blast
      with word_last [OF g'] show ?thesis by simp
    next
      case False
      then obtain y where y: "P = g' @ y" using append_split [OF z [symmetric]] by auto
      show ?thesis
      proof (cases "y = []")
        case True
        then have "map lower_char g' = map lower_char (c # p) @ map lower_char g" using y by (auto simp: P_def)
        then have "map lower_char (c # p) = []" using keyword_suffix [OF g' g] by blast
        then show ?thesis by simp
      next
        case False
        have "a @ d # b = y @ z" using z y by simp
        then have "set (a @ d # b) = set (y @ z)" by (rule arg_cong)
        then have "set y \<subseteq> set a \<union> {d} \<union> set b" by auto
        moreover have "last P \<in> set y" using y False by simp
        ultimately show ?thesis using a b d lastP word_last [OF g] by auto
      qed
    qed
  qed
qed

section \<open>No value is left\<close>

lemma leaks_no_word: "keyword_at (c # s) = None \<Longrightarrow> leaks (c # s) = leaks s"
  by (simp add: secret_match_def)

lemma word_inside:
  "list_all (\<lambda>k. list_all (\<lambda>i. list_all (\<lambda>l. take (length l) (drop i k) \<noteq> l) secret_words) [1..<length k]) secret_words"
  by code_simp

lemma no_word_inside:
  assumes "map lower_char (g1 @ g2) \<in> set secret_words" "g1 \<noteq> []" "g2 \<noteq> []"
  shows "keyword_at (g2 @ CHR ''='' # s) = None"
proof (rule ccontr)
  assume "keyword_at (g2 @ CHR ''='' # s) \<noteq> None"
  then obtain l where l: "keyword_at (g2 @ CHR ''='' # s) = Some l" by auto
  note L = keyword_at_Some [OF l]
  show False
  proof (cases "length l \<le> length g2")
    case True
    then have "take (length l) (drop (length g1) (map lower_char (g1 @ g2))) = l"
      using L by (simp add: take_map)
    moreover have "length g1 \<in> set [1..<length (map lower_char (g1 @ g2))]"
      using assms(2,3) by (simp add: Suc_le_eq)
    ultimately show False using word_inside assms(1) L unfolding list_all_iff by blast
  next
    case False
    then obtain n where "length l = length g2 + Suc n" by (metis add_Suc_right less_imp_Suc_add not_le)
    then have "CHR ''='' \<in> set (map lower_char (take (length l) (g2 @ CHR ''='' # s)))"
      using lower_equals by simp
    with L keyword_letters show False by metis
  qed
qed

lemma leaks_word_tail:
  "map lower_char (g1 @ g2) \<in> set secret_words \<Longrightarrow> g1 \<noteq> [] \<Longrightarrow>
     leaks (g2 @ CHR ''='' # s) = leaks (CHR ''='' # s)"
proof (induction g2 arbitrary: g1)
  case (Cons c g2)
  have "keyword_at ((c # g2) @ CHR ''='' # s) = None"
    using no_word_inside [of g1 "c # g2" s] Cons.prems by blast
  then have "leaks ((c # g2) @ CHR ''='' # s) = leaks (g2 @ CHR ''='' # s)" using leaks_no_word by simp
  also have "\<dots> = leaks (CHR ''='' # s)"
    using Cons.IH [of "g1 @ [c]"] Cons.prems by simp
  finally show ?case .
qed simp

lemma word_letter:
  assumes "keyword_at s = Some kw" "i < length kw"
  shows "lower_char (s ! i) = kw ! i"
proof -
  note k = keyword_at_Some [OF assms(1)]
  have "map lower_char (take (length kw) s) ! i = lower_char (s ! i)" using k assms(2) by (subst nth_map) auto
  with k show ?thesis by metis
qed

lemma word_start:
  "list_all (\<lambda>k. hd k \<in> set ''pts'' \<and> 1 < length k \<and> (hd k = CHR ''t'' \<longrightarrow> k ! 1 = CHR ''o'')) secret_words"
  by code_simp

lemma lower_marker [simp]:
  "lower_char (CHR ''T'') = CHR ''t''" "lower_char (CHR ''E'') = CHR ''e''" "lower_char (CHR ''R'') = CHR ''r''"
  "lower_char (CHR ''D'') = CHR ''d''" "lower_char (CHR ''A'') = CHR ''a''" "lower_char (CHR ''C'') = CHR ''c''"
  "lower_char (CHR ''['') = CHR ''[''" "lower_char (CHR '']'') = CHR '']''" "lower_char (CHR ''='') = CHR ''=''"
  by code_simp+

lemma no_word_start: "lower_char c \<notin> set ''pts'' \<Longrightarrow> keyword_at (c # s) = None"
proof (rule ccontr)
  assume c: "lower_char c \<notin> set ''pts''" and "keyword_at (c # s) \<noteq> None"
  then obtain k where k: "keyword_at (c # s) = Some k" by auto
  then have "hd k \<in> set ''pts'' \<and> 1 < length k" using word_start keyword_at_Some unfolding list_all_iff by blast
  moreover from this have "lower_char c = hd k" using word_letter [OF k, of 0] by (cases k) auto
  ultimately show False using c by simp
qed

lemma no_word_te: "keyword_at (CHR ''T'' # CHR ''E'' # s) = None"
proof (rule ccontr)
  assume "keyword_at (CHR ''T'' # CHR ''E'' # s) \<noteq> None"
  then obtain k where k: "keyword_at (CHR ''T'' # CHR ''E'' # s) = Some k" by auto
  then have w: "1 < length k" "hd k = CHR ''t'' \<longrightarrow> k ! 1 = CHR ''o''"
    using word_start keyword_at_Some unfolding list_all_iff by blast+
  have "hd k = CHR ''t''" using word_letter [OF k, of 0] w(1) by (cases k) simp_all
  with w word_letter [OF k, of 1] show False by simp
qed

lemma leaks_marker: "leaks (CHR ''='' # marker @ s) = leaks s"
  by (simp only: marker_def append_Cons append_Nil)
    (simp add: leaks_no_word no_word_start no_word_te del: leaks.simps)

lemma leaks_redacted:
  assumes "map lower_char g \<in> set secret_words" "s = [] \<or> \<not> value_char (hd s)"
  shows "leaks (g @ CHR ''='' # marker @ s) = leaks s"
proof -
  obtain c h where g: "g = c # h" using word_last [OF assms(1)] by (cases g) auto
  have "secret_match (g @ [] @ CHR ''='' # [] @ marker @ s) = Some (g, marker, s)"
    by (rule secret_match_intro [OF assms(1) _ _ _ _ _ assms(2)])
      (simp_all add: is_separator_def marker_def value_char_def is_space_def)
  then have "leaks (g @ CHR ''='' # marker @ s) = leaks (h @ CHR ''='' # marker @ s)" by (simp add: g)
  also have "\<dots> = leaks (CHR ''='' # marker @ s)"
    using leaks_word_tail [of "[c]" h] assms(1) by (simp add: g)
  finally show ?thesis using leaks_marker by simp
qed

lemma redact_text_hd:
  assumes "s \<noteq> []" and "\<not> value_char (hd s)"
  shows "redact_text s \<noteq> [] \<and> hd (redact_text s) = hd s"
proof -
  obtain c t where s: "s = c # t" using assms(1) by (cases s) auto
  have "secret_match (c # t) = None"
  proof (rule ccontr)
    assume "secret_match (c # t) \<noteq> None"
    then obtain g v r where m: "secret_match (c # t) = Some (g, v, r)" by (cases "secret_match (c # t)") auto
    obtain u where "c # t = g @ u" "map lower_char g \<in> set secret_words"
      using m by (elim secret_match_Some) blast
    then obtain h where gh: "g = c # h" "map lower_char (c # h) \<in> set secret_words"
      using word_last [of g] by (cases g) auto
    have "list_all (\<lambda>k. hd k \<in> set ''pts'') secret_words" by code_simp
    with gh(2) have "lower_char c \<in> set ''pts''" unfolding list_all_iff by fastforce
    moreover have "\<not> value_char c" using assms(2) s by simp
    ultimately show False
      by (auto simp: value_char_def is_space_def lower_char_def Let_def split: if_splits)
  qed
  then show ?thesis by (simp add: s)
qed

text \<open>
  C25: no text that has gone through redaction, as every error text and evidence value of the setup
  journal has, contains a match of the secret pattern with another value than the marker, at any
  position.
\<close>

theorem redact_text_leaves_no_secret: "\<not> leaks (redact_text s)"
proof (induction s rule: redact_text.induct)
  case (2 c s)
  show ?case
  proof (cases "secret_match (c # s)")
    case None
    then have "secret_match (c # redact_text s) = None" using match_before_difference [of c s] by blast
    with None 2(1) [OF None] show ?thesis by simp
  next
    case (Some m)
    then obtain g v r where m: "secret_match (c # s) = Some (g, v, r)" by (cases m) simp
    have g: "map lower_char g \<in> set secret_words" and r: "r = [] \<or> \<not> value_char (hd r)"
      using m by (elim secret_match_Some; simp)+
    have "redact_text r = [] \<or> \<not> value_char (hd (redact_text r))"
      using r redact_text_hd [of r] by (cases "r = []") auto
    then have "leaks (redact_text (c # s)) = leaks (redact_text r)"
      using leaks_redacted [OF g] m by simp
    with 2(2) [OF m] show ?thesis by simp
  qed
qed simp

end
