(* ===== verification/Setup_Execution.thy ===== *)
theory Setup_Execution
  imports Setup_Plan Setup_Journal Setup_Redaction
begin

text \<open>
  \<open>application/setup/execution.py\<close>: a reviewed plan is applied action by action under the
  installation lock, every step is journaled, and after a failure the applied actions are
  compensated in reverse order. The runner is a parameter: three operations on a world of any type
  that return evidence or raise. A step of the execution changes the state and may raise; a raise
  keeps the changes made before it.
\<close>

section \<open>Steps\<close>

record 'w runner =
  runner_apply :: "setup_action \<Rightarrow> 'w \<Rightarrow> payload result \<times> 'w"
  runner_verify :: "setup_action \<Rightarrow> 'w \<Rightarrow> payload result \<times> 'w"
  runner_compensate :: "setup_action \<Rightarrow> 'w \<Rightarrow> payload result \<times> 'w"

record 'w exec_state =
  world :: 'w
  ex_journal :: journal
  applied_actions :: "setup_action list"
  ex_results :: "action_result list"

type_synonym ('w, 'a) exec = "'w exec_state \<Rightarrow> 'a result \<times> 'w exec_state"

definition bind_exec :: "('w, 'a) exec \<Rightarrow> ('a \<Rightarrow> ('w, 'b) exec) \<Rightarrow> ('w, 'b) exec" where
  "bind_exec m f s = (case m s of (Inl e, s') \<Rightarrow> (Inl e, s') | (Inr a, s') \<Rightarrow> f a s')"

definition record_step :: "string \<Rightarrow> string \<Rightarrow> action_state \<Rightarrow> payload \<Rightarrow> ('w, unit) exec" where
  "record_step sid aid st p s = (case record_transition sid aid st p (ex_journal s) of
     Inl e \<Rightarrow> (Inl e, s)
   | Inr j \<Rightarrow> (Inr (), s\<lparr>ex_journal := j\<rparr>))"

definition run_step ::
    "(setup_action \<Rightarrow> 'w \<Rightarrow> payload result \<times> 'w) \<Rightarrow> setup_action \<Rightarrow> ('w, payload) exec" where
  "run_step f a s = (case f a (world s) of (r, w) \<Rightarrow> (r, s\<lparr>world := w\<rparr>))"

definition mark_applied :: "setup_action \<Rightarrow> ('w, unit) exec" where
  "mark_applied a s = (Inr (), s\<lparr>applied_actions := applied_actions s @ [a]\<rparr>)"

definition add_result :: "action_result \<Rightarrow> ('w, unit) exec" where
  "add_result r s = (case new_action_result r of
     Inl e \<Rightarrow> (Inl e, s)
   | Inr r' \<Rightarrow> (Inr (), s\<lparr>ex_results := ex_results s @ [r']\<rparr>))"

section \<open>Compensation\<close>

fun compensate_actions :: "string \<Rightarrow> 'w runner \<Rightarrow> setup_action list \<Rightarrow> ('w, string set) exec" where
  "compensate_actions sid runner [] s = (Inr {}, s)"
| "compensate_actions sid runner (a # as) s =
     (if \<not> reversible a then
        bind_exec (record_step sid (action_id a) MANUAL_RECOVERY_REQUIRED
          [(''reason'', SStr ''applied action has no automatic compensation'')]) (\<lambda>_ s'.
        bind_exec (compensate_actions sid runner as) (\<lambda>manual s''.
          (Inr (insert (action_id a) manual), s'')) s') s
      else
        bind_exec (record_step sid (action_id a) COMPENSATING []) (\<lambda>_ s0.
        case bind_exec (run_step (runner_compensate runner) a) (\<lambda>evidence.
          record_step sid (action_id a) COMPENSATED (redact_mapping evidence)) s0 of
          (Inr _, s') \<Rightarrow> compensate_actions sid runner as s'
        | (Inl e, s') \<Rightarrow>
            bind_exec (record_step sid (action_id a) MANUAL_RECOVERY_REQUIRED
              [(''error'', SStr (redact_text (exn_str e)))]) (\<lambda>_ s''.
            bind_exec (compensate_actions sid runner as) (\<lambda>manual s3.
              (Inr (insert (action_id a) manual), s3)) s'') s') s)"

section \<open>One action\<close>

definition attempt_action :: "string \<Rightarrow> 'w runner \<Rightarrow> setup_action \<Rightarrow> ('w, unit) exec" where
  "attempt_action sid runner a =
     bind_exec (record_step sid (action_id a) RUNNING []) (\<lambda>_.
     bind_exec (run_step (runner_apply runner) a) (\<lambda>evidence.
     bind_exec (record_step sid (action_id a) APPLIED (redact_mapping evidence)) (\<lambda>_.
     bind_exec (mark_applied a) (\<lambda>_.
     bind_exec (run_step (runner_verify runner) a) (\<lambda>evidence'.
     bind_exec (record_step sid (action_id a) VERIFIED (redact_mapping evidence')) (\<lambda>_.
       add_result \<lparr>result_action_id = action_id a, result_state = VERIFIED,
         result_message = ''Applied and verified'', redacted_evidence = redact_mapping evidence'\<rparr>))))))"

definition mark_manual :: "string set \<Rightarrow> action_result \<Rightarrow> action_result" where
  "mark_manual manual r = (if result_action_id r \<in> manual
     then r\<lparr>result_state := MANUAL_RECOVERY_REQUIRED,
            result_message := ''Applied side effect requires manual recovery''\<rparr>
     else r)"

definition fail_action :: "string \<Rightarrow> 'w runner \<Rightarrow> setup_action \<Rightarrow> exn \<Rightarrow> ('w, unit) exec" where
  "fail_action sid runner a e = (let failure = [(''error'', SStr (redact_text (exn_str e)))] in
     bind_exec (record_step sid (action_id a) FAILED failure) (\<lambda>_.
     bind_exec (add_result \<lparr>result_action_id = action_id a, result_state = FAILED,
       result_message = ''Setup action failed'', redacted_evidence = failure\<rparr>) (\<lambda>_ s.
     bind_exec (compensate_actions sid runner (rev (applied_actions s))) (\<lambda>manual s'.
       (Inr (), s'\<lparr>ex_results := map (mark_manual manual) (ex_results s')\<rparr>)) s)))"

section \<open>The plan\<close>

definition already_verified :: "(string \<rightharpoonup> journal_action) \<Rightarrow> string \<Rightarrow> bool" where
  "already_verified existing aid \<longleftrightarrow> map_option fst (existing aid) = Some VERIFIED"

definition skipped_result :: "(string \<rightharpoonup> journal_action) \<Rightarrow> string \<Rightarrow> action_result" where
  "skipped_result existing aid = \<lparr>result_action_id = aid, result_state = VERIFIED,
     result_message = ''Already verified; skipped during resume'',
     redacted_evidence = snd (the (existing aid))\<rparr>"

fun execute_actions ::
    "string \<Rightarrow> 'w runner \<Rightarrow> (string \<rightharpoonup> journal_action) \<Rightarrow> setup_action list \<Rightarrow> ('w, unit) exec" where
  "execute_actions sid runner existing [] s = (Inr (), s)"
| "execute_actions sid runner existing (a # as) s =
     (if already_verified existing (action_id a)
      then bind_exec (add_result (skipped_result existing (action_id a)))
        (\<lambda>_. execute_actions sid runner existing as) s
      else case attempt_action sid runner a s of
        (Inr _, s') \<Rightarrow> execute_actions sid runner existing as s'
      | (Inl e, s') \<Rightarrow> fail_action sid runner a e s')"

definition execute_locked ::
    "string \<Rightarrow> setup_plan \<Rightarrow> 'w runner \<Rightarrow> 'w \<Rightarrow> journal \<Rightarrow> action_result list result \<times> 'w \<times> journal" where
  "execute_locked sid plan runner w j = (case load_session sid j of
     Inl e \<Rightarrow> (Inl e, w, j)
   | Inr q \<Rightarrow> (case execute_actions sid runner (map_of (js_actions q)) (plan_actions plan)
         \<lparr>world = w, ex_journal = j, applied_actions = [], ex_results = []\<rparr> of
       (Inl e, s) \<Rightarrow> (Inl e, world s, ex_journal s)
     | (Inr _, s) \<Rightarrow> (Inr (ex_results s), world s, ex_journal s)))"

definition installation_id :: string where
  "installation_id = ''default''"

definition execute_plan ::
    "string \<Rightarrow> setup_plan \<Rightarrow> detection_snapshot \<Rightarrow> string \<Rightarrow> 'w runner \<Rightarrow> 'w \<Rightarrow> journal
     \<Rightarrow> action_result list result \<times> 'w \<times> journal" where
  "execute_plan sid plan snapshot config_rev runner w j =
     (case assert_plan_current plan snapshot config_rev of
        Inl e \<Rightarrow> (Inl e, w, j)
      | Inr _ \<Rightarrow> (case acquire_installation_lock installation_id sid (save_plan plan j) of
          Inl e \<Rightarrow> (Inl e, w, save_plan plan j)
        | Inr j' \<Rightarrow> (case execute_locked sid plan runner w (create_session sid (plan_id plan) j') of
            (r, w', j'') \<Rightarrow> (r, w', release_installation_lock installation_id sid j''))))"

section \<open>Journals that grow\<close>

definition entry :: "string \<Rightarrow> string \<Rightarrow> action_state \<Rightarrow> payload \<Rightarrow> transition" where
  "entry sid aid st p = \<lparr>tr_session = sid, tr_action = aid, tr_state = st, tr_payload = sort_key fst p\<rparr>"

definition grow :: "transition list \<Rightarrow> journal \<Rightarrow> journal" where
  "grow new j = j\<lparr>transitions := transitions j @ new\<rparr>"

lemma grow_simps [simp]:
  "grow [] j = j" "grow ys (grow xs j) = grow (xs @ ys) j" "session_plans (grow xs j) = session_plans j"
  "locks (grow xs j) = locks j" "saved_plans (grow xs j) = saved_plans j"
  "transitions (grow xs j) = transitions j @ xs"
  by (simp_all add: grow_def)

definition entries_of :: "string \<Rightarrow> string set \<Rightarrow> transition list \<Rightarrow> bool" where
  "entries_of sid A new \<longleftrightarrow> (\<forall>t \<in> set new. tr_session t = sid \<and> tr_action t \<in> A \<and> secret_free (tr_payload t))"

lemma entries_of_simps [simp]:
  "entries_of sid A []" "entries_of sid A (xs @ ys) \<longleftrightarrow> entries_of sid A xs \<and> entries_of sid A ys"
  "entries_of sid A (t # ys) \<longleftrightarrow> tr_session t = sid \<and> tr_action t \<in> A \<and> secret_free (tr_payload t) \<and> entries_of sid A ys"
  by (auto simp: entries_of_def)

lemma entries_of_mono: "entries_of sid A xs \<Longrightarrow> A \<subseteq> B \<Longrightarrow> entries_of sid B xs"
  by (auto simp: entries_of_def)

lemma entry_simps [simp]:
  "tr_session (entry sid aid st p) = sid" "tr_action (entry sid aid st p) = aid"
  "tr_state (entry sid aid st p) = st" "tr_payload (entry sid aid st p) = sort_key fst p"
  by (simp_all add: entry_def)

definition good :: "string \<Rightarrow> journal \<Rightarrow> bool" where
  "good sid j \<longleftrightarrow> journal_ok j \<and> session_plans j sid \<noteq> None"

lemma good_grow: "good sid j \<Longrightarrow> entries_of sid A new \<Longrightarrow> good sid (grow new j)"
  by (auto simp: good_def journal_ok_def entries_of_def)

lemma status_grow_other:
  "entries_of sid A new \<Longrightarrow> a \<notin> A \<Longrightarrow> status (grow new j) sid a = status j sid a"
proof (induction new rule: rev_induct)
  case (snoc t new)
  then show ?case by (auto simp: status_def session_log_def grow_def)
qed simp

lemma status_grow_last:
  "status (grow (new @ [entry sid a st p]) j) sid a = Some (st, sort_key fst p)"
  by (simp add: status_def session_log_def grow_def)

lemma record_step_good:
  assumes "good sid (ex_journal s)"
  shows "record_step sid aid st p s = (if secret_free p
    then (Inr (), s\<lparr>ex_journal := grow [entry sid aid st p] (ex_journal s)\<rparr>)
    else (Inl (THE e. validate_document p = Inl e), s))"
  using assms by (cases "validate_document p")
    (auto simp: record_step_def record_transition_def good_def grow_def entry_def result_simps
      dest: sym [of _ "Inr _"])

lemma fixed_payloads [simp]:
  "secret_free []" "secret_free [(''error'', v)]" "secret_free [(''reason'', v)]"
proof -
  have "\<not> secret_key ''error''" "\<not> secret_key ''reason''" by code_simp+
  then show "secret_free []" "secret_free [(''error'', v)]" "secret_free [(''reason'', v)]"
    by (simp_all add: secret_free_def)
qed

lemma add_result_free:
  "secret_free (redacted_evidence r) \<Longrightarrow> add_result r s = (Inr (), s\<lparr>ex_results := ex_results s @ [r]\<rparr>)"
  using reject_secret_mapping_Inr [of "redacted_evidence r" "()"]
  by (simp add: add_result_def new_action_result_def)

lemma exec_step_simps [simp]:
  "bind_exec m f s = (case m s of (Inl e, s') \<Rightarrow> (Inl e, s') | (Inr a, s') \<Rightarrow> f a s')"
  by (simp add: bind_exec_def)

section \<open>Outcome of compensation\<close>

definition state_in :: "journal \<Rightarrow> string \<Rightarrow> string \<Rightarrow> action_state option" where
  "state_in j sid a = map_option fst (status j sid a)"

lemma state_in_grow_last [simp]:
  "state_in (grow (new @ [entry sid a st p]) j) sid a = Some st"
  "state_in (grow [entry sid a st p] j) sid a = Some st"
  using status_grow_last [of new sid a st p j] status_grow_last [of "[]" sid a st p j]
  by (simp_all add: state_in_def)

lemma state_in_grow_other:
  "entries_of sid A new \<Longrightarrow> a \<notin> A \<Longrightarrow> state_in (grow new j) sid a = state_in j sid a"
  by (simp add: state_in_def status_grow_other)

definition never_applied :: "transition list \<Rightarrow> bool" where
  "never_applied new \<longleftrightarrow> (\<forall>t \<in> set new. tr_state t \<noteq> APPLIED)"

lemma never_applied_simps [simp]:
  "never_applied []" "never_applied (xs @ ys) \<longleftrightarrow> never_applied xs \<and> never_applied ys"
  "never_applied (t # ys) \<longleftrightarrow> tr_state t \<noteq> APPLIED \<and> never_applied ys"
  by (auto simp: never_applied_def)

text \<open>What compensating one action leaves behind.\<close>

lemma compensate_head:
  assumes "good sid (ex_journal s)"
  shows "\<exists>new st p s'. ex_journal s' = grow (new @ [entry sid (action_id a) st p]) (ex_journal s)
    \<and> entries_of sid {action_id a} (new @ [entry sid (action_id a) st p])
    \<and> never_applied (new @ [entry sid (action_id a) st p])
    \<and> applied_actions s' = applied_actions s \<and> ex_results s' = ex_results s
    \<and> (st = COMPENSATED \<and> reversible a
          \<and> compensate_actions sid runner (a # as) s = compensate_actions sid runner as s'
        \<or> st = MANUAL_RECOVERY_REQUIRED
          \<and> compensate_actions sid runner (a # as) s = bind_exec (compensate_actions sid runner as)
              (\<lambda>m s''. (Inr (insert (action_id a) m), s'')) s')"
proof (cases "reversible a")
  case False
  let ?p = "[(''reason'', SStr ''applied action has no automatic compensation'')]"
  show ?thesis
    by (intro exI [of _ "[]"] exI [of _ MANUAL_RECOVERY_REQUIRED] exI [of _ ?p]
        exI [of _ "s\<lparr>ex_journal := grow [entry sid (action_id a) MANUAL_RECOVERY_REQUIRED ?p] (ex_journal s)\<rparr>"])
      (use False in \<open>simp add: record_step_good [OF assms]\<close>)
next
  case True
  let ?j1 = "grow [entry sid (action_id a) COMPENSATING []] (ex_journal s)"
  have g1: "good sid ?j1" by (rule good_grow [OF assms, where A = "{action_id a}"]) simp
  obtain r w where c: "runner_compensate runner a (world s) = (r, w)" by fastforce
  show ?thesis
  proof (cases "\<exists>ev. r = Inr ev \<and> secret_free (redact_mapping ev)")
    case True
    then obtain ev where ev: "r = Inr ev" "secret_free (redact_mapping ev)" by blast
    show ?thesis
      by (intro exI [of _ "[entry sid (action_id a) COMPENSATING []]"]
          exI [of _ COMPENSATED] exI [of _ "redact_mapping ev"]
          exI [of _ "s\<lparr>world := w, ex_journal := grow [entry sid (action_id a) COMPENSATED (redact_mapping ev)] ?j1\<rparr>"])
        (use \<open>reversible a\<close> ev c g1 in \<open>simp add: record_step_good [OF assms] record_step_good run_step_def\<close>)
  next
    case False
    then obtain e where e: "bind_exec (run_step (runner_compensate runner) a) (\<lambda>evidence.
          record_step sid (action_id a) COMPENSATED (redact_mapping evidence)) (s\<lparr>ex_journal := ?j1\<rparr>)
        = (Inl e, s\<lparr>world := w, ex_journal := ?j1\<rparr>)"
      using c g1 by (cases r) (simp_all add: run_step_def record_step_good)
    let ?p = "[(''error'', SStr (redact_text (exn_str e)))]"
    show ?thesis
      by (intro exI [of _ "[entry sid (action_id a) COMPENSATING []]"]
          exI [of _ MANUAL_RECOVERY_REQUIRED] exI [of _ ?p]
          exI [of _ "s\<lparr>world := w, ex_journal := grow [entry sid (action_id a) MANUAL_RECOVERY_REQUIRED ?p] ?j1\<rparr>"])
        (use \<open>reversible a\<close> e g1 in \<open>simp add: record_step_good [OF assms] record_step_good del: bind_exec_def\<close>)
  qed
qed

text \<open>Every action in the list ends compensated, or is handed over for manual recovery.\<close>

definition recovered :: "string set \<Rightarrow> string \<Rightarrow> action_state" where
  "recovered manual aid = (if aid \<in> manual then MANUAL_RECOVERY_REQUIRED else COMPENSATED)"

lemma compensate_outcome:
  assumes "good sid (ex_journal s)" and "distinct (map action_id as)"
  shows "\<exists>new manual s'. compensate_actions sid runner as s = (Inr manual, s')
    \<and> ex_journal s' = grow new (ex_journal s) \<and> entries_of sid (action_id ` set as) new \<and> never_applied new
    \<and> applied_actions s' = applied_actions s \<and> ex_results s' = ex_results s \<and> manual \<subseteq> action_id ` set as
    \<and> (\<forall>a \<in> set as. \<not> reversible a \<longrightarrow> action_id a \<in> manual)
    \<and> (\<forall>a \<in> set as. state_in (ex_journal s') sid (action_id a) = Some (recovered manual (action_id a)))"
  using assms
proof (induction as arbitrary: s)
  case Nil
  show ?case by (intro exI [of _ "[]"] exI [of _ "{}"] exI [of _ s]) simp
next
  case (Cons a as)
  obtain new st p s1 where h: "ex_journal s1 = grow (new @ [entry sid (action_id a) st p]) (ex_journal s)"
    "entries_of sid {action_id a} (new @ [entry sid (action_id a) st p])"
    "never_applied (new @ [entry sid (action_id a) st p])"
    "applied_actions s1 = applied_actions s" "ex_results s1 = ex_results s"
    and c: "st = COMPENSATED \<and> reversible a
          \<and> compensate_actions sid runner (a # as) s = compensate_actions sid runner as s1
        \<or> st = MANUAL_RECOVERY_REQUIRED
          \<and> compensate_actions sid runner (a # as) s = bind_exec (compensate_actions sid runner as)
              (\<lambda>m s''. (Inr (insert (action_id a) m), s'')) s1"
    using compensate_head [OF Cons.prems(1), of a runner as] by (elim exE conjE)
  have "good sid (ex_journal s1)" using good_grow [OF Cons.prems(1) h(2)] h(1) by simp
  then obtain new2 m s2 where t: "compensate_actions sid runner as s1 = (Inr m, s2)"
    "ex_journal s2 = grow new2 (ex_journal s1)" "entries_of sid (action_id ` set as) new2" "never_applied new2"
    "applied_actions s2 = applied_actions s1" "ex_results s2 = ex_results s1" "m \<subseteq> action_id ` set as"
    "\<forall>b \<in> set as. \<not> reversible b \<longrightarrow> action_id b \<in> m"
    "\<forall>b \<in> set as. state_in (ex_journal s2) sid (action_id b) = Some (recovered m (action_id b))"
    using Cons.IH [of s1] Cons.prems(2) by (auto simp del: bind_exec_def)
  have fresh: "action_id a \<notin> action_id ` set as" using Cons.prems(2) by simp
  then have other: "action_id b \<noteq> action_id a" if "b \<in> set as" for b using that by (metis imageI)
  have old: "state_in (ex_journal s2) sid (action_id a) = state_in (ex_journal s1) sid (action_id a)"
    using t(2,3) fresh state_in_grow_other by simp
  have E: "entries_of sid (action_id ` set (a # as)) ((new @ [entry sid (action_id a) st p]) @ new2)"
    using entries_of_mono [OF h(2), of "action_id ` set (a # as)"] entries_of_mono [OF t(3), of "action_id ` set (a # as)"]
    by (simp add: subset_insertI)
  from c show ?case
  proof (elim disjE conjE)
    assume q: "st = COMPENSATED" "reversible a"
      "compensate_actions sid runner (a # as) s = compensate_actions sid runner as s1"
    have a: "action_id a \<notin> m" using fresh t(7) by blast
    have "state_in (ex_journal s1) sid (action_id a) = Some COMPENSATED" using h(1) q(1) by simp
    then show ?thesis
      using q t h E old a
      by (intro exI [of _ "(new @ [entry sid (action_id a) st p]) @ new2"] exI [of _ m] exI [of _ s2])
        (simp add: recovered_def subset_insertI2 del: compensate_actions.simps)
  next
    assume q: "st = MANUAL_RECOVERY_REQUIRED"
      "compensate_actions sid runner (a # as) s = bind_exec (compensate_actions sid runner as)
              (\<lambda>m s''. (Inr (insert (action_id a) m), s'')) s1"
    have "state_in (ex_journal s1) sid (action_id a) = Some MANUAL_RECOVERY_REQUIRED" using h(1) q(1) by simp
    then show ?thesis
      using q t h E old other
      by (intro exI [of _ "(new @ [entry sid (action_id a) st p]) @ new2"] exI [of _ "insert (action_id a) m"] exI [of _ s2])
        (auto simp: recovered_def simp del: compensate_actions.simps)
  qed
qed

section \<open>Outcome of one action\<close>

definition attempt_ok :: "setup_action \<Rightarrow> 'w exec_state \<Rightarrow> 'w exec_state \<Rightarrow> string \<Rightarrow> bool" where
  "attempt_ok a s s' sid \<longleftrightarrow> applied_actions s' = applied_actions s @ [a]
     \<and> state_in (ex_journal s') sid (action_id a) = Some VERIFIED
     \<and> (\<exists>v. ex_results s' = ex_results s @ [v] \<and> result_action_id v = action_id a \<and> result_state v = VERIFIED)"

definition attempt_failed :: "setup_action \<Rightarrow> 'w exec_state \<Rightarrow> 'w exec_state \<Rightarrow> transition list \<Rightarrow> bool" where
  "attempt_failed a s s' new \<longleftrightarrow> ex_results s' = ex_results s
     \<and> (applied_actions s' = applied_actions s \<and> never_applied new \<or> applied_actions s' = applied_actions s @ [a])"

lemma attempt_outcome:
  assumes good: "good sid (ex_journal s)"
  shows "\<exists>new r s'. attempt_action sid runner a s = (r, s') \<and> ex_journal s' = grow new (ex_journal s)
    \<and> entries_of sid {action_id a} new
    \<and> (r = Inr () \<and> attempt_ok a s s' sid \<or> (\<exists>e. r = Inl e) \<and> attempt_failed a s s' new)"
proof -
  let ?e = "entry sid (action_id a)"
  let ?j = "ex_journal s"
  note step = record_step_good [of sid]
  have g: "good sid (grow new ?j)" if "entries_of sid {action_id a} new" for new
    using good_grow [OF good that] .
  obtain ra wa where ap: "runner_apply runner a (world s) = (ra, wa)" by fastforce
  obtain rv wv where ve: "runner_verify runner a wa = (rv, wv)" by fastforce
  have g1: "good sid (grow [?e RUNNING []] ?j)" by (rule g) simp
  show ?thesis
  proof (cases "\<exists>ev. ra = Inr ev \<and> secret_free (redact_mapping ev)")
    case False
    then have "\<exists>e. attempt_action sid runner a s = (Inl e, s\<lparr>world := wa, ex_journal := grow [?e RUNNING []] ?j\<rparr>)"
      using ap g1 good by (cases ra) (simp_all add: attempt_action_def step run_step_def)
    then show ?thesis
      by (elim exE) (rule exI [of _ "[?e RUNNING []]"], rule exI, rule exI, rule conjI, assumption,
          simp add: attempt_failed_def)
  next
    case True
    then obtain ev where ev: "ra = Inr ev" "secret_free (redact_mapping ev)" by blast
    let ?n2 = "[?e RUNNING [], ?e APPLIED (redact_mapping ev)]"
    have g2: "good sid (grow ?n2 ?j)" by (rule g) (simp add: ev)
    show ?thesis
    proof (cases "\<exists>ev'. rv = Inr ev' \<and> secret_free (redact_mapping ev')")
      case False
      then have "\<exists>e. attempt_action sid runner a s =
          (Inl e, s\<lparr>world := wv, ex_journal := grow ?n2 ?j, applied_actions := applied_actions s @ [a]\<rparr>)"
        using ap ve g1 g2 ev good
        by (cases rv) (simp_all add: attempt_action_def step run_step_def mark_applied_def)
      then show ?thesis
        using ev by (elim exE) (rule exI [of _ ?n2], rule exI, rule exI, rule conjI, assumption,
          simp add: attempt_failed_def)
    next
      case True
      then obtain ev' where ev': "rv = Inr ev'" "secret_free (redact_mapping ev')" by blast
      let ?n3 = "?n2 @ [?e VERIFIED (redact_mapping ev')]"
      let ?v = "\<lparr>result_action_id = action_id a, result_state = VERIFIED,
         result_message = ''Applied and verified'', redacted_evidence = redact_mapping ev'\<rparr>"
      have "attempt_action sid runner a s = (Inr (), s\<lparr>world := wv, ex_journal := grow ?n3 ?j,
          applied_actions := applied_actions s @ [a], ex_results := ex_results s @ [?v]\<rparr>)"
        using ap ve g1 g2 ev ev' good
        by (simp add: attempt_action_def step run_step_def mark_applied_def add_result_free)
      moreover have "state_in (grow ?n3 ?j) sid (action_id a) = Some VERIFIED" by (rule state_in_grow_last)
      ultimately show ?thesis
        using ev ev' by (intro exI [of _ ?n3]) (rule exI, rule exI, rule conjI, assumption, simp add: attempt_ok_def)
    qed
  qed
qed

section \<open>Outcome of a failure\<close>

text \<open>
  What holds after a failure that ended the run: the results are those before, with some turned into
  manual recoveries, the last one is failed or manual, and every action this run applied is
  compensated or handed over.
\<close>

definition settled :: "action_state option \<Rightarrow> bool" where
  "settled st \<longleftrightarrow> st = Some COMPENSATED \<or> st = Some MANUAL_RECOVERY_REQUIRED"

lemma settled_recovered [simp]: "settled (Some (recovered m a))"
  by (simp add: settled_def recovered_def)

lemma mark_manual_id [simp]: "result_action_id (mark_manual m r) = result_action_id r"
  by (simp add: mark_manual_def)

lemma fail_outcome:
  assumes good: "good sid (ex_journal s)" and dist: "distinct (map action_id (applied_actions s))"
  shows "\<exists>new s'. fail_action sid runner a e s = (Inr (), s') \<and> ex_journal s' = grow new (ex_journal s)
    \<and> entries_of sid (insert (action_id a) (action_id ` set (applied_actions s))) new \<and> never_applied new
    \<and> (\<forall>b \<in> set (applied_actions s). settled (state_in (ex_journal s') sid (action_id b)))
    \<and> map result_action_id (ex_results s') = map result_action_id (ex_results s) @ [action_id a]
    \<and> result_state (last (ex_results s')) \<in> {FAILED, MANUAL_RECOVERY_REQUIRED}"
proof -
  let ?p = "[(''error'', SStr (redact_text (exn_str e)))]"
  let ?f = "[entry sid (action_id a) FAILED ?p]"
  let ?v = "\<lparr>result_action_id = action_id a, result_state = FAILED, result_message = ''Setup action failed'',
    redacted_evidence = ?p\<rparr>"
  let ?s = "s\<lparr>ex_journal := grow ?f (ex_journal s), ex_results := ex_results s @ [?v]\<rparr>"
  have g: "good sid (ex_journal ?s)" using good_grow [OF good, of "{action_id a}" ?f] by simp
  obtain new m s' where c: "compensate_actions sid runner (rev (applied_actions s)) ?s = (Inr m, s')"
    "ex_journal s' = grow new (ex_journal ?s)" "entries_of sid (action_id ` set (applied_actions s)) new"
    "never_applied new" "ex_results s' = ex_results ?s"
    "\<forall>b \<in> set (applied_actions s). state_in (ex_journal s') sid (action_id b) = Some (recovered m (action_id b))"
    using compensate_outcome [OF g, of "rev (applied_actions s)" runner] dist
    by (auto simp add: rev_map [symmetric] simp del: exec_step_simps)
  have run: "fail_action sid runner a e s = (Inr (), s'\<lparr>ex_results := map (mark_manual m) (ex_results s')\<rparr>)"
    using c(1) by (simp add: fail_action_def Let_def record_step_good [OF good] add_result_free)
  have "result_state (mark_manual m ?v) \<in> {FAILED, MANUAL_RECOVERY_REQUIRED}" by (simp add: mark_manual_def)
  then have "result_state (last (map (mark_manual m) (ex_results s'))) \<in> {FAILED, MANUAL_RECOVERY_REQUIRED}"
    using c(5) by simp
  moreover have "map result_action_id (map (mark_manual m) (ex_results s')) = map result_action_id (ex_results s) @ [action_id a]"
    using c(5) by simp
  moreover have "entries_of sid (insert (action_id a) (action_id ` set (applied_actions s))) (?f @ new)"
    using entries_of_mono [OF c(3), of "insert (action_id a) (action_id ` set (applied_actions s))"] by (simp add: subset_insertI)
  ultimately show ?thesis
    using c(2,4,6) by (intro exI [of _ "?f @ new"]) (rule exI, rule conjI, rule run, simp)
qed

section \<open>Outcome of a run\<close>

definition open_ids :: "(string \<rightharpoonup> journal_action) \<Rightarrow> setup_action list \<Rightarrow> string set" where
  "open_ids existing as = {aid \<in> action_id ` set as. \<not> already_verified existing aid}"

lemma open_ids_simps [simp]:
  "open_ids existing [] = {}"
  "open_ids existing (a # as) = (if already_verified existing (action_id a) then {} else {action_id a}) \<union> open_ids existing as"
  by (auto simp: open_ids_def)

definition run_ok ::
    "string \<Rightarrow> (string \<rightharpoonup> journal_action) \<Rightarrow> setup_action list \<Rightarrow> 'w exec_state \<Rightarrow> 'w exec_state \<Rightarrow> transition list \<Rightarrow> bool" where
  "run_ok sid existing as s s' new \<longleftrightarrow> entries_of sid (open_ids existing as) new
     \<and> (\<exists>rs. ex_results s' = ex_results s @ rs \<and> map result_action_id rs = map action_id as
          \<and> (\<forall>r \<in> set rs. result_state r = VERIFIED))
     \<and> (\<forall>a \<in> set as. state_in (ex_journal s') sid (action_id a) = Some VERIFIED)"

definition run_failed ::
    "string \<Rightarrow> (string \<rightharpoonup> journal_action) \<Rightarrow> setup_action list \<Rightarrow> 'w exec_state \<Rightarrow> 'w exec_state \<Rightarrow> transition list \<Rightarrow> bool" where
  "run_failed sid existing as s s' new \<longleftrightarrow>
     entries_of sid (action_id ` set (applied_actions s) \<union> open_ids existing as) new
     \<and> (\<exists>n < length as. map result_action_id (ex_results s') =
          map result_action_id (ex_results s) @ take (Suc n) (map action_id as))
     \<and> result_state (last (ex_results s')) \<in> {FAILED, MANUAL_RECOVERY_REQUIRED}
     \<and> (\<forall>b \<in> set (applied_actions s). settled (state_in (ex_journal s') sid (action_id b)))
     \<and> (\<forall>t \<in> set new. tr_state t = APPLIED \<longrightarrow> settled (state_in (ex_journal s') sid (tr_action t)))"

lemma run_ok_Cons:
  assumes "run_ok sid existing as s1 s' new2" and "ex_journal s1 = grow new1 (ex_journal s)"
    and "entries_of sid (if already_verified existing (action_id a) then {} else {action_id a}) new1"
    and "ex_results s1 = ex_results s @ [v]" "result_action_id v = action_id a" "result_state v = VERIFIED"
    and "state_in (ex_journal s1) sid (action_id a) = Some VERIFIED"
    and "ex_journal s' = grow new2 (ex_journal s1)" and "action_id a \<notin> action_id ` set as"
  shows "run_ok sid existing (a # as) s s' (new1 @ new2)"
proof -
  obtain rs where rs: "ex_results s' = ex_results s1 @ rs" "map result_action_id rs = map action_id as"
    "\<forall>r \<in> set rs. result_state r = VERIFIED" using assms(1) unfolding run_ok_def by blast
  have e2: "entries_of sid (open_ids existing as) new2" using assms(1) by (simp add: run_ok_def)
  have "action_id a \<notin> open_ids existing as" using assms(9) by (simp add: open_ids_def)
  then have "state_in (ex_journal s') sid (action_id a) = Some VERIFIED"
    using assms(7,8) state_in_grow_other [OF e2] by simp
  moreover have "entries_of sid (open_ids existing (a # as)) (new1 @ new2)"
    using entries_of_mono [OF assms(3), of "open_ids existing (a # as)"]
      entries_of_mono [OF e2, of "open_ids existing (a # as)"] by simp
  ultimately show ?thesis
    using assms(1,4,5,6) rs unfolding run_ok_def
    by (intro conjI exI [of _ "v # rs"]) auto
qed

lemma run_failed_Cons:
  assumes "run_failed sid existing as s1 s' new2" and "entries_of sid (if already_verified existing (action_id a) then {} else {action_id a}) new1"
    and "map result_action_id (ex_results s1) = map result_action_id (ex_results s) @ [action_id a]"
    and "applied_actions s1 = applied_actions s @ bs"
    and "set bs \<subseteq> {a} - {b. already_verified existing (action_id b)}"
    and "never_applied new1 \<or> bs = [a]"
  shows "run_failed sid existing (a # as) s s' (new1 @ new2)"
proof -
  let ?B = "action_id ` set (applied_actions s) \<union> open_ids existing (a # as)"
  have b: "action_id ` set bs \<subseteq> open_ids existing (a # as)" using assms(5) by auto
  then have "entries_of sid ?B new2"
    using assms(1) unfolding run_failed_def assms(4)
    by (elim conjE entries_of_mono) auto
  moreover have "entries_of sid ?B new1" using entries_of_mono [OF assms(2), of ?B] by auto
  moreover obtain n where n: "n < length as"
    "map result_action_id (ex_results s') = map result_action_id (ex_results s1) @ take (Suc n) (map action_id as)"
    using assms(1) unfolding run_failed_def by blast
  moreover have "settled (state_in (ex_journal s') sid (tr_action t))" if "t \<in> set new1" "tr_state t = APPLIED" for t
  proof -
    have "tr_action t = action_id a" using assms(2) that(1) by (auto simp: entries_of_def split: if_splits)
    moreover have "bs = [a]" using assms(6) that by (auto simp: never_applied_def)
    ultimately show ?thesis using assms(1,4) by (simp add: run_failed_def)
  qed
  ultimately show ?thesis
    using assms(1,3,4) unfolding run_failed_def
    by (intro conjI exI [of _ "Suc n"]) auto
qed

lemma run_failed_here:
  assumes good: "good sid (ex_journal s)" and open_a: "\<not> already_verified existing (action_id a)"
    and dist: "distinct (map action_id (applied_actions s) @ map action_id (a # as))"
    and a: "attempt_action sid runner a s = (Inl e, s1)" "ex_journal s1 = grow new (ex_journal s)"
      "entries_of sid {action_id a} new" "attempt_failed a s s1 new"
  shows "\<exists>new s'. fail_action sid runner a e s1 = (Inr (), s') \<and> ex_journal s' = grow new (ex_journal s)
    \<and> run_failed sid existing (a # as) s s' new"
proof -
  have g1: "good sid (ex_journal s1)" using good_grow [OF good a(3)] a(2) by simp
  have app: "applied_actions s1 = applied_actions s \<and> never_applied new \<or> applied_actions s1 = applied_actions s @ [a]"
    using a(4) by (simp add: attempt_failed_def)
  then have "distinct (map action_id (applied_actions s1))" using dist by auto
  from fail_outcome [OF g1 this, of runner a e]
  obtain new2 s' where f: "fail_action sid runner a e s1 = (Inr (), s')" "ex_journal s' = grow new2 (ex_journal s1)"
    "entries_of sid (insert (action_id a) (action_id ` set (applied_actions s1))) new2" "never_applied new2"
    "\<forall>b \<in> set (applied_actions s1). settled (state_in (ex_journal s') sid (action_id b))"
    "map result_action_id (ex_results s') = map result_action_id (ex_results s1) @ [action_id a]"
    "result_state (last (ex_results s')) \<in> {FAILED, MANUAL_RECOVERY_REQUIRED}" by (elim exE conjE)
  let ?B = "action_id ` set (applied_actions s) \<union> open_ids existing (a # as)"
  have "insert (action_id a) (action_id ` set (applied_actions s1)) \<subseteq> ?B" using app open_a by auto
  then have e2: "entries_of sid ?B new2" using entries_of_mono [OF f(3)] by blast
  have e1: "entries_of sid ?B new" using entries_of_mono [OF a(3), of ?B] open_a by auto
  have "settled (state_in (ex_journal s') sid (tr_action t))" if "t \<in> set (new @ new2)" "tr_state t = APPLIED" for t
  proof -
    have "t \<in> set new" using that f(4) by (auto simp: never_applied_def)
    then have "tr_action t = action_id a" "applied_actions s1 = applied_actions s @ [a]"
      using a(3) app that(2) by (auto simp: entries_of_def never_applied_def)
    with f(5) show ?thesis by simp
  qed
  moreover have "\<forall>b \<in> set (applied_actions s). settled (state_in (ex_journal s') sid (action_id b))"
    using f(5) app by auto
  moreover have "map result_action_id (ex_results s') = map result_action_id (ex_results s) @ take (Suc 0) (map action_id (a # as))"
    using f(6) a(4) by (simp add: attempt_failed_def)
  ultimately have "run_failed sid existing (a # as) s s' (new @ new2)"
    using e1 e2 f(7) unfolding run_failed_def by (intro conjI exI [of _ 0]) auto
  with f(1,2) a(2) show ?thesis by (intro exI [of _ "new @ new2"] exI [of _ s']) simp
qed

lemma execute_outcome:
  assumes "good sid (ex_journal s)"
    and "distinct (map action_id (applied_actions s) @ map action_id as)"
    and "\<And>a. a \<in> set as \<Longrightarrow> status (ex_journal s) sid (action_id a) = existing (action_id a)"
    and "\<And>b. b \<in> set (applied_actions s) \<Longrightarrow> \<not> already_verified existing (action_id b)"
  shows "\<exists>new s'. execute_actions sid runner existing as s = (Inr (), s') \<and> ex_journal s' = grow new (ex_journal s)
    \<and> (run_ok sid existing as s s' new \<or> run_failed sid existing as s s' new)"
  using assms
proof (induction as arbitrary: s)
  case Nil
  show ?case by (intro exI [of _ "[]"] exI [of _ s]) (simp add: run_ok_def)
next
  case (Cons a as)
  have fresh: "action_id a \<notin> action_id ` set as" and dist: "distinct (map action_id as)"
    using Cons.prems(2) by simp_all
  show ?case
  proof (cases "already_verified existing (action_id a)")
    case True
    let ?v = "skipped_result existing (action_id a)"
    let ?s1 = "s\<lparr>ex_results := ex_results s @ [?v]\<rparr>"
    obtain p where p: "existing (action_id a) = Some (VERIFIED, p)"
      using True by (auto simp: already_verified_def)
    have st: "status (ex_journal s) sid (action_id a) = Some (VERIFIED, p)" using Cons.prems(3) [of a] p by simp
    then have "secret_free p" using status_secret_free Cons.prems(1) unfolding good_def by blast
    then have run: "execute_actions sid runner existing (a # as) s = execute_actions sid runner existing as ?s1"
      using True p by (simp add: add_result_free skipped_result_def)
    obtain new s' where i: "execute_actions sid runner existing as ?s1 = (Inr (), s')"
      "ex_journal s' = grow new (ex_journal ?s1)" "run_ok sid existing as ?s1 s' new \<or> run_failed sid existing as ?s1 s' new"
      using Cons.IH [of ?s1] Cons.prems by auto
    have v: "result_action_id ?v = action_id a" "result_state ?v = VERIFIED" by (simp_all add: skipped_result_def)
    from i(3) have "run_ok sid existing (a # as) s s' ([] @ new) \<or> run_failed sid existing (a # as) s s' ([] @ new)"
    proof
      assume "run_ok sid existing as ?s1 s' new"
      from run_ok_Cons [OF this, of "[]" s a ?v] show ?thesis
        using True v st i(2) fresh by (simp add: state_in_def)
    next
      assume "run_failed sid existing as ?s1 s' new"
      from run_failed_Cons [OF this, of a "[]" s "[]"] show ?thesis using True v by simp
    qed
    then show ?thesis using i(1,2) by (intro exI [of _ new] exI [of _ s']) (simp only: run, simp)
  next
    case False
    obtain new1 r s1 where a: "attempt_action sid runner a s = (r, s1)" "ex_journal s1 = grow new1 (ex_journal s)"
      "entries_of sid {action_id a} new1"
      "r = Inr () \<and> attempt_ok a s s1 sid \<or> (\<exists>e. r = Inl e) \<and> attempt_failed a s s1 new1"
      using attempt_outcome [OF Cons.prems(1), of runner a] by (elim exE conjE)
    from a(4) show ?thesis
    proof (elim disjE conjE exE)
      fix e assume e: "attempt_failed a s s1 new1" "r = Inl e"
      from run_failed_here [OF Cons.prems(1) False Cons.prems(2) _ a(2,3) e(1), of runner e] a(1) e(2)
      obtain new s' where "fail_action sid runner a e s1 = (Inr (), s')" "ex_journal s' = grow new (ex_journal s)"
        "run_failed sid existing (a # as) s s' new" by blast
      then show ?thesis using False a(1) e(2) by (intro exI [of _ new] exI [of _ s']) simp
    next
      assume ok: "r = Inr ()" "attempt_ok a s s1 sid"
      then obtain v where v: "ex_results s1 = ex_results s @ [v]" "result_action_id v = action_id a"
        "result_state v = VERIFIED" by (auto simp: attempt_ok_def)
      have app: "applied_actions s1 = applied_actions s @ [a]"
        "state_in (ex_journal s1) sid (action_id a) = Some VERIFIED" using ok(2) by (simp_all add: attempt_ok_def)
      have g1: "good sid (ex_journal s1)" using good_grow [OF Cons.prems(1) a(3)] a(2) by simp
      have rest: "status (ex_journal s1) sid (action_id b) = existing (action_id b)" if "b \<in> set as" for b
      proof -
        have "action_id b \<notin> {action_id a}" using fresh that by (metis imageI singletonD)
        then show ?thesis using Cons.prems(3) [of b] that a(2) status_grow_other [OF a(3)] by simp
      qed
      obtain new2 s' where i: "execute_actions sid runner existing as s1 = (Inr (), s')"
        "ex_journal s' = grow new2 (ex_journal s1)" "run_ok sid existing as s1 s' new2 \<or> run_failed sid existing as s1 s' new2"
        using Cons.IH [OF g1 _ rest] Cons.prems(2,4) app False by auto
      from i(3) have "run_ok sid existing (a # as) s s' (new1 @ new2) \<or> run_failed sid existing (a # as) s s' (new1 @ new2)"
      proof
        assume "run_ok sid existing as s1 s' new2"
        from run_ok_Cons [OF this a(2) _ v app(2) i(2) fresh] show ?thesis using False a(3) by simp
      next
        assume "run_failed sid existing as s1 s' new2"
        from run_failed_Cons [OF this _ _ app(1)] show ?thesis using False a(3) v by simp
      qed
      then show ?thesis using i(1,2) a(1,2) ok(1) False by (intro exI [of _ "new1 @ new2"] exI [of _ s']) simp
    qed
  qed
qed

section \<open>Outcome of a plan\<close>

definition stale :: "setup_plan \<Rightarrow> detection_snapshot \<Rightarrow> string \<Rightarrow> bool" where
  "stale plan snapshot config_rev \<longleftrightarrow>
     detection_snapshot_id plan \<noteq> snapshot_id snapshot \<or> plan_config_revision plan \<noteq> config_rev"

definition locked_by_other :: "journal \<Rightarrow> string \<Rightarrow> bool" where
  "locked_by_other j sid \<longleftrightarrow> (\<exists>owner. locks j installation_id = Some owner \<and> owner \<noteq> sid)"

text \<open>The journal an execution starts from, once it holds the lock.\<close>

definition locked_journal :: "string \<Rightarrow> setup_plan \<Rightarrow> journal \<Rightarrow> journal" where
  "locked_journal sid plan j = create_session sid (plan_id plan)
     ((save_plan plan j)\<lparr>locks := (locks j)(installation_id \<mapsto> sid)\<rparr>)"

lemma execute_plan_cases:
  "execute_plan sid plan snapshot config_rev runner w j =
     (if stale plan snapshot config_rev
      then (Inl (StaleSetupPlanError ''setup plan is stale; detect and review again''), w, j)
      else if locked_by_other j sid
      then (Inl (SetupLockConflictError ''another setup session holds the installation writer lock''), w, save_plan plan j)
      else case execute_locked sid plan runner w (locked_journal sid plan j) of
        (r, w', j'') \<Rightarrow> (r, w', release_installation_lock installation_id sid j''))"
  by (simp add: execute_plan_def assert_plan_current_def stale_def locked_by_other_def
      acquire_installation_lock_def locked_journal_def save_plan_def split: option.split)

lemma locked_journal_facts:
  assumes "journal_ok j"
  shows "good sid (locked_journal sid plan j)" "transitions (locked_journal sid plan j) = transitions j"
    "locks (locked_journal sid plan j) = (locks j)(installation_id \<mapsto> sid)"
    "status (locked_journal sid plan j) = status j"
  using assms by (simp_all add: good_def locked_journal_def create_session_def save_plan_def journal_ok_def split: option.splits)

definition plan_verified :: "string \<Rightarrow> setup_plan \<Rightarrow> action_result list \<Rightarrow> journal \<Rightarrow> bool" where
  "plan_verified sid plan results j \<longleftrightarrow> map result_action_id results = map action_id (plan_actions plan)
     \<and> (\<forall>r \<in> set results. result_state r = VERIFIED)
     \<and> (\<forall>a \<in> set (plan_actions plan). state_in j sid (action_id a) = Some VERIFIED)"

definition plan_rolled_back :: "string \<Rightarrow> setup_plan \<Rightarrow> action_result list \<Rightarrow> transition list \<Rightarrow> journal \<Rightarrow> bool" where
  "plan_rolled_back sid plan results new j \<longleftrightarrow>
     (\<exists>n < length (plan_actions plan). map result_action_id results = take (Suc n) (map action_id (plan_actions plan)))
     \<and> result_state (last results) \<in> {FAILED, MANUAL_RECOVERY_REQUIRED}
     \<and> (\<forall>t \<in> set new. tr_state t = APPLIED \<longrightarrow> settled (state_in j sid (tr_action t)))"

lemma execute_locked_outcome:
  assumes "good sid j" and "distinct (map action_id (plan_actions plan))"
  shows "\<exists>results new w'. execute_locked sid plan runner w j = (Inr results, w', grow new j)
    \<and> entries_of sid (open_ids (status j sid) (plan_actions plan)) new
    \<and> (plan_verified sid plan results (grow new j) \<or> plan_rolled_back sid plan results new (grow new j))"
proof -
  let ?s = "\<lparr>world = w, ex_journal = j, applied_actions = [], ex_results = []\<rparr>"
  obtain pid where "session_plans j sid = Some pid" using assms(1) by (auto simp: good_def)
  then obtain q where q: "load_session sid j = Inr q" by (simp add: load_session_def)
  then have ex: "map_of (js_actions q) = status j sid" by (rule load_session_status)
  obtain new s' where r: "execute_actions sid runner (status j sid) (plan_actions plan) ?s = (Inr (), s')"
    "ex_journal s' = grow new j" "run_ok sid (status j sid) (plan_actions plan) ?s s' new
       \<or> run_failed sid (status j sid) (plan_actions plan) ?s s' new"
    using execute_outcome [of sid ?s "plan_actions plan" "status j sid" runner] assms by auto
  have "execute_locked sid plan runner w j = (Inr (ex_results s'), world s', grow new j)"
    using q ex r(1,2) by (simp add: execute_locked_def)
  moreover have "entries_of sid (open_ids (status j sid) (plan_actions plan)) new"
    using r(3) by (auto simp: run_ok_def run_failed_def)
  moreover have "plan_verified sid plan (ex_results s') (grow new j)
     \<or> plan_rolled_back sid plan (ex_results s') new (grow new j)"
    using r(2,3) by (auto simp: run_ok_def run_failed_def plan_verified_def plan_rolled_back_def)
  ultimately show ?thesis by (intro exI conjI)
qed

lemma plan_locks [simp]:
  "plan_verified sid plan results (j\<lparr>locks := l\<rparr>) = plan_verified sid plan results j"
  "plan_rolled_back sid plan results new (j\<lparr>locks := l\<rparr>) = plan_rolled_back sid plan results new j"
  by (simp_all add: plan_verified_def plan_rolled_back_def state_in_def)

lemma execute_plan_runs:
  assumes "\<not> stale plan snapshot config_rev" and "\<not> locked_by_other j sid"
    and "journal_ok j" and "distinct (map action_id (plan_actions plan))"
  shows "\<exists>results new w' j'. execute_plan sid plan snapshot config_rev runner w j = (Inr results, w', j')
    \<and> journal_ok j' \<and> locks j' = (locks j)(installation_id := None)
    \<and> transitions j' = transitions j @ new
    \<and> entries_of sid (open_ids (status j sid) (plan_actions plan)) new
    \<and> (plan_verified sid plan results j' \<or> plan_rolled_back sid plan results new j')"
proof -
  note f = locked_journal_facts [OF assms(3), of sid plan]
  let ?j = "locked_journal sid plan j"
  obtain results new w' where x: "execute_locked sid plan runner w ?j = (Inr results, w', grow new ?j)"
    and e: "entries_of sid (open_ids (status j sid) (plan_actions plan)) new"
    and o: "plan_verified sid plan results (grow new ?j) \<or> plan_rolled_back sid plan results new (grow new ?j)"
    using execute_locked_outcome [OF f(1) assms(4), of runner w] unfolding f(4) by (elim exE conjE)
  have ok: "journal_ok (grow new ?j)" using good_grow [OF f(1) e] by (simp add: good_def)
  have rel: "release_installation_lock installation_id sid (grow new ?j)
      = (grow new ?j)\<lparr>locks := (locks j)(installation_id := None)\<rparr>"
    using f(3) by (simp add: release_installation_lock_def)
  show ?thesis
    using x e o ok f(2) assms(1,2) unfolding execute_plan_cases by (auto simp: rel)
qed

section \<open>Properties\<close>

text \<open>
  C26: an execution either refuses a stale plan with nothing changed, or a foreign lock with no side
  effect, or it returns results and gives the lock back, whatever the runner raises. The journal only
  grows, by secret-free entries of actions the session had not verified yet; and either every action
  of the plan is verified in order, or the run stopped at a failure and every action the journal of
  the run records as applied ends compensated or handed over for manual recovery. The journal is what
  this rests on: when it refuses the evidence of a successful apply, that action has no applied entry
  and is neither compensated nor handed over (\<open>applied_effect_not_compensated\<close>, a finding).
\<close>

theorem execute_plan_outcome:
  assumes "journal_ok j" and "distinct (map action_id (plan_actions plan))"
  shows "case execute_plan sid plan snapshot config_rev runner w j of (r, w', j') \<Rightarrow>
    if stale plan snapshot config_rev
    then r = Inl (StaleSetupPlanError ''setup plan is stale; detect and review again'') \<and> w' = w \<and> j' = j
    else if locked_by_other j sid
    then r = Inl (SetupLockConflictError ''another setup session holds the installation writer lock'')
      \<and> w' = w \<and> j' = save_plan plan j
    else \<exists>results new. r = Inr results \<and> journal_ok j' \<and> locks j' = (locks j)(installation_id := None)
      \<and> transitions j' = transitions j @ new
      \<and> entries_of sid (open_ids (status j sid) (plan_actions plan)) new
      \<and> (plan_verified sid plan results j' \<or> plan_rolled_back sid plan results new j')"
proof (cases "stale plan snapshot config_rev \<or> locked_by_other j sid")
  case True
  then show ?thesis by (auto simp: execute_plan_cases)
next
  case False
  then have "\<not> stale plan snapshot config_rev" "\<not> locked_by_other j sid" by simp_all
  with execute_plan_runs [OF this assms, of runner w] show ?thesis by auto
qed

lemma execute_all_verified:
  "(\<And>a. a \<in> set as \<Longrightarrow> already_verified existing (action_id a) \<and> secret_free (snd (the (existing (action_id a))))) \<Longrightarrow>
     execute_actions sid runner existing as s =
       (Inr (), s\<lparr>ex_results := ex_results s @ map (\<lambda>a. skipped_result existing (action_id a)) as\<rparr>)"
proof (induction as arbitrary: s)
  case (Cons a as)
  have "secret_free (redacted_evidence (skipped_result existing (action_id a)))"
    using Cons.prems [of a] by (simp add: skipped_result_def)
  with Cons show ?case by (simp add: add_result_free)
qed simp

text \<open>
  Resuming a session whose actions are all verified calls the runner for none of them: the world
  and the transition log stay as they are, and every result repeats the journaled evidence.
\<close>

theorem resume_repeats_nothing:
  assumes "journal_ok j" and "\<not> stale plan snapshot config_rev" and "\<not> locked_by_other j sid"
    and "\<forall>a \<in> set (plan_actions plan). state_in j sid (action_id a) = Some VERIFIED"
  shows "\<exists>j'. execute_plan sid plan snapshot config_rev runner w j =
      (Inr (map (\<lambda>a. skipped_result (status j sid) (action_id a)) (plan_actions plan)), w, j')
    \<and> transitions j' = transitions j \<and> locks j' installation_id = None"
proof -
  note f = locked_journal_facts [OF assms(1), of sid plan]
  let ?j = "locked_journal sid plan j"
  obtain q where q: "load_session sid ?j = Inr q"
    using f(1) by (auto simp: good_def load_session_def split: option.split)
  then have ex: "map_of (js_actions q) = status j sid" using load_session_status f(4) by metis
  have "already_verified (status j sid) (action_id a) \<and> secret_free (snd (the (status j sid (action_id a))))"
    if "a \<in> set (plan_actions plan)" for a
  proof -
    have "state_in j sid (action_id a) = Some VERIFIED" using assms(4) that by blast
    then obtain p where "status j sid (action_id a) = Some (VERIFIED, p)" by (auto simp: state_in_def)
    with status_secret_free [OF assms(1) this] show ?thesis by (simp add: already_verified_def)
  qed
  note run = execute_all_verified [of "plan_actions plan" "status j sid" sid runner, OF this]
  have "execute_locked sid plan runner w ?j =
      (Inr (map (\<lambda>a. skipped_result (status j sid) (action_id a)) (plan_actions plan)), w, ?j)"
    using q ex by (simp add: execute_locked_def run)
  then show ?thesis
    using assms(2,3) f(2,3) by (simp add: execute_plan_cases release_installation_lock_def)
qed

section \<open>Examples\<close>

text \<open>A world that logs the calls; the runner answers from a table of evidence.\<close>

definition demo_runner :: "(string \<times> string \<Rightarrow> payload result) \<Rightarrow> (string \<times> string) list runner" where
  "demo_runner answer = \<lparr>
     runner_apply = (\<lambda>a w. (answer (''apply'', action_id a), w @ [(''apply'', action_id a)])),
     runner_verify = (\<lambda>a w. (answer (''verify'', action_id a), w @ [(''verify'', action_id a)])),
     runner_compensate = (\<lambda>a w. (answer (''compensate'', action_id a), w @ [(''compensate'', action_id a)]))\<rparr>"

definition demo_action :: "string \<Rightarrow> setup_action" where
  "demo_action aid = \<lparr>action_id = aid, action_title = ''t'', action_reason = ''r'', action_risk = LOW,
     reversible = True, depends_on = [], action_kind = ''k'', parameters = []\<rparr>"

definition demo_plan :: setup_plan where
  "demo_plan = \<lparr>plan_id = ''p'', plan_profile = DEVELOPMENT, detection_snapshot_id = ''d'',
     plan_config_revision = ''c'', plan_actions = [demo_action ''one'', demo_action ''two'']\<rparr>"

definition demo_snapshot :: detection_snapshot where
  "demo_snapshot = \<lparr>snapshot_id = ''d'', ds_profile = DEVELOPMENT, ds_config_revision = ''c'', checks = []\<rparr>"

definition demo_run ::
    "(string \<times> string \<Rightarrow> payload result) \<Rightarrow> journal \<Rightarrow> action_result list result \<times> (string \<times> string) list \<times> journal" where
  "demo_run answer j = execute_plan ''s'' demo_plan demo_snapshot ''c'' (demo_runner answer) [] j"

definition answer_ok :: "string \<times> string \<Rightarrow> payload result" where
  "answer_ok q = Inr []"

definition answer_fails :: "string \<times> string \<Rightarrow> payload result" where
  "answer_fails q = (if q = (''apply'', ''two'') then Inl (RuntimeError ''token: abc'') else Inr [])"

definition answer_secret :: "string \<times> string \<Rightarrow> payload result" where
  "answer_secret q = (if q = (''apply'', ''two'') then Inr [(''token'', SStr ''abc'')] else Inr [])"

lemma demo_distinct: "distinct (map action_id (plan_actions demo_plan))"
  by code_simp

theorem execute_plan_outcome_witness:
  "case demo_run answer_fails new_journal of (r, w', j') \<Rightarrow> \<exists>results. r = Inr results \<and> journal_ok j'
     \<and> (plan_verified ''s'' demo_plan results j'
        \<or> plan_rolled_back ''s'' demo_plan results (transitions j') j')"
proof -
  have f: "\<not> stale demo_plan demo_snapshot ''c''" "\<not> locked_by_other new_journal ''s''" "transitions new_journal = []"
    by (simp_all add: stale_def locked_by_other_def demo_plan_def demo_snapshot_def new_journal_def)
  show ?thesis
    using execute_plan_outcome [OF journal_ok_new demo_distinct,
        where sid = "''s''" and snapshot = demo_snapshot and config_rev = "''c''" and runner = "demo_runner answer_fails"
          and w = "[]"] f
    by (auto simp: demo_run_def)
qed

text \<open>
  After a failure an action that has been compensated is still reported as verified: only manual
  recoveries are rewritten in the results.
\<close>

lemma compensated_reported_verified:
  "case demo_run answer_fails new_journal of (r, w', j') \<Rightarrow>
     map_sum id (map (\<lambda>x. (result_action_id x, result_state x))) r = Inr [(''one'', VERIFIED), (''two'', FAILED)]
     \<and> state_in j' ''s'' ''one'' = Some COMPENSATED
     \<and> map_option snd (status j' ''s'' ''two'') = Some [(''error'', SStr ''token=[REDACTED]'')]"
  by code_simp

text \<open>
  An action whose evidence the journal refuses has taken effect but is neither compensated nor
  handed over: the runner is not asked to undo it, and the journal ends on its failure.
\<close>

lemma applied_effect_not_compensated:
  "case demo_run answer_secret new_journal of (r, w', j') \<Rightarrow>
     w' = [(''apply'', ''one''), (''verify'', ''one''), (''apply'', ''two''), (''compensate'', ''one'')]
     \<and> state_in j' ''s'' ''two'' = Some FAILED"
  by code_simp

definition verified_journal :: journal where
  "verified_journal = snd (snd (demo_run answer_ok new_journal))"

lemma verified_journal_facts:
  "journal_ok verified_journal" "locks verified_journal installation_id = None"
  "list_all (\<lambda>a. state_in verified_journal ''s'' (action_id a) = Some VERIFIED) (plan_actions demo_plan)"
  by code_simp+

theorem resume_repeats_nothing_witness:
  "fst (snd (demo_run answer_fails verified_journal)) = []"
proof -
  have "\<not> stale demo_plan demo_snapshot ''c''" "\<not> locked_by_other verified_journal ''s''"
    using verified_journal_facts(2) by (simp_all add: stale_def locked_by_other_def demo_plan_def demo_snapshot_def)
  from resume_repeats_nothing [OF verified_journal_facts(1) this, of "demo_runner answer_fails" "[]"]
  show ?thesis using verified_journal_facts(3) by (auto simp: demo_run_def list_all_iff)
qed

end
