(* ===== verification/Setup_Readiness.thy ===== *)
theory Setup_Readiness
  imports Setup_Execution
begin

text \<open>
  \<open>application/setup/readiness.py\<close>: the state of each capability from the detection checks it owns
  and the results of the actions it requires. The theorem says exactly when a capability is ready.
\<close>

section \<open>Definitions\<close>

fun check_order :: "check_state \<Rightarrow> nat" where
  "check_order NOT_REQUIRED = 0"
| "check_order READY = 1"
| "check_order REPAIRABLE = 2"
| "check_order NEEDS_INPUT = 3"
| "check_order BLOCKED = 4"

definition capabilities :: "capability_name list" where
  "capabilities = [LOCAL_RUNTIME, GITHUB_INTEGRATION, RELEASE_CERTIFICATION, PRODUCTION_CUTOVER]"

fun required_actions :: "setup_profile \<Rightarrow> capability_name \<Rightarrow> string list" where
  "required_actions DEVELOPMENT LOCAL_RUNTIME =
     [''services.local.start'', ''database.migrate'', ''storage.verify'', ''checks.fast'']"
| "required_actions DEVELOPMENT GITHUB_INTEGRATION = [''github.reference'']"
| "required_actions DEVELOPMENT RELEASE_CERTIFICATION = []"
| "required_actions DEVELOPMENT PRODUCTION_CUTOVER = []"
| "required_actions PRODUCTION LOCAL_RUNTIME = [''services.external.verify'', ''checks.fast'']"
| "required_actions PRODUCTION GITHUB_INTEGRATION = [''github.app.verify'']"
| "required_actions PRODUCTION RELEASE_CERTIFICATION = [''release.prepare'']"
| "required_actions PRODUCTION PRODUCTION_CUTOVER = [''cutover.prepare'']"

definition failure_states :: "action_state set" where
  "failure_states = {FAILED, MANUAL_RECOVERY_REQUIRED}"

fun owned_prefixes :: "capability_name \<Rightarrow> string list" where
  "owned_prefixes LOCAL_RUNTIME = [''tool.'', ''services.'', ''config.'', ''migration.'', ''legacy.'']"
| "owned_prefixes GITHUB_INTEGRATION = [''github.'']"
| "owned_prefixes RELEASE_CERTIFICATION = [''release.'']"
| "owned_prefixes PRODUCTION_CUTOVER = [''cutover.'']"

definition owns :: "capability_name \<Rightarrow> string \<Rightarrow> bool" where
  "owns c check \<longleftrightarrow> (\<exists>p \<in> set (owned_prefixes c). starts_with check p)"

fun reason_of :: "check_state \<Rightarrow> string" where
  "reason_of READY = ''All required checks and setup actions are verified''"
| "reason_of REPAIRABLE = ''Configuration exists but requires verified setup actions''"
| "reason_of NEEDS_INPUT = ''Capability requires additional configuration''"
| "reason_of BLOCKED = ''A blocking setup action or check failed''"
| "reason_of NOT_REQUIRED = ''Capability is not required for the selected profile''"

fun impact_of :: "capability_name \<Rightarrow> string" where
  "impact_of LOCAL_RUNTIME = ''Controls whether Work Frontier can run locally''"
| "impact_of GITHUB_INTEGRATION = ''Controls repository synchronization''"
| "impact_of RELEASE_CERTIFICATION = ''Controls Standard release certification''"
| "impact_of PRODUCTION_CUTOVER = ''Controls approved writer activation''"

text \<open>\<open>max(states, key=order)\<close> on a non-empty sequence: the first state of greatest order.\<close>

fun worst_state :: "check_state list \<Rightarrow> check_state" where
  "worst_state [] = NOT_REQUIRED"
| "worst_state [s] = s"
| "worst_state (s # t # ss) = worst_state ((if check_order s < check_order t then t else s) # ss)"

definition apply_execution_state ::
    "setup_profile \<Rightarrow> capability_name \<Rightarrow> check_state \<Rightarrow> (string \<rightharpoonup> action_result) \<Rightarrow> check_state" where
  "apply_execution_state p c detected results = (let
     required = required_actions p c;
     relevant = List.map_filter results required
   in if required = [] then detected
      else if \<exists>r \<in> set relevant. result_state r \<in> failure_states then BLOCKED
      else if detected \<in> {READY, REPAIRABLE}
        \<and> (\<forall>aid \<in> set required. map_option result_state (results aid) = Some VERIFIED)
      then READY
      else detected)"

definition by_action :: "action_result list \<Rightarrow> string \<rightharpoonup> action_result" where
  "by_action results = map_of (rev (map (\<lambda>r. (result_action_id r, r)) results))"

definition capability_state ::
    "setup_profile \<Rightarrow> capability_name \<Rightarrow> detection_check list \<Rightarrow> (string \<rightharpoonup> action_result) \<Rightarrow> check_state" where
  "capability_state p c owned results =
     (if p = DEVELOPMENT \<and> c \<in> {RELEASE_CERTIFICATION, PRODUCTION_CUTOVER} then NOT_REQUIRED
      else if owned = [] then NEEDS_INPUT
      else apply_execution_state p c (worst_state (map check_state owned)) results)"

definition capability_report_of ::
    "setup_profile \<Rightarrow> detection_check list \<Rightarrow> action_result list \<Rightarrow> capability_name \<Rightarrow> capability_report" where
  "capability_report_of p dchecks results c = (let
     owned = filter (\<lambda>x. owns c (check_id x)) dchecks;
     state = capability_state p c owned (by_action results);
     blocking = filter (\<lambda>x. check_order READY < check_order (check_state x)) owned
   in \<lparr>capability = c, cap_state = state, cap_reason = reason_of state, cap_impact = impact_of c,
       next_actions = concat (map remediation blocking), supporting_check_ids = map check_id owned\<rparr>)"

definition derive_capability_reports ::
    "setup_profile \<Rightarrow> detection_check list \<Rightarrow> action_result list \<Rightarrow> capability_report list" where
  "derive_capability_reports p dchecks results = map (capability_report_of p dchecks results) capabilities"

section \<open>The worst state\<close>

lemma worst_state_in: "ss \<noteq> [] \<Longrightarrow> worst_state ss \<in> set ss"
  by (induction ss rule: worst_state.induct) (auto split: if_splits)

lemma worst_head: "check_order s \<le> check_order (worst_state (s # ss))"
proof (induction ss arbitrary: s)
  case (Cons t ss)
  have "check_order s \<le> check_order (if check_order s < check_order t then t else s)" by simp
  also have "\<dots> \<le> check_order (worst_state (s # t # ss))" using Cons.IH by simp
  finally show ?case .
qed simp

lemma worst_state_max: "s \<in> set ss \<Longrightarrow> check_order s \<le> check_order (worst_state ss)"
proof (induction ss rule: worst_state.induct)
  case (3 u t ss)
  let ?m = "if check_order u < check_order t then t else u"
  have m: "check_order u \<le> check_order ?m" "check_order t \<le> check_order ?m" by simp_all
  have h: "check_order ?m \<le> check_order (worst_state (?m # ss))" by (rule worst_head)
  have "check_order u \<le> check_order (worst_state (u # t # ss))"
    unfolding worst_state.simps by (rule order_trans [OF m(1) h])
  moreover have "check_order t \<le> check_order (worst_state (u # t # ss))"
    unfolding worst_state.simps by (rule order_trans [OF m(2) h])
  moreover have "s \<in> set ss \<Longrightarrow> ?case" using "3.IH" by simp
  ultimately show ?case using "3.prems" by auto
qed simp_all

lemma check_order_inject: "check_order s = check_order t \<longleftrightarrow> s = t"
  by (cases s; cases t) simp_all

lemma worst_state_le:
  "ss \<noteq> [] \<Longrightarrow> check_order (worst_state ss) \<le> n \<longleftrightarrow> (\<forall>s \<in> set ss. check_order s \<le> n)"
  using worst_state_in [of ss] worst_state_max [of _ ss] by (meson order_trans)

section \<open>Property\<close>

definition exempt :: "setup_profile \<Rightarrow> capability_name \<Rightarrow> bool" where
  "exempt p c \<longleftrightarrow> p = DEVELOPMENT \<and> c \<in> {RELEASE_CERTIFICATION, PRODUCTION_CUTOVER}"

definition action_verified :: "action_result list \<Rightarrow> string \<Rightarrow> bool" where
  "action_verified results aid \<longleftrightarrow> map_option result_state (by_action results aid) = Some VERIFIED"

definition action_unrecovered :: "action_result list \<Rightarrow> string \<Rightarrow> bool" where
  "action_unrecovered results aid \<longleftrightarrow> (\<exists>r. by_action results aid = Some r \<and> result_state r \<in> failure_states)"

lemma required_empty: "required_actions p c = [] \<longleftrightarrow> exempt p c"
  by (cases p; cases c) (simp_all add: exempt_def)

lemma map_filter_member: "r \<in> set (List.map_filter f xs) \<longleftrightarrow> (\<exists>x \<in> set xs. f x = Some r)"
  by (induction xs) (auto simp: List.map_filter_def split: option.splits)

text \<open>
  There is one report per capability. A capability that the profile needs is ready exactly when
  it owns checks, none of its required actions has failed, and either every owned check is ready (or
  not required, one of them ready) or none is worse than repairable, one is repairable or ready, and
  every required action is verified. A failed required action blocks it whatever the checks say.
\<close>

theorem capability_ready_iff:
  "map capability (derive_capability_reports p dchecks results) = capabilities
   \<and> list_all (\<lambda>r. let c = capability r; owned = filter (\<lambda>x. owns c (check_id x)) dchecks;
        worst = worst_state (map check_state owned);
        failed = list_ex (action_unrecovered results) (required_actions p c) in
      (exempt p c \<longrightarrow> cap_state r = NOT_REQUIRED)
      \<and> (\<not> exempt p c \<and> owned = [] \<longrightarrow> cap_state r = NEEDS_INPUT)
      \<and> (\<not> exempt p c \<and> owned \<noteq> [] \<and> failed \<longrightarrow> cap_state r = BLOCKED)
      \<and> (cap_state r = READY \<longleftrightarrow> \<not> exempt p c \<and> owned \<noteq> [] \<and> \<not> failed
          \<and> (worst = READY \<or> worst = REPAIRABLE \<and> list_all (action_verified results) (required_actions p c)))
      \<and> (cap_state r = READY \<longrightarrow> list_all (\<lambda>x. check_state x \<noteq> NEEDS_INPUT \<and> check_state x \<noteq> BLOCKED) owned))
    (derive_capability_reports p dchecks results)"
proof -
  have caps: "map capability (derive_capability_reports p dchecks results) = capabilities"
    by (simp add: derive_capability_reports_def capability_report_of_def Let_def capabilities_def)
  have one: "cap_state (capability_report_of p dchecks results c) =
      (if exempt p c then NOT_REQUIRED else if owned = [] then NEEDS_INPUT
       else if list_ex (action_unrecovered results) (required_actions p c) then BLOCKED
       else if worst_state (map check_state owned) \<in> {READY, REPAIRABLE}
         \<and> list_all (action_verified results) (required_actions p c) then READY
       else worst_state (map check_state owned))"
    if owned: "owned = filter (\<lambda>x. owns c (check_id x)) dchecks" for c owned
    using required_empty [of p c] unfolding owned
    by (auto simp: capability_report_of_def capability_state_def apply_execution_state_def Let_def exempt_def
        list_ex_iff list_all_iff action_unrecovered_def action_verified_def map_filter_member)
  have low: "list_all (\<lambda>x. check_state x \<noteq> NEEDS_INPUT \<and> check_state x \<noteq> BLOCKED) owned"
    if "owned \<noteq> []" "worst_state (map check_state owned) \<in> {READY, REPAIRABLE}" for owned :: "detection_check list"
  proof -
    have "check_order (worst_state (map check_state owned)) \<le> 2" using that(2) by auto
    then have "\<forall>s \<in> set (map check_state owned). check_order s \<le> 2"
      using worst_state_le [of "map check_state owned" 2] that(1) by blast
    then show ?thesis by (auto simp: list_all_iff)
  qed
  have cap: "capability (capability_report_of p dchecks results c) = c" for c
    by (simp add: capability_report_of_def Let_def)
  have "\<forall>c. (let r = capability_report_of p dchecks results c; owned = filter (\<lambda>x. owns c (check_id x)) dchecks;
        worst = worst_state (map check_state owned);
        failed = list_ex (action_unrecovered results) (required_actions p c) in
      (exempt p c \<longrightarrow> cap_state r = NOT_REQUIRED)
      \<and> (\<not> exempt p c \<and> owned = [] \<longrightarrow> cap_state r = NEEDS_INPUT)
      \<and> (\<not> exempt p c \<and> owned \<noteq> [] \<and> failed \<longrightarrow> cap_state r = BLOCKED)
      \<and> (cap_state r = READY \<longleftrightarrow> \<not> exempt p c \<and> owned \<noteq> [] \<and> \<not> failed
          \<and> (worst = READY \<or> worst = REPAIRABLE \<and> list_all (action_verified results) (required_actions p c)))
      \<and> (cap_state r = READY \<longrightarrow> list_all (\<lambda>x. check_state x \<noteq> NEEDS_INPUT \<and> check_state x \<noteq> BLOCKED) owned))"
    unfolding Let_def one [OF refl] using low by auto
  then show ?thesis
    using caps unfolding derive_capability_reports_def list_all_iff Let_def by (auto simp: cap)
qed

theorem capability_ready_iff_witness:
  "map capability (derive_capability_reports DEVELOPMENT [] []) = capabilities"
  using capability_ready_iff [of DEVELOPMENT "[]" "[]"] by (elim conjE)

section \<open>After a rollback\<close>

text \<open>
  A rollback leaves compensated actions reported as verified, so the capability they belong to can be
  ready although the action has been undone: here the second action fails, the reference to GitHub is
  compensated, and the integration is reported ready.
\<close>

definition rollback_plan :: setup_plan where
  "rollback_plan = demo_plan\<lparr>plan_actions := [demo_action ''github.reference'', demo_action ''two'']\<rparr>"

definition github_check :: detection_check where
  "github_check = \<lparr>check_id = ''github.cli'', check_state = REPAIRABLE, check_summary = ''s'',
     check_impact = ''i'', remediation = [], check_evidence = []\<rparr>"

lemma compensated_capability_ready:
  "case execute_plan ''s'' rollback_plan demo_snapshot ''c'' (demo_runner answer_fails) [] new_journal of
     (Inr results, w', j') \<Rightarrow> state_in j' ''s'' ''github.reference'' = Some COMPENSATED
       \<and> cap_state (capability_report_of DEVELOPMENT [github_check] results GITHUB_INTEGRATION) = READY
   | _ \<Rightarrow> False"
  by code_simp

end
