(* ===== verification/Setup_Runner.thy ===== *)
theory Setup_Runner
  imports Setup_Execution
begin

text \<open>
  The runner that \<open>bootstrap.py\<close> composes: allowlisted commands of \<open>platform/setup/local.py\<close>, the
  GitHub App check of \<open>adapters/github/setup.py\<close>, and the validation of the preparation actions. The
  process port, the secret store, the signing of the app token and the two HTTP requests are
  parameters. Adapter exceptions are represented by their base class. The theorem shows that the
  evidence of the GitHub App check cannot be journaled, so that no production plan is ever verified.
\<close>

section \<open>Ports\<close>

text \<open>What the code reads from the token response; \<open>str\<close> has been applied to the two texts.\<close>

record token_payload =
  tok_token :: string
  tok_permissions :: "(string \<times> string) list option"
  tok_expires_at :: string

record 'w setup_ports =
  run_process :: "string list \<Rightarrow> int \<Rightarrow> 'w \<Rightarrow> (int \<times> string \<times> string) result \<times> 'w"
  resolve_secret :: "secret_reference \<Rightarrow> 'w \<Rightarrow> string result \<times> 'w"
  app_jwt :: "string \<Rightarrow> string \<Rightarrow> string \<Rightarrow> 'w \<Rightarrow> string result \<times> 'w"
  post_access_token :: "string \<Rightarrow> string \<Rightarrow> 'w \<Rightarrow> token_payload result \<times> 'w"
  get_repository :: "string \<Rightarrow> string \<Rightarrow> 'w \<Rightarrow> unit result \<times> 'w"

type_synonym ('w, 'a) effect = "'w \<Rightarrow> 'a result \<times> 'w"

definition bind_effect :: "('w, 'a) effect \<Rightarrow> ('a \<Rightarrow> ('w, 'b) effect) \<Rightarrow> ('w, 'b) effect" where
  "bind_effect m f w = (case m w of (Inl e, w') \<Rightarrow> (Inl e, w') | (Inr a, w') \<Rightarrow> f a w')"

definition lift_result :: "'a result \<Rightarrow> ('w, 'a) effect" where
  "lift_result r w = (r, w)"

section \<open>Local commands\<close>

definition commands :: "(string \<times> string list) list" where
  "commands =
     [(''docker_compose_up'', [''make'', ''infra-up'']),
      (''database_migrate'', [''make'', ''migration-smoke'']),
      (''storage_verify'', [''make'', ''storage-smoke'']),
      (''run_fast_checks'', [''make'', ''check'']),
      (''verify_external_services'', [''make'', ''test-ops'']),
      (''certify_standard'', [''make'', ''certify-standard''])]"

definition local_apply :: "'w setup_ports \<Rightarrow> setup_action \<Rightarrow> ('w, payload) effect" where
  "local_apply ports a =
     (if action_kind a \<in> {''write_config'', ''github_reference''}
      then lift_result (Inr [(''operation'', SStr (action_kind a)), (''exit_code'', SInt 0)])
      else case map_of commands (action_kind a) of
        None \<Rightarrow> lift_result (Inl (ValueError (action_kind a)))
      | Some command \<Rightarrow> bind_effect (run_process ports command 1800) (\<lambda>(exit_code, out, err).
          lift_result (if exit_code \<noteq> 0
            then Inl (RuntimeError (action_kind a @ '' failed: '' @ take 256 (strip err)))
            else Inr [(''operation'', SStr (action_kind a)), (''exit_code'', SInt exit_code)])))"

definition local_verify :: "setup_action \<Rightarrow> ('w, payload) effect" where
  "local_verify a = lift_result (Inr [(''verified'', SBool True), (''operation'', SStr (action_kind a))])"

definition local_compensate :: "'w setup_ports \<Rightarrow> setup_action \<Rightarrow> ('w, payload) effect" where
  "local_compensate ports a = (let
     evidence = lift_result (Inr [(''compensated'', SBool True), (''operation'', SStr (action_kind a))])
   in if action_kind a = ''docker_compose_up''
      then bind_effect (run_process ports [''make'', ''infra-down''] 300) (\<lambda>(exit_code, out, err).
        if exit_code \<noteq> 0 then lift_result (Inl (RuntimeError (take 256 (strip err)))) else evidence)
      else evidence)"

section \<open>The GitHub App check\<close>

definition required_value :: "payload \<Rightarrow> string \<Rightarrow> scalar result" where
  "required_value ps name = (if unset (desired_get ps name)
     then Inl (RuntimeError (''missing GitHub setup field: '' @ name))
     else Inr (desired_get ps name))"

definition required_string :: "payload \<Rightarrow> string \<Rightarrow> string result" where
  "required_string ps name = bind_result (required_value ps name) (\<lambda>v. case v of
     SStr s \<Rightarrow> Inr s
   | _ \<Rightarrow> Inl (RuntimeError (''GitHub setup field must be text: '' @ name)))"

text \<open>\<open>str(value)\<close>\<close>

fun scalar_str :: "scalar \<Rightarrow> string" where
  "scalar_str (SStr s) = s"
| "scalar_str (SInt i) = str_int i"
| "scalar_str (SBool b) = (if b then ''True'' else ''False'')"
| "scalar_str SNone = ''None''"

definition new_app_credentials :: "string \<Rightarrow> string \<Rightarrow> string \<Rightarrow> unit result" where
  "new_app_credentials app inst private_key =
     (if blank app \<or> blank inst then Inl (ValueError ''GitHub App and installation identities are required'')
      else if private_key = [] then Inl (ValueError ''GitHub App private key is required'')
      else Inr ())"

definition required_permissions :: "(string \<times> string) list" where
  "required_permissions = [(''issues'', ''write''), (''metadata'', ''read''), (''pull_requests'', ''read'')]"

definition lacks_permission :: "token_payload \<Rightarrow> bool" where
  "lacks_permission t \<longleftrightarrow> (let permissions = (case tok_permissions t of None \<Rightarrow> [] | Some ps \<Rightarrow> ps) in
     \<exists>(name, level) \<in> set required_permissions. map_of permissions name \<noteq> Some level)"

definition github_evidence :: "string \<Rightarrow> string \<Rightarrow> token_payload \<Rightarrow> payload" where
  "github_evidence repository installation t =
     [(''repository'', SStr repository), (''installation_id'', SStr installation),
      (''token_expires_at'', SStr (tok_expires_at t)), (''permissions_verified'', SBool True)]"

definition github_app_verify :: "'w setup_ports \<Rightarrow> payload \<Rightarrow> ('w, payload) effect" where
  "github_app_verify ports ps =
     bind_effect (lift_result (required_string ps ''github_repository'')) (\<lambda>repository.
     bind_effect (lift_result (required_value ps ''github_app_id'')) (\<lambda>app.
     bind_effect (lift_result (required_value ps ''github_installation_id'')) (\<lambda>inst.
     bind_effect (lift_result (bind_result (required_string ps ''github_app_credential_reference'')
       (\<lambda>u. new_secret_reference \<lparr>uri = u\<rparr>))) (\<lambda>reference.
     bind_effect (resolve_secret ports reference) (\<lambda>private_key.
     bind_effect (lift_result (new_app_credentials (scalar_str app) (scalar_str inst) private_key)) (\<lambda>_.
     bind_effect (app_jwt ports (scalar_str app) (scalar_str inst) private_key) (\<lambda>jwt.
     bind_effect (post_access_token ports (scalar_str inst) jwt) (\<lambda>t.
       if tok_token t = [] then lift_result (Inl (RuntimeError ''GitHub returned a blank installation token''))
       else if lacks_permission t
       then lift_result (Inl (RuntimeError ''GitHub App installation lacks required repository permissions''))
       else bind_effect (get_repository ports repository (tok_token t)) (\<lambda>_.
         lift_result (Inr (github_evidence repository (scalar_str inst) t)))))))))))"

section \<open>The composed runner\<close>

definition min_soak_seconds :: int where
  "min_soak_seconds = 259200"

text \<open>A Python \<open>bool\<close> is an \<open>int\<close>: \<open>True\<close> is one.\<close>

definition soak_too_short :: "scalar \<Rightarrow> bool" where
  "soak_too_short v \<longleftrightarrow> (case v of SInt n \<Rightarrow> n < min_soak_seconds | SBool b \<Rightarrow> of_bool b < min_soak_seconds | _ \<Rightarrow> True)"

definition validate_preparation :: "setup_action \<Rightarrow> payload result" where
  "validate_preparation a =
     (if action_kind a = ''prepare_release'' \<and> soak_too_short (desired_get (parameters a) ''soak_duration_seconds'')
      then Inl (ValueError (''release soak duration must be at least '' @ str_int min_soak_seconds @ '' seconds''))
      else case find (\<lambda>(k, v). unset v) (parameters a) of
        Some (k, v) \<Rightarrow> Inl (ValueError (''missing preparation input: '' @ k))
      | None \<Rightarrow> Inr [(''operation'', SStr (action_kind a)), (''inputs_validated'', SBool True),
          (''authoritative_gate_bypassed'', SBool False)])"

definition composed_apply :: "'w setup_ports \<Rightarrow> setup_action \<Rightarrow> ('w, payload) effect" where
  "composed_apply ports a =
     (if action_kind a = ''github_app_verify'' then github_app_verify ports (parameters a)
      else if action_kind a \<in> {''prepare_release'', ''prepare_cutover''} then lift_result (validate_preparation a)
      else local_apply ports a)"

definition composed_runner :: "'w setup_ports \<Rightarrow> 'w runner" where
  "composed_runner ports = \<lparr>runner_apply = composed_apply ports, runner_verify = local_verify,
     runner_compensate = local_compensate ports\<rparr>"

section \<open>Evidence the journal refuses\<close>

definition refuses :: "'w runner \<Rightarrow> setup_action \<Rightarrow> bool" where
  "refuses runner a \<longleftrightarrow> (\<forall>w ev. fst (runner_apply runner a w) = Inr ev \<longrightarrow> \<not> secret_free (redact_mapping ev))"

lemma attempt_refused:
  assumes "good sid (ex_journal s)" and "refuses runner a"
  shows "\<exists>e. fst (attempt_action sid runner a s) = Inl e"
proof -
  have g1: "good sid (grow [entry sid (action_id a) RUNNING []] (ex_journal s))"
    by (rule good_grow [OF assms(1), where A = "{action_id a}"]) simp
  obtain ra wa where ap: "runner_apply runner a (world s) = (ra, wa)" by fastforce
  have "\<not> secret_free (redact_mapping ev)" if "ra = Inr ev" for ev
    using assms(2) ap that unfolding refuses_def by (metis fst_conv)
  then show ?thesis
    using ap g1 assms(1) by (cases ra) (simp_all add: attempt_action_def record_step_good [of sid] run_step_def)
qed

text \<open>A run that reaches a refused action ends on a failure.\<close>

lemma execute_refused:
  assumes "good sid (ex_journal s)"
    and "distinct (map action_id (applied_actions s) @ map action_id as)"
    and "\<And>a. a \<in> set as \<Longrightarrow> existing (action_id a) = None"
    and "a \<in> set as" and "refuses runner a"
  shows "\<exists>s'. execute_actions sid runner existing as s = (Inr (), s') \<and> ex_results s' \<noteq> []
    \<and> result_state (last (ex_results s')) \<in> {FAILED, MANUAL_RECOVERY_REQUIRED}"
  using assms
proof (induction as arbitrary: s)
  case (Cons b as)
  have new: "\<not> already_verified existing (action_id b)"
    using Cons.prems(3) [of b] by (simp add: already_verified_def)
  obtain new1 r s1 where at: "attempt_action sid runner b s = (r, s1)" "ex_journal s1 = grow new1 (ex_journal s)"
    "entries_of sid {action_id b} new1"
    "r = Inr () \<and> attempt_ok b s s1 sid \<or> (\<exists>e. r = Inl e) \<and> attempt_failed b s s1 new1"
    using attempt_outcome [OF Cons.prems(1), of runner b] by (elim exE conjE)
  have g1: "good sid (ex_journal s1)" using good_grow [OF Cons.prems(1) at(3)] at(2) by simp
  show ?case
  proof (cases r)
    case (Inl e)
    then have "applied_actions s1 = applied_actions s \<or> applied_actions s1 = applied_actions s @ [b]"
      using at(4) by (auto simp: attempt_failed_def)
    then have d: "distinct (map action_id (applied_actions s1))" using Cons.prems(2) by auto
    obtain s' where "fail_action sid runner b e s1 = (Inr (), s')" "ex_results s' \<noteq> []"
      "result_state (last (ex_results s')) \<in> {FAILED, MANUAL_RECOVERY_REQUIRED}"
      using fail_outcome [OF g1 d, of runner b e] by (elim exE conjE) (metis Nil_is_append_conv list.distinct(1) list.simps(8))
    then show ?thesis using at(1) new Inl by simp
  next
    case (Inr u)
    then have ok: "attempt_ok b s s1 sid" using at(4) by auto
    have "b \<noteq> a"
      using attempt_refused [OF Cons.prems(1,5)] at(1) Inr by auto
    then have a: "a \<in> set as" using Cons.prems(4) by simp
    have "distinct (map action_id (applied_actions s1) @ map action_id as)"
      using Cons.prems(2) ok by (auto simp: attempt_ok_def)
    then obtain s' where "execute_actions sid runner existing as s1 = (Inr (), s')" "ex_results s' \<noteq> []"
      "result_state (last (ex_results s')) \<in> {FAILED, MANUAL_RECOVERY_REQUIRED}"
      using Cons.IH [OF g1 _ _ a Cons.prems(5)] Cons.prems(3) by auto
    then show ?thesis using at(1) new Inr by simp
  qed
qed simp

lemma token_key_secret: "secret_key ''token_expires_at''"
  by code_simp

lemma bind_effect_Inr:
  "fst (bind_effect m f w) = Inr b \<longleftrightarrow> (\<exists>a w'. m w = (Inr a, w') \<and> fst (f a w') = Inr b)"
  by (cases "m w"; cases "fst (m w)") (auto simp: bind_effect_def)

lemma github_app_verify_Inr:
  assumes "fst (github_app_verify ports ps w) = Inr ev"
  shows "\<exists>repository inst jwt t w1 w2. post_access_token ports inst jwt w1 = (Inr t, w2)
    \<and> ev = github_evidence repository inst t"
  using assms unfolding github_app_verify_def bind_effect_Inr
  by (elim exE conjE) (auto simp: bind_effect_Inr lift_result_def split: if_splits, blast)

text \<open>GitHub documents \<open>expires_at\<close> as an ISO 8601 time, which begins with a digit.\<close>

definition timestamps_of :: "'w setup_ports \<Rightarrow> bool" where
  "timestamps_of ports \<longleftrightarrow> (\<forall>inst jwt w t. fst (post_access_token ports inst jwt w) = Inr t \<longrightarrow>
     (case tok_expires_at t of [] \<Rightarrow> True | c # _ \<Rightarrow> CHR ''0'' \<le> c \<and> c \<le> CHR ''9''))"

lemma digit_text_no_reference:
  assumes "case s of [] \<Rightarrow> True | c # _ \<Rightarrow> CHR ''0'' \<le> c \<and> c \<le> CHR ''9''"
  shows "\<not> is_reference (SStr (redact_text s))"
proof (cases s)
  case (Cons c t)
  then have n: "48 \<le> (of_char c :: nat)" "(of_char c :: nat) \<le> 57"
    using assms by (simp_all add: less_eq_char_def)
  then have low: "lower_char c = c" by (simp add: lower_char_def)
  have "c \<notin> set ''ptskeg''" using n by auto
  then have c: "lower_char c \<notin> set ''pts''" "c \<noteq> CHR ''k''" "c \<noteq> CHR ''e''" "c \<noteq> CHR ''g''" using low by auto
  then have "redact_text s = c # redact_text t"
    using no_word_start [of c t] Cons by (simp add: secret_match_def)
  then show ?thesis using c by (simp add: is_reference_def reference_schemes_def starts_with_def)
qed (simp add: is_reference_def reference_schemes_def starts_with_def)

lemma github_app_verify_refused:
  assumes "timestamps_of ports" and "action_kind a = ''github_app_verify''"
  shows "refuses (composed_runner ports) a"
  unfolding refuses_def
proof (intro allI impI)
  fix w ev assume "fst (runner_apply (composed_runner ports) a w) = Inr ev"
  then have "fst (github_app_verify ports (parameters a) w) = Inr ev"
    using assms(2) by (simp add: composed_runner_def composed_apply_def)
  from github_app_verify_Inr [OF this] obtain repository inst jwt t w1 w2 where
    t: "post_access_token ports inst jwt w1 = (Inr t, w2)" and ev: "ev = github_evidence repository inst t"
    by (elim exE conjE)
  have "\<not> is_reference (SStr (redact_text (tok_expires_at t)))"
    using assms(1) t digit_text_no_reference unfolding timestamps_of_def by (metis fst_conv)
  moreover have "(''token_expires_at'', SStr (redact_text (tok_expires_at t))) \<in> set (redact_mapping ev)"
    by (simp add: ev github_evidence_def redact_mapping_def)
  ultimately show "\<not> secret_free (redact_mapping ev)"
    using token_key_secret unfolding secret_free_def by blast
qed

section \<open>Production plans\<close>

lemma make_action_kind: "make_action aid title reason r b deps k ps = Inr a \<Longrightarrow> action_kind a = k"
  by (auto simp: make_action_def new_setup_action_def bind_result_eq_Inr split: if_splits)

lemma optional_action_keeps: "optional_action wanted as f = Inr bs \<Longrightarrow> set as \<subseteq> set bs"
  by (auto simp: optional_action_def bind_result_eq_Inr split: if_splits)

lemma production_actions_check:
  assumes "production_actions d pred = Inr rest"
  shows "\<exists>a \<in> set rest. action_kind a = ''github_app_verify''"
proof -
  obtain ps qs as bs cs f g h where m: "map_result id
       [make_action ''github.app.verify'' ''Verify GitHub App installation''
          ''Validate machine identity and repository permissions'' HIGH False [pred]
          ''github_app_verify'' ps,
        make_action ''services.external.verify'' ''Verify external data services''
          ''Confirm TLS, authentication, and service capabilities'' HIGH False
          [''github.app.verify''] ''verify_external_services'' qs] = Inr as"
    and o: "optional_action (desired_get d ''prepare_release'' = SBool True) as f = Inr bs"
      "optional_action (desired_get d ''prepare_cutover'' = SBool True) bs g = Inr cs"
      "optional_action True cs h = Inr rest"
    using assms unfolding production_actions_def bind_result_eq_Inr by (elim exE conjE) blast
  from m obtain a z where as: "as = [a, z]" and a: "make_action ''github.app.verify'' ''Verify GitHub App installation''
          ''Validate machine identity and repository permissions'' HIGH False [pred]
          ''github_app_verify'' ps = Inr a"
    unfolding map_result_Inr by (auto simp only: list_all2_Cons1 list_all2_Nil id_apply)
  have "a \<in> set rest" using as o [THEN optional_action_keeps] by auto
  with make_action_kind [OF a] show ?thesis by blast
qed

lemma production_has_app_check:
  assumes "build_setup_plan PRODUCTION d snapshot = Inr plan"
  shows "\<exists>a \<in> set (plan_actions plan). action_kind a = ''github_app_verify''"
proof -
  obtain as rest where m: "production_actions d (action_id (last as)) = Inr rest"
    "build_plan PRODUCTION d snapshot (as @ rest) = Inr plan"
    using assms unfolding build_setup_plan_base by (auto simp: bind_result_eq_Inr)
  have p: "plan_actions plan = as @ rest"
    using m(2) unfolding build_plan_def new_setup_plan_Inr by simp
  from production_actions_check [OF m(1)] show ?thesis by (auto simp: p)
qed

text \<open>
  C27: a production plan that the planner built and a new session executes with the composed runner
  is never verified, whatever the processes, the secret store and GitHub answer: the evidence of the
  GitHub App check names the token expiry, which the journal refuses as a secret-bearing field. The
  run ends on a failure, so the service never persists the configuration.
\<close>

theorem production_setup_never_verified:
  assumes "build_setup_plan PRODUCTION desired snapshot = Inr plan" and "timestamps_of ports"
    and "journal_ok j" and "session_plans j sid = None" and "locks j installation_id = None"
  shows "\<exists>results w' j'. execute_plan sid plan snapshot (ds_config_revision snapshot) (composed_runner ports) w j
      = (Inr results, w', j')
    \<and> result_state (last results) \<in> {FAILED, MANUAL_RECOVERY_REQUIRED} \<and> results \<noteq> []"
proof -
  let ?j = "locked_journal sid plan j"
  note f = locked_journal_facts [OF assms(3), of sid plan]
  obtain a where a: "a \<in> set (plan_actions plan)" "action_kind a = ''github_app_verify''"
    using production_has_app_check [OF assms(1)] by blast
  have chain: "distinct (map action_id (plan_actions plan))" "assert_current plan snapshot (ds_config_revision snapshot) = Inr ()"
    using build_setup_plan_facts [OF assms(1)] by simp_all
  have none: "status j sid = Map.empty" using status_no_session assms(3,4) by blast
  obtain q where q: "load_session sid ?j = Inr q"
    using f(1) by (auto simp: good_def load_session_def split: option.split)
  then have ex: "map_of (js_actions q) = Map.empty" using load_session_status f(4) none by metis
  obtain s' where "execute_actions sid (composed_runner ports) Map.empty (plan_actions plan)
        \<lparr>world = w, ex_journal = ?j, applied_actions = [], ex_results = []\<rparr> = (Inr (), s')"
    and r: "ex_results s' \<noteq> []" "result_state (last (ex_results s')) \<in> {FAILED, MANUAL_RECOVERY_REQUIRED}"
    using execute_refused [of sid _ "plan_actions plan" Map.empty a "composed_runner ports"]
      f(1) chain(1) a github_app_verify_refused [OF assms(2) a(2)]
    by (metis (no_types, lifting) append_Nil exec_state.select_convs(2,3) list.simps(8))
  then have "execute_locked sid plan (composed_runner ports) w ?j = (Inr (ex_results s'), world s', ex_journal s')"
    using q ex by (simp add: execute_locked_def)
  moreover have "\<not> stale plan snapshot (ds_config_revision snapshot)" "\<not> locked_by_other j sid"
    using chain(2) assms(5) by (auto simp: assert_current_def stale_def locked_by_other_def split: if_splits)
  ultimately show ?thesis using r by (simp add: execute_plan_cases)
qed

definition demo_ports :: "unit setup_ports" where
  "demo_ports = \<lparr>run_process = (\<lambda>_ _ w. (Inr (0, [], []), w)), resolve_secret = (\<lambda>_ w. (Inr ''key'', w)),
     app_jwt = (\<lambda>_ _ _ w. (Inr ''jwt'', w)),
     post_access_token = (\<lambda>_ _ w. (Inr \<lparr>tok_token = ''t'', tok_permissions = Some required_permissions,
       tok_expires_at = ''2026-07-14T00:00:00Z''\<rparr>, w)),
     get_repository = (\<lambda>_ _ w. (Inr (), w))\<rparr>"

definition demo_desired :: payload where
  "demo_desired = (''github_repository'', SStr ''acme/managed'') #
     map (\<lambda>n. (n, SStr ''env://value'')) (tl github_names @ service_names)"

lemma demo_desired_complete: "inputs_complete PRODUCTION demo_desired"
proof -
  have "list_all (\<lambda>n. \<not> unset (desired_get demo_desired n)) (github_names @ service_names)"
    "desired_get demo_desired ''prepare_release'' = SNone" "desired_get demo_desired ''prepare_cutover'' = SNone"
    by code_simp+
  then show ?thesis by (auto simp: inputs_complete_def provided_def requested_def list_all_iff)
qed

theorem production_setup_never_verified_witness:
  "\<exists>plan results w' j'. build_setup_plan PRODUCTION demo_desired demo_snapshot = Inr plan
    \<and> execute_plan ''s'' plan demo_snapshot (ds_config_revision demo_snapshot) (composed_runner demo_ports) () new_journal
      = (Inr results, w', j')
    \<and> result_state (last results) \<in> {FAILED, MANUAL_RECOVERY_REQUIRED}"
proof -
  obtain plan where p: "build_setup_plan PRODUCTION demo_desired demo_snapshot = Inr plan"
    using build_setup_plan_cases [of PRODUCTION demo_desired demo_snapshot] demo_desired_complete
    by (cases "build_setup_plan PRODUCTION demo_desired demo_snapshot") simp_all
  have "timestamps_of demo_ports" by (simp add: timestamps_of_def demo_ports_def less_eq_char_def)
  from production_setup_never_verified [OF p this journal_ok_new, of "''s''"] p
  show ?thesis by (auto simp: new_journal_def)
qed

end
