(* ===== verification/Setup_Service.thy ===== *)
theory Setup_Service
  imports Setup_Readiness Setup_Runner
begin

text \<open>
  \<open>application/setup/service.py\<close> and \<open>detection.py\<close>: detection, planning, apply, resume and status
  over the configuration file, the journal and the world of the runner. The probe, the runner, the
  TOML library, the JSON dump of a snapshot by pydantic, the fresh session token and the answer to
  the query for the latest session are parameters. The theorem shows that the configuration changes
  only after a fully verified execution, to the desired document.
\<close>

section \<open>State and ports\<close>

record 'w service_ports =
  sp_probe :: "setup_profile \<Rightarrow> 'w \<Rightarrow> detection_check list"
  sp_runner :: "'w runner"
  sp_parse :: toml_parser
  sp_dumps :: toml_printer
  sp_dump_snapshot :: "detection_snapshot \<Rightarrow> string"

record 'w service =
  sv_config :: config_file
  sv_journal :: journal
  sv_world :: 'w
  sv_snapshots :: "string \<rightharpoonup> detection_snapshot"
  sv_plans :: "string \<rightharpoonup> setup_plan"
  sv_desired :: "string \<rightharpoonup> payload"

type_synonym ('w, 'a) svc = "'w service \<Rightarrow> 'a result \<times> 'w service"

definition bind_svc :: "('w, 'a) svc \<Rightarrow> ('a \<Rightarrow> ('w, 'b) svc) \<Rightarrow> ('w, 'b) svc" where
  "bind_svc m f s = (case m s of (Inl e, s') \<Rightarrow> (Inl e, s') | (Inr a, s') \<Rightarrow> f a s')"

definition lift_svc :: "'a result \<Rightarrow> ('w, 'a) svc" where
  "lift_svc r s = (r, s)"

definition read_svc :: "'w service_ports \<Rightarrow> ('w, payload \<times> string) svc" where
  "read_svc ports s = (read_config (sp_parse ports) (sv_config s), s)"

section \<open>Detection\<close>

definition check_json :: "detection_check \<Rightarrow> json" where
  "check_json c = JObj
     [(''check_id'', JStr (check_id c)), (''state'', JStr (check_state_value (check_state c))),
      (''summary'', JStr (check_summary c)), (''impact'', JStr (check_impact c)),
      (''remediation'', JList (map JStr (remediation c))), (''evidence'', payload_json (check_evidence c))]"

definition detect_environment ::
    "setup_profile \<Rightarrow> string \<Rightarrow> detection_check list \<Rightarrow> detection_snapshot" where
  "detect_environment p config_rev probed = (let cs = sort_key check_id probed in
     \<lparr>snapshot_id = sha256_hex (json_dumps True (JObj
        [(''profile'', JStr (profile_value p)), (''config_revision'', JStr config_rev),
         (''checks'', JList (map check_json cs))])),
      ds_profile = p, ds_config_revision = config_rev, checks = cs\<rparr>)"

definition production_config_owned :: "string \<Rightarrow> bool" where
  "production_config_owned cid \<longleftrightarrow> cid = ''tool.docker_compose''
     \<or> (\<exists>p \<in> set [''github.'', ''services.'', ''release.'', ''cutover.'']. starts_with cid p)"

definition config_check :: "string \<Rightarrow> string \<Rightarrow> payload \<Rightarrow> string list \<Rightarrow> detection_check result" where
  "config_check cid label config required = (let
     missing = filter (\<lambda>n. unset (desired_get config n)) required
   in new_detection_check
     \<lparr>check_id = cid, check_state = (if missing \<noteq> [] then NEEDS_INPUT else REPAIRABLE),
      check_summary = (if missing \<noteq> [] then label @ '' needs configuration''
        else label @ '' is configured but not yet verified''),
      check_impact = label @ '' must be configured for production readiness'',
      remediation = (if missing \<noteq> [] then [''Provide: '' @ join '', '' missing] else []),
      check_evidence = [(''configured'', SBool (missing = []))]\<rparr>)"

definition production_checks :: "(string \<times> string \<times> string list) list" where
  "production_checks =
     [(''github.app'', ''GitHub App machine identity'',
        [''github_repository'', ''github_app_id'', ''github_installation_id'',
         ''github_app_credential_reference'', ''github_webhook_reference'']),
      (''services.database_external'', ''External PostgreSQL'',
        [''database_endpoint'', ''database_credential_reference'']),
      (''services.object_store_external'', ''External object storage'',
        [''object_storage_endpoint'', ''object_storage_credential_reference'']),
      (''release.signing'', ''Release signing'', [''release_signing_key_reference'', ''release_key_id'']),
      (''release.sandbox'', ''Release sandbox'', [''release_sandbox_repository'']),
      (''release.soak'', ''Release soak policy'', [''soak_duration_seconds'']),
      (''cutover.approval'', ''Cutover approval'', [''cutover_approval_id'']),
      (''cutover.source'', ''Cutover exact source revision'', [''cutover_source_revision'']),
      (''cutover.repository'', ''Cutover reference repository'', [''cutover_repository''])]"

definition production_configuration_checks :: "payload \<Rightarrow> detection_check list result" where
  "production_configuration_checks config =
     map_result (\<lambda>(cid, label, required). config_check cid label config required) production_checks"

definition rehash_snapshot :: "'w service_ports \<Rightarrow> detection_snapshot \<Rightarrow> string" where
  "rehash_snapshot ports snapshot = sha256_hex (sp_dump_snapshot ports snapshot)"

definition detect :: "'w service_ports \<Rightarrow> setup_profile \<Rightarrow> ('w, detection_snapshot) svc" where
  "detect ports p = bind_svc (read_svc ports) (\<lambda>(config, config_rev) s. let
       snapshot = detect_environment p config_rev (sp_probe ports p (sv_world s))
     in bind_svc (lift_svc (if p = PRODUCTION
         then bind_result (production_configuration_checks config) (\<lambda>cs. let
             merged = snapshot\<lparr>checks := sort_key check_id
               (filter (\<lambda>c. \<not> production_config_owned (check_id c)) (checks snapshot) @ cs)\<rparr>
           in Inr (merged\<lparr>snapshot_id := rehash_snapshot ports merged\<rparr>))
         else Inr snapshot))
       (\<lambda>snap s'. (Inr snap, s'\<lparr>sv_snapshots := (sv_snapshots s')(snapshot_id snap \<mapsto> snap)\<rparr>)) s)"

section \<open>Planning\<close>

definition plan_setup :: "'w service_ports \<Rightarrow> setup_profile \<Rightarrow> payload \<Rightarrow> string \<Rightarrow> ('w, setup_plan) svc" where
  "plan_setup ports p desired expected s = (case sv_snapshots s expected of
     None \<Rightarrow> (Inl (KeyError expected), s)
   | Some snapshot \<Rightarrow> bind_svc (read_svc ports) (\<lambda>(current, config_rev) s.
       if config_rev \<noteq> ds_config_revision snapshot
       then (Inl (RuntimeError ''configuration changed after detection''), s)
       else bind_svc (lift_svc (build_setup_plan p desired snapshot)) (\<lambda>plan s.
         (Inr plan, s\<lparr>sv_plans := (sv_plans s)(plan_id plan \<mapsto> plan),
            sv_desired := (sv_desired s)(plan_id plan \<mapsto> desired)\<rparr>)) s) s)"

text \<open>A dict as an association list: a new key goes to the end, a known one keeps its place.\<close>

definition dict_update :: "payload \<Rightarrow> payload \<Rightarrow> payload" where
  "dict_update d e = py_dict (d @ e)"

definition desired_from_plan :: "setup_plan \<Rightarrow> payload" where
  "desired_from_plan plan = py_dict
     (concat (map (\<lambda>a. filter (\<lambda>(k, v). v \<noteq> SNone) (parameters a)) (plan_actions plan))
      @ concat (map (\<lambda>a.
          (if action_kind a = ''github_reference''
           then (case desired_get (parameters a) ''repository'' of
             SStr r \<Rightarrow> [(''github_repository'', SStr r)] | _ \<Rightarrow> []) else [])
          @ (if action_kind a = ''prepare_release'' then [(''prepare_release'', SBool True)] else [])
          @ (if action_kind a = ''prepare_cutover'' then [(''prepare_cutover'', SBool True)] else []))
        (plan_actions plan)))"

section \<open>Apply and resume\<close>

definition persist_config :: "'w service_ports \<Rightarrow> string \<Rightarrow> setup_plan \<Rightarrow> ('w, unit) svc" where
  "persist_config ports pid plan = bind_svc (read_svc ports) (\<lambda>(document, current) s.
     case sv_desired s pid of
       None \<Rightarrow> (Inl (KeyError pid), s)
     | Some desired \<Rightarrow> (case compare_and_swap (sp_dumps ports) current
           (dict_update (dict_update document desired) [(''profile'', SStr (profile_value (plan_profile plan)))])
           (sv_config s) of
         Inl e \<Rightarrow> (Inl e, s)
       | Inr (f, _) \<Rightarrow> (Inr (), s\<lparr>sv_config := f\<rparr>)))"

definition all_verified :: "action_result list \<Rightarrow> bool" where
  "all_verified results \<longleftrightarrow> results \<noteq> [] \<and> (\<forall>r \<in> set results. result_state r = VERIFIED)"

text \<open>The common tail of \<open>apply\<close> and \<open>resume\<close>.\<close>

definition execute_and_report ::
    "'w service_ports \<Rightarrow> string \<Rightarrow> string \<Rightarrow> setup_plan \<Rightarrow> detection_snapshot \<Rightarrow> string \<Rightarrow> ('w, setup_envelope) svc" where
  "execute_and_report ports sid pid plan snapshot config_rev s =
     (case execute_plan sid plan snapshot config_rev (sp_runner ports) (sv_world s) (sv_journal s) of
        (Inl e, w, j) \<Rightarrow> (Inl e, s\<lparr>sv_world := w, sv_journal := j\<rparr>)
      | (Inr results, w, j) \<Rightarrow>
          bind_svc (if all_verified results then persist_config ports pid plan else lift_svc (Inr ())) (\<lambda>_.
          bind_svc (detect ports (plan_profile plan)) (\<lambda>latest.
            lift_svc (Inr \<lparr>env_session_id = Some sid, env_detection = Some latest, env_plan = Some plan,
              env_capabilities = derive_capability_reports (plan_profile plan) (checks latest) results,
              env_results = results\<rparr>)))
          (s\<lparr>sv_world := w, sv_journal := j\<rparr>))"

definition apply_plan :: "'w service_ports \<Rightarrow> string \<Rightarrow> string \<Rightarrow> ('w, setup_envelope) svc" where
  "apply_plan ports session_token pid s = (case sv_plans s pid of
     None \<Rightarrow> (Inl (KeyError pid), s)
   | Some plan \<Rightarrow> (case sv_snapshots s (detection_snapshot_id plan) of
       None \<Rightarrow> (Inl (KeyError (detection_snapshot_id plan)), s)
     | Some snapshot \<Rightarrow> bind_svc (read_svc ports) (\<lambda>(_, config_rev) s.
         execute_and_report ports session_token pid plan snapshot config_rev
           (s\<lparr>sv_journal := save_plan plan (sv_journal s)\<rparr>)) s))"

definition apply_reviewed_plan :: "'w service_ports \<Rightarrow> string \<Rightarrow> setup_plan \<Rightarrow> ('w, setup_envelope) svc" where
  "apply_reviewed_plan ports session_token plan =
     bind_svc (detect ports (plan_profile plan)) (\<lambda>snapshot.
     bind_svc (read_svc ports) (\<lambda>(_, config_rev).
     bind_svc (lift_svc (assert_current plan snapshot config_rev)) (\<lambda>_ s.
       apply_plan ports session_token (plan_id plan)
         (s\<lparr>sv_plans := (sv_plans s)(plan_id plan \<mapsto> plan),
            sv_desired := (sv_desired s)(plan_id plan \<mapsto> desired_from_plan plan)\<rparr>))))"

definition resume :: "'w service_ports \<Rightarrow> string \<Rightarrow> ('w, setup_envelope) svc" where
  "resume ports sid s = bind_svc (lift_svc (load_session sid (sv_journal s))) (\<lambda>session.
     bind_svc (lift_svc (load_plan (js_plan_id session) (sv_journal s))) (\<lambda>plan.
     bind_svc (detect ports (plan_profile plan)) (\<lambda>snapshot.
     bind_svc (read_svc ports) (\<lambda>(_, config_rev).
     bind_svc (lift_svc (assert_current plan snapshot config_rev)) (\<lambda>_ s.
       execute_and_report ports sid (plan_id plan) plan snapshot config_rev
         (s\<lparr>sv_plans := (sv_plans s)(plan_id plan \<mapsto> plan),
            sv_desired := (sv_desired s)(plan_id plan \<mapsto> desired_from_plan plan)\<rparr>)))))) s"

section \<open>Status\<close>

definition results_from_session :: "journal_session \<Rightarrow> action_result list result" where
  "results_from_session session = map_result (\<lambda>(aid, st, p). new_action_result
     \<lparr>result_action_id = aid, result_state = st,
      result_message = ''Durable setup action state: '' @ action_state_value st, redacted_evidence = p\<rparr>)
     (sort_key fst (js_actions session))"

definition status_report :: "'w service_ports \<Rightarrow> setup_profile \<Rightarrow> string option \<Rightarrow> ('w, setup_envelope) svc" where
  "status_report ports p latest = bind_svc (detect ports p) (\<lambda>detection.
     bind_svc (case latest of
         None \<Rightarrow> lift_svc (Inr (None, []))
       | Some sid \<Rightarrow> (\<lambda>s. lift_svc (bind_result (load_session sid (sv_journal s)) (\<lambda>session.
           bind_result (load_plan (js_plan_id session) (sv_journal s)) (\<lambda>candidate.
           if plan_profile candidate = p
           then map_sum id (\<lambda>rs. (Some candidate, rs)) (results_from_session session)
           else Inr (None, [])))) s)) (\<lambda>(plan, results).
     lift_svc (Inr \<lparr>env_session_id = latest, env_detection = Some detection, env_plan = plan,
       env_capabilities = derive_capability_reports p (checks detection) results, env_results = results\<rparr>)))"

section \<open>What changes the configuration\<close>

lemma detect_config [simp]: "sv_config (snd (detect ports p s)) = sv_config s"
  by (simp add: detect_def bind_svc_def lift_svc_def read_svc_def Let_def split: sum.split prod.split)

lemma detect_others [simp]:
  "sv_world (snd (detect ports p s)) = sv_world s" "sv_journal (snd (detect ports p s)) = sv_journal s"
  "sv_plans (snd (detect ports p s)) = sv_plans s" "sv_desired (snd (detect ports p s)) = sv_desired s"
  by (simp_all add: detect_def bind_svc_def lift_svc_def read_svc_def Let_def split: sum.split prod.split)

lemma read_svc_state [simp]: "snd (read_svc ports s) = s"
  by (simp add: read_svc_def)

lemma snd_bind_svc:
  "snd (bind_svc m f s) = (case fst (m s) of Inl e \<Rightarrow> snd (m s) | Inr a \<Rightarrow> snd (f a (snd (m s))))"
  by (simp add: bind_svc_def split: prod.split sum.split)

definition new_document :: "payload \<Rightarrow> payload \<Rightarrow> setup_plan \<Rightarrow> payload" where
  "new_document document desired plan =
     dict_update (dict_update document desired) [(''profile'', SStr (profile_value (plan_profile plan)))]"

text \<open>The configuration after persisting: the old document, updated, and free of secrets.\<close>

definition persisted :: "'w service_ports \<Rightarrow> string \<Rightarrow> setup_plan \<Rightarrow> 'w service \<Rightarrow> config_file \<Rightarrow> bool" where
  "persisted ports pid plan s f \<longleftrightarrow> (\<exists>document config_rev desired. read_config (sp_parse ports) (sv_config s) = Inr (document, config_rev)
     \<and> sv_desired s pid = Some desired \<and> secret_free (new_document document desired plan)
     \<and> f = Some (render_simple_toml (sp_dumps ports) (new_document document desired plan)))"

lemma persist_config_cases:
  "sv_config (snd (persist_config ports pid plan s)) = sv_config s
   \<or> persisted ports pid plan s (sv_config (snd (persist_config ports pid plan s)))"
proof (cases "read_config (sp_parse ports) (sv_config s)")
  case (Inl e)
  then show ?thesis by (simp add: persist_config_def snd_bind_svc read_svc_def)
next
  case (Inr dr)
  then obtain d r where dr: "read_config (sp_parse ports) (sv_config s) = Inr (d, r)" by (cases dr) simp
  show ?thesis
    unfolding persisted_def new_document_def [symmetric]
    by (auto simp: persist_config_def snd_bind_svc read_svc_def dr compare_and_swap_def Let_def bind_result_eq_Inr
        result_simps new_document_def [symmetric] split: option.split sum.split if_splits)
qed

text \<open>The configuration of a state after an execution of \<open>plan\<close> by session \<open>sid\<close> from \<open>s\<close>.\<close>

definition config_safe ::
    "'w service_ports \<Rightarrow> string \<Rightarrow> string \<Rightarrow> setup_plan \<Rightarrow> 'w service \<Rightarrow> 'w service \<Rightarrow> bool" where
  "config_safe ports sid pid plan s s' \<longleftrightarrow> sv_config s' = sv_config s
     \<or> (\<exists>results. map result_action_id results = map action_id (plan_actions plan) \<and> all_verified results
          \<and> (\<forall>a \<in> set (plan_actions plan). state_in (sv_journal s') sid (action_id a) = Some VERIFIED)
          \<and> persisted ports pid plan s (sv_config s'))"

lemma persisted_state:
  "persisted ports pid plan (s\<lparr>sv_world := w, sv_journal := j\<rparr>) f = persisted ports pid plan s f"
  by (simp add: persisted_def)

lemma execute_and_report_safe:
  assumes "journal_ok (sv_journal s)" and "distinct (map action_id (plan_actions plan))"
  shows "config_safe ports sid pid plan s (snd (execute_and_report ports sid pid plan snapshot config_rev s))"
proof -
  obtain r w j where x: "execute_plan sid plan snapshot config_rev (sp_runner ports) (sv_world s) (sv_journal s) = (r, w, j)"
    by (cases "execute_plan sid plan snapshot config_rev (sp_runner ports) (sv_world s) (sv_journal s)") auto
  let ?s1 = "s\<lparr>sv_world := w, sv_journal := j\<rparr>"
  show ?thesis
  proof (cases "\<exists>results. r = Inr results \<and> all_verified results")
    case False
    then have "sv_config (snd (execute_and_report ports sid pid plan snapshot config_rev s)) = sv_config s"
      using x by (cases r) (simp_all add: execute_and_report_def snd_bind_svc lift_svc_def split: sum.split)
    then show ?thesis by (simp add: config_safe_def)
  next
    case True
    then obtain results where res: "r = Inr results" "all_verified results" by blast
    let ?p = "snd (persist_config ports pid plan ?s1)"
    have j: "sv_journal ?p = j"
      by (simp add: persist_config_def snd_bind_svc read_svc_def split: sum.split option.split prod.split)
    have state: "sv_config (snd (execute_and_report ports sid pid plan snapshot config_rev s)) = sv_config ?p"
      "sv_journal (snd (execute_and_report ports sid pid plan snapshot config_rev s)) = j"
      using x res j by (simp_all add: execute_and_report_def snd_bind_svc lift_svc_def split: sum.split)
    have "plan_verified sid plan results j"
    proof -
      have nf: "result_state (last results) = VERIFIED" using res(2) by (auto simp: all_verified_def)
      have "\<not> stale plan snapshot config_rev" "\<not> locked_by_other (sv_journal s) sid"
        using x res(1) by (auto simp: execute_plan_cases split: if_splits)
      from execute_plan_runs [OF this assms, of "sp_runner ports" "sv_world s"]
      have "\<exists>new. plan_verified sid plan results j \<or> plan_rolled_back sid plan results new j"
        using x res(1) by auto
      with nf show ?thesis by (auto simp: plan_rolled_back_def)
    qed
    with persist_config_cases [of ports pid plan ?s1] res state show ?thesis
      unfolding config_safe_def plan_verified_def persisted_state by auto
  qed
qed

section \<open>Property\<close>

text \<open>
  C28: applying a reviewed plan changes the configuration only when every action of the plan ended
  verified in the journal, and then to the current document updated by the desired values and the
  profile, which holds no secret in clear text. Otherwise, and when the operation raises before
  that, the configuration stays as it is.
\<close>

theorem apply_plan_config_safe:
  assumes "journal_ok (sv_journal s)" and "sv_plans s pid = Some plan"
    and "distinct (map action_id (plan_actions plan))"
  shows "config_safe ports session_token pid plan s (snd (apply_plan ports session_token pid s))"
proof (cases "sv_snapshots s (detection_snapshot_id plan)")
  case None
  then show ?thesis using assms(2) by (simp add: apply_plan_def config_safe_def)
next
  case (Some snapshot)
  show ?thesis
  proof (cases "fst (read_svc ports s)")
    case (Inl e)
    then show ?thesis using Some assms(2) by (simp add: apply_plan_def snd_bind_svc config_safe_def)
  next
    case (Inr dr)
    let ?s = "s\<lparr>sv_journal := save_plan plan (sv_journal s)\<rparr>"
    have "journal_ok (sv_journal ?s)" using assms(1) by (simp add: save_plan_def)
    from execute_and_report_safe [OF this assms(3), of ports session_token pid snapshot "snd dr"]
    have "config_safe ports session_token pid plan ?s (snd (apply_plan ports session_token pid s))"
      using Some Inr assms(2) by (cases dr) (simp add: apply_plan_def snd_bind_svc)
    then show ?thesis by (simp add: config_safe_def persisted_def)
  qed
qed

definition demo_service :: "(string \<times> string) list service" where
  "demo_service = \<lparr>sv_config = None, sv_journal = new_journal, sv_world = [],
     sv_snapshots = [''d'' \<mapsto> demo_snapshot], sv_plans = [''p'' \<mapsto> demo_plan], sv_desired = [''p'' \<mapsto> []]\<rparr>"

definition demo_service_ports :: "(string \<times> string) list service_ports" where
  "demo_service_ports = \<lparr>sp_probe = (\<lambda>_ _. []), sp_runner = demo_runner answer_fails, sp_parse = (\<lambda>_. Inr []),
     sp_dumps = (\<lambda>_. ''toml''), sp_dump_snapshot = (\<lambda>_. ''json'')\<rparr>"

theorem apply_plan_config_safe_witness:
  "config_safe demo_service_ports ''s'' ''p'' demo_plan demo_service (snd (apply_plan demo_service_ports ''s'' ''p'' demo_service))"
  by (rule apply_plan_config_safe [OF _ _ demo_distinct]) (simp_all add: demo_service_def)

section \<open>A serialized plan keeps only its parameters\<close>

text \<open>
  Applied from its serialized form, a plan persists what its actions carry: a development plan loses
  the desired values that no action mentions and gains a \<open>repository\<close> key, while the plan applied in
  the process that built it persists the desired values themselves.
\<close>

definition development_desired :: payload where
  "development_desired = [(''github_repository'', SStr ''acme/managed''), (''log_level'', SStr ''info'')]"

lemma serialized_plan_loses_desired:
  "case base_actions DEVELOPMENT development_desired of
     Inr as \<Rightarrow> desired_from_plan (demo_plan\<lparr>plan_actions := as\<rparr>) =
       [(''profile'', SStr ''development''), (''repository'', SStr ''acme/managed''),
        (''github_repository'', SStr ''acme/managed'')]
   | Inl _ \<Rightarrow> False"
  by code_simp

end
