(* ===== verification/Connections.thy ===== *)
theory Connections
  imports Setup_Contracts Stores Frontier
begin

text \<open>
  \<open>application/ports/connections.py\<close>: the values adapters and the application exchange, and
  \<open>adapters/connections/memory.py\<close> and \<open>fixture.py\<close>: the deterministic adapters. An adapter that
  the application uses is a record of operations over a world. The lemmas show what a well-formed
  in-memory adapter answers page by page.
\<close>

section \<open>Port values\<close>

datatype certification_level = EXPERIMENTAL | DETERMINISTIC | RESILIENT | CERTIFIED

fun certification_int :: "certification_level \<Rightarrow> int" where
  "certification_int EXPERIMENTAL = 0"
| "certification_int DETERMINISTIC = 1"
| "certification_int RESILIENT = 2"
| "certification_int CERTIFIED = 3"

record connection_capabilities =
  read_items :: bool
  read_revisions :: bool
  receive_webhooks :: bool
  write_projections :: bool

record certification_metadata =
  cm_level :: certification_level
  certified_at :: "string option"
  certifier :: "string option"
  test_coverage_percent :: int
  last_audit :: "string option"

definition new_certification_metadata :: "certification_metadata \<Rightarrow> certification_metadata result" where
  "new_certification_metadata m =
     (if \<not> (0 \<le> test_coverage_percent m \<and> test_coverage_percent m \<le> 100)
      then Inl (ValueError ''test coverage must be between zero and one hundred'')
      else if certification_int DETERMINISTIC \<le> certification_int (cm_level m)
        \<and> (certifier m = None \<or> certifier m = Some [])
      then Inl (ValueError ''deterministic adapters require a certifier'')
      else Inr m)"

record source_item =
  si_source_id :: string
  si_item_id :: string
  si_revision :: string
  si_title :: string
  si_body :: string
  si_state :: string
  si_labels :: "string list"
  si_updated_at :: string
  si_raw :: payload
  si_policy_blockers :: "string list"

text \<open>
  Sorting the raw pairs compares the values of equal keys: a text and a number do not compare, and
  neither does \<open>None\<close> with another value; a \<open>bool\<close> is a number.
\<close>

fun scalar_rank :: "scalar \<Rightarrow> rank_value" where
  "scalar_rank (SInt i) = RInt i"
| "scalar_rank (SBool b) = RInt (of_bool b)"
| "scalar_rank (SStr s) = RStr s"
| "scalar_rank SNone = RInt 0"

fun scalar_comparable :: "scalar \<Rightarrow> scalar \<Rightarrow> bool" where
  "scalar_comparable SNone w = (w = SNone)"
| "scalar_comparable (SStr s) w = (case w of SStr t \<Rightarrow> True | _ \<Rightarrow> False)"
| "scalar_comparable v w = (case w of SInt i \<Rightarrow> True | SBool b \<Rightarrow> True | _ \<Rightarrow> False)"

definition sorted_raw :: "payload \<Rightarrow> payload result" where
  "sorted_raw raw =
     (if \<exists>(k, v) \<in> set raw. \<exists>(k', v') \<in> set raw. k = k' \<and> \<not> scalar_comparable v v'
      then Inl (TypeError ''values of one raw key do not compare'')
      else Inr (sort_key (\<lambda>(k, v). (k, scalar_rank v)) raw))"

definition new_source_item :: "source_item \<Rightarrow> source_item result" where
  "new_source_item i =
     (if \<exists>v \<in> set [si_source_id i, si_item_id i, si_revision i, si_title i, si_state i, si_updated_at i]. blank v
      then Inl (ValueError ''source item identity, revision, title, state, and time are required'')
      else bind_result (sorted_raw (si_raw i)) (\<lambda>raw.
        Inr (i\<lparr>si_labels := sorted_set (si_labels i), si_raw := raw,
               si_policy_blockers := sorted_set (si_policy_blockers i)\<rparr>)))"

record source_page =
  page_items :: "source_item list"
  next_cursor :: "string option"
  page_revision :: string

definition new_source_page :: "source_page \<Rightarrow> source_page result" where
  "new_source_page p =
     (if blank (page_revision p) then Inl (ValueError ''page source revision is required'')
      else let ordered = sort_key si_item_id (page_items p) in
        if card (si_item_id ` set ordered) \<noteq> length ordered
        then Inl (ValueError ''page item IDs must be unique'')
        else Inr (p\<lparr>page_items := ordered\<rparr>))"

record projection_write_guard =
  writer_lease_id :: string
  approval_token :: string
  guard_source_revision :: string

definition new_write_guard :: "projection_write_guard \<Rightarrow> projection_write_guard result" where
  "new_write_guard g =
     (if \<exists>v \<in> set [writer_lease_id g, approval_token g, guard_source_revision g]. blank v
      then Inl (ValueError ''projection writes require lease, approval, and source revision'')
      else Inr g)"

record projection_mutation =
  pm_item_id :: string
  fingerprint :: string
  pm_body :: string
  pm_labels :: "string list"

definition new_projection_mutation :: "projection_mutation \<Rightarrow> projection_mutation result" where
  "new_projection_mutation m =
     (if blank (pm_item_id m) \<or> blank (fingerprint m)
      then Inl (ValueError ''projection item identity and fingerprint are required'')
      else Inr (m\<lparr>pm_labels := sorted_set (pm_labels m)\<rparr>))"

text \<open>An adapter over a world: its answers may change from call to call.\<close>

record 'w connection_adapter =
  list_items :: "string option \<Rightarrow> int \<Rightarrow> 'w \<Rightarrow> source_page result \<times> 'w"
  get_item :: "string \<Rightarrow> 'w \<Rightarrow> source_item result \<times> 'w"
  current_revision :: "'w \<Rightarrow> string result \<times> 'w"
  publish_projection :: "projection_mutation \<Rightarrow> projection_write_guard \<Rightarrow> 'w \<Rightarrow> string result \<times> 'w"

section \<open>The in-memory adapter\<close>

record memory_adapter =
  ma_items :: "source_item list"
  ma_revision :: string
  published :: "string \<rightharpoonup> string"

definition new_memory_adapter :: "source_item list \<Rightarrow> string \<Rightarrow> memory_adapter result" where
  "new_memory_adapter sis revision = (let ordered = sort_key si_item_id sis in
     if card (si_item_id ` set ordered) \<noteq> length ordered
     then Inl (ValueError ''in-memory adapter item IDs must be unique'')
     else if blank revision then Inl (ValueError ''in-memory adapter revision is required'')
     else Inr \<lparr>ma_items = ordered, ma_revision = revision, published = Map.empty\<rparr>)"

text \<open>
  \<open>int(text)\<close>: surrounding white space, a sign, and decimal digits with single underscores between
  them.
\<close>

fun int_digits :: "bool \<Rightarrow> int \<Rightarrow> string \<Rightarrow> int option" where
  "int_digits last_digit acc [] = (if last_digit then Some acc else None)"
| "int_digits last_digit acc (c # s) =
     (if is_digit c then int_digits True (10 * acc + int (digit_value c)) s
      else if c = CHR ''_'' \<and> last_digit \<and> s \<noteq> [] then int_digits False acc s
      else None)"

definition py_int :: "string \<Rightarrow> int option" where
  "py_int text = (case strip text of
     [] \<Rightarrow> None
   | c # s \<Rightarrow> if c = CHR ''-'' then map_option uminus (int_digits False 0 s)
       else if c = CHR ''+'' then int_digits False 0 s
       else int_digits False 0 (c # s))"

text \<open>\<open>xs[start:stop]\<close> with the negative indices of Python\<close>

definition slice_index :: "int \<Rightarrow> int \<Rightarrow> nat" where
  "slice_index n i = nat (if i < 0 then max 0 (i + n) else min i n)"

definition py_slice :: "'a list \<Rightarrow> int \<Rightarrow> int \<Rightarrow> 'a list" where
  "py_slice xs start stop = (let n = int (length xs) in
     drop (slice_index n start) (take (slice_index n stop) xs))"

definition memory_list :: "memory_adapter \<Rightarrow> string option \<Rightarrow> int \<Rightarrow> source_page result" where
  "memory_list m cursor page_size =
     (if page_size < 1 then Inl (ValueError ''page_size must be positive'')
      else case (case cursor of None \<Rightarrow> Some 0 | Some c \<Rightarrow> py_int c) of
        None \<Rightarrow> Inl (AdapterError MALFORMED_RESPONSE ''cursor must be an integer offset'')
      | Some start \<Rightarrow> (let
            page = py_slice (ma_items m) start (start + page_size);
            next_offset = start + int (length page)
          in new_source_page \<lparr>page_items = page,
               next_cursor = (if next_offset < int (length (ma_items m)) then Some (str_int next_offset) else None),
               page_revision = ma_revision m\<rparr>))"

definition memory_get :: "memory_adapter \<Rightarrow> string \<Rightarrow> source_item result" where
  "memory_get m iid = (case find (\<lambda>i. si_item_id i = iid) (ma_items m) of
     Some i \<Rightarrow> Inr i
   | None \<Rightarrow> Inl (AdapterError NOT_FOUND (''source item not found: '' @ iid)))"

definition memory_publish ::
    "memory_adapter \<Rightarrow> projection_mutation \<Rightarrow> projection_write_guard \<Rightarrow> (string \<times> memory_adapter) result" where
  "memory_publish m p g =
     (if guard_source_revision g \<noteq> ma_revision m
      then Inl (AdapterError MALFORMED_RESPONSE ''projection source revision is stale'')
      else case published m (pm_item_id p) of
        Some existing \<Rightarrow> if existing \<noteq> fingerprint p
          then Inl (AdapterError MALFORMED_RESPONSE ''projection fingerprint conflicts with an existing write'')
          else Inr (''projection:'' @ fingerprint p, m\<lparr>published := (published m)(pm_item_id p \<mapsto> fingerprint p)\<rparr>)
      | None \<Rightarrow> Inr (''projection:'' @ fingerprint p, m\<lparr>published := (published m)(pm_item_id p \<mapsto> fingerprint p)\<rparr>))"

text \<open>The in-memory adapter as a connection; its world is the adapter itself.\<close>

definition memory_connection :: "memory_adapter connection_adapter" where
  "memory_connection = \<lparr>
     list_items = (\<lambda>cursor size m. (memory_list m cursor size, m)),
     get_item = (\<lambda>iid m. (memory_get m iid, m)),
     current_revision = (\<lambda>m. (Inr (ma_revision m), m)),
     publish_projection = (\<lambda>p g m. case memory_publish m p g of
       Inl e \<Rightarrow> (Inl e, m) | Inr (r, m') \<Rightarrow> (Inr r, m'))\<rparr>"

section \<open>The fixture adapter\<close>

record fixture_adapter =
  delegate :: memory_adapter
  fault :: "adapter_error_kind option"

fun adapter_error_value :: "adapter_error_kind \<Rightarrow> string" where
  "adapter_error_value MALFORMED_RESPONSE = ''malformed_response''"
| "adapter_error_value NOT_FOUND = ''not_found''"
| "adapter_error_value RATE_LIMITED = ''rate_limited''"
| "adapter_error_value TIMEOUT = ''timeout''"
| "adapter_error_value UNAUTHORIZED = ''unauthorized''"
| "adapter_error_value ADAPTER_UNAVAILABLE = ''unavailable''"

definition raise_fault :: "fixture_adapter \<Rightarrow> 'a result \<Rightarrow> 'a result" where
  "raise_fault f r = (case fault f of
     None \<Rightarrow> r
   | Some k \<Rightarrow> Inl (AdapterError k (''injected fixture adapter fault: '' @ adapter_error_value k)))"

definition fixture_connection :: "fixture_adapter connection_adapter" where
  "fixture_connection = \<lparr>
     list_items = (\<lambda>cursor size f. (raise_fault f (memory_list (delegate f) cursor size), f)),
     get_item = (\<lambda>iid f. (raise_fault f (memory_get (delegate f) iid), f)),
     current_revision = (\<lambda>f. (raise_fault f (Inr (ma_revision (delegate f))), f)),
     publish_projection = (\<lambda>p g f.
       (Inl (AdapterError UNAUTHORIZED ''fixture adapters do not publish external projections''), f))\<rparr>"

text \<open>\<open>from_items\<close>, and what the two adapters declare\<close>

definition fixture_from_items ::
    "source_item list \<Rightarrow> string \<Rightarrow> adapter_error_kind option \<Rightarrow> fixture_adapter result" where
  "fixture_from_items sis revision f =
     bind_result (new_memory_adapter sis revision) (\<lambda>m. Inr \<lparr>delegate = m, fault = f\<rparr>)"

definition memory_capabilities :: connection_capabilities where
  "memory_capabilities = \<lparr>read_items = True, read_revisions = True, receive_webhooks = False, write_projections = True\<rparr>"

definition memory_certification :: "certification_metadata result" where
  "memory_certification = new_certification_metadata
     \<lparr>cm_level = EXPERIMENTAL, certified_at = None, certifier = None, test_coverage_percent = 0, last_audit = None\<rparr>"

definition fixture_capabilities :: connection_capabilities where
  "fixture_capabilities = \<lparr>read_items = True, read_revisions = True, receive_webhooks = False, write_projections = False\<rparr>"

definition fixture_certification :: "certification_metadata result" where
  "fixture_certification = new_certification_metadata
     \<lparr>cm_level = DETERMINISTIC, certified_at = Some ''2026-07-13T00:00:00+00:00'',
      certifier = Some ''work-frontier-fixture-suite'', test_coverage_percent = 100, last_audit = Some ''2026-07-13''\<rparr>"

section \<open>Pages of a well-formed adapter\<close>

definition memory_wf :: "memory_adapter \<Rightarrow> bool" where
  "memory_wf m \<longleftrightarrow> distinct (map si_item_id (ma_items m)) \<and> sorted (map si_item_id (ma_items m))
     \<and> \<not> blank (ma_revision m)"

lemma card_distinct_ids: "card (f ` set xs) = length xs \<longleftrightarrow> distinct (map f xs)"
  by (metis card_distinct distinct_card length_map set_map)

lemma new_memory_adapter_wf: "new_memory_adapter sis r = Inr m \<Longrightarrow> memory_wf m"
  by (auto simp: new_memory_adapter_def memory_wf_def Let_def split: if_splits)
    (metis card_distinct_ids length_sort set_sort)

lemma int_digits_str_nat:
  "int_digits b acc (str_nat n @ s) = int_digits True (acc * 10 ^ length (str_nat n) + int n) s"
proof (induction n arbitrary: b acc s rule: str_nat.induct)
  case (1 n)
  show ?case
  proof (cases "n < 10")
    case True
    then show ?thesis by (simp add: str_nat.simps [of n] mult.commute)
  next
    case False
    have d: "n mod 10 < 10" by simp
    have "int n = 10 * int (n div 10) + int (n mod 10)" by presburger
    with 1 [OF False] False d show ?thesis
      by (simp add: str_nat.simps [of n] algebra_simps)
  qed
qed

lemma strip_no_space: "s \<noteq> [] \<Longrightarrow> \<not> is_space (hd s) \<Longrightarrow> \<not> is_space (last s) \<Longrightarrow> strip s = s"
proof -
  assume s: "s \<noteq> []" "\<not> is_space (hd s)" "\<not> is_space (last s)"
  have "dropWhile is_space s = s" using s(2) by (simp add: dropWhile_eq_self_iff)
  moreover have "dropWhile is_space (rev s) = rev s" using s(1,3) by (simp add: dropWhile_eq_self_iff hd_rev)
  ultimately show "strip s = s" by (simp add: strip_def)
qed

lemma digit_not_space: "is_digit c \<Longrightarrow> \<not> is_space c"
  by (simp add: is_digit_def is_space_def Let_def)

lemma py_int_str_nat: "py_int (str_nat n) = Some (int n)"
proof -
  have d: "\<forall>c \<in> set (str_nat n). is_digit c" by (rule str_nat_digits)
  have "hd (str_nat n) \<in> set (str_nat n)" "last (str_nat n) \<in> set (str_nat n)" by simp_all
  then have "strip (str_nat n) = str_nat n" using d digit_not_space by (intro strip_no_space) auto
  moreover obtain c s where cs: "str_nat n = c # s" by (cases "str_nat n") auto
  moreover have "is_digit c" using d cs by simp
  then have "c \<noteq> CHR ''-''" "c \<noteq> CHR ''+''" by (auto simp: is_digit_def)
  moreover have "int_digits False 0 (str_nat n) = Some (int n)"
    using int_digits_str_nat [of False 0 n "[]"] by simp
  ultimately show ?thesis by (simp add: py_int_def)
qed

lemma py_slice_nonneg: "0 \<le> a \<Longrightarrow> a \<le> b \<Longrightarrow> py_slice xs a b = take (nat b - nat a) (drop (nat a) xs)"
  by (auto simp: py_slice_def slice_index_def Let_def min_def drop_take)

lemma sort_key_sub:
  assumes "sorted (map f xs)"
  shows "sort_key f (take k (drop n xs)) = take k (drop n xs)"
  using assms by (intro sort_key_id) (simp add: take_map [symmetric] drop_map [symmetric] sorted_wrt_take sorted_wrt_drop)

lemma memory_list_page:
  assumes "memory_wf m" and "1 \<le> page_size" and "n \<le> length (ma_items m)"
    and "cursor = (if n = 0 then None else Some (str_nat n))"
  shows "memory_list m cursor page_size = Inr \<lparr>page_items = take (nat page_size) (drop n (ma_items m)),
    next_cursor = (if n + nat page_size < length (ma_items m) then Some (str_nat (n + nat page_size)) else None),
    page_revision = ma_revision m\<rparr>"
proof -
  let ?p = "take (nat page_size) (drop n (ma_items m))"
  have start: "(case cursor of None \<Rightarrow> Some 0 | Some c \<Rightarrow> py_int c) = Some (int n)"
    using assms(4) by (auto simp: py_int_str_nat split: if_splits)
  have slice: "py_slice (ma_items m) (int n) (int n + page_size) = ?p"
    using assms(2) by (subst py_slice_nonneg) (auto simp: nat_add_distrib)
  have s: "sort_key si_item_id ?p = ?p" using assms(1) by (intro sort_key_sub) (simp add: memory_wf_def)
  have "distinct (map si_item_id ?p)"
    using assms(1) by (simp add: memory_wf_def take_map [symmetric] drop_map [symmetric])
  then have c: "card (si_item_id ` set ?p) = length ?p" by (simp only: card_distinct_ids)
  have next_offset: "int n + int (length ?p) < int (length (ma_items m)) \<longleftrightarrow> n + nat page_size < length (ma_items m)"
    using assms(2,3) by auto
  have off: "n + nat page_size < length (ma_items m) \<Longrightarrow> str_int (int n + int (length ?p)) = str_nat (n + nat page_size)"
    by (simp add: str_int_def nat_add_distrib min_def)
  show ?thesis
    using assms(1,2) start slice s c next_offset off
    by (simp add: memory_list_def new_source_page_def memory_wf_def Let_def del: length_take length_drop)
qed

end
