(* ===== verification/Decision_Cycles.thy ===== *)
theory Decision_Cycles
  imports Errors Frontier
begin

text \<open>
  \<open>application/ports/decision_cycles.py\<close> and \<open>application/decision_cycles.py\<close>: one snapshot is solved
  and its decisions are handed to the repository as one write set. The repository is a parameter.
  The lemmas show that the write set always passes its own validation when the ids are unique, so
  that a solved cycle is persisted whole.
\<close>

section \<open>Documents\<close>

record decision_cycle_command =
  cy_tenant_id :: string
  cy_workspace_id :: string
  cy_connection_id :: string
  cy_cycle_id :: string
  expected_source_revision :: "string option"
  new_source_revision :: string
  cy_snapshot_id :: string
  cy_snapshot_hash :: string
  cy_graph_revision :: string
  cy_policy_bundle_hash :: string
  cy_causation_id :: string
  cy_correlation_id :: string
  cy_outbox_id :: string
  cy_outbox_key :: string

definition new_cycle_command :: "decision_cycle_command \<Rightarrow> decision_cycle_command result" where
  "new_cycle_command c =
     (if \<exists>v \<in> set [cy_tenant_id c, cy_workspace_id c, cy_connection_id c, cy_cycle_id c, new_source_revision c,
            cy_snapshot_id c, cy_snapshot_hash c, cy_graph_revision c, cy_policy_bundle_hash c,
            cy_causation_id c, cy_correlation_id c, cy_outbox_id c, cy_outbox_key c]. blank v
      then Inl (ValueError ''decision cycle identities and hashes must not be blank'')
      else if expected_source_revision c = Some (new_source_revision c)
      then Inl (ValueError ''decision cycle must advance the source revision'')
      else Inr c)"

record decision_document =
  dd_decision_id :: string
  dd_item_id :: string
  dd_payload :: json
  dd_payload_hash :: string

definition new_decision_document :: "decision_document \<Rightarrow> decision_document result" where
  "new_decision_document d =
     (if \<exists>v \<in> set [dd_decision_id d, dd_item_id d, dd_payload_hash d]. blank v
      then Inl (ValueError ''decision record identity, item, and payload hash are required'')
      else Inr d)"

record source_version =
  source_version_id :: string
  sver_item_id :: string
  sver_source_id :: string
  sver_revision :: string
  sver_payload :: json
  sver_payload_hash :: string

definition new_source_version :: "source_version \<Rightarrow> source_version result" where
  "new_source_version v =
     (if \<exists>x \<in> set [source_version_id v, sver_item_id v, sver_source_id v, sver_revision v, sver_payload_hash v]. blank x
      then Inl (ValueError ''source version identity, revision, and hash are required'')
      else Inr v)"

record normalized_document =
  nd_snapshot_id :: string
  nd_payload :: json
  nd_payload_hash :: string
  nd_revision_set :: "(string \<times> string) list"
  nd_graph_revision :: string
  nd_profile_version :: string

definition new_normalized_document :: "normalized_document \<Rightarrow> normalized_document result" where
  "new_normalized_document d =
     (if (\<exists>v \<in> set [nd_snapshot_id d, nd_payload_hash d, nd_graph_revision d, nd_profile_version d]. blank v)
        \<or> nd_revision_set d = []
      then Inl (ValueError ''normalized snapshot identity, hash, revisions, and versions are required'')
      else Inr (d\<lparr>nd_revision_set := sort (nd_revision_set d)\<rparr>))"

record decision_cycle_write =
  wr_command :: decision_cycle_command
  wr_source_versions :: "source_version list"
  wr_snapshot :: normalized_document
  wr_decisions :: "decision_document list"
  wr_set_hash :: string
  wr_recommended :: "string option"

definition new_cycle_write :: "decision_cycle_write \<Rightarrow> decision_cycle_write result" where
  "new_cycle_write w =
     (if wr_decisions w = [] \<or> wr_source_versions w = [] \<or> blank (wr_set_hash w)
      then Inl (ValueError ''decision cycle requires source versions, records, and a set hash'')
      else if nd_snapshot_id (wr_snapshot w) \<noteq> cy_snapshot_id (wr_command w)
      then Inl (ValueError ''normalized snapshot identity must match the decision command'')
      else if nd_payload_hash (wr_snapshot w) \<noteq> cy_snapshot_hash (wr_command w)
      then Inl (ValueError ''normalized snapshot hash must match the decision command'')
      else if card (dd_decision_id ` set (wr_decisions w)) \<noteq> length (wr_decisions w)
        \<or> card (dd_item_id ` set (wr_decisions w)) \<noteq> length (wr_decisions w)
      then Inl (ValueError ''decision cycle record and item identities must be unique'')
      else if card (source_version_id ` set (wr_source_versions w)) \<noteq> length (wr_source_versions w)
      then Inl (ValueError ''decision cycle source-version identities must be unique'')
      else if \<exists>i. wr_recommended w = Some i \<and> i \<notin> dd_item_id ` set (wr_decisions w)
      then Inl (ValueError ''recommended item must belong to the decision cycle'')
      else Inr w)"

record decision_cycle_receipt =
  rc_cycle_id :: string
  rc_source_revision :: string
  rc_decision_count :: int
  rc_frontier_version :: int
  rc_set_hash :: string

section \<open>Solving and persisting\<close>

definition canonical_hash :: "json \<Rightarrow> string" where
  "canonical_hash v = sha256_hex (json_dumps False v)"

definition decision_document_of :: "decision_record \<Rightarrow> decision_document result" where
  "decision_document_of r = new_decision_document
     \<lparr>dd_decision_id = decision_id r, dd_item_id = dr_item_id r, dd_payload = record_canonical r,
      dd_payload_hash = canonical_hash (record_canonical r)\<rparr>"

definition cycle_write_of ::
    "decision_cycle_command \<Rightarrow> decision_record_set \<Rightarrow> source_version list \<Rightarrow> normalized_document
     \<Rightarrow> decision_cycle_write result" where
  "cycle_write_of c solved versions document =
     bind_result (map_result decision_document_of (records solved)) (\<lambda>decisions.
       new_cycle_write \<lparr>wr_command = c, wr_source_versions = versions, wr_snapshot = document,
         wr_decisions = decisions, wr_set_hash = payload_hash solved,
         wr_recommended = map_option rn_item_id (recommended solved)\<rparr>)"

definition execute_decision_cycle ::
    "decision_cycle_command \<Rightarrow> frontier_snapshot
     \<Rightarrow> (decision_cycle_write \<Rightarrow> 's \<Rightarrow> decision_cycle_receipt result \<times> 's)
     \<Rightarrow> source_version list \<Rightarrow> normalized_document \<Rightarrow> 's \<Rightarrow> decision_cycle_receipt result \<times> 's" where
  "execute_decision_cycle c snapshot persist versions document s = (let env = envelope snapshot in
     if env_workspace_id env \<noteq> cy_workspace_id c
     then (Inl (ValueError ''decision snapshot workspace does not match the persistence command''), s)
     else if normalized_snapshot_id env \<noteq> cy_snapshot_id c
     then (Inl (ValueError ''decision snapshot identity does not match the persistence command''), s)
     else if normalized_snapshot_hash env \<noteq> cy_snapshot_hash c
     then (Inl (ValueError ''decision snapshot hash does not match the persistence command''), s)
     else if graph_revision env \<noteq> cy_graph_revision c
     then (Inl (ValueError ''decision graph revision does not match the persistence command''), s)
     else if policy_bundle_hash env \<noteq> cy_policy_bundle_hash c
     then (Inl (ValueError ''decision policy hash does not match the persistence command''), s)
     else case cycle_write_of c (solve_frontier snapshot) versions document of
       Inl e \<Rightarrow> (Inl e, s)
     | Inr w \<Rightarrow> persist w s)"

section \<open>Digests\<close>

lemma sha256_hash_pattern [simp]: "hash_pattern (sha256_hex s)"
  using hexlify_subset [OF hex_char_in] length_sha256_hex [of s] unfolding hash_pattern_def sha256_hex_def by blast

section \<open>A solved cycle is a valid write set\<close>

lemma ulid_not_blank:
  assumes "ulid_pattern u"
  shows "\<not> blank u"
proof -
  obtain c cs where u: "u = c # cs" "c \<in> set ''01234567''"
    using assms by (auto simp: ulid_pattern_def split: list.splits)
  have "\<forall>d \<in> set ''01234567''. \<not> is_space d" by code_simp
  with u show ?thesis by (auto simp: blank_iff)
qed

lemma new_cycle_write_Inr: "new_cycle_write d = Inr w \<Longrightarrow> w = d"
  by (simp add: new_cycle_write_def split: if_splits)

lemma decision_document_ok:
  assumes "ulid_pattern (decision_id r)" and "\<not> blank (dr_item_id r)" and "\<not> blank (sha256_hex (json_dumps False (record_canonical r)))"
  shows "decision_document_of r = Inr \<lparr>dd_decision_id = decision_id r, dd_item_id = dr_item_id r,
    dd_payload = record_canonical r, dd_payload_hash = canonical_hash (record_canonical r)\<rparr>"
  using assms ulid_not_blank by (simp add: decision_document_of_def new_decision_document_def canonical_hash_def)

lemma records_ulid:
  assumes "snapshot_wf s" and "r \<in> set (records (solve_frontier s))"
  shows "ulid_pattern (decision_id r)"
  using assms(2) deterministic_ulid_pattern
  by (auto simp: solve_frontier_records [OF assms(1)] frontier_spec_def)

lemma records_item_ids:
  assumes "snapshot_wf s"
  shows "mset (map dr_item_id (records (solve_frontier s))) = mset (map item_id (items s))"
proof -
  have "map dr_item_id (frontier_spec s) = map item_id (ranked_items s @ unready_items s)"
    by (rule nth_equalityI) (auto simp: frontier_spec_def nth_append nth_enumerate_eq)
  moreover have "mset (ranked_items s @ unready_items s) = mset (items s)"
    using multiset_partition [of "mset (items s)" is_ready]
    by (simp add: ranked_items_def unready_items_def mset_filter)
  ultimately show ?thesis by (simp only: solve_frontier_records [OF assms] mset_map)
qed

lemma recommended_is_record:
  "recommended (solve_frontier s) = Some n \<Longrightarrow> rn_item_id n \<in> dr_item_id ` set (records (solve_frontier s))"
  by (auto simp: recommended_solve_frontier split: list.splits if_splits)

lemma cycle_write_ok:
  assumes wf: "snapshot_wf s" and ids: "\<forall>i \<in> set (items s). \<not> blank (item_id i)" and ne: "items s \<noteq> []"
    and hash: "\<And>t. \<not> blank (sha256_hex t)"
    and decisions: "distinct (map decision_id (records (solve_frontier s)))"
    and versions: "versions \<noteq> []" "distinct (map source_version_id versions)"
    and document: "nd_snapshot_id document = cy_snapshot_id c" "nd_payload_hash document = cy_snapshot_hash c"
  shows "\<exists>w. cycle_write_of c (solve_frontier s) versions document = Inr w"
proof -
  let ?rs = "records (solve_frontier s)"
  let ?doc = "\<lambda>r. \<lparr>dd_decision_id = decision_id r, dd_item_id = dr_item_id r,
    dd_payload = record_canonical r, dd_payload_hash = canonical_hash (record_canonical r)\<rparr>"
  have set_ids: "dr_item_id ` set ?rs = item_id ` set (items s)"
    using mset_eq_setD [OF records_item_ids [OF wf]] by simp
  have rec_ids: "\<not> blank (dr_item_id r)" if "r \<in> set ?rs" for r
  proof -
    have "dr_item_id r \<in> item_id ` set (items s)" unfolding set_ids [symmetric] using that by (rule imageI)
    then show ?thesis using ids by auto
  qed
  have docs: "map_result decision_document_of ?rs = Inr (map ?doc ?rs)"
    by (intro map_result_ok decision_document_ok records_ulid [OF wf] rec_ids hash)
  have "distinct (map item_id (items s))" using wf by (simp add: snapshot_wf_def)
  then have item_ids: "distinct (map dr_item_id ?rs)"
    using mset_eq_imp_distinct_iff [OF records_item_ids [OF wf]] by simp
  have "?rs \<noteq> []" using set_ids ne by auto
  moreover have "card (dd_decision_id ` set (map ?doc ?rs)) = length (map ?doc ?rs)"
    using decisions distinct_card [of "map decision_id ?rs"] by (simp add: image_image)
  moreover have "card (dd_item_id ` set (map ?doc ?rs)) = length (map ?doc ?rs)"
    using item_ids distinct_card [of "map dr_item_id ?rs"] by (simp add: image_image)
  moreover have "card (source_version_id ` set versions) = length versions"
    using versions(2) distinct_card [of "map source_version_id versions"] by simp
  ultimately show ?thesis
    using docs hash versions(1) document recommended_is_record [of s]
    by (auto simp: cycle_write_of_def new_cycle_write_def payload_hash_def image_image)
qed

text \<open>A cycle whose snapshot belongs to the command reaches the repository.\<close>

lemma execute_cycle_persists:
  assumes "cycle_write_of c (solve_frontier snapshot) versions document = Inr w"
    and "env_workspace_id (envelope snapshot) = cy_workspace_id c"
    and "normalized_snapshot_id (envelope snapshot) = cy_snapshot_id c"
    and "normalized_snapshot_hash (envelope snapshot) = cy_snapshot_hash c"
    and "graph_revision (envelope snapshot) = cy_graph_revision c"
    and "policy_bundle_hash (envelope snapshot) = cy_policy_bundle_hash c"
  shows "execute_decision_cycle c snapshot persist versions document s = persist w s"
  using assms by (simp add: execute_decision_cycle_def Let_def)

end
