(* ===== verification/Ingestion.thy ===== *)
theory Ingestion
  imports Connections Decision_Cycles
begin

text \<open>
  \<open>application/ports/ingestion.py\<close> and \<open>application/ingestion.py\<close>: source items are read page by page,
  normalized with the blockers their text names, turned into the inputs of the frontier engine and
  persisted as one decision cycle. \<open>datetime.fromisoformat\<close>, the state reader and the repository are
  parameters. The interface \<open>paged_source\<close> states what the reading loop relies on; both deterministic
  adapters provide it.
\<close>

section \<open>Commands\<close>

record ingestion_command =
  ic_tenant_id :: string
  ic_workspace_id :: string
  ic_connection_id :: string
  ic_cycle_id :: string
  ic_snapshot_id :: string
  ic_graph_revision :: string
  ic_policy_bundle_id :: string
  ic_policy_bundle_hash :: string
  ic_ranking_pipeline_hash :: string
  ic_engine_version :: string
  ic_profile_version :: string
  ic_causation_id :: string
  ic_correlation_id :: string
  ic_outbox_id :: string
  ic_outbox_key :: string
  computed_at_iso :: string
  changed_item_ids :: "string list"

definition new_ingestion_command :: "ingestion_command \<Rightarrow> ingestion_command result" where
  "new_ingestion_command c =
     (if \<exists>v \<in> set [ic_tenant_id c, ic_workspace_id c, ic_connection_id c, ic_cycle_id c, ic_snapshot_id c,
            ic_graph_revision c, ic_policy_bundle_id c, ic_policy_bundle_hash c, ic_ranking_pipeline_hash c,
            ic_engine_version c, ic_profile_version c, ic_causation_id c, ic_correlation_id c, ic_outbox_id c,
            ic_outbox_key c, computed_at_iso c]. blank v
      then Inl (ValueError ''ingestion identities, versions, hashes, and time are required'')
      else Inr (c\<lparr>changed_item_ids := sorted_set (changed_item_ids c)\<rparr>))"

record ingestion_receipt =
  ir_cycle_id :: string
  ir_source_revision :: string
  ir_set_hash :: string
  ir_affected :: "string list"
  idempotent_replay :: bool

section \<open>Blockers named in a body\<close>

abbreviation newline :: char where
  "newline \<equiv> CHR 0x0A"

definition heading :: string where
  "heading = ''## Blocked by''"

text \<open>
  \<open>^## Blocked by\s*$\n(?P<body>.*?)(?=^##\s|\Z)\<close> with \<open>MULTILINE\<close> and \<open>DOTALL\<close>: the greedy white space
  gives back everything from its last line break on, and the body ends before the next heading.
\<close>

definition next_heading :: "string \<Rightarrow> bool" where
  "next_heading t \<longleftrightarrow> (case t of a # b # c # _ \<Rightarrow> a = CHR ''#'' \<and> b = CHR ''#'' \<and> is_space c | _ \<Rightarrow> False)"

fun take_body :: "bool \<Rightarrow> string \<Rightarrow> string" where
  "take_body line_start [] = []"
| "take_body line_start (c # s) =
     (if line_start \<and> next_heading (c # s) then [] else c # take_body (c = newline) s)"

definition section_at :: "string \<Rightarrow> string option" where
  "section_at t = (if \<not> starts_with t heading then None
     else let r = drop (length heading) t;
         up_to_break = rev (dropWhile (\<lambda>c. c \<noteq> newline) (rev (takeWhile is_space r)))
       in if up_to_break = [] then None else Some (take_body True (drop (length up_to_break) r)))"

fun find_section :: "bool \<Rightarrow> string \<Rightarrow> string option" where
  "find_section line_start [] = None"
| "find_section line_start (c # s) = (case (if line_start then section_at (c # s) else None) of
     Some b \<Rightarrow> Some b
   | None \<Rightarrow> find_section (c = newline) s)"

text \<open>\<open>\w\<close> below code point 256\<close>

definition word_char :: "char \<Rightarrow> bool" where
  "word_char c = (let n = (of_char c :: nat) in is_digit c \<or> (65 \<le> n \<and> n \<le> 90) \<or> n = 95 \<or> (97 \<le> n \<and> n \<le> 122)
     \<or> n \<in> {170, 178, 179, 181, 185, 186, 188, 189, 190} \<or> (192 \<le> n \<and> n \<noteq> 215 \<and> n \<noteq> 247))"

text \<open>\<open>(?<!\w)#(?P<number>\d+)\<close>, every match; \<open>after_word\<close> says what precedes the text.\<close>

function issue_references :: "bool \<Rightarrow> string \<Rightarrow> string list" where
  "issue_references after_word [] = []"
| "issue_references after_word (c # s) =
     (if c = CHR ''#'' \<and> \<not> after_word \<and> takeWhile is_digit s \<noteq> []
      then takeWhile is_digit s # issue_references True (dropWhile is_digit s)
      else issue_references (word_char c) s)"
  by pat_completeness auto
termination
  by (relation "measure (length \<circ> snd)") (auto simp: le_imp_less_Suc length_dropWhile_le)

definition body_blockers :: "string \<Rightarrow> string list" where
  "body_blockers body = (case find_section True body of
     None \<Rightarrow> []
   | Some sect \<Rightarrow> issue_references False sect)"

section \<open>Normalization\<close>

text \<open>\<open>str.lower\<close> below code point 256\<close>

definition py_lower :: "string \<Rightarrow> string" where
  "py_lower s = map (\<lambda>c. let n = (of_char c :: nat) in
     if (65 \<le> n \<and> n \<le> 90) \<or> (192 \<le> n \<and> n \<le> 222 \<and> n \<noteq> 215) then char_of (n + 32) else c) s"

record normalized_item =
  ni_source :: source_item
  blocker_ids :: "string list"
  ni_lifecycle :: string

definition normalize_source_item :: "source_item \<Rightarrow> normalized_item" where
  "normalize_source_item i = \<lparr>ni_source = i,
     blocker_ids = sorted_set (body_blockers (si_body i) @ si_policy_blockers i),
     ni_lifecycle = (if py_lower (si_state i) = ''closed'' then ''completed'' else ''planned'')\<rparr>"

definition normalized_canonical :: "normalized_item \<Rightarrow> json" where
  "normalized_canonical n = (let s = ni_source n in JObj
     [(''blocker_ids'', str_list_json (blocker_ids n)), (''body'', JStr (si_body s)),
      (''item_id'', JStr (si_item_id s)), (''labels'', str_list_json (si_labels s)),
      (''lifecycle'', JStr (ni_lifecycle n)), (''revision'', JStr (si_revision s)),
      (''source_id'', JStr (si_source_id s)), (''state'', JStr (si_state s)),
      (''title'', JStr (si_title s)), (''updated_at'', JStr (si_updated_at s))])"

text \<open>\<open>(0, int(item_id))\<close> for decimal identifiers, else \<open>(1, item_id)\<close>: numbers come first.\<close>

definition item_id_key :: "string \<Rightarrow> rank_value" where
  "item_id_key iid = (if iid \<noteq> [] \<and> (\<forall>c \<in> set iid. is_digit c)
     then RInt (int (decimal_value iid)) else RStr iid)"

section \<open>The affected region\<close>

definition downstream_of :: "normalized_item list \<Rightarrow> string \<Rightarrow> string list" where
  "downstream_of ns blocker = sorted_set
     (map (si_item_id \<circ> ni_source) (filter (\<lambda>n. blocker \<in> set (blocker_ids n)) ns))"

text \<open>The loop over the queue; \<open>affected\<close> lists the set in the order of discovery.\<close>

function affected_loop :: "normalized_item list \<Rightarrow> string list \<Rightarrow> string list \<Rightarrow> string list" where
  "affected_loop ns [] affected = affected"
| "affected_loop ns (current # queue) affected =
     (let new = filter (\<lambda>t. t \<notin> set affected) (downstream_of ns current)
      in affected_loop ns (queue @ new) (affected @ new))"
  by pat_completeness auto

definition item_ids_of :: "normalized_item list \<Rightarrow> string set" where
  "item_ids_of ns = si_item_id ` ni_source ` set ns"

lemma downstream_items: "set (downstream_of ns b) \<subseteq> item_ids_of ns"
  by (auto simp: downstream_of_def item_ids_of_def)

termination affected_loop
proof (relation "inv_image (finite_psubset <*lex*> less_than)
    (\<lambda>(ns, queue, affected). (item_ids_of ns - set affected, length queue))", goal_cases)
  case 1
  show ?case by (intro wf_inv_image wf_lex_prod wf_finite_psubset wf_less_than)
next
  case (2 ns current queue affected new)
  have fin: "finite (item_ids_of ns)" by (simp add: item_ids_of_def)
  show ?case
  proof (cases "new = []")
    case False
    then obtain x where "x \<in> set new" by (cases new) auto
    then have "x \<in> item_ids_of ns - set affected" "x \<in> set (affected @ new)"
      using downstream_items 2 by fastforce+
    then have "item_ids_of ns - set (affected @ new) \<subset> item_ids_of ns - set affected" by auto
    then show ?thesis using fin by (simp add: finite_psubset_def)
  qed simp
qed

definition affected_item_ids :: "normalized_item list \<Rightarrow> string list \<Rightarrow> string list" where
  "affected_item_ids ns changed =
     (if changed = [] then map (si_item_id \<circ> ni_source) ns
      else sort_key item_id_key (affected_loop ns changed (remdups changed)))"

section \<open>Inputs of the engine\<close>

type_synonym iso_parser = "string \<Rightarrow> datetime result"

definition state_by_id :: "normalized_item list \<Rightarrow> string \<rightharpoonup> string" where
  "state_by_id ns = map_of (rev (map (\<lambda>n. (si_item_id (ni_source n), ni_lifecycle n)) ns))"

definition fan_out_of :: "normalized_item list \<Rightarrow> string \<Rightarrow> int" where
  "fan_out_of ns iid = int (length (filter (\<lambda>n. iid \<in> set (blocker_ids n)) ns))"

text \<open>\<open>max(0, int(delta.total_seconds()))\<close>\<close>

definition age_of :: "datetime \<Rightarrow> datetime \<Rightarrow> int" where
  "age_of computed updated = max 0 (dt_diff computed updated div 1000000)"

definition frontier_input ::
    "iso_parser \<Rightarrow> normalized_item list \<Rightarrow> datetime \<Rightarrow> normalized_item \<Rightarrow> frontier_item result" where
  "frontier_input fromiso ns computed n = (let
     s = ni_source n;
     incomplete = filter (\<lambda>b. state_by_id ns b \<noteq> Some ''completed'') (blocker_ids n)
   in bind_result (fromiso (si_updated_at s)) (\<lambda>updated.
      if \<not> aware updated then Inl (ValueError ''source item updated_at must be timezone-aware'')
      else item_post_init
        \<lparr>item_id = si_item_id s, program_id = None, title = si_title s, description = Some (si_body s),
         work_type = ''issue'', labels = si_labels s, lifecycle = ni_lifecycle n,
         completion = ''source_lifecycle'', program_priority = 0, item_work_class = IMPLEMENTATION,
         downstream_unlock_count = fan_out_of ns (si_item_id s), age_seconds = age_of computed updated,
         hard_blockers_complete = (incomplete = []), entry_gates_pass = True, authority_safe = True,
         field_authority = [(''lifecycle'', ''authoritative''), (''title'', ''authoritative'')],
         gate_states = [], incomplete_hard_blockers = incomplete, gate_dependencies = [],
         active_attention_items = []\<rparr>))"

definition frontier_inputs ::
    "iso_parser \<Rightarrow> normalized_item list \<Rightarrow> datetime \<Rightarrow> frontier_item list result" where
  "frontier_inputs fromiso ns computed = map_result (frontier_input fromiso ns computed) ns"

section \<open>The build\<close>

definition stable_id :: "string list \<Rightarrow> string" where
  "stable_id parts = sha256_hex (join [CHR 0x1F] parts)"

definition source_payload :: "source_item \<Rightarrow> json" where
  "source_payload i = JObj
     [(''body'', JStr (si_body i)), (''labels'', str_list_json (si_labels i)),
      (''policy_blockers'', str_list_json (si_policy_blockers i)),
      (''raw'', payload_json (py_dict (si_raw i))), (''state'', JStr (si_state i)),
      (''title'', JStr (si_title i)), (''updated_at'', JStr (si_updated_at i))]"

definition source_version_document :: "source_item \<Rightarrow> source_version result" where
  "source_version_document i = new_source_version
     \<lparr>source_version_id = stable_id [''source-version'', si_source_id i, si_item_id i, si_revision i],
      sver_item_id = si_item_id i, sver_source_id = si_source_id i, sver_revision = si_revision i,
      sver_payload = source_payload i, sver_payload_hash = canonical_hash (source_payload i)\<rparr>"

record ingestion_build =
  ib_snapshot :: frontier_snapshot
  ib_source_versions :: "source_version list"
  ib_document :: normalized_document
  ib_affected :: "string list"

definition ingestion_pipeline :: "comparator list" where
  "ingestion_pipeline = [PROGRAM_PRIORITY, WORK_CLASS, DOWNSTREAM_UNLOCK_COUNT_DESC, AGE_DESC, STABLE_ID]"

definition snapshot_payload :: "ingestion_command \<Rightarrow> normalized_item list \<Rightarrow> string \<Rightarrow> json" where
  "snapshot_payload c ns source_revision = JObj
     [(''items'', JList (map normalized_canonical ns)), (''profile_version'', JStr (ic_profile_version c)),
      (''source_revision'', JStr source_revision)]"

definition build_ingestion_snapshot ::
    "iso_parser \<Rightarrow> ingestion_command \<Rightarrow> source_item list \<Rightarrow> string \<Rightarrow> ingestion_build result" where
  "build_ingestion_snapshot fromiso c sis source_revision = (let
     ordered = sort_key (item_id_key \<circ> si_item_id) sis;
     ns = map normalize_source_item ordered;
     content = snapshot_payload c ns source_revision;
     snapshot_hash = canonical_hash content;
     revisions = sorted_set (map (\<lambda>i. (si_source_id i, si_revision i)) ordered)
   in bind_result (fromiso (computed_at_iso c)) (\<lambda>computed.
      if \<not> aware computed then Inl (ValueError ''ingestion computed_at_iso must include a timezone'')
      else bind_result (envelope_post_init
        \<lparr>env_workspace_id = ic_workspace_id c, normalized_snapshot_id = ic_snapshot_id c,
         normalized_snapshot_hash = snapshot_hash, source_revision_set = revisions,
         graph_revision = ic_graph_revision c, policy_bundle_id = ic_policy_bundle_id c,
         policy_bundle_hash = ic_policy_bundle_hash c, ranking_pipeline_hash = ic_ranking_pipeline_hash c,
         engine_version = ic_engine_version c, normalization_profile_version = ic_profile_version c,
         computed_at = computed, causation_id = ic_causation_id c, correlation_id = ic_correlation_id c\<rparr>) (\<lambda>env.
      bind_result (frontier_inputs fromiso ns computed) (\<lambda>fis.
      bind_result (new_pipeline ingestion_pipeline) (\<lambda>p.
      bind_result (new_snapshot env fis p) (\<lambda>snapshot.
      bind_result (new_normalized_document
        \<lparr>nd_snapshot_id = ic_snapshot_id c, nd_payload = content, nd_payload_hash = snapshot_hash,
         nd_revision_set = revisions, nd_graph_revision = ic_graph_revision c,
         nd_profile_version = ic_profile_version c\<rparr>) (\<lambda>document.
      bind_result (map_result source_version_document sis) (\<lambda>versions.
        Inr \<lparr>ib_snapshot = snapshot, ib_source_versions = versions, ib_document = document,
          ib_affected = affected_item_ids ns (changed_item_ids c)\<rparr>))))))))"

section \<open>Reading a connection\<close>

text \<open>
  The \<open>while True\<close> loop over the pages: it may never end, so its value is \<open>None\<close> when it does not.
\<close>

partial_function (option) read_pages ::
    "'w connection_adapter \<Rightarrow> int \<Rightarrow> string option \<Rightarrow> source_item list \<Rightarrow> string option \<Rightarrow> 'w
     \<Rightarrow> (source_item list result \<times> 'w) option" where
  "read_pages adapter page_size cursor sis source_revision w =
     (case list_items adapter cursor page_size w of
        (Inl e, w') \<Rightarrow> Some (Inl e, w')
      | (Inr page, w') \<Rightarrow>
          if source_revision \<noteq> None \<and> source_revision \<noteq> Some (page_revision page)
          then Some (Inl (ValueError ''source revision changed while pagination was in progress''), w')
          else (case next_cursor page of
            None \<Rightarrow> Some (Inr (sis @ page_items page), w')
          | Some c \<Rightarrow> read_pages adapter page_size (Some c) (sis @ page_items page)
              (Some (page_revision page)) w'))"

definition read_all_items ::
    "'w connection_adapter \<Rightarrow> int \<Rightarrow> 'w \<Rightarrow> (source_item list result \<times> 'w) option" where
  "read_all_items adapter page_size w = (case read_pages adapter page_size None [] None w of
     None \<Rightarrow> None
   | Some (Inl e, w') \<Rightarrow> Some (Inl e, w')
   | Some (Inr sis, w') \<Rightarrow> (let ordered = sort_key si_item_id sis in
       Some (if card (si_item_id ` set ordered) \<noteq> length ordered
         then Inl (ValueError ''paginated source items contain duplicate identities'')
         else Inr ordered, w')))"


section \<open>One ingestion\<close>

record 's ingestion_state_reader =
  current_source_revision :: "string \<Rightarrow> string \<Rightarrow> string \<Rightarrow> 's \<Rightarrow> string option result"
  load_source_items :: "string \<Rightarrow> string \<Rightarrow> string \<Rightarrow> 's \<Rightarrow> source_item list result"

text \<open>
  \<open>merged[item_id] = adapter.get_item(item_id)\<close> over the changed ids; the pairs that are collected
  become the dictionary, whose values are sorted.
\<close>

fun fetch_changed ::
    "'w connection_adapter \<Rightarrow> string list \<Rightarrow> 'w \<Rightarrow> (string \<times> source_item) list result \<times> 'w" where
  "fetch_changed adapter [] w = (Inr [], w)"
| "fetch_changed adapter (iid # rest) w = (case get_item adapter iid w of
     (Inl e, w') \<Rightarrow> (Inl e, w')
   | (Inr i, w') \<Rightarrow> (case fetch_changed adapter rest w' of
       (Inl e, w'') \<Rightarrow> (Inl e, w'')
     | (Inr fetched, w'') \<Rightarrow> (Inr ((iid, i) # fetched), w'')))"

definition merged_items :: "source_item list \<Rightarrow> (string \<times> source_item) list \<Rightarrow> source_item list" where
  "merged_items previous fetched =
     sort_key si_item_id (map snd (py_dict (map (\<lambda>i. (si_item_id i, i)) previous @ fetched)))"

definition source_items_of ::
    "'s ingestion_state_reader \<Rightarrow> 'w connection_adapter \<Rightarrow> int \<Rightarrow> ingestion_command \<Rightarrow> 's \<Rightarrow> 'w
     \<Rightarrow> (source_item list result \<times> 'w) option" where
  "source_items_of reader adapter page_size c s w =
     (if changed_item_ids c \<noteq> [] then Some
        (case load_source_items reader (ic_tenant_id c) (ic_workspace_id c) (ic_connection_id c) s of
           Inl e \<Rightarrow> (Inl e, w)
         | Inr previous \<Rightarrow> (case fetch_changed adapter (changed_item_ids c) w of
             (Inl e, w') \<Rightarrow> (Inl e, w')
           | (Inr fetched, w') \<Rightarrow> (Inr (merged_items previous fetched), w')))
      else read_all_items adapter page_size w)"

definition cycle_command_of ::
    "ingestion_command \<Rightarrow> string option \<Rightarrow> string \<Rightarrow> ingestion_build \<Rightarrow> decision_cycle_command" where
  "cycle_command_of c expected source_revision b =
     \<lparr>cy_tenant_id = ic_tenant_id c, cy_workspace_id = ic_workspace_id c,
      cy_connection_id = ic_connection_id c, cy_cycle_id = ic_cycle_id c,
      expected_source_revision = expected, new_source_revision = source_revision,
      cy_snapshot_id = ic_snapshot_id c, cy_snapshot_hash = nd_payload_hash (ib_document b),
      cy_graph_revision = ic_graph_revision c, cy_policy_bundle_hash = ic_policy_bundle_hash c,
      cy_causation_id = ic_causation_id c, cy_correlation_id = ic_correlation_id c,
      cy_outbox_id = ic_outbox_id c, cy_outbox_key = ic_outbox_key c\<rparr>"

definition build_and_persist ::
    "iso_parser \<Rightarrow> ingestion_command \<Rightarrow> string option \<Rightarrow> string \<Rightarrow> source_item list
     \<Rightarrow> (decision_cycle_write \<Rightarrow> 's \<Rightarrow> decision_cycle_receipt result \<times> 's) \<Rightarrow> 's
     \<Rightarrow> ingestion_receipt result \<times> 's" where
  "build_and_persist fromiso c expected source_revision sis persist s =
     (case build_ingestion_snapshot fromiso c sis source_revision of
        Inl e \<Rightarrow> (Inl e, s)
      | Inr b \<Rightarrow> (case new_cycle_command (cycle_command_of c expected source_revision b) of
          Inl e \<Rightarrow> (Inl e, s)
        | Inr command \<Rightarrow> (case execute_decision_cycle command (ib_snapshot b) persist
              (ib_source_versions b) (ib_document b) s of
            (Inl e, s') \<Rightarrow> (Inl e, s')
          | (Inr receipt, s') \<Rightarrow> (Inr \<lparr>ir_cycle_id = rc_cycle_id receipt,
              ir_source_revision = rc_source_revision receipt, ir_set_hash = rc_set_hash receipt,
              ir_affected = ib_affected b, idempotent_replay = False\<rparr>, s'))))"

definition ingest_connection ::
    "iso_parser \<Rightarrow> ingestion_command \<Rightarrow> 'w connection_adapter \<Rightarrow> 's ingestion_state_reader
     \<Rightarrow> (decision_cycle_write \<Rightarrow> 's \<Rightarrow> decision_cycle_receipt result \<times> 's) \<Rightarrow> int \<Rightarrow> 's \<Rightarrow> 'w
     \<Rightarrow> (ingestion_receipt result \<times> 's \<times> 'w) option" where
  "ingest_connection fromiso c adapter reader persist page_size s w =
     (case current_source_revision reader (ic_tenant_id c) (ic_workspace_id c) (ic_connection_id c) s of
        Inl e \<Rightarrow> Some (Inl e, s, w)
      | Inr expected \<Rightarrow> (case current_revision adapter w of
          (Inl e, w') \<Rightarrow> Some (Inl e, s, w')
        | (Inr source_revision, w') \<Rightarrow>
            if expected = Some source_revision
            then Some (Inr \<lparr>ir_cycle_id = ic_cycle_id c, ir_source_revision = source_revision,
              ir_set_hash = [], ir_affected = [], idempotent_replay = True\<rparr>, s, w')
            else (case source_items_of reader adapter page_size c s w' of
              None \<Rightarrow> None
            | Some (Inl e, w'') \<Rightarrow> Some (Inl e, s, w'')
            | Some (Inr sis, w'') \<Rightarrow>
                (let (r, s') = build_and_persist fromiso c expected source_revision sis persist s
                 in Some (r, s', w'')))))"

section \<open>Reading ends\<close>

text \<open>
  The interface the reading loop relies on: a source whose pages are the consecutive pieces of one
  sequence, with the offset as cursor.
\<close>

locale paged_source =
  fixes adapter :: "'w connection_adapter"
    and wf :: "'w \<Rightarrow> bool"
    and contents :: "'w \<Rightarrow> source_item list"
    and revision :: "'w \<Rightarrow> string"
  assumes pages: "wf w \<Longrightarrow> 1 \<le> psize \<Longrightarrow> n \<le> length (contents w) \<Longrightarrow>
      list_items adapter (if n = 0 then None else Some (str_nat n)) psize w =
        (Inr \<lparr>page_items = take (nat psize) (drop n (contents w)),
           next_cursor = (if n + nat psize < length (contents w) then Some (str_nat (n + nat psize)) else None),
           page_revision = revision w\<rparr>, w)"
    and ordered_contents: "wf w \<Longrightarrow> sorted (map si_item_id (contents w)) \<and> distinct (map si_item_id (contents w))"
    and current: "wf w \<Longrightarrow> current_revision adapter w = (Inr (revision w), w)"
begin

lemma read_pages_from:
  assumes "wf w" and "1 \<le> psize" and "n \<le> length (contents w)" and "seen = None \<or> seen = Some (revision w)"
  shows "read_pages adapter psize (if n = 0 then None else Some (str_nat n)) acc seen w
    = Some (Inr (acc @ drop n (contents w)), w)"
  using assms
proof (induction "length (contents w) - n" arbitrary: n acc seen rule: less_induct)
  case less
  let ?m = "n + nat psize"
  show ?case
  proof (cases "?m < length (contents w)")
    case True
    have "read_pages adapter psize (if ?m = 0 then None else Some (str_nat ?m))
        (acc @ take (nat psize) (drop n (contents w))) (Some (revision w)) w
      = Some (Inr ((acc @ take (nat psize) (drop n (contents w))) @ drop ?m (contents w)), w)"
      using less.prems True by (intro less.hyps) auto
    moreover have "take (nat psize) (drop n (contents w)) @ drop ?m (contents w) = drop n (contents w)"
      using append_take_drop_id [of "nat psize" "drop n (contents w)"] by (simp add: add.commute)
    ultimately show ?thesis
      using less.prems True pages [OF less.prems(1,2,3)] by (subst read_pages.simps) auto
  next
    case False
    then have "take (nat psize) (drop n (contents w)) = drop n (contents w)" by simp
    then show ?thesis
      using less.prems False pages [OF less.prems(1,2,3)] by (subst read_pages.simps) auto
  qed
qed

lemma read_all:
  assumes "wf w" and "1 \<le> psize"
  shows "read_all_items adapter psize w = Some (Inr (contents w), w)"
proof -
  have s: "sort_key si_item_id (contents w) = contents w"
    using ordered_contents [OF assms(1)] by (intro sort_key_id) simp
  have "card (si_item_id ` set (contents w)) = length (contents w)"
    using ordered_contents [OF assms(1)] by (simp only: card_distinct_ids)
  then show ?thesis
    using read_pages_from [OF assms, of 0 None "[]"] s by (simp add: read_all_items_def Let_def)
qed

lemma ingest_full:
  assumes "wf w" and "1 \<le> psize" and "changed_item_ids c = []"
    and "current_source_revision reader (ic_tenant_id c) (ic_workspace_id c) (ic_connection_id c) s = Inr expected"
    and "expected \<noteq> Some (revision w)"
  shows "ingest_connection fromiso c adapter reader persist psize s w
    = (let (r, s') = build_and_persist fromiso c expected (revision w) (contents w) persist s in Some (r, s', w))"
  using assms read_all [OF assms(1,2)] current [OF assms(1)]
  by (simp add: ingest_connection_def source_items_of_def)

end

interpretation memory: paged_source memory_connection memory_wf ma_items ma_revision
  by unfold_locales (simp_all add: memory_connection_def memory_list_page memory_wf_def)

interpretation fixture: paged_source fixture_connection "\<lambda>f. fault f = None \<and> memory_wf (delegate f)"
    "ma_items \<circ> delegate" "ma_revision \<circ> delegate"
  by unfold_locales (simp_all add: fixture_connection_def raise_fault_def memory_list_page memory_wf_def)

end
