(* ===== verification/Ingestion_Props.thy ===== *)
theory Ingestion_Props
  imports Ingestion
begin

text \<open>
  What ingestion does: reading ends, the affected region is the downstream closure, readiness is read
  off the sources, an incremental ingestion works on the items of a full one, and one write set with a
  decision per item reaches the repository.
\<close>

section \<open>Reading\<close>

text \<open>
  C31: reading ends. Over the in-memory adapter the paging loop returns every item of the source, in
  identifier order, for every page size of at least one, and over the fixture adapter it returns
  either the same items or the injected fault.
\<close>

theorem reading_ends:
  assumes "memory_wf m" and "1 \<le> psize"
  shows "read_all_items memory_connection psize m = Some (Inr (ma_items m), m)
    \<and> read_all_items fixture_connection psize \<lparr>delegate = m, fault = f\<rparr> =
      Some (case f of None \<Rightarrow> Inr (ma_items m)
        | Some k \<Rightarrow> Inl (AdapterError k (''injected fixture adapter fault: '' @ adapter_error_value k)),
        \<lparr>delegate = m, fault = f\<rparr>)"
proof (cases f)
  case None
  then show ?thesis
    using memory.read_all [OF assms] fixture.read_all [of "\<lparr>delegate = m, fault = f\<rparr>" psize] assms by simp
next
  case (Some k)
  have "read_pages fixture_connection psize None [] None \<lparr>delegate = m, fault = f\<rparr>
    = Some (Inl (AdapterError k (''injected fixture adapter fault: '' @ adapter_error_value k)), \<lparr>delegate = m, fault = f\<rparr>)"
    using Some by (subst read_pages.simps) (simp add: fixture_connection_def raise_fault_def)
  then show ?thesis using memory.read_all [OF assms] Some by (simp add: read_all_items_def)
qed

section \<open>The affected region is the downstream closure\<close>

definition blocks_rel :: "normalized_item list \<Rightarrow> (string \<times> string) set" where
  "blocks_rel ns = {(b, si_item_id (ni_source n)) | b n. n \<in> set ns \<and> b \<in> set (blocker_ids n)}"

lemma downstream_image: "set (downstream_of ns b) = blocks_rel ns `` {b}"
  by (auto simp: downstream_of_def blocks_rel_def)

lemma affected_loop_spec:
  assumes "distinct affected" and "set queue \<subseteq> set affected"
    and "blocks_rel ns `` (set affected - set queue) \<subseteq> set affected"
  shows "distinct (affected_loop ns queue affected)
    \<and> set (affected_loop ns queue affected) = (blocks_rel ns)\<^sup>* `` set affected"
  using assms
proof (induction ns queue affected rule: affected_loop.induct)
  case (1 ns affected)
  then show ?case by (simp add: Image_closed_trancl)
next
  case (2 ns current queue affected)
  let ?new = "filter (\<lambda>t. t \<notin> set affected) (downstream_of ns current)"
  have d: "distinct (affected @ ?new)" using "2.prems"(1) by (auto simp: downstream_of_def)
  have q: "set (queue @ ?new) \<subseteq> set (affected @ ?new)" using "2.prems"(2) by auto
  have c: "blocks_rel ns `` (set (affected @ ?new) - set (queue @ ?new)) \<subseteq> set (affected @ ?new)"
    using "2.prems"(3) downstream_image [of ns current] by auto
  have sub: "set (affected @ ?new) \<subseteq> (blocks_rel ns)\<^sup>* `` set affected"
    using "2.prems"(2) downstream_image [of ns current] by auto
  have "(blocks_rel ns)\<^sup>* `` set (affected @ ?new) \<subseteq> (blocks_rel ns)\<^sup>* `` ((blocks_rel ns)\<^sup>* `` set affected)"
    by (intro Image_mono sub) simp
  also have "\<dots> = (blocks_rel ns)\<^sup>* `` set affected" by (simp add: relcomp_Image [symmetric])
  finally have "(blocks_rel ns)\<^sup>* `` set (affected @ ?new) = (blocks_rel ns)\<^sup>* `` set affected" by auto
  with "2.IH" [OF refl d q c] show ?case by (simp add: Let_def)
qed

lemma affected_items_spec:
  assumes "changed \<noteq> []" and "distinct changed"
  shows "distinct (affected_item_ids ns changed)"
    and "set (affected_item_ids ns changed) = (blocks_rel ns)\<^sup>* `` set changed"
    and "sorted (map item_id_key (affected_item_ids ns changed))"
  using affected_loop_spec [of changed changed ns] assms
  by (simp_all add: affected_item_ids_def distinct_remdups_id)

lemma normalize_fields [simp]:
  "ni_source (normalize_source_item i) = i"
  "set (blocker_ids (normalize_source_item i)) = set (body_blockers (si_body i)) \<union> set (si_policy_blockers i)"
  "ni_lifecycle (normalize_source_item i) = (if py_lower (si_state i) = ''closed'' then ''completed'' else ''planned'')"
  by (simp_all add: normalize_source_item_def)

lemma blocks_rel_map: "blocks_rel (map normalize_source_item sis) = {(x, si_item_id y) | x y. y \<in> set sis
    \<and> x \<in> set (body_blockers (si_body y)) \<union> set (si_policy_blockers y)}"
proof -
  have "{(b, f n) | b n. n \<in> set (map h xs) \<and> b \<in> B n} = {(b, f (h y)) | b y. y \<in> set xs \<and> b \<in> B (h y)}"
    for f :: "'b \<Rightarrow> string" and h :: "'a \<Rightarrow> 'b" and xs and B :: "'b \<Rightarrow> string set" by auto
  note this [of "\<lambda>n. si_item_id (ni_source n)" normalize_source_item sis "\<lambda>n. set (blocker_ids n)"]
  then show ?thesis by (simp only: blocks_rel_def normalize_fields)
qed

definition normalized_of :: "source_item list \<Rightarrow> normalized_item list" where
  "normalized_of sis = map normalize_source_item (sort_key (item_id_key \<circ> si_item_id) sis)"

lemma set_normalized_of [simp]: "set (normalized_of sis) = normalize_source_item ` set sis"
  by (simp add: normalized_of_def)

lemma envelope_fields:
  assumes "envelope_post_init e = Inr env"
  shows "env_workspace_id env = env_workspace_id e" "normalized_snapshot_id env = normalized_snapshot_id e"
    "normalized_snapshot_hash env = normalized_snapshot_hash e" "graph_revision env = graph_revision e"
    "policy_bundle_hash env = policy_bundle_hash e"
  using assms by (auto simp: envelope_post_init_def Let_def split: if_splits)

lemma document_fields:
  assumes "new_normalized_document d = Inr d'"
  shows "nd_snapshot_id d' = nd_snapshot_id d" "nd_payload_hash d' = nd_payload_hash d"
  using assms by (auto simp: new_normalized_document_def split: if_splits)

lemma build_Inr:
  assumes "build_ingestion_snapshot fromiso c sis srev = Inr b"
  obtains computed fis where "fromiso (computed_at_iso c) = Inr computed"
    and "frontier_inputs fromiso (normalized_of sis) computed = Inr fis"
    and "new_snapshot (envelope (ib_snapshot b)) fis \<lparr>comparators = ingestion_pipeline\<rparr> = Inr (ib_snapshot b)"
    and "map_result source_version_document sis = Inr (ib_source_versions b)"
    and "ib_affected b = affected_item_ids (normalized_of sis) (changed_item_ids c)"
    and "nd_snapshot_id (ib_document b) = ic_snapshot_id c"
    and "nd_payload_hash (ib_document b) = canonical_hash (snapshot_payload c (normalized_of sis) srev)"
    and "normalized_snapshot_id (envelope (ib_snapshot b)) = ic_snapshot_id c"
    and "normalized_snapshot_hash (envelope (ib_snapshot b)) = nd_payload_hash (ib_document b)"
    and "env_workspace_id (envelope (ib_snapshot b)) = ic_workspace_id c"
    and "graph_revision (envelope (ib_snapshot b)) = ic_graph_revision c"
    and "policy_bundle_hash (envelope (ib_snapshot b)) = ic_policy_bundle_hash c"
proof -
  have p: "new_pipeline ingestion_pipeline = Inr \<lparr>comparators = ingestion_pipeline\<rparr>"
    by (simp add: new_pipeline_def ingestion_pipeline_def)
  show thesis
    using assms unfolding build_ingestion_snapshot_def Let_def normalized_of_def [symmetric] p bind_result_simps
    apply (simp add: bind_result_eq_Inr split: if_splits)
    apply (elim exE conjE)
    apply hypsubst
    subgoal for computed env fis sn doc vs
      apply (rule that [of computed fis])
      apply (simp_all add: new_snapshot_items(3) [of env fis _ sn] envelope_fields [of _ env]
          document_fields [of _ doc])
      done
    done
qed

text \<open>
  C32: an incremental ingestion reports exactly the changed items and every item downstream of one
  through a chain of named blockers, once each and in identifier order.
\<close>

theorem affected_region_is_closure:
  assumes "new_ingestion_command c0 = Inr c" and "changed_item_ids c \<noteq> []"
    and "build_ingestion_snapshot fromiso c sis srev = Inr b"
  shows "distinct (ib_affected b) \<and> sorted (map item_id_key (ib_affected b))
    \<and> set (ib_affected b) = {t. \<exists>i \<in> set (changed_item_ids c0).
        (i, t) \<in> {(x, si_item_id y) | x y. y \<in> set sis
          \<and> x \<in> set (body_blockers (si_body y)) \<union> set (si_policy_blockers y)}\<^sup>*}"
proof -
  have c: "changed_item_ids c = sorted_set (changed_item_ids c0)"
    using assms(1) by (simp add: new_ingestion_command_def split: if_splits) (drule sym, simp)
  have b: "ib_affected b = affected_item_ids (normalized_of sis) (changed_item_ids c)"
    by (rule build_Inr [OF assms(3)])
  have rel: "blocks_rel (normalized_of sis) = {(x, si_item_id y) | x y. y \<in> set sis
      \<and> x \<in> set (body_blockers (si_body y)) \<union> set (si_policy_blockers y)}"
    by (simp add: normalized_of_def blocks_rel_map)
  have "distinct (changed_item_ids c)" by (simp add: c)
  with assms(2) show ?thesis
    unfolding b rel [symmetric] by (simp add: affected_items_spec Image_def c)
qed


section \<open>Readiness is read off the sources\<close>

definition source_closed :: "source_item \<Rightarrow> bool" where
  "source_closed i \<longleftrightarrow> py_lower (si_state i) = ''closed''"

definition named_blockers :: "source_item \<Rightarrow> string set" where
  "named_blockers i = set (body_blockers (si_body i)) \<union> set (si_policy_blockers i)"

lemma lifecycle_completed: "ni_lifecycle (normalize_source_item i) = ''completed'' \<longleftrightarrow> source_closed i"
  by (simp add: source_closed_def)

lemma frontier_input_Inr:
  assumes "frontier_input fromiso ns computed n = Inr fi"
  shows "item_id fi = si_item_id (ni_source n)" and "lifecycle fi = ni_lifecycle n"
    and "entry_gates_pass fi" and "authority_safe fi"
    and "hard_blockers_complete fi \<longleftrightarrow> (\<forall>x \<in> set (blocker_ids n). state_by_id ns x = Some ''completed'')"
  using assms by (simp_all add: frontier_input_def Let_def result_simps item_post_init_def split: if_splits)
    (elim exE conjE, hypsubst, simp add: filter_empty_conv)+

lemma state_by_id_distinct:
  assumes "distinct (map (si_item_id \<circ> ni_source) ns)"
  shows "state_by_id ns x = Some l \<longleftrightarrow> (\<exists>n \<in> set ns. si_item_id (ni_source n) = x \<and> ni_lifecycle n = l)"
  using assms unfolding state_by_id_def by (subst map_of_rev_distinct) (auto simp: comp_def)

lemma list_all2_bex:
  assumes "list_all2 R xs ys" and "\<And>x y. R x y \<Longrightarrow> x \<in> set xs \<Longrightarrow> P y \<longleftrightarrow> Q x"
  shows "(\<exists>y \<in> set ys. P y) \<longleftrightarrow> (\<exists>x \<in> set xs. Q x)"
  using assms by (induction rule: list_all2_induct) auto

lemma frontier_inputs_ids:
  assumes "frontier_inputs fromiso ns computed = Inr fis"
  shows "map item_id fis = map (si_item_id \<circ> ni_source) ns"
  using assms unfolding frontier_inputs_def map_result_Inr
  by (induction rule: list_all2_induct) (simp_all add: frontier_input_Inr)

lemma ready_inputs:
  assumes "frontier_inputs fromiso ns computed = Inr fis" and "distinct (map (si_item_id \<circ> ni_source) ns)"
    and "\<forall>n \<in> set ns. ni_lifecycle n \<in> {''completed'', ''planned''}"
  shows "(\<exists>fi \<in> set fis. is_ready fi \<and> item_id fi = z) \<longleftrightarrow> (\<exists>n \<in> set ns. ni_lifecycle n \<noteq> ''completed''
      \<and> (\<forall>x \<in> set (blocker_ids n). \<exists>m \<in> set ns. si_item_id (ni_source m) = x \<and> ni_lifecycle m = ''completed'')
      \<and> si_item_id (ni_source n) = z)"
proof -
  have all2: "list_all2 (\<lambda>n fi. frontier_input fromiso ns computed n = Inr fi) ns fis"
    using assms(1) by (simp add: frontier_inputs_def map_result_Inr)
  have ready: "is_ready fi \<longleftrightarrow> ni_lifecycle n \<noteq> ''completed'' \<and> (\<forall>x \<in> set (blocker_ids n).
      \<exists>m \<in> set ns. si_item_id (ni_source m) = x \<and> ni_lifecycle m = ''completed'')"
    if "frontier_input fromiso ns computed n = Inr fi" "n \<in> set ns" for n fi
    using frontier_input_Inr [OF that(1)] bspec [OF assms(3) that(2)]
    unfolding is_ready_def state_by_id_distinct [OF assms(2)] by (elim insertE emptyE) simp_all
  show ?thesis
    by (rule list_all2_bex [OF all2]) (simp only: ready frontier_input_Inr(1) conj_assoc)
qed

lemma ready_item_ids_set:
  assumes "snapshot_wf s"
  shows "set (ready_item_ids (solve_frontier s)) = item_id ` {i \<in> set (items s). is_ready i}"
proof -
  have "set (ready_item_ids (solve_frontier s)) = item_id ` set (map snd (enumerate 1 (ranked_items s)))"
    unfolding ready_item_ids_def solve_frontier_records [OF assms] ready_spec(1)
    by (simp only: map_map set_map image_image) (simp add: case_prod_beta image_image)
  then show ?thesis by (simp only: map_snd_enumerate set_ranked_items)
qed

lemma build_ids:
  assumes "frontier_inputs fromiso (normalized_of sis) computed = Inr fis"
    and "new_snapshot env fis p = Inr sn"
  shows "distinct (map (si_item_id \<circ> ni_source) (normalized_of sis))"
proof -
  have "distinct (map item_id fis)"
    using assms(2) by (simp add: new_snapshot_def Let_def split: if_splits)
  then show ?thesis using frontier_inputs_ids [OF assms(1)] by simp
qed

lemma build_snapshot_items:
  assumes "build_ingestion_snapshot fromiso c sis srev = Inr b"
  shows "snapshot_wf (ib_snapshot b)" and "mset (map item_id (items (ib_snapshot b))) = mset (map si_item_id sis)"
proof -
  obtain computed fis where fis: "frontier_inputs fromiso (normalized_of sis) computed = Inr fis"
    and sn: "new_snapshot (envelope (ib_snapshot b)) fis \<lparr>comparators = ingestion_pipeline\<rparr> = Inr (ib_snapshot b)"
    by (rule build_Inr [OF assms])
  have "pipeline_wf \<lparr>comparators = ingestion_pipeline\<rparr>" by (simp add: pipeline_wf_def ingestion_pipeline_def)
  with sn show "snapshot_wf (ib_snapshot b)" by (rule new_snapshot_wf)
  have "map item_id fis = map si_item_id (sort_key (item_id_key \<circ> si_item_id) sis)"
    using frontier_inputs_ids [OF fis] by (simp add: normalized_of_def comp_def)
  then have "mset (map item_id fis) = mset (map si_item_id sis)" by simp
  then show "mset (map item_id (items (ib_snapshot b))) = mset (map si_item_id sis)"
    by (simp add: new_snapshot_items(1) [OF sn])
qed

text \<open>
  C30: end to end, an ingested item is ready exactly when its source is not closed and everything its
  text and its policy name as a blocker is a known item whose source is closed. A blocker nobody knows
  keeps the item waiting. Closed is the code's notion, the state "closed" in any case; every other state
  counts as planned, so a source state such as "done", "wontfix" or one nobody mapped leaves the item
  ready, where docs/domain/lifecycle-and-completion.md maps it to completed, cancelled or unknown (a
  finding records this).
\<close>

theorem ingested_item_ready:
  assumes "build_ingestion_snapshot fromiso c sis srev = Inr b"
  shows "z \<in> set (ready_item_ids (solve_frontier (ib_snapshot b))) \<longleftrightarrow>
    (\<exists>i \<in> set sis. si_item_id i = z \<and> \<not> source_closed i
      \<and> (\<forall>x \<in> named_blockers i. \<exists>j \<in> set sis. si_item_id j = x \<and> source_closed j))"
proof (rule build_Inr [OF assms])
  fix computed fis
  assume fis: "frontier_inputs fromiso (normalized_of sis) computed = Inr fis"
    and sn: "new_snapshot (envelope (ib_snapshot b)) fis \<lparr>comparators = ingestion_pipeline\<rparr> = Inr (ib_snapshot b)"
  have "pipeline_wf \<lparr>comparators = ingestion_pipeline\<rparr>" by (simp add: pipeline_wf_def ingestion_pipeline_def)
  with sn have wf: "snapshot_wf (ib_snapshot b)" by (rule new_snapshot_wf)
  have its: "set (items (ib_snapshot b)) = set fis" using new_snapshot_items(1) [OF sn] by (rule mset_eq_setD)
  have lc: "\<forall>n \<in> set (normalized_of sis). ni_lifecycle n \<in> {''completed'', ''planned''}"
    by (simp only: set_normalized_of ball_simps normalize_fields) simp
  have "z \<in> set (ready_item_ids (solve_frontier (ib_snapshot b))) \<longleftrightarrow> (\<exists>fi \<in> set fis. is_ready fi \<and> item_id fi = z)"
    unfolding ready_item_ids_set [OF wf] its by auto
  also note ready_inputs [OF fis build_ids [OF fis sn] lc]
  finally show ?thesis
    by (simp only: set_normalized_of bex_simps lifecycle_completed normalize_fields(1,2) named_blockers_def
        conj_assoc conj_commute conj_left_commute)
qed

section \<open>An incremental ingestion reads what a full one reads\<close>

lemma fetch_changed_memory:
  assumes "distinct ids" and "\<forall>i \<in> set ids. \<exists>x \<in> set (ma_items m). si_item_id x = i"
  shows "\<exists>fetched. fetch_changed memory_connection ids m = (Inr fetched, m) \<and> map fst fetched = ids
    \<and> (\<forall>(k, x) \<in> set fetched. x \<in> set (ma_items m) \<and> si_item_id x = k)"
  using assms
proof (induction ids)
  case (Cons i ids)
  then obtain fetched where f: "fetch_changed memory_connection ids m = (Inr fetched, m)" "map fst fetched = ids"
    "\<forall>(k, x) \<in> set fetched. x \<in> set (ma_items m) \<and> si_item_id x = k" by auto
  have "find (\<lambda>x. si_item_id x = i) (ma_items m) \<noteq> None"
    using Cons.prems(2) by (auto simp: find_None_iff)
  then obtain x where x: "find (\<lambda>x. si_item_id x = i) (ma_items m) = Some x" by blast
  then have "x \<in> set (ma_items m) \<and> si_item_id x = i" by (auto simp: find_Some_iff)
  then show ?case
    using f x by (intro exI [of _ "(i, x) # fetched"]) (simp add: memory_connection_def memory_get_def)
qed simp

lemma py_dict_keys: "map fst (py_dict kvs) = rev (remdups (rev (map fst kvs)))"
  by (simp add: py_dict_def comp_def)

lemma py_dict_in: "(k, v) \<in> set (py_dict kvs) \<longleftrightarrow> map_of (rev kvs) k = Some v"
proof -
  have "k \<in> fst ` set kvs \<longleftrightarrow> map_of (rev kvs) k \<noteq> None" by (simp add: map_of_eq_None_iff)
  then show ?thesis by (auto simp: py_dict_def image_iff)
qed

lemma merged_items_eq:
  assumes "sorted (map si_item_id target)" and "distinct (map si_item_id target)"
    and "\<forall>(k, x) \<in> set fetched. x \<in> set target \<and> si_item_id x = k"
    and "\<forall>x. si_item_id x \<notin> fst ` set fetched \<longrightarrow> x \<in> set previous \<longleftrightarrow> x \<in> set target"
    and "distinct (map si_item_id previous)"
  shows "merged_items previous fetched = target"
proof -
  let ?kvs = "map (\<lambda>i. (si_item_id i, i)) previous @ fetched"
  let ?vs = "map snd (py_dict ?kvs)"
  have key: "si_item_id x = k" if "(k, x) \<in> set (py_dict ?kvs)" for k x
    using that assms(3) unfolding py_dict_in by (auto dest!: map_of_SomeD)
  have mem: "(k, x) \<in> set (py_dict ?kvs) \<longleftrightarrow> x \<in> set target \<and> si_item_id x = k" for k x
  proof (cases "k \<in> fst ` set fetched")
    case True
    then obtain y where y: "map_of (rev fetched) k = Some y" by (metis map_of_eq_None_iff not_Some_eq set_rev)
    then have "y \<in> set target" "si_item_id y = k" using assms(3) by (auto dest!: map_of_SomeD)
    moreover have "map_of (rev ?kvs) k = Some y" using y by simp
    ultimately show ?thesis unfolding py_dict_in using assms(2) by (auto simp: distinct_map dest: inj_onD)
  next
    case False
    then have "map_of (rev fetched) k = None" by (simp add: map_of_eq_None_iff)
    then have "map_of (rev ?kvs) k = map_of (map (\<lambda>i. (si_item_id i, i)) previous) k"
      using assms(5) by (simp add: map_add_def map_of_rev_distinct comp_def)
    moreover have "map_of (map (\<lambda>i. (si_item_id i, i)) previous) k = Some x \<longleftrightarrow> x \<in> set previous \<and> si_item_id x = k"
      using assms(5) by (subst map_of_eq_Some_iff) (auto simp: comp_def)
    ultimately show ?thesis unfolding py_dict_in using assms(4) False by auto
  qed
  have "map si_item_id ?vs = map fst (py_dict ?kvs)" using key by auto
  then have d: "distinct (map si_item_id ?vs)" unfolding py_dict_keys by simp
  have "set ?vs = set target" using mem by (auto simp: image_iff) (metis snd_conv)
  moreover have "distinct ?vs" "distinct target"
    using d [unfolded distinct_map [of si_item_id]] assms(2) [unfolded distinct_map] by blast+
  ultimately have "mset ?vs = mset target" by (metis set_eq_iff_mset_eq_distinct)
  moreover have "inj_on si_item_id (set ?vs)" using d [unfolded distinct_map [of si_item_id]] by blast
  ultimately have "sort_key si_item_id ?vs = sort_key si_item_id target" by (rule sort_key_mset_cong)
  then show ?thesis by (simp add: merged_items_def sort_key_id [OF assms(1)])
qed

text \<open>
  When the committed items differ from the source only on the changed identifiers, an incremental
  ingestion works on the same items as a full one: it fetches only the changed items and misses nothing.
\<close>

theorem incremental_reads_like_full:
  assumes "new_ingestion_command c0 = Inr c" and "changed_item_ids c \<noteq> []"
    and "memory_wf m" and "1 \<le> psize"
    and "load_source_items reader (ic_tenant_id c) (ic_workspace_id c) (ic_connection_id c) s = Inr previous"
    and "distinct (map si_item_id previous)"
    and "\<forall>x. si_item_id x \<notin> set (changed_item_ids c) \<longrightarrow> (x \<in> set previous \<longleftrightarrow> x \<in> set (ma_items m))"
    and "\<forall>i \<in> set (changed_item_ids c). \<exists>x \<in> set (ma_items m). si_item_id x = i"
  shows "source_items_of reader memory_connection psize c s m
    = source_items_of reader memory_connection psize (c\<lparr>changed_item_ids := []\<rparr>) s m"
proof -
  have "changed_item_ids c = sorted_set (changed_item_ids c0)"
    using assms(1) by (simp add: new_ingestion_command_def split: if_splits) (drule sym, simp)
  then have "distinct (changed_item_ids c)" by simp
  then obtain fetched where f: "fetch_changed memory_connection (changed_item_ids c) m = (Inr fetched, m)"
    "map fst fetched = changed_item_ids c"
    "\<forall>(k, x) \<in> set fetched. x \<in> set (ma_items m) \<and> si_item_id x = k"
    using fetch_changed_memory [OF _ assms(8)] by blast
  have "set (changed_item_ids c) = fst ` set fetched" by (simp add: f(2) [symmetric])
  then have "merged_items previous fetched = ma_items m"
    using assms(3,6,7) f(3) by (intro merged_items_eq) (simp_all add: memory_wf_def)
  then show ?thesis
    using assms(2,5) f(1) memory.read_all [OF assms(3,4)] by (simp add: source_items_of_def)
qed

section \<open>What one ingestion persists\<close>

lemma cycle_write_fields:
  assumes "cycle_write_of c solved versions document = Inr w"
  shows "wr_command w = c" and "map dd_item_id (wr_decisions w) = map dr_item_id (records solved)"
    and "wr_set_hash w = payload_hash solved" and "wr_source_versions w = versions" and "wr_snapshot w = document"
proof -
  obtain ds where ds: "map_result decision_document_of (records solved) = Inr ds"
    and w: "w = \<lparr>wr_command = c, wr_source_versions = versions, wr_snapshot = document,
      wr_decisions = ds, wr_set_hash = payload_hash solved, wr_recommended = map_option rn_item_id (recommended solved)\<rparr>"
    using assms unfolding cycle_write_of_def bind_result_eq_Inr by (blast dest: new_cycle_write_Inr)
  have "map dd_item_id ds = map dr_item_id (records solved)"
    using ds unfolding map_result_Inr
    by (induction rule: list_all2_induct)
      (auto simp: decision_document_of_def new_decision_document_def split: if_splits)
  then show "wr_command w = c" "map dd_item_id (wr_decisions w) = map dr_item_id (records solved)"
    "wr_set_hash w = payload_hash solved" "wr_source_versions w = versions" "wr_snapshot w = document"
    by (simp_all add: w)
qed

text \<open>A cycle fails before the repository, or it hands it one write set and returns what that says.\<close>

lemma execute_cycle_cases:
  "(\<exists>e. execute_decision_cycle c snapshot persist versions document s = (Inl e, s))
   \<or> (\<exists>w. cycle_write_of c (solve_frontier snapshot) versions document = Inr w
      \<and> execute_decision_cycle c snapshot persist versions document s = persist w s)"
  by (cases "cycle_write_of c (solve_frontier snapshot) versions document")
    (simp_all add: execute_decision_cycle_def Let_def)

text \<open>What reaches the repository when a cycle is committed\<close>

definition persisted_cycle ::
    "ingestion_command \<Rightarrow> ingestion_build \<Rightarrow> string option \<Rightarrow> string \<Rightarrow> source_item list \<Rightarrow> decision_cycle_write \<Rightarrow> bool" where
  "persisted_cycle c b expected source_revision sis w \<longleftrightarrow>
     wr_command w = cycle_command_of c expected source_revision b
     \<and> mset (map dd_item_id (wr_decisions w)) = mset (map si_item_id sis)
     \<and> wr_set_hash w = payload_hash (solve_frontier (ib_snapshot b))
     \<and> wr_source_versions w = ib_source_versions b \<and> wr_snapshot w = ib_document b"

lemma build_and_persist_cases:
  obtains (before) e where "build_and_persist fromiso c expected source_revision sis persist s = (Inl e, s)"
  | (refused) b w e s' where "build_ingestion_snapshot fromiso c sis source_revision = Inr b"
    and "persisted_cycle c b expected source_revision sis w" and "persist w s = (Inl e, s')"
    and "build_and_persist fromiso c expected source_revision sis persist s = (Inl e, s')"
  | (committed) b w rc s' receipt where "build_ingestion_snapshot fromiso c sis source_revision = Inr b"
    and "persisted_cycle c b expected source_revision sis w" and "persist w s = (Inr rc, s')"
    and "build_and_persist fromiso c expected source_revision sis persist s = (Inr receipt, s')"
    and "ir_set_hash receipt = rc_set_hash rc" and "\<not> idempotent_replay receipt"
proof (cases "build_ingestion_snapshot fromiso c sis source_revision")
  case (Inl e)
  then show thesis using before by (simp add: build_and_persist_def)
next
  case b: (Inr b)
  show thesis
  proof (cases "new_cycle_command (cycle_command_of c expected source_revision b)")
    case (Inl e)
    then show thesis using before b by (simp add: build_and_persist_def)
  next
    case cc: (Inr cc)
    then have cmd: "cc = cycle_command_of c expected source_revision b"
      by (simp add: new_cycle_command_def split: if_splits)
    from execute_cycle_cases [of cc "ib_snapshot b" persist "ib_source_versions b" "ib_document b" s]
    show thesis
    proof (elim disjE exE conjE)
      fix e
      assume "execute_decision_cycle cc (ib_snapshot b) persist (ib_source_versions b) (ib_document b) s = (Inl e, s)"
      then show thesis using before b cc by (simp add: build_and_persist_def)
    next
      fix w
      assume 2: "cycle_write_of cc (solve_frontier (ib_snapshot b)) (ib_source_versions b) (ib_document b) = Inr w"
        "execute_decision_cycle cc (ib_snapshot b) persist (ib_source_versions b) (ib_document b) s = persist w s"
      have "mset (map dd_item_id (wr_decisions w)) = mset (map si_item_id sis)"
        using records_item_ids [OF build_snapshot_items(1) [OF b]] build_snapshot_items(2) [OF b]
        by (simp only: cycle_write_fields(2) [OF 2(1)])
      then have w: "persisted_cycle c b expected source_revision sis w"
        by (simp only: persisted_cycle_def cycle_write_fields [OF 2(1)] cmd)
      show thesis
      proof (cases "persist w s")
        case (Pair r s')
        then show thesis
          using refused [OF b w] committed [OF b w] b cc 2(2)
          by (cases r) (simp_all add: build_and_persist_def)
      qed
    qed
  qed
qed

text \<open>
  C29: a full ingestion of an in-memory source always ends, and what it does is all or nothing. When the
  committed revision is the source's own, nothing is persisted and the state is unchanged. Otherwise the
  repository is called at most once, with one whole write set: it covers the step from the committed
  revision to the source's, with one decision for every source item and the hash of the solved set. A
  receipt means that this call succeeded, and the state is the one it left. A failure either came before
  the call, and the state is unchanged, or is the one the repository raised; so a failing ingestion
  changes nothing when the repository's failing call rolls back.
\<close>

theorem full_ingestion_persists_every_item:
  assumes "memory_wf m" and "1 \<le> psize" and "changed_item_ids c = []"
    and "current_source_revision reader (ic_tenant_id c) (ic_workspace_id c) (ic_connection_id c) s = Inr expected"
  shows "\<exists>r s'. ingest_connection fromiso c memory_connection reader persist psize s m = Some (r, s', m)
    \<and> (if expected = Some (ma_revision m) then s' = s \<and> map_sum id idempotent_replay r = Inr True
       else (\<forall>receipt. r = Inr receipt \<longrightarrow> \<not> idempotent_replay receipt
         \<and> (\<exists>b w rc. build_ingestion_snapshot fromiso c (ma_items m) (ma_revision m) = Inr b
              \<and> persisted_cycle c b expected (ma_revision m) (ma_items m) w
              \<and> persist w s = (Inr rc, s') \<and> ir_set_hash receipt = rc_set_hash rc))
         \<and> (\<forall>e. r = Inl e \<longrightarrow> s' = s
            \<or> (\<exists>b w. build_ingestion_snapshot fromiso c (ma_items m) (ma_revision m) = Inr b
                \<and> persisted_cycle c b expected (ma_revision m) (ma_items m) w \<and> persist w s = (Inl e, s')))
         \<and> ((\<forall>w e t. persist w s = (Inl e, t) \<longrightarrow> t = s) \<longrightarrow> (\<forall>e. r = Inl e \<longrightarrow> s' = s)))"
proof (cases "expected = Some (ma_revision m)")
  case True
  then show ?thesis using assms(4) by (simp add: ingest_connection_def memory_connection_def)
next
  case False
  have run: "ingest_connection fromiso c memory_connection reader persist psize s m
      = (let (r, s') = build_and_persist fromiso c expected (ma_revision m) (ma_items m) persist s
         in Some (r, s', m))"
    by (rule memory.ingest_full [OF assms False])
  show ?thesis
  proof (cases rule: build_and_persist_cases [of fromiso c expected "ma_revision m" "ma_items m" persist s])
    case (before e)
    then show ?thesis by (simp add: run False)
  next
    case (refused b w e s')
    then have "s' = s" if "\<forall>w e t. persist w s = (Inl e, t) \<longrightarrow> t = s" using that by blast
    then show ?thesis using refused by (auto simp add: run False)
  next
    case (committed b w rc s' receipt)
    then show ?thesis by (auto simp add: run False)
  qed
qed

section \<open>Valid input is ingested\<close>

lemma sha256_not_blank [simp]: "\<not> blank (sha256_hex s)"
proof
  assume "blank (sha256_hex s)"
  then have "is_space (hd (sha256_hex s))" "hd (sha256_hex s) \<in> set (sha256_hex s)"
    by (simp_all add: blank_iff)
  moreover have "\<forall>c \<in> set ''0123456789abcdef''. \<not> is_space c" by code_simp
  ultimately show False using sha256_hash_pattern [of s] unfolding hash_pattern_def by blast
qed

definition source_item_wf :: "source_item \<Rightarrow> bool" where
  "source_item_wf i \<longleftrightarrow> \<not> blank (si_source_id i) \<and> \<not> blank (si_item_id i) \<and> \<not> blank (si_revision i)
     \<and> \<not> blank (si_title i)"

lemma new_source_item_wf: "new_source_item i0 = Inr i \<Longrightarrow> source_item_wf i"
  by (auto simp: new_source_item_def source_item_wf_def bind_result_eq_Inr split: if_splits)

lemma frontier_input_ok:
  assumes "source_item_wf (ni_source n)" and "\<And>t. \<exists>d. fromiso t = Inr d \<and> aware d"
  shows "\<exists>fi. frontier_input fromiso ns computed n = Inr fi"
proof -
  obtain d where d: "fromiso (si_updated_at (ni_source n)) = Inr d" "aware d" using assms(2) by blast
  have "\<not> blank ''issue''" by code_simp
  then show ?thesis using assms(1) d
    by (simp add: frontier_input_def Let_def item_post_init_def source_item_wf_def fan_out_of_def age_of_def)
qed

lemma map_result_total: "(\<And>x. x \<in> set xs \<Longrightarrow> \<exists>y. f x = Inr y) \<Longrightarrow> \<exists>ys. map_result f xs = Inr ys"
  by (induction xs) fastforce+

lemma sort_ne: "xs \<noteq> [] \<Longrightarrow> sort xs \<noteq> []"
  by (metis set_empty set_sort)

lemma source_version_ok: "source_item_wf i \<Longrightarrow> \<exists>v. source_version_document i = Inr v"
  by (simp add: source_version_document_def new_source_version_def source_item_wf_def stable_id_def canonical_hash_def)

text \<open>
  Ingestion accepts every valid corpus: with a validated command whose hashes are digests and
  non-empty sources of distinct identifiers whose times parse, the build never raises.
\<close>

lemma build_accepts_valid_sources:
  assumes "new_ingestion_command c0 = Inr c" and "hash_pattern (ic_policy_bundle_hash c)"
    and "hash_pattern (ic_ranking_pipeline_hash c)" and "sis \<noteq> []" and "\<forall>i \<in> set sis. \<exists>i0. new_source_item i0 = Inr i"
    and "distinct (map si_item_id sis)" and "\<And>t. \<exists>d. fromiso t = Inr d \<and> aware d"
  shows "\<exists>b. build_ingestion_snapshot fromiso c sis srev = Inr b"
proof -
  have wf: "\<forall>i \<in> set sis. source_item_wf i" using assms(5) new_source_item_wf by blast
  have c: "\<forall>v \<in> set [ic_workspace_id c, ic_snapshot_id c, ic_graph_revision c, ic_policy_bundle_id c,
      ic_engine_version c, ic_profile_version c, ic_causation_id c, ic_correlation_id c]. \<not> blank v"
    using assms(1) by (simp add: new_ingestion_command_def split: if_splits) (drule sym, simp)
  obtain computed where t: "fromiso (computed_at_iso c) = Inr computed" "aware computed" using assms(7) by blast
  let ?ns = "map normalize_source_item (sort_key (item_id_key \<circ> si_item_id) sis)"
  obtain fis where fis: "frontier_inputs fromiso ?ns computed = Inr fis"
    using map_result_total [of ?ns "frontier_input fromiso ?ns computed"] frontier_input_ok wf assms(7)
    by (force simp: frontier_inputs_def)
  obtain vs where vs: "map_result source_version_document sis = Inr vs"
    using map_result_total [of sis source_version_document] source_version_ok wf by blast
  have ids: "distinct (map item_id fis)"
    using frontier_inputs_ids [OF fis] assms(6) by (simp add: comp_def)
  have ne: "sorted_set (map (\<lambda>i. (si_source_id i, si_revision i)) (sort_key (item_id_key \<circ> si_item_id) sis)) \<noteq> []"
    using assms(4) by (metis (no_types, lifting) list.map_disc_iff set_empty set_sort set_sorted_set)
  have blanks: "\<forall>(x, r) \<in> set (sorted_set (map (\<lambda>i. (si_source_id i, si_revision i))
      (sort_key (item_id_key \<circ> si_item_id) sis))). \<not> blank x \<and> \<not> blank r"
    using wf by (auto simp: source_item_wf_def)
  show ?thesis
    using c t fis vs ids ne sort_ne [OF ne] blanks assms(2,3)
    by (auto simp: build_ingestion_snapshot_def Let_def envelope_post_init_def new_snapshot_def new_pipeline_def
        ingestion_pipeline_def new_normalized_document_def canonical_hash_def)
qed

section \<open>Witnesses\<close>

definition demo_command :: "string list \<Rightarrow> ingestion_command" where
  "demo_command changed = \<lparr>ic_tenant_id = ''t'', ic_workspace_id = ''w'', ic_connection_id = ''c'',
     ic_cycle_id = ''y'', ic_snapshot_id = ''s'', ic_graph_revision = ''g'', ic_policy_bundle_id = ''p'',
     ic_policy_bundle_hash = replicate 64 (CHR ''a''), ic_ranking_pipeline_hash = replicate 64 (CHR ''b''),
     ic_engine_version = ''1'', ic_profile_version = ''1'', ic_causation_id = ''u'', ic_correlation_id = ''v'',
     ic_outbox_id = ''o'', ic_outbox_key = ''k'', computed_at_iso = ''2026-01-01T00:00:00Z'',
     changed_item_ids = changed\<rparr>"

definition demo_source :: "string \<Rightarrow> string \<Rightarrow> string \<Rightarrow> source_item" where
  "demo_source iid st body = \<lparr>si_source_id = ''github'', si_item_id = iid, si_revision = ''r1'', si_title = ''x'',
     si_body = body, si_state = st, si_labels = [], si_updated_at = ''2026-01-01T00:00:00Z'', si_raw = [],
     si_policy_blockers = []\<rparr>"

definition demo_sources :: "source_item list" where
  "demo_sources = [demo_source ''1'' ''Closed'' [], demo_source ''2'' ''open'' (heading @ newline # ''- #1''),
     demo_source ''3'' ''open'' (heading @ newline # ''- #2'')]"

definition demo_adapter :: "source_item list \<Rightarrow> memory_adapter" where
  "demo_adapter sis = \<lparr>ma_items = sis, ma_revision = ''r1'', published = Map.empty\<rparr>"

definition demo_iso :: iso_parser where
  "demo_iso s = Inr (Datetime 0 (Some 0))"

definition demo_reader :: "'s ingestion_state_reader" where
  "demo_reader = \<lparr>current_source_revision = (\<lambda>_ _ _ _. Inr None), load_source_items = (\<lambda>_ _ _ _. Inr demo_sources)\<rparr>"

lemma demo_blockers:
  "body_blockers [] = []" "body_blockers (heading @ newline # ''- #1'') = [''1'']"
  "body_blockers (heading @ newline # ''- #2'') = [''2'']"
  by code_simp+

lemma demo_not_blank: "\<forall>v \<in> {''r1'', ''github'', ''1'', ''2'', ''3'', ''x'', ''t'', ''w'', ''c'', ''y'', ''s'', ''g'', ''p'', ''u'',
    ''v'', ''o'', ''k'', ''open'', ''Closed'', ''2026-01-01T00:00:00Z'', replicate 64 (CHR ''a''), replicate 64 (CHR ''b'')}.
    \<not> blank v"
  by code_simp

lemma demo_command_ok: "changed = sorted_set changed \<Longrightarrow> new_ingestion_command (demo_command changed) = Inr (demo_command changed)"
  using demo_not_blank by (simp add: new_ingestion_command_def demo_command_def)

lemma demo_hashes: "hash_pattern (replicate 64 (CHR ''a''))" "hash_pattern (replicate 64 (CHR ''b''))"
  by (simp_all add: hash_pattern_def)

lemma demo_source_ok: "i \<in> set demo_sources \<Longrightarrow> new_source_item i = Inr i"
  using demo_not_blank
  by (auto simp: demo_sources_def new_source_item_def demo_source_def sorted_raw_def sorted_set_def)

lemma demo_ids: "map si_item_id demo_sources = [''1'', ''2'', ''3'']"
  by (simp add: demo_sources_def demo_source_def)

lemma demo_build_ok:
  assumes "changed = sorted_set changed" and "sis \<noteq> []" and "set sis \<subseteq> set demo_sources" and "distinct (map si_item_id sis)"
  shows "\<exists>b. build_ingestion_snapshot demo_iso (demo_command changed) sis ''r1'' = Inr b"
proof (rule build_accepts_valid_sources [OF demo_command_ok [OF assms(1)]])
  show "\<forall>i \<in> set sis. \<exists>i0. new_source_item i0 = Inr i" using assms(3) demo_source_ok by blast
qed (use assms(2,4) demo_hashes in \<open>simp_all add: demo_command_def demo_iso_def aware_def\<close>)

lemma demo_wf: "memory_wf (demo_adapter demo_sources)"
  using demo_not_blank by (simp add: memory_wf_def demo_adapter_def demo_ids)

lemma demo_build:
  assumes "changed = sorted_set changed"
  obtains b where "build_ingestion_snapshot demo_iso (demo_command changed) demo_sources ''r1'' = Inr b"
proof -
  have "demo_sources \<noteq> []" by (simp add: demo_sources_def)
  with demo_build_ok [OF assms, of demo_sources] that show thesis by (auto simp: demo_ids)
qed

theorem reading_ends_witness:
  "read_all_items memory_connection 2 (demo_adapter demo_sources) = Some (Inr demo_sources, demo_adapter demo_sources)"
  using reading_ends [OF demo_wf, of 2] by (simp add: demo_adapter_def)

theorem affected_region_is_closure_witness:
  "\<exists>b. build_ingestion_snapshot demo_iso (demo_command [''1'']) demo_sources ''r1'' = Inr b
    \<and> distinct (ib_affected b) \<and> ''2'' \<in> set (ib_affected b)"
proof -
  have one: "[''1''] = sorted_set [''1'']" by (simp add: sorted_set_def)
  obtain b where b: "build_ingestion_snapshot demo_iso (demo_command [''1'']) demo_sources ''r1'' = Inr b"
    by (rule demo_build [OF one])
  let ?R = "{(x, si_item_id y) | x y. y \<in> set demo_sources
    \<and> x \<in> set (body_blockers (si_body y)) \<union> set (si_policy_blockers y)}"
  have "demo_source ''2'' ''open'' (heading @ newline # ''- #1'') \<in> set demo_sources" by (simp add: demo_sources_def)
  then have "(''1'', ''2'') \<in> ?R" using demo_blockers(2) by (force simp: demo_source_def)
  then have "(''1'', ''2'') \<in> ?R\<^sup>*" by (rule r_into_rtrancl)
  then show ?thesis
    using affected_region_is_closure [OF demo_command_ok [OF one] _ b] b by (auto simp: demo_command_def)
qed

theorem ingested_item_ready_witness:
  "\<exists>b. build_ingestion_snapshot demo_iso (demo_command []) demo_sources ''r1'' = Inr b
    \<and> ''2'' \<in> set (ready_item_ids (solve_frontier (ib_snapshot b)))
    \<and> ''3'' \<notin> set (ready_item_ids (solve_frontier (ib_snapshot b)))"
proof -
  have nil: "[] = sorted_set []" by (simp add: sorted_set_def)
  obtain b where b: "build_ingestion_snapshot demo_iso (demo_command []) demo_sources ''r1'' = Inr b"
    by (rule demo_build [OF nil])
  have st: "py_lower ''Closed'' = ''closed''" "py_lower ''open'' = ''open''" by code_simp+
  have "(\<exists>i \<in> set demo_sources. si_item_id i = z \<and> \<not> source_closed i
      \<and> (\<forall>x \<in> named_blockers i. \<exists>j \<in> set demo_sources. si_item_id j = x \<and> source_closed j)) \<longleftrightarrow> z = ''2''" for z
    by (auto simp: demo_sources_def demo_source_def source_closed_def named_blockers_def demo_blockers st)
  then show ?thesis using ingested_item_ready [OF b] b by simp
qed

theorem incremental_reads_like_full_witness:
  "source_items_of demo_reader memory_connection 2 (demo_command [''2'']) () (demo_adapter demo_sources)
    = source_items_of demo_reader memory_connection 2 (demo_command []) () (demo_adapter demo_sources)"
proof -
  have "[''2''] = sorted_set [''2'']" by (simp add: sorted_set_def)
  note c = demo_command_ok [OF this]
  have "source_items_of demo_reader memory_connection 2 (demo_command [''2'']) () (demo_adapter demo_sources)
    = source_items_of demo_reader memory_connection 2 (demo_command [''2'']\<lparr>changed_item_ids := []\<rparr>) () (demo_adapter demo_sources)"
    by (rule incremental_reads_like_full [OF c _ demo_wf, where previous = demo_sources])
      (auto simp: demo_command_def demo_reader_def demo_adapter_def demo_ids demo_sources_def demo_source_def)
  then show ?thesis by (simp add: demo_command_def)
qed

definition demo_persist :: "decision_cycle_write \<Rightarrow> decision_cycle_write list \<Rightarrow> decision_cycle_receipt result \<times> decision_cycle_write list" where
  "demo_persist w log = (Inr \<lparr>rc_cycle_id = cy_cycle_id (wr_command w), rc_source_revision = new_source_revision (wr_command w),
     rc_decision_count = int (length (wr_decisions w)), rc_frontier_version = 1, rc_set_hash = wr_set_hash w\<rparr>, w # log)"

definition demo_single :: memory_adapter where
  "demo_single = demo_adapter [demo_source ''1'' ''Closed'' []]"

lemma demo_single_run:
  "\<exists>receipt w. build_and_persist demo_iso (demo_command []) None ''r1'' (ma_items demo_single) demo_persist []
    = (Inr receipt, [w])"
proof -
  have nil: "[] = sorted_set []" by (simp add: sorted_set_def)
  let ?c = "demo_command []" and ?i = "demo_source ''1'' ''Closed'' []"
  obtain b where b: "build_ingestion_snapshot demo_iso ?c [?i] ''r1'' = Inr b"
    using demo_build_ok [OF nil, of "[?i]"] by (auto simp: demo_sources_def)
  let ?cc = "cycle_command_of ?c None ''r1'' b"
  note wf = build_snapshot_items(1) [OF b]
  have "mset (map item_id (items (ib_snapshot b))) = {#''1''#}"
    by (simp only: build_snapshot_items(2) [OF b]) (simp add: demo_source_def)
  then have ids: "map item_id (items (ib_snapshot b)) = [''1'']" by (simp only: mset_single_iff)
  then obtain i0 where i0: "items (ib_snapshot b) = [i0]" "item_id i0 = ''1''" by (auto simp: map_eq_Cons_conv)
  have len: "length (records (solve_frontier (ib_snapshot b))) = 1"
    using mset_eq_length [OF records_item_ids [OF wf]] i0(1) by simp
  have versions: "length (ib_source_versions b) = 1"
    by (rule build_Inr [OF b]) (simp only: map_result_Inr, drule list_all2_lengthD, simp)
  obtain w where w: "cycle_write_of ?cc (solve_frontier (ib_snapshot b)) (ib_source_versions b) (ib_document b) = Inr w"
  proof (rule exE [OF cycle_write_ok [OF wf]])
    show "\<forall>i \<in> set (items (ib_snapshot b)). \<not> blank (item_id i)"
      unfolding i0(1) using demo_not_blank by (simp add: i0(2))
    show "items (ib_snapshot b) \<noteq> []" by (simp add: i0(1))
    show "distinct (map decision_id (records (solve_frontier (ib_snapshot b))))"
      using len by (auto simp: length_Suc_conv)
    show "ib_source_versions b \<noteq> []" "distinct (map source_version_id (ib_source_versions b))"
      using versions by (auto simp: length_Suc_conv)
    show "nd_snapshot_id (ib_document b) = cy_snapshot_id ?cc" "nd_payload_hash (ib_document b) = cy_snapshot_hash ?cc"
      by (rule build_Inr [OF b], simp add: cycle_command_of_def)+
  qed auto
  have "new_cycle_command ?cc = Inr ?cc"
    using demo_not_blank by (rule_tac build_Inr [OF b])
      (simp add: new_cycle_command_def cycle_command_of_def demo_command_def canonical_hash_def)
  moreover have "execute_decision_cycle ?cc (ib_snapshot b) demo_persist (ib_source_versions b) (ib_document b) []
      = demo_persist w []"
    by (rule build_Inr [OF b], rule execute_cycle_persists [OF w]) (simp_all add: cycle_command_of_def)
  ultimately show ?thesis
    using b by (auto simp: build_and_persist_def demo_persist_def demo_single_def demo_adapter_def)
qed

theorem full_ingestion_persists_every_item_witness:
  "\<exists>receipt w b. ingest_connection demo_iso (demo_command []) memory_connection demo_reader demo_persist 10 [] demo_single
      = Some (Inr receipt, [w], demo_single)
    \<and> persisted_cycle (demo_command []) b None ''r1'' (ma_items demo_single) w"
proof -
  have wf: "memory_wf demo_single"
    using demo_not_blank by (simp add: memory_wf_def demo_single_def demo_adapter_def demo_source_def)
  have none: "current_source_revision demo_reader (ic_tenant_id (demo_command [])) (ic_workspace_id (demo_command []))
    (ic_connection_id (demo_command [])) [] = Inr None" by (simp add: demo_reader_def)
  have c: "changed_item_ids (demo_command []) = []" by (simp add: demo_command_def)
  obtain receipt w where run: "build_and_persist demo_iso (demo_command []) None ''r1'' (ma_items demo_single) demo_persist []
    = (Inr receipt, [w])" using demo_single_run by blast
  have rev: "ma_revision demo_single = ''r1''" by (simp add: demo_single_def demo_adapter_def)
  have "ingest_connection demo_iso (demo_command []) memory_connection demo_reader demo_persist 10 [] demo_single
      = Some (Inr receipt, [w], demo_single)"
    using memory.ingest_full [OF wf _ c none, of 10 demo_iso demo_persist] run rev by simp
  then show ?thesis
    using full_ingestion_persists_every_item [OF wf _ c none, of 10 demo_iso demo_persist] rev
    by (auto simp: demo_persist_def)
qed

end
