(* ===== verification/Github_Adapter.thy ===== *)
theory Github_Adapter
  imports Ingestion Py_Text
begin

text \<open>
  \<open>adapters/github/adapter.py\<close>: issues are read page by page over HTTP, with a circuit that opens
  after repeated failures. The transport and the token provider are parameters over any world; a
  response carries its parsed JSON body. The lemmas show when the circuit is open and what the pages
  have to agree on. \<open>retry_after_seconds\<close> is metadata of an error and not part of its value.
\<close>

section \<open>Responses\<close>

record github_response =
  status_code :: int
  resp_headers :: "(string \<times> string) list"
  resp_body :: json

definition header :: "github_response \<Rightarrow> string \<Rightarrow> string option" where
  "header r name = map_option snd (find (\<lambda>(k, v). py_lower k = py_lower name) (resp_headers r))"

record http_request =
  rq_method :: string
  rq_path :: string
  rq_headers :: "(string \<times> string) list"
  rq_json_body :: "json option"

text \<open>What a transport call ends with: a response, a \<open>TimeoutError\<close> or any other exception.\<close>

datatype transport_outcome = Responded github_response | Timed_Out | Transport_Raised exn

type_synonym 'w transport = "http_request \<Rightarrow> 'w \<Rightarrow> transport_outcome \<times> 'w"
type_synonym 'w token_source = "'w \<Rightarrow> string result \<times> 'w"

record github_adapter =
  gh_repository :: string
  consecutive_failures :: int
  circuit_threshold :: int

definition new_github_adapter :: "string \<Rightarrow> int \<Rightarrow> github_adapter result" where
  "new_github_adapter repository threshold =
     (if count_list repository (CHR ''/'') \<noteq> 1 \<or> threshold < 1
      then Inl (ValueError ''GitHub repository must be owner/name and threshold must be positive'')
      else Inr \<lparr>gh_repository = repository, consecutive_failures = 0, circuit_threshold = threshold\<rparr>)"

definition github_capabilities :: connection_capabilities where
  "github_capabilities = \<lparr>read_items = True, read_revisions = True, receive_webhooks = True, write_projections = True\<rparr>"

definition github_certification :: "certification_metadata result" where
  "github_certification = new_certification_metadata
     \<lparr>cm_level = CERTIFIED, certified_at = Some ''2026-07-13T00:00:00+00:00'',
      certifier = Some ''WF-HAR-GITHUB-SANDBOX-01'', test_coverage_percent = 100, last_audit = Some ''2026-07-13''\<rparr>"

section \<open>One request\<close>

definition malformed :: "string \<Rightarrow> 'a result" where
  "malformed msg = Inl (AdapterError MALFORMED_RESPONSE msg)"

definition count_failure :: "github_adapter \<Rightarrow> github_adapter" where
  "count_failure a = a\<lparr>consecutive_failures := consecutive_failures a + 1\<rparr>"

definition circuit_open :: "github_adapter \<Rightarrow> bool" where
  "circuit_open a \<longleftrightarrow> circuit_threshold a \<le> consecutive_failures a"

definition after_response :: "github_adapter \<Rightarrow> github_response \<Rightarrow> github_response result \<times> github_adapter" where
  "after_response a r =
     (if status_code r \<in> {403, 429}
      then (Inl (AdapterError RATE_LIMITED ''GitHub rate budget is exhausted''), count_failure a)
      else if status_code r = 401
      then (Inl (AdapterError UNAUTHORIZED ''GitHub installation token or scope is unauthorized''), count_failure a)
      else if status_code r = 404
      then (Inl (AdapterError NOT_FOUND ''GitHub resource was not found within the installation scope''), a)
      else if \<not> (200 \<le> status_code r \<and> status_code r < 300)
      then (Inl (AdapterError ADAPTER_UNAVAILABLE (''GitHub API failed with status '' @ str_int (status_code r))), count_failure a)
      else (Inr r, a\<lparr>consecutive_failures := 0\<rparr>))"

definition github_request ::
    "'w token_source \<Rightarrow> 'w transport \<Rightarrow> string \<Rightarrow> string \<Rightarrow> json option \<Rightarrow> github_adapter \<times> 'w
     \<Rightarrow> github_response result \<times> (github_adapter \<times> 'w)" where
  "github_request token send verb path body = (\<lambda>(a, w).
     if circuit_open a
     then (Inl (AdapterError ADAPTER_UNAVAILABLE ''GitHub adapter circuit is open after repeated transport failures''), (a, w))
     else case token w of
       (Inl e, w') \<Rightarrow> (Inl e, (a, w'))
     | (Inr t, w') \<Rightarrow> (case send \<lparr>rq_method = verb, rq_path = path,
           rq_headers = [(''accept'', ''application/vnd.github+json''), (''authorization'', ''Bearer '' @ t),
             (''x-github-api-version'', ''2022-11-28'')],
           rq_json_body = body\<rparr> w' of
         (Timed_Out, w'') \<Rightarrow> (Inl (AdapterError TIMEOUT ''GitHub transport timed out''), (count_failure a, w''))
       | (Transport_Raised e, w'') \<Rightarrow> (Inl e, (a, w''))
       | (Responded r, w'') \<Rightarrow> (case after_response a r of (x, a') \<Rightarrow> (x, (a', w'')))))"

text \<open>A raising step after a request keeps the state the request left.\<close>

definition then_state :: "'a result \<times> 's \<Rightarrow> ('a \<Rightarrow> 'b result) \<Rightarrow> 'b result \<times> 's" where
  "then_state rs f = (bind_result (fst rs) f, snd rs)"

section \<open>Issues\<close>

definition json_get :: "(string \<times> json) list \<Rightarrow> string \<Rightarrow> json" where
  "json_get kvs k = (case map_of (rev kvs) k of None \<Rightarrow> JNull | Some v \<Rightarrow> v)"

fun json_object :: "json \<Rightarrow> (string \<times> json) list result" where
  "json_object (JObj kvs) = Inr kvs"
| "json_object _ = malformed ''GitHub response must be an object''"

fun parse_label :: "json \<Rightarrow> string result" where
  "parse_label (JStr s) = Inr s"
| "parse_label (JObj kvs) = (case json_get kvs ''name'' of
     JStr s \<Rightarrow> Inr s
   | _ \<Rightarrow> malformed ''malformed GitHub issue label'')"
| "parse_label _ = malformed ''malformed GitHub issue label''"

fun body_text :: "json \<Rightarrow> string option" where
  "body_text (JStr s) = Some s"
| "body_text JNull = Some []"
| "body_text _ = None"

definition issue_labels :: "(string \<times> json) list \<Rightarrow> json" where
  "issue_labels kvs = (case map_of (rev kvs) ''labels'' of None \<Rightarrow> JList [] | Some v \<Rightarrow> v)"

definition issue_revision :: "(string \<times> json) list \<Rightarrow> string \<Rightarrow> int \<Rightarrow> string" where
  "issue_revision kvs updated number = (case json_get kvs ''node_id'' of
     JStr s \<Rightarrow> if blank s then updated @ '':'' @ str_int number else s
   | _ \<Rightarrow> updated @ '':'' @ str_int number)"

definition parse_issue :: "json \<Rightarrow> string \<Rightarrow> source_item result" where
  "parse_issue value repository = bind_result (json_object value) (\<lambda>kvs.
     case (json_get kvs ''number'', json_get kvs ''title'', body_text (json_get kvs ''body''),
         json_get kvs ''state'', json_get kvs ''updated_at'', issue_labels kvs) of
       (JInt number, JStr heading_text, Some body, JStr st, JStr updated, JList labels_raw) \<Rightarrow>
         bind_result (map_result parse_label labels_raw) (\<lambda>names.
           new_source_item \<lparr>si_source_id = ''github:'' @ repository, si_item_id = str_int number,
             si_revision = issue_revision kvs updated number, si_title = heading_text, si_body = body, si_state = st,
             si_labels = names, si_updated_at = updated,
             si_raw = [(''number'', SInt number), (''repository'', SStr repository)], si_policy_blockers = []\<rparr>)
     | _ \<Rightarrow> malformed ''malformed GitHub issue response'')"

section \<open>Cursors\<close>

definition cursor_page :: "string \<Rightarrow> int result" where
  "cursor_page cursor =
     (if \<not> starts_with cursor ''page:'' then malformed ''GitHub cursor is malformed''
      else case py_int (drop 5 cursor) of
        None \<Rightarrow> malformed ''GitHub cursor page must be an integer''
      | Some page \<Rightarrow> if page < 1 then malformed ''GitHub cursor page must be positive'' else Inr page)"

definition link_page :: "string \<Rightarrow> string option" where
  "link_page part = (if after_first ''rel=\"next\"'' part = None then None
     else case after_first ''page='' part of
       None \<Rightarrow> None
     | Some rest \<Rightarrow> if takeWhile is_digit rest = [] then None else Some (''page:'' @ takeWhile is_digit rest))"

definition next_link_cursor :: "string option \<Rightarrow> string option" where
  "next_link_cursor link = (case link of
     None \<Rightarrow> None
   | Some text \<Rightarrow> (case List.map_filter link_page (split_char (CHR '','') text) of [] \<Rightarrow> None | c # _ \<Rightarrow> Some c))"

definition page_revision_of :: "source_item list \<Rightarrow> string" where
  "page_revision_of sis = (if sis = [] then ''empty'' else Max (set (map si_updated_at sis)))"

section \<open>Operations\<close>

text \<open>The issues of a page: values that are not objects and pull requests are left out.\<close>

fun issue_value :: "json \<Rightarrow> bool" where
  "issue_value (JObj kvs) = (''pull_request'' \<notin> fst ` set kvs)"
| "issue_value _ = False"

text \<open>\<open>response.header("etag") or fallback\<close>\<close>

definition etag_of :: "github_response \<Rightarrow> string option" where
  "etag_of r = (case header r ''etag'' of Some (c # s) \<Rightarrow> Some (c # s) | _ \<Rightarrow> None)"

definition parse_page :: "string \<Rightarrow> github_response \<Rightarrow> source_page result" where
  "parse_page repository r = (case resp_body r of
     JList vs \<Rightarrow> bind_result (map_result (\<lambda>v. parse_issue v repository) (filter issue_value vs)) (\<lambda>sis.
       new_source_page \<lparr>page_items = sis, next_cursor = next_link_cursor (header r ''link''),
         page_revision = (case etag_of r of Some e \<Rightarrow> e | None \<Rightarrow> page_revision_of sis)\<rparr>)
   | _ \<Rightarrow> malformed ''GitHub issue list response must be an array'')"

definition issues_path :: "string \<Rightarrow> int \<Rightarrow> int \<Rightarrow> string" where
  "issues_path repository page page_size = ''/repos/'' @ repository @ ''/issues?direction=asc&page='' @ str_int page
     @ ''&per_page='' @ str_int page_size @ ''&sort=created&state=all''"

definition github_list ::
    "'w token_source \<Rightarrow> 'w transport \<Rightarrow> string option \<Rightarrow> int \<Rightarrow> github_adapter \<times> 'w
     \<Rightarrow> source_page result \<times> (github_adapter \<times> 'w)" where
  "github_list token send cursor page_size s =
     (if page_size < 1 \<or> 100 < page_size
      then (Inl (ValueError ''GitHub page_size must be between one and one hundred''), s)
      else case (case cursor of None \<Rightarrow> Inr 1 | Some c \<Rightarrow> cursor_page c) of
        Inl e \<Rightarrow> (Inl e, s)
      | Inr page \<Rightarrow> then_state
          (github_request token send ''GET'' (issues_path (gh_repository (fst s)) page page_size) None s)
          (parse_page (gh_repository (fst s))))"

definition issue_path :: "string \<Rightarrow> string \<Rightarrow> string" where
  "issue_path repository iid = ''/repos/'' @ repository @ ''/issues/'' @ iid"

definition github_get ::
    "'w token_source \<Rightarrow> 'w transport \<Rightarrow> string \<Rightarrow> github_adapter \<times> 'w
     \<Rightarrow> source_item result \<times> (github_adapter \<times> 'w)" where
  "github_get token send iid s =
     (if \<not> (iid \<noteq> [] \<and> (\<forall>c \<in> set iid. is_digit c))
      then (malformed ''GitHub issue identity must be a decimal number'', s)
      else then_state (github_request token send ''GET'' (issue_path (gh_repository (fst s)) iid) None s)
        (\<lambda>r. parse_issue (resp_body r) (gh_repository (fst s))))"

definition revision_of_response :: "github_response \<Rightarrow> string result" where
  "revision_of_response r = (case etag_of r of
     Some e \<Rightarrow> Inr e
   | None \<Rightarrow> bind_result (json_object (resp_body r)) (\<lambda>kvs. case json_get kvs ''updated_at'' of
       JStr u \<Rightarrow> if blank u then malformed ''GitHub repository response lacks a source revision'' else Inr u
     | _ \<Rightarrow> malformed ''GitHub repository response lacks a source revision''))"

definition github_revision ::
    "'w token_source \<Rightarrow> 'w transport \<Rightarrow> github_adapter \<times> 'w \<Rightarrow> string result \<times> (github_adapter \<times> 'w)" where
  "github_revision token send s = then_state
     (github_request token send ''GET'' (''/repos/'' @ gh_repository (fst s)) None s) revision_of_response"

definition github_publish ::
    "'w token_source \<Rightarrow> 'w transport \<Rightarrow> projection_mutation \<Rightarrow> projection_write_guard \<Rightarrow> github_adapter \<times> 'w
     \<Rightarrow> string result \<times> (github_adapter \<times> 'w)" where
  "github_publish token send p g s = (case github_get token send (pm_item_id p) s of
     (Inl e, s') \<Rightarrow> (Inl e, s')
   | (Inr current, s') \<Rightarrow>
       if si_revision current \<noteq> guard_source_revision g
       then (malformed ''GitHub projection write source revision is stale'', s')
       else then_state
         (github_request token send ''PATCH'' (issue_path (gh_repository (fst s)) (pm_item_id p))
           (Some (JObj [(''body'', JStr (pm_body p)), (''labels'', str_list_json (pm_labels p))])) s')
         (\<lambda>r. bind_result (parse_issue (resp_body r) (gh_repository (fst s))) (\<lambda>updated. Inr (si_revision updated))))"

definition github_connection :: "'w token_source \<Rightarrow> 'w transport \<Rightarrow> (github_adapter \<times> 'w) connection_adapter" where
  "github_connection token send = \<lparr>
     list_items = github_list token send, get_item = github_get token send,
     current_revision = github_revision token send, publish_projection = github_publish token send\<rparr>"

section \<open>The circuit\<close>

text \<open>The calls a client can make, and the state and the outcome they leave\<close>

datatype github_op =
    List_Issues "string option" int
  | Get_Issue string
  | Get_Revision
  | Publish_Projection projection_mutation projection_write_guard

fun run_op :: "'w token_source \<Rightarrow> 'w transport \<Rightarrow> github_op \<Rightarrow> github_adapter \<times> 'w \<Rightarrow> bool \<times> (github_adapter \<times> 'w)" where
  "run_op token send (List_Issues c n) s = (case github_list token send c n s of (r, s') \<Rightarrow> (\<not> isl r, s'))"
| "run_op token send (Get_Issue i) s = (case github_get token send i s of (r, s') \<Rightarrow> (\<not> isl r, s'))"
| "run_op token send Get_Revision s = (case github_revision token send s of (r, s') \<Rightarrow> (\<not> isl r, s'))"
| "run_op token send (Publish_Projection p g) s = (case github_publish token send p g s of (r, s') \<Rightarrow> (\<not> isl r, s'))"

definition after_ops :: "'w token_source \<Rightarrow> 'w transport \<Rightarrow> github_op list \<Rightarrow> github_adapter \<times> 'w \<Rightarrow> github_adapter \<times> 'w" where
  "after_ops token send ops s = foldl (\<lambda>s op. snd (run_op token send op s)) s ops"

lemma open_refuses:
  assumes "circuit_open (fst s)"
  shows "github_request token send verb path body s =
    (Inl (AdapterError ADAPTER_UNAVAILABLE ''GitHub adapter circuit is open after repeated transport failures''), s)"
  using assms by (simp add: github_request_def case_prod_beta)

lemma open_run_op:
  assumes "circuit_open (fst s)"
  shows "run_op token send op s = (False, s)"
proof (cases op)
  case (List_Issues c n)
  then show ?thesis
    by (simp add: github_list_def then_state_def malformed_def open_refuses [OF assms] split: sum.split)
next
  case (Get_Issue i)
  then show ?thesis by (simp add: github_get_def then_state_def malformed_def open_refuses [OF assms])
next
  case Get_Revision
  then show ?thesis by (simp add: github_revision_def then_state_def open_refuses [OF assms])
next
  case (Publish_Projection p g)
  then show ?thesis by (simp add: github_publish_def github_get_def then_state_def malformed_def open_refuses [OF assms])
qed

lemma open_after_ops: "circuit_open (fst s) \<Longrightarrow> after_ops token send ops s = s"
  by (induction ops) (simp_all add: after_ops_def open_run_op)

definition counted :: "transport_outcome \<Rightarrow> bool" where
  "counted x \<longleftrightarrow> (case x of Timed_Out \<Rightarrow> True | Transport_Raised e \<Rightarrow> False
     | Responded r \<Rightarrow> status_code r \<noteq> 404 \<and> \<not> (200 \<le> status_code r \<and> status_code r < 300))"

lemma failed_request:
  assumes "\<And>w. \<not> isl (fst (token w))" and "\<And>rq w. counted (fst (send rq w))" and "\<not> circuit_open (fst s)"
  shows "fst (snd (github_request token send verb path body s)) = count_failure (fst s)"
proof -
  obtain a w where s: "s = (a, w)" by (cases s)
  obtain t w' where t: "token w = (Inr t, w')"
    using assms(1) [of w] by (cases "token w"; cases "fst (token w)") auto
  let ?rq = "\<lparr>rq_method = verb, rq_path = path,
    rq_headers = [(''accept'', ''application/vnd.github+json''), (''authorization'', ''Bearer '' @ t),
      (''x-github-api-version'', ''2022-11-28'')], rq_json_body = body\<rparr>"
  obtain x w'' where x: "send ?rq w' = (x, w'')" by fastforce
  then have c: "counted x" using assms(2) [of ?rq w'] by simp
  have "\<not> circuit_open a" using assms(3) s by simp
  then have "github_request token send verb path body s = (case x of
      Timed_Out \<Rightarrow> (Inl (AdapterError TIMEOUT ''GitHub transport timed out''), (count_failure a, w''))
    | Transport_Raised e \<Rightarrow> (Inl e, (a, w''))
    | Responded r \<Rightarrow> (case after_response a r of (y, a') \<Rightarrow> (y, (a', w''))))"
    using t x by (simp add: github_request_def s)
  then show ?thesis
    using c s by (cases x) (simp_all add: counted_def after_response_def)
qed

text \<open>
  C33: an outage silences the adapter for good. When every call fails (a timeout, a rate limit, a server
  error), the circuit is open after as many polls as the threshold says, and then no operation whatsoever
  reaches the transport or returns a value, also when token provider and transport have recovered.
\<close>

theorem outage_opens_circuit_for_good:
  assumes "new_github_adapter repository threshold = Inr a"
    and "\<And>w. \<not> isl (fst (token w))" and "\<And>rq w. counted (fst (send rq w))"
  shows "\<exists>s. after_ops token send (replicate (nat threshold) Get_Revision) (a, w) = s \<and> circuit_open (fst s)
    \<and> (\<forall>n < nat threshold. \<not> circuit_open (fst (after_ops token send (replicate n Get_Revision) (a, w))))
    \<and> (\<forall>token' send' op ops. after_ops token' send' ops s = s \<and> run_op token' send' op s = (False, s))"
proof -
  have a: "a = \<lparr>gh_repository = repository, consecutive_failures = 0, circuit_threshold = threshold\<rparr>" "1 \<le> threshold"
    using assms(1) by (auto simp: new_github_adapter_def split: if_splits)
  have polls: "fst (after_ops token send (replicate n Get_Revision) (a, w)) = a\<lparr>consecutive_failures := int n\<rparr>"
    if "n \<le> nat threshold" for n
    using that
  proof (induction n)
    case 0
    then show ?case by (simp add: after_ops_def a)
  next
    case (Suc n)
    let ?s = "after_ops token send (replicate n Get_Revision) (a, w)"
    have "\<not> circuit_open (fst ?s)" using Suc by (simp add: circuit_open_def a)
    then have "fst (snd (run_op token send Get_Revision ?s)) = count_failure (fst ?s)"
      using failed_request [OF assms(2,3)] by (simp add: github_revision_def then_state_def case_prod_beta)
    moreover have "after_ops token send (replicate (Suc n) Get_Revision) (a, w) = snd (run_op token send Get_Revision ?s)"
      unfolding replicate_Suc replicate_append_same [symmetric] by (simp add: after_ops_def)
    ultimately show ?case using Suc by (simp add: count_failure_def)
  qed
  let ?s = "after_ops token send (replicate (nat threshold) Get_Revision) (a, w)"
  have "circuit_open (fst ?s)" using polls [of "nat threshold"] a by (simp add: circuit_open_def)
  moreover have "\<not> circuit_open (fst (after_ops token send (replicate n Get_Revision) (a, w)))" if "n < nat threshold" for n
    using polls [of n] a that by (simp add: circuit_open_def)
  ultimately show ?thesis by (auto simp: open_after_ops open_run_op)
qed

section \<open>Several pages\<close>

lemma changed_revision_refused:
  assumes "list_items adapter None psize w = (Inr p, w1)" and "next_cursor p = Some c"
    and "list_items adapter (Some c) psize w1 = (Inr q, w2)" and "page_revision p \<noteq> page_revision q"
  shows "read_all_items adapter psize w =
    Some (Inl (ValueError ''source revision changed while pagination was in progress''), w2)"
proof -
  have "read_pages adapter psize (Some c) (page_items p) (Some (page_revision p)) w1 =
    Some (Inl (ValueError ''source revision changed while pagination was in progress''), w2)"
    using assms(3,4) by (subst read_pages.simps) simp
  then have "read_pages adapter psize None [] None w =
    Some (Inl (ValueError ''source revision changed while pagination was in progress''), w2)"
    using assms(1,2) by (subst read_pages.simps) simp
  then show ?thesis by (simp add: read_all_items_def)
qed

lemma parse_page_etag: "parse_page repository r = Inr p \<Longrightarrow> etag_of r = Some e \<Longrightarrow> page_revision p = e"
  by (auto simp: parse_page_def malformed_def bind_result_eq_Inr new_source_page_def Let_def split: json.splits if_splits)

lemma parse_page_cursor: "parse_page repository r = Inr p \<Longrightarrow> next_cursor p = next_link_cursor (header r ''link'')"
  by (auto simp: parse_page_def malformed_def bind_result_eq_Inr new_source_page_def Let_def split: json.splits if_splits)

text \<open>
  A GitHub repository of more than one page is read only when the first pages carry the same ETag.
  GitHub computes an ETag per response, and one that differs on the second page ends the whole
  ingestion with an error, although both pages were answered and parsed.
\<close>

theorem github_pages_with_own_etags_refused:
  assumes "1 \<le> psize" and "psize \<le> 100"
    and "github_request token send ''GET'' (issues_path (gh_repository (fst s)) 1 psize) None s = (Inr r, s1)"
    and "parse_page (gh_repository (fst s)) r = Inr p" and "next_link_cursor (header r ''link'') = Some c"
    and "cursor_page c = Inr k"
    and "github_request token send ''GET'' (issues_path (gh_repository (fst s1)) k psize) None s1 = (Inr r', s2)"
    and "parse_page (gh_repository (fst s1)) r' = Inr q"
    and "etag_of r = Some e" and "etag_of r' = Some e'" and "e \<noteq> e'"
  shows "read_all_items (github_connection token send) psize s =
    Some (Inl (ValueError ''source revision changed while pagination was in progress''), s2)"
proof (rule changed_revision_refused)
  show "list_items (github_connection token send) None psize s = (Inr p, s1)"
    using assms(1-4) by (simp add: github_connection_def github_list_def then_state_def)
  show "next_cursor p = Some c" using parse_page_cursor [OF assms(4)] assms(5) by simp
  show "list_items (github_connection token send) (Some c) psize s1 = (Inr q, s2)"
    using assms(1,2,6-8) by (simp add: github_connection_def github_list_def then_state_def)
  show "page_revision p \<noteq> page_revision q"
    using parse_page_etag [OF assms(4,9)] parse_page_etag [OF assms(8,10)] assms(11) by simp
qed

text \<open>
  The page of the next link is looked up as the first text \<open>page=\<close>, which is also the end of
  \<open>per_page=\<close>: the next page of this link is 2, the cursor says 100.
\<close>

lemma per_page_taken_for_page:
  "next_link_cursor (Some ''<https://api.github.com/repositories/1/issues?per_page=100&page=2>; rel=\"next\"'')
    = Some ''page:100''"
  by code_simp

text \<open>
  The revision of an issue is its node id, which is its identity and does not change: two states of
  an issue that differ in title, body or time have the same revision, so that the guard of a projection
  write accepts a write that was approved before the edit.
\<close>

lemma revision_is_identity:
  assumes "json_get kvs ''node_id'' = JStr node" and "\<not> blank node"
    and "parse_issue (JObj kvs) repository = Inr i"
  shows "si_revision i = node"
proof -
  have r: "issue_revision kvs u n = node" for u n using assms(1,2) by (simp add: issue_revision_def)
  show ?thesis
    using assms(3)
    by (auto simp: parse_issue_def r malformed_def bind_result_eq_Inr new_source_item_def
        split: json.splits option.splits if_splits)
qed

lemma edited_issue_keeps_revision:
  assumes "json_get kvs ''node_id'' = JStr node" and "\<not> blank node" and "json_get kvs' ''node_id'' = JStr node"
    and "parse_issue (JObj kvs) repository = Inr i" and "parse_issue (JObj kvs') repository = Inr j"
  shows "si_revision i = si_revision j"
  using revision_is_identity [OF assms(1,2,4)] revision_is_identity [OF assms(3,2,5)] by simp

section \<open>Witnesses\<close>

definition demo_token :: "nat token_source" where
  "demo_token w = (Inr ''t'', w)"

definition demo_outage :: "nat transport" where
  "demo_outage rq w = (Timed_Out, Suc w)"

definition demo_page :: "nat \<Rightarrow> github_response" where
  "demo_page n = \<lparr>status_code = 200,
     resp_headers = (''ETag'', if n = 0 then ''e0'' else ''e1'') # (if n = 0 then [(''Link'', ''<x?page=2>; rel=\"next\"'')] else []),
     resp_body = JList []\<rparr>"

definition demo_send :: "nat transport" where
  "demo_send rq w = (Responded (demo_page w), Suc w)"

definition demo_github :: github_adapter where
  "demo_github = \<lparr>gh_repository = ''o/r'', consecutive_failures = 0, circuit_threshold = 3\<rparr>"

lemma demo_github: "new_github_adapter ''o/r'' 3 = Inr demo_github"
  by (simp add: new_github_adapter_def demo_github_def)

theorem outage_opens_circuit_for_good_witness:
  "\<exists>s. after_ops demo_token demo_outage (replicate 3 Get_Revision) (demo_github, 0) = s
    \<and> circuit_open (fst s) \<and> run_op demo_token demo_send Get_Revision s = (False, s)"
  using outage_opens_circuit_for_good [OF demo_github, of demo_token demo_outage 0]
  by (auto simp: demo_token_def demo_outage_def counted_def numeral_3_eq_3 simp del: run_op.simps)

lemma demo_request:
  "github_request demo_token demo_send verb path body (demo_github, w) = (Inr (demo_page w), (demo_github, Suc w))"
  by (simp add: github_request_def demo_token_def demo_send_def circuit_open_def demo_github_def after_response_def demo_page_def)

lemma demo_parse:
  "parse_page ''o/r'' (demo_page 0) = Inr \<lparr>page_items = [], next_cursor = Some ''page:2'', page_revision = ''e0''\<rparr>"
  "parse_page ''o/r'' (demo_page 1) = Inr \<lparr>page_items = [], next_cursor = None, page_revision = ''e1''\<rparr>"
  "next_link_cursor (header (demo_page 0) ''link'') = Some ''page:2''" "cursor_page ''page:2'' = Inr 2"
  "etag_of (demo_page 0) = Some ''e0''" "etag_of (demo_page 1) = Some ''e1''"
  by code_simp+

theorem github_pages_with_own_etags_refused_witness:
  "read_all_items (github_connection demo_token demo_send) 10 (demo_github, 0)
    = Some (Inl (ValueError ''source revision changed while pagination was in progress''), (demo_github, 2))"
proof -
  have r: "gh_repository demo_github = ''o/r''" by (simp add: demo_github_def)
  show ?thesis
    by (rule github_pages_with_own_etags_refused [where r = "demo_page 0" and r' = "demo_page 1" and k = 2
          and ?s1.0 = "(demo_github, 1)", OF _ _ _ _ demo_parse(3,4) _ _ demo_parse(5,6)])
      (simp_all add: demo_request r demo_parse(1) demo_parse(2) [unfolded One_nat_def] numeral_2_eq_2)
qed

end
