(* ===== verification/Py_Hmac.thy ===== *)
theory Py_Hmac
  imports Py_Sha256 Errors
begin

text \<open>
  \<open>hmac.new(...).digest()\<close> over a digest with blocks of 64 bytes (RFC 2104), and
  \<open>hmac.compare_digest\<close>, shared by the webhook boundary, the CSRF tokens and the one-time passwords.
\<close>

definition hmac_key :: "(byte list \<Rightarrow> byte list) \<Rightarrow> byte list \<Rightarrow> byte list" where
  "hmac_key digest k = (let k' = if 64 < length k then digest k else k in k' @ replicate (64 - length k') 0)"

definition hmac_digest :: "(byte list \<Rightarrow> byte list) \<Rightarrow> byte list \<Rightarrow> byte list \<Rightarrow> byte list" where
  "hmac_digest digest k m = digest (map (\<lambda>b. b XOR 0x5C) (hmac_key digest k)
     @ digest (map (\<lambda>b. b XOR 0x36) (hmac_key digest k) @ m))"

definition hmac_sha256 :: "byte list \<Rightarrow> byte list \<Rightarrow> byte list" where
  "hmac_sha256 = hmac_digest sha256_digest"

text \<open>\<open>hmac.compare_digest\<close> on texts refuses characters outside ASCII.\<close>

definition compare_digest :: "string \<Rightarrow> string \<Rightarrow> bool result" where
  "compare_digest s t = (if \<exists>c \<in> set (s @ t). 128 \<le> (of_char c :: nat)
     then Inl (TypeError ''comparing strings with non-ASCII characters is not supported'') else Inr (s = t))"

definition ascii :: "string \<Rightarrow> bool" where
  "ascii s \<longleftrightarrow> (\<forall>c \<in> set s. (of_char c :: nat) < 128)"

lemma ascii_append [simp]: "ascii (s @ t) \<longleftrightarrow> ascii s \<and> ascii t"
  by (auto simp: ascii_def)

lemma ascii_hexlify [simp]: "ascii (hexlify bs)"
proof -
  have "set (hexlify bs) \<subseteq> {c. (of_char c :: nat) < 128}"
  proof (rule hexlify_subset)
    fix n :: nat assume "n < 16"
    then have "hex_char n \<in> set ''0123456789abcdef''" by (rule hex_char_in)
    moreover have "\<forall>c \<in> set ''0123456789abcdef''. (of_char c :: nat) < 128" by code_simp
    ultimately show "hex_char n \<in> {c. (of_char c :: nat) < 128}" by blast
  qed
  then show ?thesis by (auto simp: ascii_def)
qed

lemma compare_ascii:
  "ascii x \<Longrightarrow> compare_digest x y = (if ascii y then Inr (x = y)
     else Inl (TypeError ''comparing strings with non-ASCII characters is not supported''))"
  by (auto simp: compare_digest_def ascii_def not_le [symmetric] simp del: not_le)

end
