(* ===== verification/Github_App.thy ===== *)
theory Github_App
  imports Github_Adapter Py_Hmac
begin

text \<open>
  \<open>adapters/github/app.py\<close> (the App token, signed and cached in memory) and
  \<open>adapters/github/webhook.py\<close> (the HMAC boundary of incoming deliveries). RSA, the clock, the token
  exchange and the inbox are parameters; HMAC-SHA256 is computed. The lemmas show what a cached token
  guarantees and that nothing reaches the inbox unverified.
\<close>

section \<open>App tokens\<close>

record app_credentials =
  app_id :: string
  installation_id :: string
  private_key_pem :: "byte list"

definition new_app_credentials :: "app_credentials \<Rightarrow> app_credentials result" where
  "new_app_credentials c =
     (if blank (app_id c) \<or> blank (installation_id c)
      then Inl (ValueError ''GitHub App and installation identities are required'')
      else if private_key_pem c = [] then Inl (ValueError ''GitHub App private key is required'')
      else Inr c)"

record installation_token =
  it_value :: string
  it_expires_at :: datetime
  it_permissions :: "string list"

definition new_installation_token :: "installation_token \<Rightarrow> installation_token result" where
  "new_installation_token t =
     (if blank (it_value t) then Inl (ValueError ''installation token value is required'')
      else if \<not> aware (it_expires_at t) then Inl (ValueError ''installation token expiry must be timezone-aware'')
      else Inr (t\<lparr>it_permissions := sorted_set (it_permissions t)\<rparr>))"

text \<open>\<open>base64.urlsafe_b64encode\<close> without its padding\<close>

definition base64_char :: "nat \<Rightarrow> char" where
  "base64_char n = ''ABCDEFGHIJKLMNOPQRSTUVWXYZabcdefghijklmnopqrstuvwxyz0123456789-_'' ! n"

fun base64url :: "byte list \<Rightarrow> string" where
  "base64url [] = []"
| "base64url [a] = [base64_char (unat a div 4), base64_char (unat a mod 4 * 16)]"
| "base64url [a, b] = [base64_char (unat a div 4), base64_char (unat a mod 4 * 16 + unat b div 16),
     base64_char (unat b mod 16 * 4)]"
| "base64url (a # b # c # bs) = [base64_char (unat a div 4), base64_char (unat a mod 4 * 16 + unat b div 16),
     base64_char (unat b mod 16 * 4 + unat c div 64), base64_char (unat c mod 64)] @ base64url bs"

text \<open>\<open>int(issued_at.timestamp())\<close>: instants count from the epoch, and \<open>int\<close> drops the fraction.\<close>

definition epoch_seconds :: "datetime \<Rightarrow> int" where
  "epoch_seconds d = (if 0 \<le> instant d then instant d div 1000000 else - (- instant d div 1000000))"

record 'k rsa_operations =
  load_pem :: "byte list \<Rightarrow> 'k result"
  is_rsa_key :: "'k \<Rightarrow> bool"
  sign_pkcs1 :: "'k \<Rightarrow> string \<Rightarrow> byte list"

definition signing_input :: "app_credentials \<Rightarrow> datetime \<Rightarrow> string" where
  "signing_input c issued_at = (let issued_epoch = epoch_seconds issued_at - 60 in
     base64url (encode (json_dumps True (JObj [(''alg'', JStr ''RS256''), (''typ'', JStr ''JWT'')])))
     @ ''.'' @ base64url (encode (json_dumps True (JObj
       [(''exp'', JInt (issued_epoch + 9 * 60)), (''iat'', JInt issued_epoch), (''iss'', JStr (app_id c))]))))"

definition build_app_jwt :: "'k rsa_operations \<Rightarrow> app_credentials \<Rightarrow> datetime \<Rightarrow> string result" where
  "build_app_jwt rsa c issued_at =
     (if \<not> aware issued_at then Inl (ValueError ''GitHub App JWT issuance time must be timezone-aware'')
      else bind_result (load_pem rsa (private_key_pem c)) (\<lambda>k.
        if \<not> is_rsa_key rsa k then Inl (TypeError ''GitHub App private key must be RSA'')
        else Inr (signing_input c issued_at @ ''.'' @ base64url (sign_pkcs1 rsa k (signing_input c issued_at)))))"

definition required_permissions :: "string list" where
  "required_permissions = [''issues:write'', ''metadata:read'', ''pull_requests:read'']"

type_synonym 'w token_exchange = "string \<Rightarrow> string \<Rightarrow> 'w \<Rightarrow> installation_token result \<times> 'w"

definition refresh_token ::
    "'k rsa_operations \<Rightarrow> app_credentials \<Rightarrow> 'w token_exchange \<Rightarrow> datetime \<Rightarrow> installation_token option \<times> 'w
     \<Rightarrow> installation_token result \<times> (installation_token option \<times> 'w)" where
  "refresh_token rsa c exchange now = (\<lambda>(cached, w). case build_app_jwt rsa c now of
     Inl e \<Rightarrow> (Inl e, (cached, w))
   | Inr jwt \<Rightarrow> (case exchange (installation_id c) jwt w of
       (Inl e, w') \<Rightarrow> (Inl e, (cached, w'))
     | (Inr t, w') \<Rightarrow>
         if \<not> set required_permissions \<subseteq> set (it_permissions t)
         then (Inl (AdapterError UNAUTHORIZED ''installation token lacks required GitHub App permissions''), (cached, w'))
         else (Inr t, (Some t, w'))))"

definition provider_token ::
    "'k rsa_operations \<Rightarrow> app_credentials \<Rightarrow> 'w token_exchange \<Rightarrow> ('w \<Rightarrow> datetime \<times> 'w) \<Rightarrow> installation_token option \<times> 'w
     \<Rightarrow> installation_token result \<times> (installation_token option \<times> 'w)" where
  "provider_token rsa c exchange clock = (\<lambda>(cached, w). case clock w of (now, w') \<Rightarrow>
     if \<not> aware now then (Inl (ValueError ''GitHub token-provider clock must be timezone-aware''), (cached, w'))
     else case cached of
       Some t \<Rightarrow> if dt_less (dt_add now (minutes 5)) (it_expires_at t) then (Inr t, (cached, w'))
         else refresh_token rsa c exchange now (cached, w')
     | None \<Rightarrow> refresh_token rsa c exchange now (cached, w'))"

text \<open>
  A token that is handed out is cached and carries the required permissions; one that comes from the
  cache is still good for more than five minutes of the clock that was asked.
\<close>

definition cache_ok :: "installation_token option \<Rightarrow> bool" where
  "cache_ok cached \<longleftrightarrow> (\<forall>t. cached = Some t \<longrightarrow> set required_permissions \<subseteq> set (it_permissions t))"

lemma refresh_token_ok:
  assumes "cache_ok cached" and "refresh_token rsa c exchange now (cached, w) = (r, (cached', w'))"
  shows "cache_ok cached' \<and> (\<forall>t. r = Inr t \<longrightarrow> cached' = Some t)"
  using assms by (auto simp: refresh_token_def cache_ok_def split: sum.splits prod.splits if_splits)

lemma provider_token_ok:
  assumes "cache_ok cached" and "provider_token rsa c exchange clock (cached, w) = (r, (cached', w'))"
  shows "cache_ok cached' \<and> (\<forall>t. r = Inr t \<longrightarrow> cached' = Some t \<and> set required_permissions \<subseteq> set (it_permissions t))"
proof (cases "\<exists>now w1. clock w = (now, w1) \<and> refresh_token rsa c exchange now (cached, w1) = (r, (cached', w'))")
  case True
  then obtain now w1 where "refresh_token rsa c exchange now (cached, w1) = (r, (cached', w'))" by blast
  then show ?thesis using refresh_token_ok [OF assms(1)] by (fastforce simp: cache_ok_def)
next
  case False
  then show ?thesis using assms
    by (auto simp: provider_token_def cache_ok_def split: prod.splits option.splits if_splits)
qed

lemma cached_token_valid:
  assumes "clock w = (now, w1)" and "aware now" and "instant (it_expires_at t) > instant now + 5 * 60 * 1000000"
  shows "provider_token rsa c exchange clock (Some t, w) = (Inr t, (Some t, w1))"
  using assms by (simp add: provider_token_def dt_less_def minutes_def seconds_def)

lemma stale_token_refreshed:
  assumes "clock w = (now, w1)" and "aware now" and "instant (it_expires_at t) \<le> instant now + 5 * 60 * 1000000"
  shows "provider_token rsa c exchange clock (Some t, w) = refresh_token rsa c exchange now (Some t, w1)"
  using assms by (simp add: provider_token_def dt_less_def minutes_def seconds_def)

section \<open>Webhooks\<close>

record webhook_receipt =
  wh_delivery_id :: string
  wh_event_name :: string
  wh_repository :: string
  wh_installation_id :: string
  wh_payload_hash :: string
  wh_raw_payload :: "byte list"

definition new_webhook_receipt :: "webhook_receipt \<Rightarrow> webhook_receipt result" where
  "new_webhook_receipt r =
     (if \<exists>v \<in> set [wh_delivery_id r, wh_event_name r, wh_repository r, wh_installation_id r, wh_payload_hash r]. blank v
      then Inl (ValueError ''verified webhook delivery metadata is required'')
      else if length (wh_payload_hash r) \<noteq> 64 then Inl (ValueError ''webhook payload hash must be SHA-256'')
      else Inr r)"

definition verify_webhook_signature :: "byte list \<Rightarrow> byte list \<Rightarrow> string \<Rightarrow> bool result" where
  "verify_webhook_signature secret payload signature =
     (if secret = [] \<or> \<not> starts_with signature ''sha256='' then Inr False
      else compare_digest (''sha256='' @ hexlify (hmac_sha256 secret payload)) signature)"

record webhook_request =
  wq_payload :: "byte list"
  wq_signature :: string
  wq_delivery_id :: string
  wq_event_name :: string
  wq_repository :: string
  wq_installation_id :: string

definition webhook_receipt_of :: "webhook_request \<Rightarrow> webhook_receipt result" where
  "webhook_receipt_of q = new_webhook_receipt
     \<lparr>wh_delivery_id = wq_delivery_id q, wh_event_name = wq_event_name q, wh_repository = wq_repository q,
      wh_installation_id = wq_installation_id q, wh_payload_hash = hexlify (sha256_digest (wq_payload q)),
      wh_raw_payload = wq_payload q\<rparr>"

definition accept_webhook ::
    "webhook_request \<Rightarrow> byte list \<Rightarrow> (webhook_receipt \<Rightarrow> 's \<Rightarrow> unit result \<times> 's) \<Rightarrow> 's
     \<Rightarrow> webhook_receipt result \<times> 's" where
  "accept_webhook q secret persist s = (case verify_webhook_signature secret (wq_payload q) (wq_signature q) of
     Inl e \<Rightarrow> (Inl e, s)
   | Inr False \<Rightarrow> (Inl (AdapterError UNAUTHORIZED ''invalid GitHub webhook signature''), s)
   | Inr True \<Rightarrow> (case webhook_receipt_of q of
       Inl e \<Rightarrow> (Inl e, s)
     | Inr receipt \<Rightarrow> (case persist receipt s of
         (Inl e, s') \<Rightarrow> (Inl e, s')
       | (Inr _, s') \<Rightarrow> (Inr receipt, s'))))"

lemma signature_ascii: "ascii (''sha256='' @ hexlify bs)"
proof -
  have "ascii ''sha256=''" unfolding ascii_def by code_simp
  then show ?thesis by (simp only: ascii_append ascii_hexlify)
qed

text \<open>
  C34: nothing unverified reaches the inbox. The inbox is called at most once, exactly when the
  signature is the HMAC of the payload under a non-empty secret and the metadata are complete, and with
  the payload as it came and its hash; in every other case its state is untouched.
\<close>

theorem webhook_persists_only_verified:
  "accept_webhook q secret persist s =
     (if secret \<noteq> [] \<and> wq_signature q = ''sha256='' @ hexlify (hmac_sha256 secret (wq_payload q))
      then (case webhook_receipt_of q of
          Inl e \<Rightarrow> (Inl e, s)
        | Inr receipt \<Rightarrow> (case persist receipt s of
            (Inl e, s') \<Rightarrow> (Inl e, s')
          | (Inr _, s') \<Rightarrow> (Inr receipt, s')))
      else (Inl (if secret \<noteq> [] \<and> starts_with (wq_signature q) ''sha256=''
            \<and> \<not> ascii (wq_signature q)
          then TypeError ''comparing strings with non-ASCII characters is not supported''
          else AdapterError UNAUTHORIZED ''invalid GitHub webhook signature''), s))"
proof -
  define x where "x = ''sha256='' @ hexlify (hmac_sha256 secret (wq_payload q))"
  have start: "starts_with x ''sha256=''" by (simp add: starts_with_def x_def)
  have x: "ascii x" using signature_ascii unfolding x_def .
  have v: "verify_webhook_signature secret (wq_payload q) (wq_signature q) =
    (if secret = [] \<or> \<not> starts_with (wq_signature q) ''sha256='' then Inr False
     else if ascii (wq_signature q) then Inr (x = wq_signature q)
     else Inl (TypeError ''comparing strings with non-ASCII characters is not supported''))"
    unfolding verify_webhook_signature_def x_def by (simp only: compare_ascii [OF signature_ascii])
  show ?thesis
    unfolding accept_webhook_def v x_def [symmetric]
    using start x by (cases "wq_signature q = x") auto
qed

end
