(* ===== verification/File_Adapter.thy ===== *)
theory File_Adapter
  imports Github_Adapter
begin

text \<open>
  \<open>adapters/connections/file.py\<close> and \<open>loader.py\<close>: a JSON document becomes a fixture adapter. Reading and
  parsing the file is a parameter; a document is a JSON value. The lemmas show that a written corpus is
  read back, and which errors are not the typed one.
\<close>

section \<open>Documents\<close>

definition parse_error :: "'a result" where
  "parse_error = Inl (TypeError [])"

text \<open>\<open>_string\<close>: the text under a key, not blank unless that is allowed\<close>

definition string_field :: "(string \<times> json) list \<Rightarrow> string \<Rightarrow> bool \<Rightarrow> string result" where
  "string_field kvs k allow_empty = (case json_get kvs k of
     JStr s \<Rightarrow> if \<not> allow_empty \<and> blank s then parse_error else Inr s
   | _ \<Rightarrow> parse_error)"

definition json_get_default :: "(string \<times> json) list \<Rightarrow> string \<Rightarrow> json \<Rightarrow> json" where
  "json_get_default kvs k d = (case map_of (rev kvs) k of None \<Rightarrow> d | Some v \<Rightarrow> v)"

fun json_text_value :: "json \<Rightarrow> string result" where
  "json_text_value (JStr s) = Inr s"
| "json_text_value _ = parse_error"

fun json_scalar :: "json \<Rightarrow> scalar result" where
  "json_scalar (JStr s) = Inr (SStr s)"
| "json_scalar (JInt i) = Inr (SInt i)"
| "json_scalar (JBool b) = Inr (SBool b)"
| "json_scalar JNull = Inr SNone"
| "json_scalar _ = parse_error"

definition raw_pair :: "string \<times> json \<Rightarrow> (string \<times> scalar) result" where
  "raw_pair kv = bind_result (json_scalar (snd kv)) (\<lambda>v. Inr (fst kv, v))"

fun parse_file_item :: "json \<Rightarrow> source_item result" where
  "parse_file_item (JObj kvs) = (case (json_get_default kvs ''labels'' (JList []), json_get_default kvs ''raw'' (JObj []),
       json_get_default kvs ''policy_blockers'' (JList [])) of
     (JList labels_raw, JObj raw_raw, JList policy_raw) \<Rightarrow>
       bind_result (map_result json_text_value labels_raw) (\<lambda>names.
       bind_result (map_result json_text_value policy_raw) (\<lambda>blockers.
       bind_result (map_result raw_pair (py_dict raw_raw)) (\<lambda>raw.
       bind_result (string_field kvs ''source_id'' False) (\<lambda>sid.
       bind_result (string_field kvs ''item_id'' False) (\<lambda>iid.
       bind_result (string_field kvs ''revision'' False) (\<lambda>revision.
       bind_result (string_field kvs ''title'' False) (\<lambda>heading_text.
       bind_result (string_field kvs ''body'' True) (\<lambda>body.
       bind_result (string_field kvs ''state'' False) (\<lambda>st.
       bind_result (string_field kvs ''updated_at'' False) (\<lambda>updated.
         new_source_item \<lparr>si_source_id = sid, si_item_id = iid, si_revision = revision, si_title = heading_text,
           si_body = body, si_state = st, si_labels = names, si_updated_at = updated, si_raw = raw,
           si_policy_blockers = blockers\<rparr>))))))))))
   | _ \<Rightarrow> parse_error)"
| "parse_file_item _ = parse_error"

fun parse_file_document :: "json \<Rightarrow> json \<Rightarrow> (string \<times> source_item list) result" where
  "parse_file_document (JStr revision) (JList vs) =
     bind_result (map_result parse_file_item vs) (\<lambda>sis. Inr (revision, sis))"
| "parse_file_document _ _ = Inl (TypeError ''file adapter revision and items are malformed'')"

fun document_key :: "json \<Rightarrow> string \<Rightarrow> json result" where
  "document_key (JObj kvs) k = dict_get (map_of (rev kvs)) k k"
| "document_key _ k = Inl (TypeError ''document is not a mapping'')"

text \<open>
  \<open>load_json\<close> is \<open>json.loads(path.read_text(encoding="utf-8"))\<close>; what it raises (\<open>OSError\<close>,
  \<open>ValueError\<close>) is caught. Every error up to the parsed document
  becomes the typed error; \<open>from_items\<close> runs after the \<open>try\<close> block.
\<close>

definition new_file_adapter :: "(string \<Rightarrow> json result) \<Rightarrow> string \<Rightarrow> fixture_adapter result" where
  "new_file_adapter load_json path =
     (case bind_result (load_json path) (\<lambda>document. bind_result (document_key document ''source_revision'') (\<lambda>revision_raw.
         bind_result (document_key document ''items'') (\<lambda>items_raw. parse_file_document revision_raw items_raw))) of
       Inl e \<Rightarrow> Inl (AdapterError MALFORMED_RESPONSE (''malformed file adapter document: '' @ path))
     | Inr (revision, sis) \<Rightarrow> fixture_from_items sis revision None)"

definition load_builtin_adapter :: "(string \<Rightarrow> json result) \<Rightarrow> string \<Rightarrow> string option \<Rightarrow> fixture_adapter result" where
  "load_builtin_adapter load_json adapter_kind fixture_path = (case fixture_path of
     Some path \<Rightarrow> if adapter_kind = ''file'' then new_file_adapter load_json path
       else Inl (ValueError (''unsupported built-in adapter kind: '' @ adapter_kind))
   | None \<Rightarrow> Inl (ValueError (''unsupported built-in adapter kind: '' @ adapter_kind)))"

section \<open>What is read back\<close>

definition item_document :: "source_item \<Rightarrow> json" where
  "item_document i = JObj
     [(''source_id'', JStr (si_source_id i)), (''item_id'', JStr (si_item_id i)), (''revision'', JStr (si_revision i)),
      (''title'', JStr (si_title i)), (''body'', JStr (si_body i)), (''state'', JStr (si_state i)),
      (''labels'', str_list_json (si_labels i)), (''updated_at'', JStr (si_updated_at i)),
      (''raw'', payload_json (si_raw i)), (''policy_blockers'', str_list_json (si_policy_blockers i))]"

definition corpus_document :: "string \<Rightarrow> source_item list \<Rightarrow> json" where
  "corpus_document revision sis = JObj [(''source_revision'', JStr revision), (''items'', JList (map item_document sis))]"

lemma texts_back: "map_result json_text_value (map JStr xs) = Inr xs"
  by (induction xs) simp_all

lemma scalars_back: "map_result raw_pair (map (\<lambda>(k, v). (k, scalar_json v)) kvs) = Inr kvs"
proof (induction kvs)
  case (Cons kv kvs)
  then show ?case by (cases kv; cases "snd kv") (simp_all add: raw_pair_def)
qed simp

lemma map_keys: "map fst (map (\<lambda>(k, v). (k, f v)) kvs) = map fst kvs"
  by (simp add: comp_def case_prod_beta)

lemma item_read_back:
  assumes "new_source_item i = Inr i" and "distinct (map fst (si_raw i))"
  shows "parse_file_item (item_document i) = Inr i"
proof -
  have wf: "\<not> blank (si_source_id i)" "\<not> blank (si_item_id i)" "\<not> blank (si_revision i)" "\<not> blank (si_title i)"
      "\<not> blank (si_state i)" "\<not> blank (si_updated_at i)"
    using assms(1) by (auto simp: new_source_item_def split: if_splits)
  have raw: "py_dict (map (\<lambda>(k, v). (k, scalar_json v)) (si_raw i)) = map (\<lambda>(k, v). (k, scalar_json v)) (si_raw i)"
    using assms(2) by (intro py_dict_distinct) (simp only: map_keys)
  have "new_source_item \<lparr>si_source_id = si_source_id i, si_item_id = si_item_id i, si_revision = si_revision i,
      si_title = si_title i, si_body = si_body i, si_state = si_state i, si_labels = si_labels i,
      si_updated_at = si_updated_at i, si_raw = si_raw i, si_policy_blockers = si_policy_blockers i\<rparr> = Inr i"
    using assms(1) by (cases i) simp
  with wf raw show ?thesis
    by (simp add: item_document_def json_get_default_def json_get_def string_field_def
        payload_json_def texts_back scalars_back)
qed

text \<open>
  A corpus of valid items that is written as a document is read back as the adapter over those items.
\<close>

lemma file_adapter_reads_corpus:
  assumes "\<forall>i \<in> set sis. new_source_item i = Inr i \<and> distinct (map fst (si_raw i))"
    and "load_json path = Inr (corpus_document revision sis)"
  shows "new_file_adapter load_json path = fixture_from_items sis revision None"
proof -
  have "map_result parse_file_item (map item_document sis) = Inr sis"
    using assms(1) by (induction sis) (simp_all add: item_read_back)
  then show ?thesis
    using assms(2) by (simp add: new_file_adapter_def corpus_document_def dict_get_def)
qed

text \<open>
  A document with a repeated item identity is malformed, and the adapter still raises the bare
  \<open>ValueError\<close> of the in-memory adapter instead of the typed error.
\<close>

lemma duplicate_items_untyped_error:
  assumes "new_source_item i = Inr i" and "distinct (map fst (si_raw i))"
    and "load_json path = Inr (corpus_document revision [i, i])"
  shows "new_file_adapter load_json path = Inl (ValueError ''in-memory adapter item IDs must be unique'')"
  using file_adapter_reads_corpus [of "[i, i]" load_json path revision] assms
  by (simp add: fixture_from_items_def new_memory_adapter_def)

end
