(* ===== verification/Harness_Registry.thy ===== *)
theory Harness_Registry
  imports Errors Py_Json Py_Text "HOL-Library.Sublist"
begin

text \<open>
  \<open>contracts/harness_registry.py\<close>: the registry of release harnesses is validated fail-closed, and the
  dependency closure of a harness is listed in topological order. A registry is the parsed JSON value; an
  object is a dictionary, so its keys are distinct. The lemmas show that a validated prerequisite graph
  is acyclic and that the closure is complete, ordered and total on it.
\<close>

section \<open>JSON values as Python values\<close>

definition obj_get :: "(string \<times> json) list \<Rightarrow> string \<Rightarrow> json option" where
  "obj_get kvs k = map_of (rev kvs) k"

text \<open>\<open>d.get(k)\<close>: a missing key gives \<open>None\<close>.\<close>

definition obj_value :: "(string \<times> json) list \<Rightarrow> string \<Rightarrow> json" where
  "obj_value kvs k = (case obj_get kvs k of None \<Rightarrow> JNull | Some v \<Rightarrow> v)"

fun json_repr :: "json \<Rightarrow> string" where
  "json_repr JNull = ''None''"
| "json_repr (JBool b) = (if b then ''True'' else ''False'')"
| "json_repr (JInt i) = str_int i"
| "json_repr (JFloat r) = r"
| "json_repr (JStr s) = py_repr s"
| "json_repr (JList vs) = ''['' @ join '', '' (map json_repr vs) @ '']''"
| "json_repr (JObj kvs) = ''{'' @ join '', '' (map (\<lambda>(k, v). py_repr k @ '': '' @ json_repr v) kvs) @ ''}''"

text \<open>\<open>str(v)\<close>, truth, and membership in a set of texts, which a list or an object cannot be tested for\<close>

fun json_str :: "json \<Rightarrow> string" where
  "json_str (JStr s) = s"
| "json_str v = json_repr v"

fun truthy :: "json \<Rightarrow> bool" where
  "truthy JNull = False"
| "truthy (JBool b) = b"
| "truthy (JInt i) = (i \<noteq> 0)"
| "truthy (JFloat r) = (r \<notin> {''0.0'', ''-0.0''})"
| "truthy (JStr s) = (s \<noteq> [])"
| "truthy (JList vs) = (vs \<noteq> [])"
| "truthy (JObj kvs) = (kvs \<noteq> [])"

fun in_texts :: "json \<Rightarrow> string list \<Rightarrow> bool result" where
  "in_texts (JStr s) ts = Inr (s \<in> set ts)"
| "in_texts (JList vs) ts = Inl (TypeError ''unhashable type: list'')"
| "in_texts (JObj kvs) ts = Inl (TypeError ''unhashable type: dict'')"
| "in_texts _ ts = Inr False"

text \<open>\<open>v == n\<close> for a length: \<open>True\<close> is 1 and an integral float is the number.\<close>

fun equals_length :: "json \<Rightarrow> nat \<Rightarrow> bool" where
  "equals_length (JInt i) n = (i = int n)"
| "equals_length (JBool b) n = (of_bool b = n)"
| "equals_length (JFloat r) n = (r = str_nat n @ ''.0'')"
| "equals_length _ n = False"

definition registry_error :: "string \<Rightarrow> 'a result" where
  "registry_error msg = Inl (HarnessRegistryError msg)"

definition check :: "bool \<Rightarrow> string \<Rightarrow> unit result" where
  "check ok msg = (if ok then Inr () else registry_error msg)"

text \<open>The checks of a loop, in order: the first that raises ends it.\<close>

fun all_checks :: "('a \<Rightarrow> unit result) \<Rightarrow> 'a list \<Rightarrow> unit result" where
  "all_checks f [] = Inr ()"
| "all_checks f (x # xs) = bind_result (f x) (\<lambda>_. all_checks f xs)"

section \<open>Entries\<close>

definition required_fields :: "string list" where
  "required_fields = [''id'', ''name'', ''command'', ''artifact'', ''artifact_mode'', ''blocks_release'', ''what_it_runs'',
     ''pass_criteria'', ''applicability'', ''status'']"

definition id_char :: "char \<Rightarrow> bool" where
  "id_char c = (let n = (of_char c :: nat) in (65 \<le> n \<and> n \<le> 90) \<or> (48 \<le> n \<and> n \<le> 57))"

text \<open>\<open>^WF-HAR-[A-Z0-9]+(?:-[A-Z0-9]+)*$\<close>, the whole text\<close>

definition harness_id_ok :: "string \<Rightarrow> bool" where
  "harness_id_ok s \<longleftrightarrow> starts_with s ''WF-HAR-''
     \<and> (\<forall>p \<in> set (split_char (CHR ''-'') (drop 7 s)). p \<noteq> [] \<and> (\<forall>c \<in> set p. id_char c))"

text \<open>The expected pattern of runner evidence; \<open>$\<close> also matches before a last line break.\<close>

definition runner_pattern_ok :: "string \<Rightarrow> bool" where
  "runner_pattern_ok s = (let
     t = (if s \<noteq> [] \<and> last s = CHR 0x0A then butlast s else s);
     pre = ''.omo/evidence/static/'';
     n = length t - length pre - 5
   in starts_with t pre \<and> suffix ''.json'' t \<and> length pre + 5 \<le> length t
      \<and> harness_id_ok (take n (drop (length pre) t)))"

definition validate_artifact_path :: "string \<Rightarrow> string \<Rightarrow> unit result" where
  "validate_artifact_path hid path =
     (if \<exists>p \<in> {''s3://'', ''http://'', ''https://''}. starts_with path p
      then registry_error (hid @ '': remote artifact '' @ py_repr path @ '' is not allowed'')
      else if starts_with path [CHR 0x5C, CHR 0x5C] \<or> starts_with path ''//''
      then registry_error (hid @ '': UNC artifact path '' @ py_repr path @ '' is not allowed'')
      else if starts_with path ''/''
      then registry_error (hid @ '': absolute artifact path '' @ py_repr path @ '' is not allowed'')
      else if CHR 0x5C \<in> set path
      then registry_error (hid @ '': Windows-style artifact path '' @ py_repr path
        @ '' is not allowed; use POSIX relative notation'')
      else if ''..'' \<in> set (split_char (CHR ''/'') path)
      then registry_error (hid @ '': artifact path '' @ py_repr path @ '' contains traversal'')
      else if 2 \<le> length path \<and> path ! 1 = CHR '':''
      then registry_error (hid @ '': Windows-style artifact path '' @ py_repr path @ '' is not allowed'')
      else Inr ())"

text \<open>
  \<open>field not in entry\<close> and \<open>entry["id"]\<close> for an entry that is not an object: a text is searched, a list is
  scanned, anything else is not iterable; none can be indexed by a key.
\<close>

definition missing_field :: "(string \<Rightarrow> bool) \<Rightarrow> 'a result \<Rightarrow> 'a result" where
  "missing_field has otherwise = (case find (\<lambda>f. \<not> has f) required_fields of
     Some f \<Rightarrow> registry_error (''harness missing required field '' @ f)
   | None \<Rightarrow> otherwise)"

fun entry_object :: "json \<Rightarrow> (string \<times> json) list result" where
  "entry_object (JObj kvs) = missing_field (\<lambda>f. obj_get kvs f \<noteq> None) (Inr kvs)"
| "entry_object (JStr s) = missing_field (\<lambda>f. sublist f s) (Inl (TypeError ''string indices must be integers''))"
| "entry_object (JList vs) = missing_field (\<lambda>f. JStr f \<in> set vs) (Inl (TypeError ''list indices must be integers''))"
| "entry_object _ = Inl (TypeError ''argument is not iterable'')"

definition runner_evidence_harnesses :: "string list" where
  "runner_evidence_harnesses = [''WF-HAR-STATIC-01'', ''WF-HAR-STATIC-04'']"

definition validate_artifact_mode :: "string \<Rightarrow> string \<Rightarrow> string \<Rightarrow> unit result" where
  "validate_artifact_mode hid mode artifact =
     (if mode \<notin> {''declared_file'', ''runner_evidence''}
      then registry_error (hid @ '': invalid artifact_mode '' @ py_repr mode)
      else if mode \<noteq> ''runner_evidence'' then Inr ()
      else if hid \<notin> set runner_evidence_harnesses
      then registry_error (hid @ '': runner_evidence mode not allowed for this harness'')
      else if \<not> runner_pattern_ok artifact
      then registry_error (hid @ '': runner_evidence artifact does not match expected pattern'')
      else if artifact \<noteq> ''.omo/evidence/static/'' @ hid @ ''.json''
      then registry_error (hid @ '': runner_evidence artifact '' @ py_repr artifact @ '' does not match expected path ''
        @ py_repr (''.omo/evidence/static/'' @ hid @ ''.json''))
      else Inr ())"

fun is_bool :: "json \<Rightarrow> bool" where
  "is_bool (JBool b) = True"
| "is_bool _ = False"

definition validate_entry :: "json \<Rightarrow> string list \<Rightarrow> string result" where
  "validate_entry entry seen = bind_result (entry_object entry) (\<lambda>kvs. let
     hid = json_str (obj_value kvs ''id'');
     artifact = json_str (obj_value kvs ''artifact'');
     applicability = json_str (obj_value kvs ''applicability'');
     st = json_str (obj_value kvs ''status'')
   in bind_result (check (harness_id_ok hid) (''invalid harness id: '' @ py_repr hid)) (\<lambda>_.
      bind_result (check (hid \<notin> set seen) (''duplicate harness id: '' @ hid)) (\<lambda>_.
      bind_result (check (\<not> blank (json_str (obj_value kvs ''command''))) (hid @ '': command is required'')) (\<lambda>_.
      bind_result (check (\<not> blank artifact) (hid @ '': artifact is required'')) (\<lambda>_.
      bind_result (validate_artifact_path hid artifact) (\<lambda>_.
      bind_result (check (applicability \<in> {''standard'', ''large'', ''tenant''})
        (hid @ '': invalid applicability '' @ py_repr applicability)) (\<lambda>_.
      bind_result (validate_artifact_mode hid (json_str (obj_value kvs ''artifact_mode'')) artifact) (\<lambda>_.
      bind_result (check (st \<in> {''specified'', ''implemented'', ''deferred''}) (hid @ '': invalid status '' @ py_repr st)) (\<lambda>_.
      bind_result (check (is_bool (obj_value kvs ''blocks_release'')) (hid @ '': blocks_release must be bool'')) (\<lambda>_.
        Inr hid))))))))))"

text \<open>The loop over the entries; the ids seen so far are kept in order.\<close>

fun validate_entries :: "json list \<Rightarrow> string list \<Rightarrow> string list result" where
  "validate_entries [] seen = Inr seen"
| "validate_entries (e # es) seen = bind_result (validate_entry e seen) (\<lambda>hid. validate_entries es (seen @ [hid]))"

section \<open>Prerequisites\<close>

text \<open>The entries have passed the first loop: they are objects.\<close>

fun fields_of :: "json \<Rightarrow> (string \<times> json) list" where
  "fields_of (JObj kvs) = kvs"
| "fields_of _ = []"

definition entry_id :: "json \<Rightarrow> string" where
  "entry_id e = json_str (obj_value (fields_of e) ''id'')"

fun is_text :: "json \<Rightarrow> bool" where
  "is_text (JStr s) = True"
| "is_text _ = False"

fun text_of :: "json \<Rightarrow> string" where
  "text_of (JStr s) = s"
| "text_of _ = []"

definition validate_prerequisites :: "string list \<Rightarrow> string \<Rightarrow> string list \<Rightarrow> unit result" where
  "validate_prerequisites prereqs hid all_ids =
     (if \<not> distinct prereqs then registry_error (hid @ '': prerequisites contain duplicates: '' @ repr_list prereqs)
      else if hid \<in> set prereqs then registry_error (hid @ '': prerequisite references itself'')
      else all_checks (\<lambda>p. check (p \<in> set all_ids) (hid @ '': prerequisite '' @ py_repr p @ '' is not a known harness ID'')) prereqs)"

definition validate_prerequisite_field :: "string \<Rightarrow> string list \<Rightarrow> json \<Rightarrow> unit result" where
  "validate_prerequisite_field schema all_ids e = (let hid = entry_id e in
     case obj_value (fields_of e) ''prerequisites'' of
       JList vs \<Rightarrow> if \<not> (\<forall>v \<in> set vs. is_text v) then registry_error (hid @ '': prerequisites must contain only strings'')
         else validate_prerequisites (map text_of vs) hid all_ids
     | raw \<Rightarrow> if schema \<noteq> ''1.0.0'' then registry_error (hid @ '': prerequisites must be an explicit array'')
         else if raw \<noteq> JNull then registry_error (hid @ '': prerequisites must contain only strings'')
         else Inr ())"

definition release_stages :: "string list" where
  "release_stages = [''pre_ga'', ''ga'']"

definition validate_release_stage :: "string \<Rightarrow> json \<Rightarrow> unit result" where
  "validate_release_stage schema e = (let hid = entry_id e; stage = obj_value (fields_of e) ''release_stage'' in
     bind_result (if schema = ''1.2.0'' then in_texts stage release_stages else Inr True) (\<lambda>ok.
       if \<not> ok then registry_error (hid @ '': release_stage must be '' @ py_repr ''pre_ga'' @ '' or '' @ py_repr ''ga'')
       else bind_result (if stage \<noteq> JNull then in_texts stage release_stages else Inr True) (\<lambda>ok.
         if \<not> ok then registry_error (hid @ '': invalid release_stage '' @ json_repr stage) else Inr ())))"

text \<open>
  The graph of \<open>_validate_prerequisite_cycles\<close>: ids with their prerequisites. Iterating over \<open>None\<close>, an
  explicit null that schema 1.0.0 lets through, raises.
\<close>

type_synonym prereq_graph = "(string \<times> string list) list"

definition graph_entry :: "json \<Rightarrow> (string \<times> string list) result" where
  "graph_entry e = (case obj_get (fields_of e) ''prerequisites'' of
     None \<Rightarrow> Inr (entry_id e, [])
   | Some (JList vs) \<Rightarrow> Inr (entry_id e, map text_of vs)
   | Some _ \<Rightarrow> Inl (TypeError ''object is not iterable''))"

definition adjacents :: "prereq_graph \<Rightarrow> string \<Rightarrow> string list" where
  "adjacents g n = concat (map (\<lambda>(h, ps). map (\<lambda>_. h) (filter (\<lambda>p. p = n) ps)) g)"

definition start_degree :: "prereq_graph \<Rightarrow> string \<Rightarrow> int" where
  "start_degree g h = (case map_of g h of None \<Rightarrow> 0 | Some ps \<Rightarrow> int (length ps))"

text \<open>The loop body over the neighbours of a popped node, and the loop; \<open>queue.pop()\<close> takes the last one.\<close>

fun lower_degree :: "(string \<Rightarrow> int) \<times> string list \<Rightarrow> string \<Rightarrow> (string \<Rightarrow> int) \<times> string list" where
  "lower_degree (d, queue) h = (let d' = d(h := d h - 1) in
     if d' h = 0 then (d', queue @ [h]) else (d', queue))"

lemma lower_degree_size:
  assumes "foldl lower_degree (d, queue) ts = (d', queue')" and "set ts \<subseteq> U" and "finite U"
  shows "card {x \<in> U. 0 < d' x} + length queue' \<le> card {x \<in> U. 0 < d x} + length queue"
  using assms(1,2)
proof (induction ts arbitrary: d queue)
  case (Cons t ts)
  obtain d1 q1 where s: "lower_degree (d, queue) t = (d1, q1)" by fastforce
  then have d1: "d1 = d(t := d t - 1)" by (auto simp: Let_def split: if_splits)
  have "card {x \<in> U. 0 < d1 x} + length q1 \<le> card {x \<in> U. 0 < d x} + length queue"
  proof (cases "d t = 1")
    case True
    then have "{x \<in> U. 0 < d x} = insert t {x \<in> U. 0 < d1 x}" using Cons.prems(2) d1 by auto
    moreover have "t \<notin> {x \<in> U. 0 < d1 x}" using True d1 by simp
    ultimately show ?thesis using s True \<open>finite U\<close> by auto
  next
    case False
    then have "{x \<in> U. 0 < d1 x} \<subseteq> {x \<in> U. 0 < d x}" using d1 by auto
    then have "card {x \<in> U. 0 < d1 x} \<le> card {x \<in> U. 0 < d x}" using \<open>finite U\<close> by (intro card_mono) auto
    then show ?thesis using s False by auto
  qed
  with Cons.IH [of d1 q1] Cons.prems s show ?case by simp
qed simp

lemma set_adjacents: "set (adjacents g n) = {h. \<exists>ps. (h, ps) \<in> set g \<and> n \<in> set ps}"
  by (force simp: adjacents_def)

function count_sorted :: "prereq_graph \<Rightarrow> (string \<Rightarrow> int) \<Rightarrow> string list \<Rightarrow> nat \<Rightarrow> nat \<times> (string \<Rightarrow> int)" where
  "count_sorted g d queue n =
     (if queue = [] then (n, d)
      else case foldl lower_degree (d, butlast queue) (adjacents g (last queue)) of
        (d', queue') \<Rightarrow> count_sorted g d' queue' (n + 1))"
  by pat_completeness auto

termination count_sorted
proof (relation "measure (\<lambda>(g, d, queue, n). card {x \<in> fst ` set g. 0 < d x} + length queue)", goal_cases)
  case (2 g d queue n d' queue')
  have "set (adjacents g (last queue)) \<subseteq> fst ` set g" by (force simp: set_adjacents)
  then have "card {x \<in> fst ` set g. 0 < d' x} + length queue' \<le> card {x \<in> fst ` set g. 0 < d x} + length (butlast queue)"
    using 2 lower_degree_size [of d "butlast queue" "adjacents g (last queue)" d' queue' "fst ` set g"] by simp
  then show ?case using 2(1) by (cases queue rule: rev_cases) auto
qed simp

declare count_sorted.simps [simp del]

definition validate_graph :: "prereq_graph \<Rightarrow> unit result" where
  "validate_graph g = (let ids = map fst g in
     case count_sorted g (start_degree g) (filter (\<lambda>h. start_degree g h = 0) ids) 0 of
       (n, d) \<Rightarrow> check (n = length ids)
         (''prerequisite graph contains a cycle involving: '' @ repr_list (sort (filter (\<lambda>h. d h \<noteq> 0) ids))))"

definition validate_prerequisite_cycles :: "json list \<Rightarrow> unit result" where
  "validate_prerequisite_cycles es = bind_result (map_result graph_entry es) validate_graph"

section \<open>Counts and the foundation closure\<close>

definition standard_blocker :: "json \<Rightarrow> bool" where
  "standard_blocker e \<longleftrightarrow> truthy (obj_value (fields_of e) ''blocks_release'')
     \<and> obj_value (fields_of e) ''applicability'' = JStr ''standard''"

definition validate_counts :: "(string \<times> json) list \<Rightarrow> json list \<Rightarrow> unit result" where
  "validate_counts data es = (let blockers = map entry_id (filter standard_blocker es) in
     bind_result (check (equals_length (obj_value data ''harness_count'') (length es))
       ''harness_count does not match harnesses length'') (\<lambda>_.
     bind_result (check (equals_length (obj_value data ''catalog_harness_count'') (length es))
       ''catalog_harness_count must equal harness_count'') (\<lambda>_.
     bind_result (check (equals_length (obj_value data ''standard_blocker_count'') (length blockers))
       ''standard_blocker_count does not match computed blockers'') (\<lambda>_.
     check (obj_value data ''standard_blockers'' = JList (map JStr blockers))
       ''standard_blockers list is inconsistent with harness entries''))))"

definition validate_foundation_closure :: "(string \<times> json) list \<Rightarrow> json list \<Rightarrow> string list \<Rightarrow> unit result" where
  "validate_foundation_closure data es all_ids = (case obj_value data ''foundation_closure'' of
     JList (v # vs) \<Rightarrow> (let closure = map json_str (v # vs) in
       bind_result (check (distinct closure) ''foundation_closure contains duplicates'') (\<lambda>_.
       all_checks (\<lambda>h.
         bind_result (check (h \<in> set all_ids) (''foundation_closure references unknown harness '' @ h)) (\<lambda>_.
         check (map_of (rev (map (\<lambda>e. (entry_id e, obj_value (fields_of e) ''status'')) es)) h = Some (JStr ''implemented''))
           (''foundation_closure member is not implemented: '' @ h))) closure))
   | _ \<Rightarrow> registry_error ''foundation_closure missing from registry'')"

definition validate_registry :: "(string \<times> json) list \<Rightarrow> unit result" where
  "validate_registry data = (let schema = obj_value data ''schema_version'' in
     bind_result (in_texts schema [''1.0.0'', ''1.1.0'', ''1.2.0'']) (\<lambda>ok.
     if \<not> ok then registry_error ''registry schema_version must be 1.0.0, 1.1.0, or 1.2.0''
     else case obj_value data ''harnesses'' of
       JList (e # es) \<Rightarrow> bind_result (validate_entries (e # es) []) (\<lambda>seen.
         bind_result (all_checks (\<lambda>h. bind_result (validate_prerequisite_field (text_of schema) seen h)
           (\<lambda>_. validate_release_stage (text_of schema) h)) (e # es)) (\<lambda>_.
         bind_result (validate_prerequisite_cycles (e # es)) (\<lambda>_.
         bind_result (validate_counts data (e # es)) (\<lambda>_.
         validate_foundation_closure data (e # es) seen))))
     | _ \<Rightarrow> registry_error ''registry must contain a non-empty harnesses list''))"

section \<open>Queries\<close>

text \<open>\<open>registry["harnesses"]\<close>, and the comparison \<open>item["id"] == harness_id\<close> of an item\<close>

fun harness_list :: "json option \<Rightarrow> json list result" where
  "harness_list None = Inl (KeyError ''harnesses'')"
| "harness_list (Some (JList es)) = Inr es"
| "harness_list (Some v) = Inl (TypeError ''harnesses is not a list'')"

fun has_id :: "string \<Rightarrow> json \<Rightarrow> bool result" where
  "has_id hid (JObj kvs) = bind_result (dict_get (obj_get kvs) ''id'' ''id'') (\<lambda>v. Inr (v = JStr hid))"
| "has_id hid _ = Inl (TypeError ''item is not a mapping'')"

fun find_harness :: "string \<Rightarrow> json list \<Rightarrow> json result" where
  "find_harness hid [] = registry_error (''unknown harness id: '' @ hid)"
| "find_harness hid (e # es) = bind_result (has_id hid e) (\<lambda>found. if found then Inr e else find_harness hid es)"

definition get_harness :: "(string \<times> json) list \<Rightarrow> string \<Rightarrow> json result" where
  "get_harness registry hid = bind_result (harness_list (obj_get registry ''harnesses'')) (find_harness hid)"

fun foundation_list :: "json \<Rightarrow> string list result" where
  "foundation_list (JList (v # vs)) = Inr (map json_str (v # vs))"
| "foundation_list _ = registry_error ''foundation_closure missing from registry''"

definition foundation_closure :: "(string \<times> json) list \<Rightarrow> string list result" where
  "foundation_closure registry = foundation_list (obj_value registry ''foundation_closure'')"

definition get_prerequisites :: "(string \<times> json) list \<Rightarrow> string \<Rightarrow> string list result" where
  "get_prerequisites registry hid = bind_result (get_harness registry hid) (\<lambda>h.
     case obj_value (fields_of h) ''prerequisites'' of
       JList vs \<Rightarrow> if \<forall>v \<in> set vs. is_text v then Inr (map text_of vs)
         else registry_error (hid @ '': prerequisites are missing or invalid'')
     | raw \<Rightarrow> if raw = JNull \<and> obj_value registry ''schema_version'' = JStr ''1.0.0'' then Inr []
         else registry_error (hid @ '': prerequisites are missing or invalid''))"

definition get_release_stage :: "(string \<times> json) list \<Rightarrow> string \<Rightarrow> string result" where
  "get_release_stage registry hid = bind_result (get_harness registry hid) (\<lambda>h. let
     stage = obj_value (fields_of h) ''release_stage'' in
     bind_result (if stage = JNull then in_texts (obj_value registry ''schema_version'') [''1.0.0'', ''1.1.0''] else Inr False) (\<lambda>old.
       if old then Inr ''pre_ga''
       else bind_result (in_texts stage release_stages) (\<lambda>ok.
         if ok then Inr (json_str stage) else registry_error (hid @ '': release_stage is missing or invalid''))))"

text \<open>
  \<open>dependency_closure\<close>: \<open>visited\<close> always holds the ids of \<open>ordered\<close>, and \<open>visiting\<close> the path from the target.
\<close>

definition registry_ids :: "(string \<times> json) list \<Rightarrow> string set" where
  "registry_ids registry = {h. \<exists>e. get_harness registry h = Inr e}"

lemma find_harness_id: "find_harness hid es = Inr e \<Longrightarrow> e \<in> set es \<and> obj_get (fields_of e) ''id'' = Some (JStr hid)"
proof (induction es)
  case (Cons x es)
  then show ?case by (cases x) (auto simp: bind_result_eq_Inr dict_get_Inr split: if_splits)
qed (simp add: registry_error_def)

lemma finite_registry_ids: "finite (registry_ids registry)"
proof -
  let ?ids = "case harness_list (obj_get registry ''harnesses'') of Inl _ \<Rightarrow> {}
    | Inr es \<Rightarrow> {h. \<exists>e \<in> set es. obj_get (fields_of e) ''id'' = Some (JStr h)}"
  have "registry_ids registry \<subseteq> ?ids"
    by (auto simp: registry_ids_def get_harness_def bind_result_eq_Inr dest!: find_harness_id)
  moreover have "finite {h. \<exists>e \<in> set es. obj_get (fields_of e) ''id'' = Some (JStr h)}" for es :: "json list"
  proof -
    have "{h. \<exists>e \<in> set es. obj_get (fields_of e) ''id'' = Some (JStr h)}
        \<subseteq> (\<lambda>e. text_of (the (obj_get (fields_of e) ''id''))) ` set es" by (auto intro: rev_image_eqI)
    then show ?thesis by (rule finite_subset) simp
  qed
  ultimately show ?thesis by (auto intro: finite_subset split: sum.splits)
qed

function visit :: "(string \<times> json) list \<Rightarrow> string list \<Rightarrow> string \<Rightarrow> string list \<Rightarrow> string list result"
  and visits :: "(string \<times> json) list \<Rightarrow> string list \<Rightarrow> string list \<Rightarrow> string list \<Rightarrow> string list result" where
  "visit registry visiting hid ordered =
     (if hid \<in> set ordered then Inr ordered
      else if hid \<in> set visiting then registry_error (''prerequisite graph contains a cycle at '' @ hid)
      else bind_result (get_harness registry hid) (\<lambda>h.
        let st = obj_value (fields_of h) ''status'' in
        if st \<noteq> JStr ''implemented'' then registry_error (hid @ '': status='' @ json_repr st
          @ ''; dependency closure requires implemented harnesses'')
        else bind_result (get_prerequisites registry hid) (\<lambda>ps.
          bind_result (visits registry (hid # visiting) ps ordered) (\<lambda>done_ids. Inr (done_ids @ [hid])))))"
| "visits registry visiting [] ordered = Inr ordered"
| "visits registry visiting (p # ps) ordered =
     bind_result (visit registry visiting p ordered) (\<lambda>ordered'. visits registry visiting ps ordered')"
  by pat_completeness auto

termination
proof (relation "inv_image (less_than <*lex*> less_than)
    (\<lambda>x. case x of Inl (registry, visiting, hid, ordered) \<Rightarrow> (card (registry_ids registry - set visiting), 0)
      | Inr (registry, visiting, ps, ordered) \<Rightarrow> (card (registry_ids registry - set visiting), Suc (length ps)))", goal_cases)
  case (2 registry visiting hid ordered h st ps)
  then have "hid \<in> registry_ids registry - set visiting" by (auto simp: registry_ids_def)
  then have "card (registry_ids registry - set visiting - {hid}) < card (registry_ids registry - set visiting)"
    using finite_registry_ids by (intro card_Diff1_less) auto
  moreover have "registry_ids registry - set (hid # visiting) = registry_ids registry - set visiting - {hid}" by auto
  ultimately show ?case by simp
qed auto

declare visit.simps [simp del]

definition dependency_closure :: "(string \<times> json) list \<Rightarrow> string \<Rightarrow> string list result" where
  "dependency_closure registry target_id = visit registry [] target_id []"

end
