(* ===== verification/Harness_Props.thy ===== *)
theory Harness_Props
  imports Harness_Registry
begin

text \<open>
  A validated registry: the counting loop accepts a prerequisite graph exactly when it is acyclic, and on
  a validated registry the dependency closure is complete, ordered and total.
\<close>

section \<open>The counting loop accepts acyclic graphs\<close>

definition prereq_rel :: "prereq_graph \<Rightarrow> (string \<times> string) set" where
  "prereq_rel g = {(p, h). \<exists>ps. (h, ps) \<in> set g \<and> p \<in> set ps}"

definition graph_wf :: "prereq_graph \<Rightarrow> bool" where
  "graph_wf g \<longleftrightarrow> distinct (map fst g) \<and> (\<forall>(h, ps) \<in> set g. distinct ps \<and> set ps \<subseteq> fst ` set g)"

lemma prereq_rel_image: "set (adjacents g n) = prereq_rel g `` {n}"
  by (auto simp: set_adjacents prereq_rel_def)

lemma prereq_rel_nodes: "graph_wf g \<Longrightarrow> (p, h) \<in> prereq_rel g \<Longrightarrow> p \<in> fst ` set g \<and> h \<in> fst ` set g"
  by (force simp: graph_wf_def prereq_rel_def)

lemma finite_prereq_rel: "finite (prereq_rel g)"
proof -
  have "prereq_rel g \<subseteq> (\<Union>(h, ps) \<in> set g. set ps \<times> {h})" by (force simp: prereq_rel_def)
  then show ?thesis by (rule finite_subset) auto
qed

lemma adjacents_once:
  assumes "\<forall>(h, ps) \<in> set g. distinct ps"
  shows "adjacents g n = map fst (filter (\<lambda>(h, ps). n \<in> set ps) g)"
proof -
  have once: "map (\<lambda>_. h) (filter (\<lambda>p. p = n) ps) = (if n \<in> set ps then [h] else [])" if "distinct ps" for h :: string and ps
    using that by (induction ps) (auto simp: filter_empty_conv)
  show ?thesis using assms by (induction g) (auto simp: adjacents_def once filter_empty_conv)
qed

lemma distinct_adjacents: "graph_wf g \<Longrightarrow> distinct (adjacents g n)"
  by (subst adjacents_once) (auto simp: graph_wf_def intro: distinct_map_filter)

lemma foldl_lower_degree:
  assumes "foldl lower_degree (d, queue) ts = (d', queue')" and "distinct ts"
  shows "d' = (\<lambda>x. if x \<in> set ts then d x - 1 else d x) \<and> queue' = queue @ filter (\<lambda>t. d t = 1) ts"
  using assms
proof (induction ts arbitrary: d queue)
  case (Cons t ts)
  define q1 where "q1 = (if d t = 1 then queue @ [t] else queue)"
  have "foldl lower_degree (d(t := d t - 1), q1) ts = (d', queue')"
    using Cons.prems(1) by (auto simp: q1_def Let_def split: if_splits)
  note ih = Cons.IH [OF this]
  have "filter (\<lambda>x. (d(t := d t - 1)) x = 1) ts = filter (\<lambda>x. d x = 1) ts"
    using Cons.prems(2) by (intro filter_cong) auto
  then show ?case using ih Cons.prems(2) by (auto simp: q1_def)
qed simp

text \<open>
  The invariant of the loop: \<open>popped\<close> is the set the counter counts, closed under prerequisites and free
  of cycles; a degree counts the prerequisites that are not popped.
\<close>

definition count_inv :: "prereq_graph \<Rightarrow> (string \<Rightarrow> int) \<Rightarrow> string list \<Rightarrow> string set \<Rightarrow> bool" where
  "count_inv g d queue popped \<longleftrightarrow> distinct queue \<and> set queue \<inter> popped = {} \<and> set queue \<union> popped \<subseteq> fst ` set g
     \<and> (\<forall>x \<in> fst ` set g. d x = int (card {p. (p, x) \<in> prereq_rel g \<and> p \<notin> popped}))
     \<and> (\<forall>x \<in> fst ` set g. d x = 0 \<longleftrightarrow> x \<in> set queue \<union> popped)
     \<and> (\<forall>x \<in> popped. \<forall>p. (p, x) \<in> prereq_rel g \<longrightarrow> p \<in> popped)
     \<and> acyclic (prereq_rel g \<inter> popped \<times> popped)"

lemma finite_preds: "finite {p. (p, x) \<in> prereq_rel g \<and> Q p}"
proof -
  have "{p. (p, x) \<in> prereq_rel g \<and> Q p} \<subseteq> fst ` prereq_rel g" by force
  then show ?thesis using finite_prereq_rel by (rule finite_subset [OF _ finite_imageI])
qed

lemma acyclic_new_sink:
  assumes "acyclic R" and "\<And>a b. (a, b) \<in> S \<Longrightarrow> b = q" and "\<And>b. (q, b) \<notin> R \<union> S"
  shows "acyclic (R \<union> S)"
proof (rule acyclicI, clarify)
  fix x assume x: "(x, x) \<in> (R \<union> S)\<^sup>+"
  have "b \<noteq> q \<Longrightarrow> (a, b) \<in> R\<^sup>+" if "(a, b) \<in> (R \<union> S)\<^sup>+" for a b
    using that
  proof (induction rule: trancl_induct)
    case (base y)
    then show ?case using assms(2) by blast
  next
    case (step y z)
    then have "y \<noteq> q" "(y, z) \<in> R" using assms(2,3) by blast+
    with step.IH show ?case by (auto intro: trancl_into_trancl)
  qed
  moreover have "x \<noteq> q" using x assms(3) by (meson tranclD)
  ultimately show False using x assms(1) by (auto simp: acyclic_def)
qed

lemma count_inv_step:
  assumes wf: "graph_wf g" and inv: "count_inv g d (queue @ [n]) popped"
    and step: "foldl lower_degree (d, queue) (adjacents g n) = (d', queue')"
  shows "count_inv g d' queue' (insert n popped)"
proof -
  let ?N = "fst ` set g" and ?E = "prereq_rel g" and ?T = "adjacents g n"
  from inv have dist: "distinct (queue @ [n])" "set (queue @ [n]) \<inter> popped = {}" and sub: "set (queue @ [n]) \<union> popped \<subseteq> ?N"
    and dx: "\<And>x. x \<in> ?N \<Longrightarrow> d x = int (card {p. (p, x) \<in> ?E \<and> p \<notin> popped})"
    and zero: "\<And>x. x \<in> ?N \<Longrightarrow> d x = 0 \<longleftrightarrow> x \<in> set (queue @ [n]) \<union> popped"
    and closed: "\<And>x p. x \<in> popped \<Longrightarrow> (p, x) \<in> ?E \<Longrightarrow> p \<in> popped"
    and acyc: "acyclic (?E \<inter> popped \<times> popped)"
    unfolding count_inv_def by blast+
  have n: "n \<in> ?N" "n \<notin> popped" "n \<notin> set queue" using dist sub by auto
  have d': "d' = (\<lambda>x. if x \<in> set ?T then d x - 1 else d x)" and q': "queue' = queue @ filter (\<lambda>t. d t = 1) ?T"
    using foldl_lower_degree [OF step distinct_adjacents [OF wf]] by simp_all
  have TN: "x \<in> ?N" "(n, x) \<in> ?E" if "x \<in> set ?T" for x
    using that prereq_rel_nodes [OF wf] by (auto simp: prereq_rel_image)
  have pos: "0 < d x" if "x \<in> set ?T" for x
  proof -
    have "n \<in> {p. (p, x) \<in> ?E \<and> p \<notin> popped}" using TN [OF that] n by simp
    then have "0 < card {p. (p, x) \<in> ?E \<and> p \<notin> popped}" using finite_preds by (subst card_gt_0_iff) auto
    then show ?thesis using dx TN that by simp
  qed
  have deg: "d' x = int (card {p. (p, x) \<in> ?E \<and> p \<notin> insert n popped})" if x: "x \<in> ?N" for x
  proof (cases "x \<in> set ?T")
    case True
    have "{p. (p, x) \<in> ?E \<and> p \<notin> popped} = insert n {p. (p, x) \<in> ?E \<and> p \<notin> insert n popped}"
      using TN [OF True] n by auto
    then have "card {p. (p, x) \<in> ?E \<and> p \<notin> popped} = Suc (card {p. (p, x) \<in> ?E \<and> p \<notin> insert n popped})"
      using finite_preds by simp
    then show ?thesis using True d' dx [OF x] by simp
  next
    case False
    then have "{p. (p, x) \<in> ?E \<and> p \<notin> popped} = {p. (p, x) \<in> ?E \<and> p \<notin> insert n popped}"
      by (auto simp: prereq_rel_image)
    then show ?thesis using False d' dx [OF x] by simp
  qed
  have preds: "p \<in> popped" if "(p, n) \<in> ?E" for p
  proof -
    have "card {p. (p, n) \<in> ?E \<and> p \<notin> popped} = 0" using dx [OF n(1)] zero [OF n(1)] by simp
    then show ?thesis using that finite_preds by (auto simp: card_eq_0_iff)
  qed
  have "acyclic ((?E \<inter> popped \<times> popped) \<union> (?E \<inter> popped \<times> {n}))"
    using acyc n(2) closed by (intro acyclic_new_sink [where q = n]) auto
  moreover have "?E \<inter> insert n popped \<times> insert n popped = (?E \<inter> popped \<times> popped) \<union> (?E \<inter> popped \<times> {n})"
    using preds closed n(2) by auto
  ultimately have acyc': "acyclic (?E \<inter> insert n popped \<times> insert n popped)" by simp
  have new: "t \<notin> set queue \<union> insert n popped" if "d t = 1" for t
  proof
    assume "t \<in> set queue \<union> insert n popped"
    moreover from this have "t \<in> ?N" using sub by auto
    ultimately have "d t = 0" using zero [of t] by auto
    with that show False by simp
  qed
  have dist': "distinct queue'" "set queue' \<inter> insert n popped = {}"
    using dist n new distinct_adjacents [OF wf, of n] by (auto simp: q')
  have zero': "d' x = 0 \<longleftrightarrow> x \<in> set queue' \<union> insert n popped" if "x \<in> ?N" for x
  proof (cases "x \<in> set ?T")
    case True
    then have "x \<notin> set (queue @ [n]) \<union> popped" using zero [OF that] pos [OF True] by simp
    then show ?thesis using True by (auto simp: d' q')
  next
    case False
    then show ?thesis using zero [OF that] by (auto simp: d' q')
  qed
  show ?thesis
    unfolding count_inv_def
  proof (intro conjI ballI allI impI)
    show "set queue' \<union> insert n popped \<subseteq> ?N" using sub TN(1) by (auto simp: q')
    show "p \<in> insert n popped" if "x \<in> insert n popped" "(p, x) \<in> ?E" for x p
      using that preds closed by blast
  qed (use dist' zero' deg acyc' in simp_all)
qed

lemma count_sorted_spec:
  assumes "graph_wf g" and "count_inv g d queue popped"
  shows "\<exists>popped'. fst (count_sorted g d queue (card popped)) = card popped'
    \<and> count_inv g (snd (count_sorted g d queue (card popped))) [] popped'"
  using assms
proof (induction g d queue "card popped" arbitrary: popped rule: count_sorted.induct)
  case (1 g d queue)
  show ?case
  proof (cases "queue = []")
    case True
    then show ?thesis using 1(3) by (subst (1 2) count_sorted.simps) auto
  next
    case False
    let ?n = "last queue"
    obtain d' queue' where s: "foldl lower_degree (d, butlast queue) (adjacents g ?n) = (d', queue')" by fastforce
    have inv: "count_inv g d' queue' (insert ?n popped)"
      using count_inv_step [OF 1(2) _ s] 1(3) False by simp
    have "set queue \<inter> popped = {}" "popped \<subseteq> fst ` set g" using 1(3) unfolding count_inv_def by blast+
    then have "?n \<notin> popped" "finite popped" using last_in_set [OF False] finite_subset by blast+
    then have "card (insert ?n popped) = card popped + 1" by simp
    then show ?thesis
      using 1(1) [OF False s [symmetric], of "insert ?n popped"] 1(2) inv False s
      by (subst (1 2) count_sorted.simps) simp
  qed
qed

lemma count_inv_start:
  assumes "graph_wf g"
  shows "count_inv g (start_degree g) (filter (\<lambda>h. start_degree g h = 0) (map fst g)) {}"
proof -
  have "start_degree g h = int (card {p. (p, h) \<in> prereq_rel g})" if h: "h \<in> fst ` set g" for h
  proof -
    obtain ps where ps: "map_of g h = Some ps" "(h, ps) \<in> set g"
      using h assms by (auto simp: graph_wf_def)
    have "{p. (p, h) \<in> prereq_rel g} = set ps"
      using ps(2) assms by (auto simp: prereq_rel_def graph_wf_def dest: eq_key_imp_eq_value)
    moreover have "distinct ps" using ps(2) assms by (auto simp: graph_wf_def)
    ultimately show ?thesis by (simp add: start_degree_def ps distinct_card)
  qed
  then show ?thesis using assms by (auto simp: count_inv_def graph_wf_def acyclic_def)
qed

lemma graph_accepted_iff_acyclic:
  assumes "graph_wf g"
  shows "validate_graph g = Inr () \<longleftrightarrow> acyclic (prereq_rel g)"
proof -
  let ?r = "count_sorted g (start_degree g) (filter (\<lambda>h. start_degree g h = 0) (map fst g)) 0"
  obtain popped where n: "fst ?r = card popped" and inv: "count_inv g (snd ?r) [] popped"
    using count_sorted_spec [OF assms count_inv_start [OF assms]] by auto
  let ?N = "fst ` set g" and ?E = "prereq_rel g"
  have sub: "popped \<subseteq> ?N" using inv by (simp add: count_inv_def)
  have len: "length g = card ?N" using assms distinct_card [of "map fst g"] by (simp add: graph_wf_def)
  have "validate_graph g = Inr () \<longleftrightarrow> card popped = card ?N"
    using n len by (simp add: validate_graph_def Let_def case_prod_beta check_def registry_error_def)
  also have "\<dots> \<longleftrightarrow> popped = ?N" using sub by (metis List.finite_set card_subset_eq finite_imageI)
  also have "\<dots> \<longleftrightarrow> acyclic ?E"
  proof
    assume "popped = ?N"
    moreover have "?E \<inter> ?N \<times> ?N = ?E" using prereq_rel_nodes [OF assms] by auto
    ultimately show "acyclic ?E" using inv by (simp add: count_inv_def)
  next
    assume acyc: "acyclic ?E"
    show "popped = ?N"
    proof (rule ccontr)
      assume "popped \<noteq> ?N"
      with sub obtain x where "x \<in> ?N - popped" by blast
      moreover have "wf ?E" using acyc finite_prereq_rel by (simp add: finite_acyclic_wf)
      ultimately obtain z where z: "z \<in> ?N - popped" "\<And>p. (p, z) \<in> ?E \<Longrightarrow> p \<notin> ?N - popped"
        by (metis wfE_min)
      then have "{p. (p, z) \<in> ?E \<and> p \<notin> popped} = {}" using prereq_rel_nodes [OF assms] by blast
      then have "card {p. (p, z) \<in> ?E \<and> p \<notin> popped} = 0" by (simp only: card.empty)
      moreover have "snd ?r z = int (card {p. (p, z) \<in> ?E \<and> p \<notin> popped})" "snd ?r z = 0 \<longleftrightarrow> z \<in> set [] \<union> popped"
        using inv z(1) unfolding count_inv_def by blast+
      ultimately show False using z(1) by simp
    qed
  qed
  finally show ?thesis .
qed

section \<open>The dependency closure\<close>

definition dep_rel :: "(string \<times> json) list \<Rightarrow> (string \<times> string) set" where
  "dep_rel registry = {(h, p). \<exists>ps. get_prerequisites registry h = Inr ps \<and> p \<in> set ps}"

definition implemented :: "(string \<times> json) list \<Rightarrow> string \<Rightarrow> bool" where
  "implemented registry h \<longleftrightarrow> (\<exists>e. get_harness registry h = Inr e \<and> obj_value (fields_of e) ''status'' = JStr ''implemented'')"

text \<open>Every id comes after its prerequisites.\<close>

definition topological :: "(string \<times> json) list \<Rightarrow> string list \<Rightarrow> bool" where
  "topological registry ids \<longleftrightarrow> (\<forall>i < length ids. dep_rel registry `` {ids ! i} \<subseteq> set (take i ids))"

lemma topological_snoc:
  "topological registry (ids @ [h]) \<longleftrightarrow> topological registry ids \<and> dep_rel registry `` {h} \<subseteq> set ids"
  by (auto simp: topological_def nth_append less_Suc_eq)

lemma topological_closed:
  assumes "topological registry ids"
  shows "(dep_rel registry)\<^sup>* `` set ids = set ids"
proof -
  have "dep_rel registry `` set ids \<subseteq> set ids"
  proof clarify
    fix h p assume "h \<in> set ids" "(h, p) \<in> dep_rel registry"
    then obtain i where "i < length ids" "ids ! i = h" by (auto simp: in_set_conv_nth)
    with assms \<open>(h, p) \<in> dep_rel registry\<close> have "p \<in> set (take i ids)" by (auto simp: topological_def)
    then show "p \<in> set ids" by (rule in_set_takeD)
  qed
  then show ?thesis by (rule Image_closed_trancl)
qed

lemma closure_unfold: "R\<^sup>* `` {h} = insert h (R\<^sup>* `` (R `` {h}))"
  by (auto intro: converse_rtrancl_into_rtrancl elim: converse_rtranclE)

definition closure_ok :: "(string \<times> json) list \<Rightarrow> string list \<Rightarrow> string list \<Rightarrow> bool" where
  "closure_ok registry visiting ids \<longleftrightarrow> topological registry ids \<and> distinct ids \<and> set ids \<inter> set visiting = {}
     \<and> (\<forall>h \<in> set ids. implemented registry h)"

lemma visit_spec:
  "visit registry visiting hid ids = Inr ids' \<Longrightarrow> closure_ok registry visiting ids \<Longrightarrow>
     closure_ok registry visiting ids' \<and> set ids' = set ids \<union> (dep_rel registry)\<^sup>* `` {hid}
     \<and> (hid \<notin> set ids \<longrightarrow> ids' \<noteq> [] \<and> last ids' = hid)"
  "visits registry visiting ps ids = Inr ids' \<Longrightarrow> closure_ok registry visiting ids \<Longrightarrow>
     closure_ok registry visiting ids' \<and> set ids' = set ids \<union> (dep_rel registry)\<^sup>* `` set ps"
proof (induction registry visiting hid ids and registry visiting ps ids arbitrary: ids' and ids' rule: visit_visits.induct)
  case (1 registry visiting hid ids)
  let ?D = "dep_rel registry"
  show ?case
  proof (cases "hid \<in> set ids")
    case True
    then have "?D\<^sup>* `` {hid} \<subseteq> set ids"
      using topological_closed [of registry ids] "1.prems"(2) by (auto simp: closure_ok_def)
    with True "1.prems" show ?thesis by (auto simp: visit.simps)
  next
    case new: False
    then obtain e ps ids1 where v: "hid \<notin> set visiting" and e: "get_harness registry hid = Inr e"
      and st: "obj_value (fields_of e) ''status'' = JStr ''implemented''"
      and ps: "get_prerequisites registry hid = Inr ps"
      and rec: "visits registry (hid # visiting) ps ids = Inr ids1" and ids': "ids' = ids1 @ [hid]"
      using "1.prems"(1) by (subst (asm) visit.simps)
        (auto simp: registry_error_def Let_def bind_result_eq_Inr split: if_splits)
    have "closure_ok registry (hid # visiting) ids" using "1.prems"(2) new by (auto simp: closure_ok_def)
    then have ih: "closure_ok registry (hid # visiting) ids1" "set ids1 = set ids \<union> ?D\<^sup>* `` set ps"
      using "1.IH" [OF new v e refl _ ps rec] st by simp_all
    have dep: "?D `` {hid} = set ps" using ps by (auto simp: dep_rel_def)
    have "implemented registry hid" using e st by (auto simp: implemented_def)
    moreover have "set ps \<subseteq> set ids1" using ih(2) by auto
    ultimately have "closure_ok registry visiting ids'"
      using ih(1) dep v by (auto simp: closure_ok_def ids' topological_snoc)
    then show ?thesis using ih(2) closure_unfold [of ?D hid] by (auto simp: ids' dep)
  qed
next
  case (2 registry visiting ids)
  then show ?case by simp
next
  case (3 registry visiting p ps ids)
  then obtain ids1 where a: "visit registry visiting p ids = Inr ids1" "visits registry visiting ps ids1 = Inr ids'"
    by (auto simp: bind_result_eq_Inr)
  then show ?case using "3.IH"(1) [OF a(1) "3.prems"(2)] "3.IH"(2) [OF a] by auto
qed

definition status_error :: "(string \<times> json) list \<Rightarrow> string \<Rightarrow> exn" where
  "status_error registry h = HarnessRegistryError (h @ '': status=''
     @ json_repr (case get_harness registry h of Inl _ \<Rightarrow> JNull | Inr e \<Rightarrow> obj_value (fields_of e) ''status'')
     @ ''; dependency closure requires implemented harnesses'')"

text \<open>On an acyclic graph of known harnesses the only error is a harness that is not implemented.\<close>

definition known_below :: "(string \<times> json) list \<Rightarrow> string set \<Rightarrow> bool" where
  "known_below registry hs \<longleftrightarrow> (\<forall>h \<in> (dep_rel registry)\<^sup>* `` hs. \<exists>ps. get_prerequisites registry h = Inr ps)"

lemma visit_error:
  "visit registry visiting hid ids = Inl err \<Longrightarrow> acyclic (dep_rel registry) \<Longrightarrow> known_below registry {hid} \<Longrightarrow>
     \<forall>v \<in> set visiting. (v, hid) \<in> (dep_rel registry)\<^sup>+ \<Longrightarrow>
     \<exists>h \<in> (dep_rel registry)\<^sup>* `` {hid}. \<not> implemented registry h \<and> err = status_error registry h"
  "visits registry visiting ps ids = Inl err \<Longrightarrow> acyclic (dep_rel registry) \<Longrightarrow> known_below registry (set ps) \<Longrightarrow>
     \<forall>v \<in> set visiting. \<forall>p \<in> set ps. (v, p) \<in> (dep_rel registry)\<^sup>+ \<Longrightarrow>
     \<exists>h \<in> (dep_rel registry)\<^sup>* `` set ps. \<not> implemented registry h \<and> err = status_error registry h"
proof (induction registry visiting hid ids and registry visiting ps ids arbitrary: err and err rule: visit_visits.induct)
  case (1 registry visiting hid ids)
  let ?D = "dep_rel registry"
  have new: "hid \<notin> set ids" using "1.prems"(1) by (subst (asm) visit.simps) (auto split: if_splits)
  have v: "hid \<notin> set visiting" using "1.prems"(2,4) by (auto simp: acyclic_def)
  obtain ps where ps: "get_prerequisites registry hid = Inr ps"
    using "1.prems"(3) by (auto simp: known_below_def)
  then obtain e where e: "get_harness registry hid = Inr e" by (auto simp: get_prerequisites_def bind_result_eq_Inr)
  have dep: "?D `` {hid} = set ps" using ps by (auto simp: dep_rel_def)
  show ?case
  proof (cases "obj_value (fields_of e) ''status'' = JStr ''implemented''")
    case True
    then have rec: "visits registry (hid # visiting) ps ids = Inl err"
      using "1.prems"(1) new v e ps by (subst (asm) visit.simps) (auto simp: bind_result_eq_Inl)
    have "known_below registry (set ps)"
      using "1.prems"(3) closure_unfold [of ?D hid] unfolding known_below_def dep by auto
    moreover have "\<forall>v \<in> set (hid # visiting). \<forall>p \<in> set ps. (v, p) \<in> ?D\<^sup>+"
      using "1.prems"(4) dep by (auto intro: trancl_into_trancl)
    ultimately have "\<exists>h \<in> ?D\<^sup>* `` set ps. \<not> implemented registry h \<and> err = status_error registry h"
      using "1.IH" [OF new v e refl _ ps rec "1.prems"(2)] True by simp
    then show ?thesis using closure_unfold [of ?D hid] unfolding dep by auto
  next
    case False
    then have "err = status_error registry hid"
      using "1.prems"(1) new v e by (subst (asm) visit.simps) (simp add: registry_error_def status_error_def)
    moreover have "\<not> implemented registry hid" using e False by (simp add: implemented_def)
    ultimately have "err = status_error registry hid" "\<not> implemented registry hid" by simp_all
    then show ?thesis by auto
  qed
next
  case (2 registry visiting ids)
  then show ?case by simp
next
  case (3 registry visiting p ps ids)
  have kn: "known_below registry {p}" "known_below registry (set ps)"
    using "3.prems"(3) by (auto simp: known_below_def)
  show ?case
  proof (cases "visit registry visiting p ids")
    case (Inl a)
    then have "a = err" using "3.prems"(1) by simp
    with Inl "3.IH"(1) [of a] kn "3.prems"(2,4) show ?thesis by auto
  next
    case (Inr ids1)
    with "3.IH"(2) [of ids1 err] kn "3.prems" show ?thesis by auto
  qed
qed

section \<open>Validated registries\<close>

definition entries_of :: "(string \<times> json) list \<Rightarrow> json list" where
  "entries_of data = (case obj_value data ''harnesses'' of JList es \<Rightarrow> es | _ \<Rightarrow> [])"

text \<open>The text of a number is never an identity.\<close>

definition float_texts_ok :: "(string \<times> json) list \<Rightarrow> bool" where
  "float_texts_ok data \<longleftrightarrow> (\<forall>e \<in> set (entries_of data). \<forall>r. obj_get (fields_of e) ''id'' = Some (JFloat r) \<longrightarrow> \<not> harness_id_ok r)"

lemma check_Inr [simp]: "check b msg = Inr u \<longleftrightarrow> b"
  by (simp add: check_def registry_error_def)

lemma all_checks_Inr: "all_checks f xs = Inr u \<longleftrightarrow> (\<forall>x \<in> set xs. f x = Inr ())"
  by (induction xs) (auto simp: bind_result_eq_Inr)

lemma not_harness_id:
  "\<not> harness_id_ok (json_repr JNull)" "\<not> harness_id_ok (json_repr (JBool b))" "\<not> harness_id_ok (json_repr (JInt i))"
  "\<not> harness_id_ok (json_repr (JList vs))" "\<not> harness_id_ok (json_repr (JObj kvs))"
proof -
  have w [simp]: "\<not> harness_id_ok (c # s)" if "c \<noteq> CHR ''W''" for c s
    using that by (auto simp: harness_id_ok_def starts_with_def)
  have d: "\<not> harness_id_ok (str_nat n)" for n
  proof (cases "str_nat n")
    case (Cons c s)
    then have "is_digit c" using str_nat_digits [of n] by simp
    then have "c \<noteq> CHR ''W''" by (auto simp: is_digit_def)
    then show ?thesis using Cons by simp
  qed simp
  show "\<not> harness_id_ok (json_repr JNull)" "\<not> harness_id_ok (json_repr (JBool b))" "\<not> harness_id_ok (json_repr (JInt i))"
    "\<not> harness_id_ok (json_repr (JList vs))" "\<not> harness_id_ok (json_repr (JObj kvs))"
    using d by (simp_all add: str_int_def)
qed

lemma validate_entry_Inr:
  assumes "validate_entry e seen = Inr hid"
    and "\<And>r. obj_get (fields_of e) ''id'' = Some (JFloat r) \<Longrightarrow> \<not> harness_id_ok r"
  shows "hid = entry_id e \<and> hid \<notin> set seen \<and> (\<exists>kvs. e = JObj kvs) \<and> obj_get (fields_of e) ''id'' = Some (JStr hid)"
proof -
  have "missing_field has (Inl x) = Inr kvs \<Longrightarrow> False" for has x and kvs :: "(string \<times> json) list"
    by (simp add: missing_field_def registry_error_def split: option.splits)
  then obtain kvs where kvs: "e = JObj kvs" and some: "obj_get kvs ''id'' \<noteq> None"
    and hid: "hid = json_str (obj_value kvs ''id'')" "harness_id_ok hid" "hid \<notin> set seen"
    using assms(1)
    by (cases e) (auto simp: validate_entry_def Let_def bind_result_eq_Inr missing_field_def registry_error_def
        required_fields_def split: option.splits if_splits)
  from some obtain v where v: "obj_get kvs ''id'' = Some v" by blast
  then have "v = JStr hid"
    using hid assms(2) not_harness_id kvs by (cases v) (auto simp: obj_value_def)
  then show ?thesis using v kvs hid by (simp add: entry_id_def obj_value_def)
qed

lemma validate_entries_Inr:
  assumes "validate_entries es seen = Inr ids" and "distinct seen"
    and "\<forall>e \<in> set es. \<forall>r. obj_get (fields_of e) ''id'' = Some (JFloat r) \<longrightarrow> \<not> harness_id_ok r"
  shows "ids = seen @ map entry_id es \<and> distinct ids
    \<and> (\<forall>e \<in> set es. (\<exists>kvs. e = JObj kvs) \<and> obj_get (fields_of e) ''id'' = Some (JStr (entry_id e)))"
  using assms
proof (induction es arbitrary: seen)
  case (Cons e es)
  from Cons.prems(1) obtain hid where v: "validate_entry e seen = Inr hid" "validate_entries es (seen @ [hid]) = Inr ids"
    by (auto simp: bind_result_eq_Inr)
  have h: "hid = entry_id e" "hid \<notin> set seen" "\<exists>kvs. e = JObj kvs" "obj_get (fields_of e) ''id'' = Some (JStr hid)"
    using validate_entry_Inr [OF v(1)] Cons.prems(3) by auto
  show ?case using Cons.IH [OF v(2)] Cons.prems(2,3) h by (auto simp: disjoint_iff)
qed simp

lemma find_harness_entry:
  assumes "\<forall>e \<in> set es. (\<exists>kvs. e = JObj kvs) \<and> obj_get (fields_of e) ''id'' = Some (JStr (entry_id e))"
    and "distinct (map entry_id es)" and "e \<in> set es"
  shows "find_harness (entry_id e) es = Inr e"
  using assms
proof (induction es)
  case (Cons x es)
  then obtain kvs where x: "x = JObj kvs" "obj_get kvs ''id'' = Some (JStr (entry_id x))" by force
  then have "has_id (entry_id e) x = Inr (entry_id x = entry_id e)" by (simp add: dict_get_def)
  with Cons show ?case by (auto simp: image_iff)
qed simp

text \<open>The graph that was validated is the one the queries read.\<close>

lemma validated_graph:
  assumes "validate_registry data = Inr ()" and "float_texts_ok data"
  obtains g where "graph_wf g" and "acyclic (prereq_rel g)"
    and "\<And>h ps. get_prerequisites data h = Inr ps \<longleftrightarrow> (h, ps) \<in> set g"
    and "\<And>h e. get_harness data h = Inr e \<Longrightarrow> h \<in> fst ` set g"
proof -
  let ?schema = "obj_value data ''schema_version''"
  obtain e0 es0 where es0: "obj_value data ''harnesses'' = JList (e0 # es0)"
    using assms(1) by (auto simp: validate_registry_def Let_def bind_result_eq_Inr registry_error_def
        split: if_splits json.splits list.splits)
  define es where "es = e0 # es0"
  have es: "obj_get data ''harnesses'' = Some (JList es)" "entries_of data = es"
    using es0 by (auto simp: obj_value_def es_def entries_of_def split: option.splits)
  obtain seen g where schema: "in_texts ?schema [''1.0.0'', ''1.1.0'', ''1.2.0''] = Inr True"
    and entries: "validate_entries es [] = Inr seen"
    and fields: "\<forall>h \<in> set es. validate_prerequisite_field (text_of ?schema) seen h = Inr ()"
    and g: "map_result graph_entry es = Inr g" and ok: "validate_graph g = Inr ()"
    using assms(1) es0 unfolding es_def [symmetric]
    by (auto simp: validate_registry_def Let_def bind_result_eq_Inr registry_error_def all_checks_Inr es_def
        validate_prerequisite_cycles_def split: if_splits)
  have ids: "seen = map entry_id es" "distinct (map entry_id es)"
    "\<forall>e \<in> set es. (\<exists>kvs. e = JObj kvs) \<and> obj_get (fields_of e) ''id'' = Some (JStr (entry_id e))"
    using validate_entries_Inr [OF entries] assms(2) by (auto simp: float_texts_ok_def es(2))
  have all2: "list_all2 (\<lambda>e x. graph_entry e = Inr x) es g" using g by (simp add: map_result_Inr)
  have node: "\<exists>ps. graph_entry e = Inr (entry_id e, ps) \<and> get_prerequisites data (entry_id e) = Inr ps
      \<and> distinct ps \<and> set ps \<subseteq> set seen" if e: "e \<in> set es" for e
  proof -
    obtain i where "i < length es" "es ! i = e" using e by (auto simp: in_set_conv_nth)
    then have x: "graph_entry e = Inr (g ! i)" using list_all2_nthD [OF all2] by auto
    have h: "get_harness data (entry_id e) = Inr e"
      using find_harness_entry [OF ids(3,2) e] es(1) by (simp add: get_harness_def)
    have f: "validate_prerequisite_field (text_of ?schema) seen e = Inr ()" using fields e by blast
    show ?thesis
    proof (cases "obj_get (fields_of e) ''prerequisites''")
      case None
      then have v: "obj_value (fields_of e) ''prerequisites'' = JNull" by (simp add: obj_value_def)
      then have "text_of ?schema = ''1.0.0''"
        using f by (auto simp: validate_prerequisite_field_def Let_def registry_error_def split: if_splits)
      then have "?schema = JStr ''1.0.0''" by (cases ?schema) simp_all
      then show ?thesis using None v h by (simp add: graph_entry_def get_prerequisites_def)
    next
      case (Some v)
      then obtain vs where vs: "v = JList vs" using x by (cases v) (simp_all add: graph_entry_def)
      then have ov: "obj_value (fields_of e) ''prerequisites'' = JList vs" using Some by (simp add: obj_value_def)
      then have t: "\<forall>v \<in> set vs. is_text v" and
          p: "validate_prerequisites (map text_of vs) (entry_id e) seen = Inr ()"
        using f by (simp_all add: validate_prerequisite_field_def Let_def registry_error_def split: if_splits)
      have "distinct (map text_of vs)" "set (map text_of vs) \<subseteq> set seen"
        using p by (auto simp: validate_prerequisites_def registry_error_def all_checks_Inr split: if_splits)
      then show ?thesis using Some vs ov t h by (simp add: graph_entry_def get_prerequisites_def)
    qed
  qed
  have g_eq: "map (\<lambda>e. (entry_id e, snd (projr (graph_entry e)))) es = g"
    using all2 node by (induction rule: list_all2_induct) (auto, force)
  then have g_iff: "(h, ps) \<in> set g \<longleftrightarrow> (\<exists>e \<in> set es. h = entry_id e \<and> get_prerequisites data h = Inr ps)" for h ps
    using node by (force simp: g_eq [symmetric])
  have fst_g: "map fst g = map entry_id es" by (simp add: g_eq [symmetric])
  have "fst ` set g = set seen" using arg_cong [OF fst_g, of set] ids(1) by simp
  then have wf: "graph_wf g" using node fst_g ids(2) g_iff by (fastforce simp: graph_wf_def)
  have known: "e \<in> set es \<and> h = entry_id e" if "get_harness data h = Inr e" for h e
  proof -
    have "find_harness h es = Inr e" using that es(1) by (simp add: get_harness_def)
    then show ?thesis using find_harness_id [of h es e] ids(3) by auto
  qed
  then have fst_known: "h \<in> fst ` set g" if "get_harness data h = Inr e" for h e
    using that ids(1) \<open>fst ` set g = set seen\<close> by auto
  have "(h, ps) \<in> set g \<longleftrightarrow> get_prerequisites data h = Inr ps" for h ps
  proof
    assume p: "get_prerequisites data h = Inr ps"
    then obtain e where "get_harness data h = Inr e" by (auto simp: get_prerequisites_def bind_result_eq_Inr)
    from known [OF this] have "e \<in> set es" "h = entry_id e" by simp_all
    with p show "(h, ps) \<in> set g" by (auto simp: g_iff)
  qed (auto simp: g_iff)
  moreover have "acyclic (prereq_rel g)" using ok graph_accepted_iff_acyclic [OF wf] by simp
  ultimately show thesis using that [OF wf] fst_known by blast
qed

text \<open>
  C35: on a validated registry the dependency closure of a known harness is never cut short by a cycle
  or an unknown id. Either it lists the harness and everything it needs, directly or through others,
  once each, all implemented and every one after its prerequisites, with the harness itself last; or
  one of these harnesses is not implemented, and the error says so.
\<close>

theorem dependency_closure_correct:
  assumes "validate_registry data = Inr ()" and "float_texts_ok data" and "get_harness data target_id = Inr e"
  shows "case dependency_closure data target_id of
      Inr ids \<Rightarrow> distinct ids \<and> set ids = (dep_rel data)\<^sup>* `` {target_id} \<and> topological data ids
        \<and> ids \<noteq> [] \<and> last ids = target_id \<and> (\<forall>h \<in> set ids. implemented data h)
    | Inl err \<Rightarrow> \<exists>h \<in> (dep_rel data)\<^sup>* `` {target_id}. \<not> implemented data h \<and> err = status_error data h"
proof (cases "dependency_closure data target_id")
  case (Inr ids)
  have "closure_ok data [] []" by (simp add: closure_ok_def topological_def)
  from visit_spec(1) [OF Inr [unfolded dependency_closure_def] this] show ?thesis
    by (simp add: Inr closure_ok_def)
next
  case (Inl err)
  obtain g where wf: "graph_wf g" and acyc: "acyclic (prereq_rel g)"
    and g: "\<And>h ps. get_prerequisites data h = Inr ps \<longleftrightarrow> (h, ps) \<in> set g"
    and target: "target_id \<in> fst ` set g"
    using validated_graph [OF assms(1,2)] assms(3) by metis
  have conv: "dep_rel data = (prereq_rel g)\<inverse>" by (auto simp: dep_rel_def prereq_rel_def g)
  have "h \<in> fst ` set g" if "(target_id, h) \<in> (dep_rel data)\<^sup>*" for h
    using that target prereq_rel_nodes [OF wf] by (induction rule: rtrancl_induct) (auto simp: conv)
  then have "known_below data {target_id}" by (force simp: known_below_def g)
  moreover have "acyclic (dep_rel data)" using acyc by (simp add: conv acyclic_converse)
  ultimately show ?thesis
    using visit_error(1) [OF Inl [unfolded dependency_closure_def]] by (simp add: Inl)
qed

text \<open>
  Schema 1.0.0 lets an explicit null through as missing prerequisites, and the cycle check then iterates
  over it.
\<close>

lemma null_prerequisites_untyped_error:
  assumes "obj_get kvs ''prerequisites'' = Some JNull"
  shows "validate_prerequisite_field ''1.0.0'' seen (JObj kvs) = Inr ()"
    and "validate_prerequisite_cycles (JObj kvs # es) = Inl (TypeError ''object is not iterable'')"
  using assms
  by (simp_all add: validate_prerequisite_field_def obj_value_def Let_def validate_prerequisite_cycles_def graph_entry_def)

section \<open>Witnesses\<close>

definition demo_harness :: "string \<Rightarrow> string list \<Rightarrow> json" where
  "demo_harness hid ps = JObj [(''id'', JStr hid), (''name'', JStr ''n''), (''command'', JStr ''c''),
     (''artifact'', JStr ''out/a.json''), (''artifact_mode'', JStr ''declared_file''), (''blocks_release'', JBool True),
     (''what_it_runs'', JStr ''w''), (''pass_criteria'', JStr ''p''), (''applicability'', JStr ''standard''),
     (''status'', JStr ''implemented''), (''prerequisites'', JList (map JStr ps)), (''release_stage'', JStr ''ga'')]"

definition demo_registry :: "(string \<times> json) list" where
  "demo_registry = [(''schema_version'', JStr ''1.2.0''),
     (''harnesses'', JList [demo_harness ''WF-HAR-B-01'' [''WF-HAR-A-01''], demo_harness ''WF-HAR-A-01'' []]),
     (''harness_count'', JInt 2), (''catalog_harness_count'', JInt 2), (''standard_blocker_count'', JInt 2),
     (''standard_blockers'', JList [JStr ''WF-HAR-B-01'', JStr ''WF-HAR-A-01'']),
     (''foundation_closure'', JList [JStr ''WF-HAR-A-01''])]"

lemma demo_registry_ok: "validate_registry demo_registry = Inr ()"
  by code_simp

lemma demo_closure: "dependency_closure demo_registry ''WF-HAR-B-01'' = Inr [''WF-HAR-A-01'', ''WF-HAR-B-01'']"
  by code_simp

theorem dependency_closure_correct_witness:
  "dependency_closure demo_registry ''WF-HAR-B-01'' = Inr [''WF-HAR-A-01'', ''WF-HAR-B-01'']
    \<and> topological demo_registry [''WF-HAR-A-01'', ''WF-HAR-B-01'']
    \<and> (dep_rel demo_registry)\<^sup>* `` {''WF-HAR-B-01''} = {''WF-HAR-A-01'', ''WF-HAR-B-01''}"
proof -
  have "entries_of demo_registry = [demo_harness ''WF-HAR-B-01'' [''WF-HAR-A-01''], demo_harness ''WF-HAR-A-01'' []]"
    by (simp add: entries_of_def demo_registry_def obj_value_def obj_get_def)
  then have fl: "float_texts_ok demo_registry"
    by (auto simp: float_texts_ok_def demo_harness_def obj_get_def)
  have "get_harness demo_registry ''WF-HAR-B-01'' = Inr (demo_harness ''WF-HAR-B-01'' [''WF-HAR-A-01''])"
    by code_simp
  from dependency_closure_correct [OF demo_registry_ok fl this] demo_closure show ?thesis by simp
qed

end
