(* ===== verification/Copilot.thy ===== *)
theory Copilot
  imports Errors Py_Format Py_Text
begin

text \<open>
  \<open>application/ports/copilot.py\<close>, \<open>application/copilot.py\<close> and \<open>adapters/copilot/fake.py\<close>: a
  default-off assistant that may explain and draft but not decide. The provider is a parameter over any
  state; the deterministic provider is modelled. The lemmas show what a returned result is bound to,
  what the provider may see, and that the budget and the circuit hold over every sequence of calls.
\<close>

section \<open>Contracts\<close>

datatype copilot_purpose = EXPLAIN_DECISION | DRAFT_EVIDENCE_REQUEST | DRAFT_DEPENDENCY_REPAIR

record copilot_citation =
  cc_decision_id :: string
  cc_evidence_id :: "string option"

definition new_copilot_citation :: "string \<Rightarrow> string option \<Rightarrow> copilot_citation result" where
  "new_copilot_citation decision_id evidence_id =
     (if blank decision_id then Inl (ValueError ''decision_id is required'')
      else if (case evidence_id of None \<Rightarrow> False | Some e \<Rightarrow> blank e)
      then Inl (ValueError ''evidence_id must be non-blank when present'')
      else Inr \<lparr>cc_decision_id = decision_id, cc_evidence_id = evidence_id\<rparr>)"

record copilot_prompt =
  cp_purpose :: copilot_purpose
  cp_text :: string
  cp_citations :: "copilot_citation list"
  cp_max_output_tokens :: int

record copilot_result =
  co_text :: string
  co_citations :: "copilot_citation list"
  co_change_kind :: "string option"
  co_change_payload :: "(string \<times> string) list"

datatype copilot_mode = COPILOT_DISABLED | COPILOT_ENABLED

record copilot_policy =
  max_input_characters :: nat
  max_output_tokens :: int
  request_budget :: int
  failure_threshold :: int

definition default_copilot_policy :: copilot_policy where
  "default_copilot_policy = \<lparr>max_input_characters = 8000, max_output_tokens = 800, request_budget = 100,
     failure_threshold = 3\<rparr>"

record copilot_service =
  cs_mode :: copilot_mode
  cs_policy :: copilot_policy
  requests_used :: int
  copilot_failures :: int

text \<open>
  \<open>tuple(sorted(set(citations)))\<close>. The order of the dataclass compares the pairs; of two citations of one
  decision, of which only one names evidence, Python compares \<open>None\<close> with a text and raises. A
  sorting algorithm compares neighbours of the result, so it meets such a pair whenever there is one.
\<close>

definition citation_key :: "copilot_citation \<Rightarrow> string \<times> string" where
  "citation_key c = (cc_decision_id c, case cc_evidence_id c of None \<Rightarrow> [] | Some e \<Rightarrow> e)"

definition comparable_citations :: "copilot_citation list \<Rightarrow> bool" where
  "comparable_citations cs \<longleftrightarrow> list_all (\<lambda>a. list_all (\<lambda>b.
     cc_decision_id a = cc_decision_id b \<longrightarrow> (cc_evidence_id a = None) = (cc_evidence_id b = None)) cs) cs"

definition sorted_citations :: "copilot_citation list \<Rightarrow> copilot_citation list result" where
  "sorted_citations cs = (if comparable_citations cs then Inr (sort_key citation_key (remdups cs))
     else Inl (TypeError ''< not supported between instances of str and NoneType''))"

section \<open>The text of a request\<close>

definition after_word :: "string \<Rightarrow> string \<Rightarrow> string option" where
  "after_word w s = (if map lower_char (take (length w) s) = w then Some (drop (length w) s) else None)"

text \<open>\<open>word\s*c\<close> at the start of the text\<close>

definition word_then :: "string \<Rightarrow> char \<Rightarrow> string \<Rightarrow> bool" where
  "word_then w c s = (case after_word w s of None \<Rightarrow> False
     | Some r \<Rightarrow> (case dropWhile is_space r of [] \<Rightarrow> False | d # _ \<Rightarrow> d = c))"

definition token_char :: "char \<Rightarrow> bool" where
  "token_char c \<longleftrightarrow> (let n = of_char (lower_char c) :: nat in (97 \<le> n \<and> n \<le> 122) \<or> (48 \<le> n \<and> n \<le> 57))
     \<or> c \<in> set ''._-''"

text \<open>\<open>bearer\s+[a-z0-9._-]+\<close>: white space is no token character, so the greedy match is the only one.\<close>

definition bearer_at :: "string \<Rightarrow> bool" where
  "bearer_at s = (case after_word ''bearer'' s of None \<Rightarrow> False
     | Some r \<Rightarrow> r \<noteq> [] \<and> is_space (hd r) \<and> (case dropWhile is_space r of [] \<Rightarrow> False | d # _ \<Rightarrow> token_char d))"

text \<open>\<open>first[_ -]?second\<close>\<close>

definition joined_at :: "string \<Rightarrow> string \<Rightarrow> string \<Rightarrow> bool" where
  "joined_at first second s = (case after_word first s of None \<Rightarrow> False
     | Some r \<Rightarrow> after_word second r \<noteq> None
         \<or> (case r of [] \<Rightarrow> False | d # r' \<Rightarrow> d \<in> set ''_ -'' \<and> after_word second r' \<noteq> None))"

definition secret_at :: "string \<Rightarrow> bool" where
  "secret_at s \<longleftrightarrow> word_then ''authorization'' (CHR '':'') s \<or> bearer_at s \<or> word_then ''password'' (CHR ''='') s
     \<or> word_then ''token'' (CHR ''='') s \<or> joined_at ''private'' ''key'' s \<or> joined_at ''client'' ''secret'' s"

fun somewhere :: "(string \<Rightarrow> bool) \<Rightarrow> string \<Rightarrow> bool" where
  "somewhere P [] = P []"
| "somewhere P (c # s) = (P (c # s) \<or> somewhere P s)"

definition contains_secret :: "string \<Rightarrow> bool" where
  "contains_secret s = somewhere secret_at s"

text \<open>
  \<open>str.casefold\<close> below code point 256: capitals get their small letters and the sharp s becomes two letters.
  The micro sign folds to a letter beyond 256 that is in no pattern; it is left as it is.
\<close>

definition casefold_char :: "char \<Rightarrow> string" where
  "casefold_char c = (let n = (of_char c :: nat) in
     if (65 \<le> n \<and> n \<le> 90) \<or> (192 \<le> n \<and> n \<le> 222 \<and> n \<noteq> 215) then [char_of (n + 32)]
     else if n = 223 then ''ss'' else [c])"

definition casefold :: "string \<Rightarrow> string" where
  "casefold s = concat (map casefold_char s)"

definition injection_patterns :: "string list" where
  "injection_patterns = [''ignore previous'', ''ignore all previous'', ''system prompt'', ''developer message'',
     ''change readiness'', ''change ranking'', ''rank this'', ''waive safety'', ''mark authoritative'',
     ''approve this'']"

definition crosses_boundary :: "string \<Rightarrow> bool" where
  "crosses_boundary s \<longleftrightarrow> list_ex (\<lambda>p. somewhere (\<lambda>t. starts_with t p) (casefold s)) injection_patterns"

section \<open>The result\<close>

definition allowed_change_kinds :: "string list" where
  "allowed_change_kinds = [''dependency_repair'', ''evidence_request'']"

definition forbidden_payload_keys :: "string list" where
  "forbidden_payload_keys = [''ready'', ''ranking_position'', ''authority'', ''gate_state'', ''lifecycle'', ''completion'']"

definition validate_change :: "copilot_result \<Rightarrow> copilot_purpose \<Rightarrow> unit result" where
  "validate_change r purpose =
     (if purpose = EXPLAIN_DECISION
      then (if co_change_kind r \<noteq> None \<or> co_change_payload r \<noteq> []
            then Inl (CopilotError ''explanations cannot contain mutation proposals'') else Inr ())
      else if co_change_kind r \<notin> Some ` set allowed_change_kinds
      then Inl (CopilotError ''Copilot may draft only dependency repair or evidence request proposals'')
      else if list_ex (\<lambda>(k, _). k \<in> set forbidden_payload_keys) (co_change_payload r)
      then Inl (CopilotError ''Copilot proposal attempts to alter authoritative product truth'')
      else Inr ())"

definition validate_result :: "copilot_result \<Rightarrow> copilot_purpose \<Rightarrow> copilot_citation list \<Rightarrow> copilot_result result" where
  "validate_result r purpose allowed =
     (if blank (co_text r) then Inl (CopilotError ''Copilot output must not be blank'')
      else bind_result (sorted_citations (co_citations r)) (\<lambda>citations.
        if citations = [] \<or> \<not> list_all (\<lambda>c. c \<in> set allowed) citations
        then Inl (CopilotError ''Copilot output contains missing or unknown citations'')
        else bind_result (validate_change r purpose) (\<lambda>_.
          Inr \<lparr>co_text = strip (co_text r), co_citations = citations, co_change_kind = co_change_kind r,
               co_change_payload = sort (co_change_payload r)\<rparr>)))"

section \<open>One request\<close>

text \<open>The checks before the provider is asked, in the order of the code\<close>

definition copilot_admit :: "copilot_service \<Rightarrow> bool \<Rightarrow> string \<Rightarrow> copilot_citation list
    \<Rightarrow> (string \<times> copilot_citation list) result" where
  "copilot_admit svc has_provider input allowed =
     (if cs_mode svc = COPILOT_DISABLED \<or> \<not> has_provider then Inl (CopilotError ''Copilot is disabled'')
      else if failure_threshold (cs_policy svc) \<le> copilot_failures svc
      then Inl (CopilotError ''Copilot circuit is open'')
      else if request_budget (cs_policy svc) \<le> requests_used svc
      then Inl (CopilotError ''Copilot request budget exhausted'')
      else let normalized = strip input in
        if normalized = [] \<or> max_input_characters (cs_policy svc) < length normalized
        then Inl (CopilotError ''Copilot input is blank or exceeds the purpose limit'')
        else if contains_secret normalized then Inl (CopilotError ''Copilot input contains credential-like material'')
        else if crosses_boundary normalized
        then Inl (CopilotError ''Copilot input crosses the prompt-injection or authority boundary'')
        else bind_result (sorted_citations allowed) (\<lambda>canonical.
          if canonical = [] then Inl (CopilotError ''Copilot requires at least one authoritative citation'')
          else Inr (normalized, canonical)))"

definition rewrap_failure :: "exn \<Rightarrow> exn" where
  "rewrap_failure e = (case e of CopilotError m \<Rightarrow> CopilotError m | _ \<Rightarrow> CopilotError ''Copilot provider failed'')"

type_synonym 's provider = "copilot_prompt \<Rightarrow> 's \<Rightarrow> copilot_result result \<times> 's"

definition copilot_run :: "'s provider option \<Rightarrow> copilot_purpose \<Rightarrow> string \<Rightarrow> copilot_citation list
    \<Rightarrow> copilot_service \<Rightarrow> 's \<Rightarrow> copilot_result result \<times> copilot_service \<times> 's" where
  "copilot_run provider purpose input allowed svc s =
     (case copilot_admit svc (provider \<noteq> None) input allowed of
        Inl e \<Rightarrow> (Inl e, svc, s)
      | Inr (normalized, canonical) \<Rightarrow>
          let svc1 = svc\<lparr>requests_used := requests_used svc + 1\<rparr>;
              prompt = \<lparr>cp_purpose = purpose, cp_text = normalized, cp_citations = canonical,
                        cp_max_output_tokens = max_output_tokens (cs_policy svc)\<rparr>
          in case the provider prompt s of (answer, s') \<Rightarrow>
            (case bind_result answer (\<lambda>r. validate_result r purpose canonical) of
               Inl e \<Rightarrow> (Inl (rewrap_failure e), svc1\<lparr>copilot_failures := copilot_failures svc + 1\<rparr>, s')
             | Inr r \<Rightarrow> (Inr r, svc1\<lparr>copilot_failures := 0\<rparr>, s')))"

section \<open>The deterministic provider\<close>

definition deterministic_copilot :: "'s provider" where
  "deterministic_copilot prompt s = (let refs = join '', '' (map cc_decision_id (cp_citations prompt)) in
     (Inr (case cp_purpose prompt of
        EXPLAIN_DECISION \<Rightarrow> \<lparr>co_text = ''Explanation grounded in decisions: '' @ refs @ ''.'',
          co_citations = cp_citations prompt, co_change_kind = None, co_change_payload = []\<rparr>
      | DRAFT_EVIDENCE_REQUEST \<Rightarrow> \<lparr>co_text = ''Draft evidence request grounded in: '' @ refs @ ''.'',
          co_citations = cp_citations prompt, co_change_kind = Some ''evidence_request'',
          co_change_payload = [(''request'', cp_text prompt)]\<rparr>
      | DRAFT_DEPENDENCY_REPAIR \<Rightarrow> \<lparr>co_text = ''Draft dependency repair grounded in: '' @ refs @ ''.'',
          co_citations = cp_citations prompt, co_change_kind = Some ''dependency_repair'',
          co_change_payload = [(''rationale'', cp_text prompt)]\<rparr>), s))"

section \<open>What a call is bound to\<close>

lemma sorted_citations_Inr [result_simps]:
  "sorted_citations cs = Inr ds \<longleftrightarrow> comparable_citations cs \<and> ds = sort_key citation_key (remdups cs)"
  by (auto simp: sorted_citations_def)

definition grounded :: "copilot_purpose \<Rightarrow> copilot_citation list \<Rightarrow> copilot_result \<Rightarrow> bool" where
  "grounded purpose allowed r \<longleftrightarrow> co_text r \<noteq> [] \<and> co_citations r \<noteq> [] \<and> distinct (co_citations r)
     \<and> set (co_citations r) \<subseteq> set allowed
     \<and> (if purpose = EXPLAIN_DECISION then co_change_kind r = None \<and> co_change_payload r = []
        else co_change_kind r \<in> Some ` set allowed_change_kinds
          \<and> fst ` set (co_change_payload r) \<inter> set forbidden_payload_keys = {})"

lemma validate_change_Inr:
  "validate_change r purpose = Inr () \<longleftrightarrow>
     (if purpose = EXPLAIN_DECISION then co_change_kind r = None \<and> co_change_payload r = []
      else co_change_kind r \<in> Some ` set allowed_change_kinds
        \<and> fst ` set (co_change_payload r) \<inter> set forbidden_payload_keys = {})"
  unfolding validate_change_def list_ex_iff by (auto split: if_splits)

lemma validate_result_grounded:
  assumes "validate_result r purpose allowed = Inr out"
  shows "grounded purpose allowed out"
proof -
  from assms have filled: "strip (co_text r) \<noteq> []"
    by (auto simp: validate_result_def blank_def split: if_splits)
  from assms filled obtain cs where cs: "sorted_citations (co_citations r) = Inr cs" "cs \<noteq> []"
      "set cs \<subseteq> set allowed" "validate_change r purpose = Inr ()"
      "out = \<lparr>co_text = strip (co_text r), co_citations = cs, co_change_kind = co_change_kind r,
               co_change_payload = sort (co_change_payload r)\<rparr>"
    by (auto simp: validate_result_def bind_result_eq_Inr list_all_iff split: if_splits)
  have "distinct cs" using cs(1) by (simp add: sorted_citations_Inr)
  with cs filled show ?thesis unfolding validate_change_Inr grounded_def by simp
qed

lemma copilot_admit_Inr:
  "copilot_admit svc has input allowed = Inr (normalized, canonical) \<longleftrightarrow>
     cs_mode svc = COPILOT_ENABLED \<and> has \<and> copilot_failures svc < failure_threshold (cs_policy svc)
     \<and> requests_used svc < request_budget (cs_policy svc) \<and> normalized = strip input \<and> normalized \<noteq> []
     \<and> length normalized \<le> max_input_characters (cs_policy svc) \<and> \<not> contains_secret normalized
     \<and> \<not> crosses_boundary normalized \<and> sorted_citations allowed = Inr canonical \<and> canonical \<noteq> []"
  by (cases "cs_mode svc") (auto simp: copilot_admit_def Let_def bind_result_eq_Inr not_le not_less)

lemma copilot_run_cases:
  obtains (refused) e where "copilot_run provider purpose input allowed svc s = (Inl e, svc, s)"
  | (asked) ask reply s' canonical where "provider = Some ask"
      "copilot_admit svc True input allowed = Inr (strip input, canonical)"
      "ask \<lparr>cp_purpose = purpose, cp_text = strip input, cp_citations = canonical,
         cp_max_output_tokens = max_output_tokens (cs_policy svc)\<rparr> s = (reply, s')"
      "copilot_run provider purpose input allowed svc s =
        (case bind_result reply (\<lambda>r. validate_result r purpose canonical) of
           Inl e \<Rightarrow> (Inl (rewrap_failure e), svc\<lparr>requests_used := requests_used svc + 1,
             copilot_failures := copilot_failures svc + 1\<rparr>, s')
         | Inr r \<Rightarrow> (Inr r, svc\<lparr>requests_used := requests_used svc + 1, copilot_failures := 0\<rparr>, s'))"
proof (cases "copilot_admit svc (provider \<noteq> None) input allowed")
  case (Inl e)
  then show thesis by (intro refused) (simp add: copilot_run_def)
next
  case (Inr adm)
  obtain normalized canonical where adm: "adm = (normalized, canonical)" by fastforce
  have n: "normalized = strip input" "provider \<noteq> None" using Inr unfolding adm copilot_admit_Inr by blast+
  then obtain ask where ask: "provider = Some ask" by blast
  obtain reply s' where reply: "ask \<lparr>cp_purpose = purpose, cp_text = strip input, cp_citations = canonical,
         cp_max_output_tokens = max_output_tokens (cs_policy svc)\<rparr> s = (reply, s')" by fastforce
  show thesis
  proof (rule asked [OF ask _ reply])
    show "copilot_admit svc True input allowed = Inr (strip input, canonical)" using Inr n ask by (simp add: adm)
  qed (use Inr reply in \<open>simp add: copilot_run_def adm n(1) ask Let_def split: sum.splits\<close>)
qed

text \<open>
  C38: the assistant is bound. A call is refused with nothing changed, or it is charged to the budget and
  the provider is asked once: enabled, below the budget and the failure threshold, with the stripped text,
  within its limit and free of credential and injection patterns, and with allowed citations only.
  What it then returns cites allowed records, carries no proposal in an explanation, and in a draft one of
  the two kinds of change with none of the authoritative keys; anything else counts as a failure.
\<close>

theorem copilot_call_bound:
  "case copilot_run provider purpose input allowed svc s of (answer, svc', s') \<Rightarrow>
     (\<not> isl answer \<longrightarrow> grounded purpose allowed (projr answer))
   \<and> (svc' = svc \<and> s' = s \<and> isl answer
      \<or> (\<exists>ask prompt. provider = Some ask \<and> s' = snd (ask prompt s) \<and> cs_mode svc = COPILOT_ENABLED
           \<and> cp_purpose prompt = purpose \<and> cp_text prompt = strip input \<and> cp_text prompt \<noteq> []
           \<and> length (cp_text prompt) \<le> max_input_characters (cs_policy svc)
           \<and> \<not> contains_secret (cp_text prompt) \<and> \<not> crosses_boundary (cp_text prompt)
           \<and> set (cp_citations prompt) = set allowed \<and> allowed \<noteq> []
           \<and> requests_used svc < request_budget (cs_policy svc)
           \<and> copilot_failures svc < failure_threshold (cs_policy svc)
           \<and> svc' = svc\<lparr>requests_used := requests_used svc + 1,
                copilot_failures := (if isl answer then copilot_failures svc + 1 else 0)\<rparr>))"
proof (cases rule: copilot_run_cases [of provider purpose input allowed svc s])
  case (asked ask reply s' canonical)
  note admitted = asked(2) [unfolded copilot_admit_Inr]
  let ?prompt = "\<lparr>cp_purpose = purpose, cp_text = strip input, cp_citations = canonical,
    cp_max_output_tokens = max_output_tokens (cs_policy svc)\<rparr>"
  let ?v = "bind_result reply (\<lambda>r. validate_result r purpose canonical)"
  have canon: "set canonical = set allowed" "allowed \<noteq> []" using admitted by (auto simp: sorted_citations_Inr)
  have "grounded purpose allowed r" if "?v = Inr r" for r
    using that validate_result_grounded canon unfolding bind_result_eq_Inr grounded_def by blast
  moreover have "\<exists>ask prompt. provider = Some ask \<and> s' = snd (ask prompt s) \<and> cs_mode svc = COPILOT_ENABLED
           \<and> cp_purpose prompt = purpose \<and> cp_text prompt = strip input \<and> cp_text prompt \<noteq> []
           \<and> length (cp_text prompt) \<le> max_input_characters (cs_policy svc)
           \<and> \<not> contains_secret (cp_text prompt) \<and> \<not> crosses_boundary (cp_text prompt)
           \<and> set (cp_citations prompt) = set allowed \<and> allowed \<noteq> []
           \<and> requests_used svc < request_budget (cs_policy svc)
           \<and> copilot_failures svc < failure_threshold (cs_policy svc)"
    using asked(1,3) admitted canon by (intro exI [of _ ask] exI [of _ ?prompt]) simp
  ultimately show ?thesis unfolding asked(4) by (cases ?v) simp_all
qed simp

definition demo_service :: copilot_service where
  "demo_service = \<lparr>cs_mode = COPILOT_ENABLED, cs_policy = default_copilot_policy, requests_used = 0,
     copilot_failures = 0\<rparr>"

definition demo_citation :: copilot_citation where
  "demo_citation = \<lparr>cc_decision_id = ''d'', cc_evidence_id = None\<rparr>"

theorem copilot_call_bound_witness:
  "grounded EXPLAIN_DECISION [demo_citation] (projr (fst (copilot_run (Some deterministic_copilot)
     EXPLAIN_DECISION ''why'' [demo_citation] demo_service ())))"
proof -
  have "\<not> isl (fst (copilot_run (Some deterministic_copilot) EXPLAIN_DECISION ''why'' [demo_citation] demo_service ()))"
    by code_simp
  then show ?thesis
    using copilot_call_bound [where provider = "Some deterministic_copilot" and purpose = EXPLAIN_DECISION
        and input = "''why''" and allowed = "[demo_citation]" and svc = demo_service and s = "()"]
    by (simp only: case_prod_beta fst_conv snd_conv simp_thms)
qed

text \<open>A session is any sequence of calls. The budget bounds it, and an open circuit ends it.\<close>

fun copilot_session :: "'s provider option \<Rightarrow> (copilot_purpose \<times> string \<times> copilot_citation list) list
    \<Rightarrow> copilot_service \<Rightarrow> 's \<Rightarrow> copilot_service \<times> 's" where
  "copilot_session provider [] svc s = (svc, s)"
| "copilot_session provider ((purpose, input, allowed) # calls) svc s =
     (case copilot_run provider purpose input allowed svc s of (_, svc', s') \<Rightarrow>
        copilot_session provider calls svc' s')"

lemma copilot_session_bounds:
  "copilot_session provider calls svc s = (svc', s') \<Longrightarrow>
     requests_used svc' \<le> max (requests_used svc) (request_budget (cs_policy svc))
     \<and> (failure_threshold (cs_policy svc) \<le> copilot_failures svc \<longrightarrow> svc' = svc \<and> s' = s)"
proof (induction provider calls svc s rule: copilot_session.induct)
  case (2 provider purpose t allowed calls svc s)
  show ?case
  proof (cases rule: copilot_run_cases [of provider purpose t allowed svc s])
    case (refused e)
    then show ?thesis using 2 by simp
  next
    case (asked ask reply s1 canonical)
    obtain a svc1 where run: "copilot_run provider purpose t allowed svc s = (a, svc1, s1)"
      "requests_used svc1 = requests_used svc + 1" "cs_policy svc1 = cs_policy svc"
      unfolding asked(4) by (cases "bind_result reply (\<lambda>r. validate_result r purpose canonical)") auto
    then show ?thesis using asked(2) "2.IH" [OF run(1) [symmetric] refl] "2.prems"
      by (auto simp: copilot_admit_Inr)
  qed
qed simp

text \<open>
  Citations of one decision with and without evidence cannot be ordered: the call ends with a
  \<open>TypeError\<close> that is none of the service's own errors.
\<close>

lemma mixed_citations_untyped_error:
  "copilot_run (Some deterministic_copilot) EXPLAIN_DECISION ''why''
     [demo_citation, demo_citation\<lparr>cc_evidence_id := Some ''e''\<rparr>] demo_service ()
   = (Inl (TypeError ''< not supported between instances of str and NoneType''), demo_service, ())"
  by code_simp

end
