(* ===== verification/Browser_Security.thy ===== *)
theory Browser_Security
  imports Py_Hmac
begin

text \<open>
  \<open>interfaces/api/browser_security.py\<close> and the middleware of \<open>interfaces/api/security.py\<close>: the sliding
  window of requests per key, the token that binds a browser session, and the order in which the
  middleware applies them. The environment, the clock and the handler behind the middleware are
  parameters. The lemmas show that no window ever holds more admitted requests than the limit, and
  what a request has to carry to reach the handler.
\<close>

section \<open>The sliding window\<close>

text \<open>A \<open>deque\<close> per key, oldest first; a key without one has the empty deque.\<close>

record rate_limiter =
  rl_limit :: int
  rl_window :: timedelta
  rl_events :: "string \<rightharpoonup> datetime list"

definition events_of :: "rate_limiter \<Rightarrow> string \<Rightarrow> datetime list" where
  "events_of l k = (case rl_events l k of None \<Rightarrow> [] | Some es \<Rightarrow> es)"

definition allow :: "rate_limiter \<Rightarrow> string \<Rightarrow> datetime \<Rightarrow> bool result \<times> rate_limiter" where
  "allow l key now =
     (if \<not> aware now then (Inl (BrowserSecurityError ''rate limiter clock must be timezone-aware''), l)
      else if rl_limit l < 1 \<or> rl_window l \<le> 0
      then (Inl (BrowserSecurityError ''rate limiter configuration must be positive''), l)
      else let threshold = dt_add now (- rl_window l);
             events = dropWhile (\<lambda>e. dt_le e threshold) (events_of l key)
        in if rl_limit l \<le> int (length events) then (Inr False, l\<lparr>rl_events := (rl_events l)(key \<mapsto> events)\<rparr>)
           else (Inr True, l\<lparr>rl_events := (rl_events l)(key \<mapsto> events @ [now])\<rparr>))"

section \<open>The session token\<close>

definition csrf_issue :: "byte list \<Rightarrow> string \<Rightarrow> string result" where
  "csrf_issue secret session_id =
     (if length secret < 32 \<or> blank session_id
      then Inl (BrowserSecurityError ''CSRF secret and session identity are required'')
      else Inr (hexlify (hmac_sha256 secret (encode session_id))))"

definition csrf_verify :: "byte list \<Rightarrow> string \<Rightarrow> string \<Rightarrow> bool result" where
  "csrf_verify secret session_id token =
     bind_result (csrf_issue secret session_id) (\<lambda>issued. compare_digest issued token)"

lemma csrf_verify_exact:
  "csrf_verify secret session_id token =
     (if length secret < 32 \<or> blank session_id
      then Inl (BrowserSecurityError ''CSRF secret and session identity are required'')
      else if ascii token then Inr (token = hexlify (hmac_sha256 secret (encode session_id)))
      else Inl (TypeError ''comparing strings with non-ASCII characters is not supported''))"
  by (auto simp: csrf_verify_def csrf_issue_def compare_ascii)

section \<open>The middleware\<close>

text \<open>Header names are compared without regard to case, so a map of headers is keyed by their lower-case names.\<close>

definition security_headers :: "(string \<times> string) list" where
  "security_headers = [
     (''cache-control'', ''no-store''),
     (''content-security-policy'',
      ''default-src 'self'; base-uri 'none'; frame-ancestors 'none'; form-action 'self'; object-src 'none'; ''
      @ ''script-src 'self'; style-src 'self'; connect-src 'self' https://api.github.com''),
     (''cross-origin-opener-policy'', ''same-origin''),
     (''cross-origin-resource-policy'', ''same-origin''),
     (''permissions-policy'', ''camera=(), microphone=(), geolocation=()''),
     (''referrer-policy'', ''no-referrer''),
     (''strict-transport-security'', ''max-age=63072000; includeSubDomains; preload''),
     (''x-content-type-options'', ''nosniff''),
     (''x-frame-options'', ''DENY'')]"

record http_request =
  rq_method :: string
  rq_client :: "string option"
  rq_headers :: "string \<rightharpoonup> string"
  rq_cookies :: "string \<rightharpoonup> string"

record http_response =
  rs_status :: nat
  rs_headers :: "string \<rightharpoonup> string"
  rs_body :: string

definition or_empty :: "string option \<Rightarrow> string" where
  "or_empty v = (case v of None \<Rightarrow> [] | Some s \<Rightarrow> s)"

definition request_actor :: "http_request \<Rightarrow> string" where
  "request_actor q = (case rq_headers q ''x-actor-id'' of
     Some a \<Rightarrow> a
   | None \<Rightarrow> (case rq_client q of Some h \<Rightarrow> h | None \<Rightarrow> ''unknown''))"

definition rate_limited_response :: http_response where
  "rate_limited_response = \<lparr>rs_status = 429, rs_headers = [''retry-after'' \<mapsto> ''60''],
     rs_body = ''{\"error\":{\"code\":\"rate_limited\",\"message\":\"request rate limit exceeded\"}}''\<rparr>"

definition csrf_rejected_response :: http_response where
  "csrf_rejected_response = \<lparr>rs_status = 403, rs_headers = Map.empty,
     rs_body = ''{\"error\":{\"code\":\"csrf_rejected\",\"message\":\"valid CSRF token required\"}}''\<rparr>"

definition needs_csrf :: "http_request \<Rightarrow> bool" where
  "needs_csrf q \<longleftrightarrow> rq_method q \<in> set [''POST'', ''PUT'', ''PATCH'', ''DELETE'']
     \<and> or_empty (rq_headers q ''cookie'') \<noteq> []"

text \<open>\<open>\<not> (len(secret) < 32 or not session_id or not verify(...))\<close>, with the exceptions of \<open>verify\<close>\<close>

definition csrf_passes :: "byte list \<Rightarrow> http_request \<Rightarrow> bool result" where
  "csrf_passes secret q = (let session_id = or_empty (rq_cookies q ''wf_session'') in
     if length secret < 32 \<or> session_id = [] then Inr False
     else csrf_verify secret session_id (or_empty (rq_headers q ''x-csrf-token'')))"

definition with_security_headers :: "http_response \<Rightarrow> http_response" where
  "with_security_headers r = r\<lparr>rs_headers := rs_headers r ++ map_of security_headers\<rparr>"

definition hardening :: "rate_limiter \<Rightarrow> http_request \<Rightarrow> datetime \<Rightarrow> string
    \<Rightarrow> (http_request \<Rightarrow> 's \<Rightarrow> http_response result \<times> 's) \<Rightarrow> 's \<Rightarrow> http_response result \<times> rate_limiter \<times> 's" where
  "hardening limiter q now csrf_secret handler s = (case allow limiter (request_actor q) now of
     (Inl e, l) \<Rightarrow> (Inl e, l, s)
   | (Inr False, l) \<Rightarrow> (Inr rate_limited_response, l, s)
   | (Inr True, l) \<Rightarrow>
       (case if needs_csrf q then csrf_passes (encode csrf_secret) q else Inr True of
          Inl e \<Rightarrow> (Inl e, l, s)
        | Inr False \<Rightarrow> (Inr csrf_rejected_response, l, s)
        | Inr True \<Rightarrow> (case handler q s of
            (Inl e, s') \<Rightarrow> (Inl e, l, s')
          | (Inr r, s') \<Rightarrow> (Inr (with_security_headers r), l, s'))))"

definition installed_limiter :: rate_limiter where
  "installed_limiter = \<lparr>rl_limit = 120, rl_window = minutes 1, rl_events = Map.empty\<rparr>"

lemma csrf_passes_exact:
  "csrf_passes secret q = Inr True \<longleftrightarrow> 32 \<le> length secret \<and> \<not> blank (or_empty (rq_cookies q ''wf_session''))
     \<and> or_empty (rq_headers q ''x-csrf-token'')
         = hexlify (hmac_sha256 secret (encode (or_empty (rq_cookies q ''wf_session''))))"
  by (auto simp: csrf_passes_def csrf_verify_exact Let_def not_less)

text \<open>
  C37: nothing reaches the handler past the middleware. The handler runs, once, exactly when the limiter
  admits the caller and the request is either safe or cookie-free or carries the HMAC of its session
  under a secret of at least 32 bytes; otherwise the state behind it is untouched. Every answer of the
  handler leaves with all security headers. Two findings record where this is less than the security
  documents promise: the refusals of the middleware itself (429 and 403) carry no security header,
  against SDL-DP-03, and an unsafe request without a cookie needs no token, against T-AUTH-04.
\<close>

theorem hardening_guards_handler:
  "snd (snd (hardening limiter q now csrf_secret handler s)) =
     (if fst (allow limiter (request_actor q) now) = Inr True
         \<and> (if needs_csrf q
              then 32 \<le> length (encode csrf_secret) \<and> \<not> blank (or_empty (rq_cookies q ''wf_session''))
                \<and> or_empty (rq_headers q ''x-csrf-token'')
                  = hexlify (hmac_sha256 (encode csrf_secret) (encode (or_empty (rq_cookies q ''wf_session''))))
              else True)
      then snd (handler q s) else s)
   \<and> (case fst (hardening limiter q now csrf_secret handler s) of
        Inl e \<Rightarrow> True
      | Inr r \<Rightarrow> r = rate_limited_response \<or> r = csrf_rejected_response
          \<or> list_all (\<lambda>(name, v). rs_headers r name = Some v) security_headers)"
proof -
  have headers: "list_all (\<lambda>(name, v). rs_headers (with_security_headers r) name = Some v) security_headers" for r
    by (simp add: with_security_headers_def security_headers_def)
  obtain a l where a: "allow limiter (request_actor q) now = (a, l)" by fastforce
  obtain h s' where h: "handler q s = (h, s')" by fastforce
  define c where "c = (if needs_csrf q then csrf_passes (encode csrf_secret) q else Inr True)"
  have c: "c = Inr True \<longleftrightarrow> (if needs_csrf q
      then 32 \<le> length (encode csrf_secret) \<and> \<not> blank (or_empty (rq_cookies q ''wf_session''))
        \<and> or_empty (rq_headers q ''x-csrf-token'')
          = hexlify (hmac_sha256 (encode csrf_secret) (encode (or_empty (rq_cookies q ''wf_session''))))
      else True)"
    unfolding c_def using csrf_passes_exact by simp
  show ?thesis
    unfolding c [symmetric] hardening_def a c_def [symmetric] h prod.case
    using headers by (auto split: sum.splits bool.splits)
qed

section \<open>What the window admits\<close>

text \<open>A run of requests, with the answer each one got, and the instants at which a key was admitted.\<close>

type_synonym rate_log = "((string \<times> datetime) \<times> bool result) list"

definition serve :: "rate_log \<times> rate_limiter \<Rightarrow> string \<times> datetime \<Rightarrow> rate_log \<times> rate_limiter" where
  "serve st q = (case allow (snd st) (fst q) (snd q) of (answer, l) \<Rightarrow> (fst st @ [(q, answer)], l))"

definition limiter_run :: "rate_limiter \<Rightarrow> (string \<times> datetime) list \<Rightarrow> rate_log \<times> rate_limiter" where
  "limiter_run l qs = foldl serve ([], l) qs"

definition hits :: "string \<Rightarrow> rate_log \<Rightarrow> int list" where
  "hits k log = map (\<lambda>(q, _). instant (snd q)) (filter (\<lambda>(q, answer). fst q = k \<and> answer = Inr True) log)"

definition in_window :: "timedelta \<Rightarrow> int \<Rightarrow> int list \<Rightarrow> int list" where
  "in_window w t ts = filter (\<lambda>u. t - w < u \<and> u \<le> t) ts"

lemma dropWhile_sorted: "sorted (xs :: int list) \<Longrightarrow> dropWhile (\<lambda>u. u \<le> n) xs = filter (\<lambda>u. n < u) xs"
proof (induction xs)
  case (Cons a xs)
  then show ?case
  proof (cases "a \<le> n")
    case False
    then have "filter (\<lambda>u. n < u) (a # xs) = a # xs" using Cons.prems by (intro filter_True) auto
    then show ?thesis using False by simp
  qed simp
qed simp

lemma length_filter_mono: "(\<And>x. P x \<Longrightarrow> Q x) \<Longrightarrow> length (filter P xs) \<le> length (filter Q xs)"
  by (induction xs) auto

lemma hits_snoc [simp]:
  "hits k (log @ [(q, answer)]) = hits k log @ (if fst q = k \<and> answer = Inr True then [instant (snd q)] else [])"
  by (simp add: hits_def split: prod.splits)

text \<open>
  What the deques hold is what the log says: at any later instant, pruning a deque leaves the admitted
  requests of the window that ends there.
\<close>

definition tracks :: "rate_limiter \<Rightarrow> int list \<Rightarrow> rate_log \<Rightarrow> rate_limiter \<Rightarrow> bool" where
  "tracks l0 seen log l \<longleftrightarrow> rl_limit l = rl_limit l0 \<and> rl_window l = rl_window l0
     \<and> (\<forall>k. sorted (hits k log) \<and> set (hits k log) \<subseteq> set seen
        \<and> (\<forall>now. (\<forall>t \<in> set seen. t \<le> now) \<longrightarrow>
             dropWhile (\<lambda>u. u \<le> now - rl_window l0) (map instant (events_of l k))
               = filter (\<lambda>u. now - rl_window l0 < u) (hits k log))
        \<and> (\<forall>t. int (length (in_window (rl_window l0) t (hits k log))) \<le> rl_limit l0))"

lemma pruned_deque:
  assumes "tracks l0 seen log l" and "\<forall>t \<in> set seen. t \<le> instant now"
  shows "map instant (dropWhile (\<lambda>e. dt_le e (dt_add now (- rl_window l))) (events_of l k))
    = filter (\<lambda>u. instant now - rl_window l0 < u) (hits k log)"
proof -
  have "map instant (dropWhile (\<lambda>e. dt_le e (dt_add now (- rl_window l))) (events_of l k))
    = dropWhile (\<lambda>u. u \<le> instant now - rl_window l0) (map instant (events_of l k))"
    using assms(1) by (simp add: dropWhile_map comp_def dt_le_def tracks_def)
  then show ?thesis using assms unfolding tracks_def by auto
qed

lemma allow_answer:
  assumes "tracks l0 seen log l" and "\<forall>t \<in> set seen. t \<le> instant now" and "aware now"
    and "1 \<le> rl_limit l0" and "0 < rl_window l0"
  shows "fst (allow l k now) = Inr (int (length (in_window (rl_window l0) (instant now) (hits k log))) < rl_limit l0)"
proof -
  have "u \<le> instant now" if "u \<in> set (hits k log)" for u using that assms(1,2) unfolding tracks_def by blast
  then have "in_window (rl_window l0) (instant now) (hits k log)
      = filter (\<lambda>u. instant now - rl_window l0 < u) (hits k log)"
    unfolding in_window_def by (intro filter_cong) auto
  moreover have "length (dropWhile (\<lambda>e. dt_le e (dt_add now (- rl_window l))) (events_of l k))
      = length (filter (\<lambda>u. instant now - rl_window l0 < u) (hits k log))"
    using pruned_deque [OF assms(1,2), of k] by (metis length_map)
  moreover have "rl_limit l = rl_limit l0" "rl_window l = rl_window l0" using assms(1) by (simp_all add: tracks_def)
  ultimately show ?thesis using assms(3-5) by (simp add: allow_def Let_def)
qed

lemma tracks_serve:
  assumes "tracks l0 seen log l" and "\<forall>t \<in> set seen. t \<le> instant now" and "aware now"
    and "1 \<le> rl_limit l0" and "0 < rl_window l0" and "serve (log, l) (k, now) = (log', l')"
  shows "tracks l0 (seen @ [instant now]) log' l'"
proof -
  let ?w = "rl_window l0" and ?n = "instant now"
  let ?ev = "dropWhile (\<lambda>e. dt_le e (dt_add now (- rl_window l))) (events_of l k)"
  let ?ok = "int (length (in_window ?w ?n (hits k log))) < rl_limit l0"
  note same = assms(1) [unfolded tracks_def]
  have log': "log' = log @ [((k, now), Inr ?ok)]" and l': "l' = snd (allow l k now)"
    using assms(6) allow_answer [OF assms(1-5), of k] by (auto simp: serve_def split: prod.splits)
  have lim: "rl_limit l = rl_limit l0" "rl_window l = ?w" using same by auto
  have ev: "events_of l' k' = (if k' = k then (if ?ok then ?ev @ [now] else ?ev) else events_of l k')" for k'
    using allow_answer [OF assms(1-5), of k] assms(3-5) lim
    by (auto simp: l' allow_def Let_def events_of_def split: if_splits)
  have keep: "rl_limit l' = rl_limit l0" "rl_window l' = ?w"
    using lim by (simp_all add: l' allow_def Let_def)
  have old: "sorted (hits k' log)" "u \<in> set (hits k' log) \<Longrightarrow> u \<in> set seen" for k' u
    using same by blast+
  have old_le: "u \<in> set (hits k' log) \<Longrightarrow> u \<le> ?n" for k' u using old(2) assms(2) by blast
  note pruned = pruned_deque [OF assms(1,2), of k]
  show ?thesis unfolding tracks_def keep log' hits_snoc
  proof (intro conjI allI impI)
    fix k' n t
    show "sorted (hits k' log @ (if fst (k, now) = k' \<and> Inr ?ok = Inr True then [instant (snd (k, now))] else []))"
      using old old_le by (simp add: sorted_append)
    show "set (hits k' log @ (if fst (k, now) = k' \<and> Inr ?ok = Inr True then [instant (snd (k, now))] else []))
        \<subseteq> set (seen @ [?n])" using old by auto
    show "dropWhile (\<lambda>u. u \<le> n - ?w) (map instant (events_of l' k'))
        = filter (\<lambda>u. n - ?w < u) (hits k' log @ (if fst (k, now) = k' \<and> Inr ?ok = Inr True then [instant (snd (k, now))] else []))"
      if n: "\<forall>t \<in> set (seen @ [?n]). t \<le> n"
    proof (cases "k' = k")
      case False
      then show ?thesis using n same by (simp add: ev)
    next
      case True
      have "sorted (filter (\<lambda>u. ?n - ?w < u) (hits k log) @ [?n])"
        using sorted_filter [of "\<lambda>x. x" "hits k log"] old old_le by (auto simp: sorted_append)
      then have win: "dropWhile (\<lambda>u. u \<le> n - ?w) (filter (\<lambda>u. ?n - ?w < u) (hits k log) @ xs)
          = filter (\<lambda>u. n - ?w < u) (hits k log @ xs)" if "xs = [] \<or> xs = [?n]" for xs
        using that n by (subst dropWhile_sorted) (auto simp: sorted_append intro: filter_cong)
      show ?thesis using win [of "[]"] win [of "[?n]"] True pruned by (simp add: ev)
    qed
    show "int (length (in_window ?w t (hits k' log @ (if fst (k, now) = k' \<and> Inr ?ok = Inr True
        then [instant (snd (k, now))] else [])))) \<le> rl_limit l0"
    proof (cases "k' = k \<and> ?ok \<and> t - ?w < ?n \<and> ?n \<le> t")
      case True
      have "length (in_window ?w t (hits k log)) \<le> length (in_window ?w ?n (hits k log))"
      proof -
        have "in_window ?w ?n (hits k log) = filter (\<lambda>u. ?n - ?w < u) (hits k log)"
          unfolding in_window_def using old_le by (intro filter_cong) auto
        then have n: "length (in_window ?w ?n (hits k log)) = length (filter (\<lambda>u. ?n - ?w < u) (hits k log))" by simp
        show ?thesis unfolding n unfolding in_window_def
          by (rule length_filter_mono) (use True in linarith)
      qed
      then show ?thesis using True by (simp add: in_window_def)
    next
      case False
      then show ?thesis using same by (auto simp: in_window_def)
    qed
  qed simp_all
qed

lemma tracks_run:
  assumes "rl_events l = Map.empty" and "1 \<le> rl_limit l" and "0 < rl_window l"
    and "sorted (map (instant \<circ> snd) qs)" and "\<forall>q \<in> set qs. aware (snd q)"
  shows "tracks l (map (instant \<circ> snd) qs) (fst (limiter_run l qs)) (snd (limiter_run l qs))"
  using assms(4,5)
proof (induction qs rule: rev_induct)
  case Nil
  show ?case using assms(1,2) by (simp add: tracks_def limiter_run_def hits_def events_of_def in_window_def)
next
  case (snoc q qs)
  have "tracks l (map (instant \<circ> snd) qs) (fst (limiter_run l qs)) (snd (limiter_run l qs))"
    using snoc by (simp add: sorted_append comp_def)
  from tracks_serve [OF this, of "snd q" "fst q" "fst (limiter_run l (qs @ [q]))" "snd (limiter_run l (qs @ [q]))"]
  show ?case using snoc.prems assms(2,3) by (auto simp: sorted_append limiter_run_def comp_def)
qed

text \<open>
  C36: the limiter is exact and never too generous. While the clock does not go back, a request is
  admitted exactly when fewer than the limit were admitted for its key in the window that ends with
  it; so no window of that length, wherever it ends, holds more admitted requests of a key than the limit.
\<close>

theorem rate_limiter_exact:
  assumes "rl_events l = Map.empty" and "1 \<le> rl_limit l" and "0 < rl_window l"
    and "sorted (map (instant \<circ> snd) (qs @ [(k, now)]))" and "\<forall>q \<in> set (qs @ [(k, now)]). aware (snd q)"
    and "limiter_run l qs = (log, l')"
  shows "fst (allow l' k now) = Inr (int (length (in_window (rl_window l) (instant now) (hits k log))) < rl_limit l)
    \<and> (\<forall>key t. int (length (in_window (rl_window l) t (hits key log))) \<le> rl_limit l)"
proof -
  have tr: "tracks l (map (instant \<circ> snd) qs) log l'"
    using tracks_run [OF assms(1-3), of qs] assms(4-6) by (simp add: sorted_append)
  then show ?thesis
    using allow_answer [OF tr, of now k] assms(2-5) by (auto simp: sorted_append tracks_def)
qed

definition demo_limiter :: rate_limiter where
  "demo_limiter = \<lparr>rl_limit = 2, rl_window = 10, rl_events = Map.empty\<rparr>"

theorem rate_limiter_exact_witness:
  "fst (allow (snd (limiter_run demo_limiter [(''a'', Datetime 0 (Some 0)), (''a'', Datetime 5 (Some 0))]))
     ''a'' (Datetime 9 (Some 0))) = Inr False"
proof -
  let ?qs = "[(''a'', Datetime 0 (Some 0)), (''a'', Datetime 5 (Some 0))]"
  obtain log l' where run: "limiter_run demo_limiter ?qs = (log, l')" by fastforce
  have "log = fst (limiter_run demo_limiter ?qs)" using run by simp
  also have "\<dots> = map (\<lambda>q. (q, Inr True)) ?qs"
    by (simp add: limiter_run_def serve_def allow_def demo_limiter_def events_of_def aware_def dt_le_def dt_add_def Let_def)
  finally have "in_window 10 9 (hits ''a'' log) = [0, 5]" by (simp add: hits_def in_window_def)
  with rate_limiter_exact [of demo_limiter ?qs "''a''" "Datetime 9 (Some 0)" log l'] run
  show ?thesis by (simp add: demo_limiter_def aware_def)
qed

end
