(* ===== verification/Py_Base64.thy ===== *)
theory Py_Base64
  imports Py_Sha256
begin

text \<open>
  \<open>base64.b64encode\<close> and \<open>base64.b64decode(..., validate=True)\<close>: groups of three bytes and four letters,
  with padding only in the last group. The strict decoder refuses every other character, and it does
  not look at the unused bits of the last letter.
\<close>

definition b64_alphabet :: string where
  "b64_alphabet = ''ABCDEFGHIJKLMNOPQRSTUVWXYZabcdefghijklmnopqrstuvwxyz0123456789+/''"

definition b64_char :: "nat \<Rightarrow> char" where
  "b64_char n = b64_alphabet ! n"

definition b64_value :: "char \<Rightarrow> nat option" where
  "b64_value c = map_of (zip b64_alphabet [0..<64]) c"

definition byte_of :: "nat \<Rightarrow> byte" where
  "byte_of n = word_of_nat n"

fun b64encode :: "byte list \<Rightarrow> string" where
  "b64encode [] = []"
| "b64encode [a] = [b64_char (unat a div 4), b64_char (unat a mod 4 * 16), CHR ''='', CHR ''='']"
| "b64encode [a, b] = [b64_char (unat a div 4), b64_char (unat a mod 4 * 16 + unat b div 16),
     b64_char (unat b mod 16 * 4), CHR ''='']"
| "b64encode (a # b # c # bs) = [b64_char (unat a div 4), b64_char (unat a mod 4 * 16 + unat b div 16),
     b64_char (unat b mod 16 * 4 + unat c div 64), b64_char (unat c mod 64)] @ b64encode bs"

definition first_byte :: "nat \<Rightarrow> nat \<Rightarrow> byte" where
  "first_byte w x = byte_of (w * 4 + x div 16)"

definition second_byte :: "nat \<Rightarrow> nat \<Rightarrow> byte" where
  "second_byte x y = byte_of (x mod 16 * 16 + y div 4)"

definition third_byte :: "nat \<Rightarrow> nat \<Rightarrow> byte" where
  "third_byte y z = byte_of (y mod 4 * 64 + z)"

fun b64decode :: "string \<Rightarrow> byte list option" where
  "b64decode [] = Some []"
| "b64decode (p # q # r # t # s) =
     (if r = CHR ''='' \<and> t = CHR ''='' \<and> s = []
      then (case (b64_value p, b64_value q) of (Some w, Some x) \<Rightarrow> Some [first_byte w x] | _ \<Rightarrow> None)
      else if t = CHR ''='' \<and> s = []
      then (case (b64_value p, b64_value q, b64_value r) of
          (Some w, Some x, Some y) \<Rightarrow> Some [first_byte w x, second_byte x y] | _ \<Rightarrow> None)
      else (case (b64_value p, b64_value q, b64_value r, b64_value t, b64decode s) of
          (Some w, Some x, Some y, Some z, Some bs) \<Rightarrow> Some (first_byte w x # second_byte x y # third_byte y z # bs)
        | _ \<Rightarrow> None))"
| "b64decode _ = None"

lemma b64_letters: "list_all (\<lambda>n. b64_value (b64_char n) = Some n \<and> b64_char n \<noteq> CHR ''='') [0..<64]"
  by code_simp

lemma b64_value_char [simp]: "n < 64 \<Longrightarrow> b64_value (b64_char n) = Some n"
  and b64_char_letter [simp]: "n < 64 \<Longrightarrow> b64_char n \<noteq> CHR ''=''"
  using b64_letters by (simp_all add: list_all_iff)

lemma byte_bounds:
  fixes a :: byte
  shows "unat a < 256" and "unat a div 4 < 64" and "unat a mod 4 * 16 < 64" and "unat a mod 16 * 4 < 64"
    and "unat a mod 64 < 64" and "unat a div 16 < 16" and "unat a div 64 < 4"
proof -
  show a: "unat a < 256" by (rule less_le_trans [OF unsigned_less]) simp
  show "unat a div 4 < 64" "unat a div 16 < 16" "unat a div 64 < 4" using a by (simp_all add: less_mult_imp_div_less)
  have "unat a mod 4 < 4" "unat a mod 16 < 16" by simp_all
  then show "unat a mod 4 * 16 < 64" "unat a mod 16 * 4 < 64" by linarith+
qed simp

lemma split_digits:
  fixes x y :: nat
  shows "y < 16 \<Longrightarrow> (x * 16 + y) div 16 = x" and "y < 16 \<Longrightarrow> (x * 16 + y) mod 16 = y"
    and "y < 4 \<Longrightarrow> (x * 4 + y) div 4 = x" and "y < 4 \<Longrightarrow> (x * 4 + y) mod 4 = y"
    and "x div 4 * 4 + x mod 4 = x" and "x div 16 * 16 + x mod 16 = x" and "x div 64 * 64 + x mod 64 = x"
  by simp_all

lemma b64_sums:
  fixes a b :: byte
  shows "unat a mod 4 * 16 + unat b div 16 < 64" and "unat a mod 16 * 4 + unat b div 64 < 64"
proof -
  have "unat a mod 4 < 4" "unat a mod 16 < 16" by simp_all
  then show "unat a mod 4 * 16 + unat b div 16 < 64" "unat a mod 16 * 4 + unat b div 64 < 64"
    using byte_bounds(6,7) [of b] by linarith+
qed

lemma b64_bytes:
  fixes a b c :: byte
  shows "first_byte (unat a div 4) (unat a mod 4 * 16) = a"
    and "first_byte (unat a div 4) (unat a mod 4 * 16 + unat b div 16) = a"
    and "second_byte (unat a mod 4 * 16 + unat b div 16) (unat b mod 16 * 4) = b"
    and "second_byte (unat a mod 4 * 16 + unat b div 16) (unat b mod 16 * 4 + unat c div 64) = b"
    and "third_byte (unat a mod 16 * 4 + unat b div 64) (unat b mod 64) = b"
  unfolding first_byte_def second_byte_def third_byte_def byte_of_def
  using split_digits(1) [of 0 "unat a mod 4"] by (simp_all add: split_digits(1-4) byte_bounds div_mult_mod_eq)

text \<open>Decoding is inverse to encoding.\<close>

lemma b64decode_encode [simp]: "b64decode (b64encode bs) = Some bs"
  by (induction bs rule: b64encode.induct) (simp_all add: byte_bounds b64_sums b64_bytes)

end
