(* ===== verification/Credentials.thy ===== *)
theory Credentials
  imports Authorization Py_Hmac Py_Base64
begin

text \<open>
  \<open>application/ports/identity.py\<close>, the sessions of \<open>application/identity.py\<close> and \<open>platform/crypto.py\<close>:
  records of identities and sessions, the validation of an opaque session token, and the envelope
  encryption of connection credentials under a ring of keys. The session store, AES-GCM and the source
  of nonces are parameters.
\<close>

section \<open>Identities and sessions\<close>

record external_identity =
  ei_provider :: string
  ei_subject :: string
  ei_email :: "string option"
  ei_display_name :: "string option"

definition new_external_identity :: "external_identity \<Rightarrow> external_identity result" where
  "new_external_identity i =
     (if blank (ei_provider i) \<or> blank (ei_subject i)
      then Inl (IdentityError ''external identity provider and subject are required'') else Inr i)"

record session_record =
  sr_session_id :: string
  sr_actor_id :: string
  sr_token_hash :: string
  sr_scope :: resource_scope
  sr_issued_at :: datetime
  sr_expires_at :: datetime
  sr_revoked_at :: "datetime option"
  sr_role_revision :: int

definition new_session_record :: "session_record \<Rightarrow> session_record result" where
  "new_session_record s =
     (if blank (sr_session_id s) \<or> blank (sr_actor_id s)
      then Inl (IdentityError ''session_id and actor_id are required'')
      else if \<not> aware (sr_issued_at s) \<or> \<not> aware (sr_expires_at s)
      then Inl (IdentityError ''session timestamps must be timezone-aware'')
      else if dt_le (sr_expires_at s) (sr_issued_at s)
      then Inl (IdentityError ''session expiry must follow issuance'')
      else if sr_role_revision s < 1 then Inl (IdentityError ''session role revision must be positive'')
      else Inr s)"

record local_identity =
  li_actor_id :: string
  li_username :: string
  li_password_salt_b64 :: string
  li_password_verifier_b64 :: string
  li_mfa_credential_id :: "string option"
  li_role_revision :: int
  li_enabled :: bool

definition new_local_identity :: "local_identity \<Rightarrow> local_identity result" where
  "new_local_identity i =
     (if list_ex blank [li_actor_id i, li_username i, li_password_salt_b64 i, li_password_verifier_b64 i]
         \<or> li_role_revision i < 1
      then Inl (IdentityError ''local identity, password verifier, and role revision are required'') else Inr i)"

record session_principal =
  sp_actor_id :: string
  sp_scope :: resource_scope
  sp_role_revision :: int

definition hash_session_token :: "string \<Rightarrow> string result" where
  "hash_session_token token =
     (if length token < 32
      then Inl (IdentityError ''opaque session token must contain at least thirty-two characters'')
      else Inr (sha256_hex token))"

definition validate_session :: "(string \<Rightarrow> session_record option) \<Rightarrow> string \<Rightarrow> string \<Rightarrow> datetime \<Rightarrow> int
    \<Rightarrow> session_principal result" where
  "validate_session get session_id token now current_role_revision = (case get session_id of
     None \<Rightarrow> Inl (IdentityError ''session is invalid'')
   | Some s \<Rightarrow>
       if \<not> aware now then Inl (IdentityError ''session validation time must be timezone-aware'')
       else if sr_revoked_at s \<noteq> None \<or> dt_le (sr_expires_at s) now then Inl (IdentityError ''session is invalid'')
       else bind_result (hash_session_token token) (\<lambda>candidate.
         bind_result (compare_digest candidate (sr_token_hash s)) (\<lambda>same.
           if \<not> same then Inl (IdentityError ''session is invalid'')
           else if current_role_revision \<noteq> sr_role_revision s
           then Inl (IdentityError ''session role grants changed; re-authentication is required'')
           else Inr \<lparr>sp_actor_id = sr_actor_id s, sp_scope = sr_scope s, sp_role_revision = sr_role_revision s\<rparr>)))"

text \<open>
  C39: a session is accepted exactly when it is stored, neither revoked nor expired at an aware
  instant, the token has at least 32 characters and hashes to the stored hash, and the role grants
  have not changed since; the principal is then the actor and scope of the stored session.
\<close>

theorem validate_session_exact:
  "validate_session get session_id token now revision = Inr p \<longleftrightarrow>
     (\<exists>s. get session_id = Some s \<and> aware now \<and> sr_revoked_at s = None \<and> instant now < instant (sr_expires_at s)
        \<and> 32 \<le> length token \<and> sr_token_hash s = sha256_hex token \<and> sr_role_revision s = revision
        \<and> p = \<lparr>sp_actor_id = sr_actor_id s, sp_scope = sr_scope s, sp_role_revision = revision\<rparr>)"
proof (cases "get session_id")
  case (Some s)
  have "compare_digest (sha256_hex token) (sr_token_hash s) = Inr True \<longleftrightarrow> sr_token_hash s = sha256_hex token"
    by (auto simp: compare_ascii sha256_hex_def)
  then show ?thesis
    using Some by (auto simp: validate_session_def hash_session_token_def bind_result_eq_Inr dt_le_def not_le)
qed (simp add: validate_session_def)

section \<open>Encrypted credentials\<close>

record encrypted_credential =
  ec_credential_id :: string
  ec_key_id :: string
  ec_nonce_b64 :: string
  ec_ciphertext_b64 :: string
  ec_associated_data_b64 :: string
  ec_fingerprint :: string

text \<open>The ring holds the checked keys; AES-GCM decryption is \<open>None\<close> where the library raises \<open>InvalidTag\<close>.\<close>

record aes_gcm =
  gcm_encrypt :: "byte list \<Rightarrow> byte list \<Rightarrow> byte list \<Rightarrow> byte list \<Rightarrow> byte list"
  gcm_decrypt :: "byte list \<Rightarrow> byte list \<Rightarrow> byte list \<Rightarrow> byte list \<Rightarrow> byte list option"

record envelope_key =
  ek_key_id :: string
  ek_key_bytes :: "byte list"

definition new_envelope_key :: "envelope_key \<Rightarrow> envelope_key result" where
  "new_envelope_key k =
     (if blank (ek_key_id k) \<or> length (ek_key_bytes k) \<notin> {16, 24, 32}
      then Inl (ValueError ''envelope key requires an identity and valid AES key length'') else Inr k)"

record credential_cipher =
  ci_keys :: "string \<rightharpoonup> byte list"
  ci_active :: string

definition new_credential_cipher :: "envelope_key list \<Rightarrow> string \<Rightarrow> credential_cipher result" where
  "new_credential_cipher keys active =
     (let ring = map_of (rev (map (\<lambda>k. (ek_key_id k, ek_key_bytes k)) keys))
      in if \<not> distinct (map ek_key_id keys) \<or> ring active = None
         then Inl (ValueError ''key ring must contain unique keys and the active key'')
         else Inr \<lparr>ci_keys = ring, ci_active = active\<rparr>)"

definition associated_data :: "string \<Rightarrow> string \<Rightarrow> byte list result" where
  "associated_data workspace_id credential_id =
     (if blank workspace_id \<or> blank credential_id
      then Inl (IdentityError ''credential associated-data identities are required'')
      else Inr (encode (''work-frontier:'' @ workspace_id @ '':'' @ credential_id)))"

definition encrypt_credential :: "aes_gcm \<Rightarrow> (nat \<Rightarrow> 's \<Rightarrow> byte list \<times> 's) \<Rightarrow> credential_cipher \<Rightarrow> string \<Rightarrow> string
    \<Rightarrow> byte list \<Rightarrow> 's \<Rightarrow> encrypted_credential result \<times> 's" where
  "encrypt_credential aes nonce_source c credential_id workspace_id plaintext s =
     (if blank credential_id \<or> blank workspace_id \<or> plaintext = []
      then (Inl (IdentityError ''credential identity, workspace, and plaintext are required''), s)
      else case nonce_source 12 s of (nonce, s') \<Rightarrow>
        if length nonce \<noteq> 12 then (Inl (IdentityError ''nonce source must return exactly twelve bytes''), s')
        else (bind_result (associated_data workspace_id credential_id) (\<lambda>ad.
          bind_result (dict_get (ci_keys c) (ci_active c) (ci_active c)) (\<lambda>key. Inr
            \<lparr>ec_credential_id = credential_id, ec_key_id = ci_active c, ec_nonce_b64 = b64encode nonce,
             ec_ciphertext_b64 = b64encode (gcm_encrypt aes key nonce plaintext ad),
             ec_associated_data_b64 = b64encode ad, ec_fingerprint = hexlify (sha256_digest plaintext)\<rparr>)), s'))"

text \<open>\<open>base64.b64decode(..., validate=True)\<close> raises \<open>binascii.Error\<close>, a \<open>ValueError\<close>.\<close>

definition decode_strict :: "string \<Rightarrow> byte list result" where
  "decode_strict s = (case b64decode s of None \<Rightarrow> Inl (ValueError ''invalid base64'') | Some bs \<Rightarrow> Inr bs)"

definition decrypt_credential :: "aes_gcm \<Rightarrow> credential_cipher \<Rightarrow> string \<Rightarrow> encrypted_credential \<Rightarrow> byte list result" where
  "decrypt_credential aes c workspace_id cred = (case ci_keys c (ec_key_id cred) of
     None \<Rightarrow> Inl (IdentityError ''credential encryption key is unavailable'')
   | Some key \<Rightarrow> bind_result (associated_data workspace_id (ec_credential_id cred)) (\<lambda>ad.
       bind_result (decode_strict (ec_associated_data_b64 cred)) (\<lambda>stored.
         if stored \<noteq> ad then Inl (IdentityError ''credential workspace scope does not match associated data'')
         else (case (b64decode (ec_nonce_b64 cred), b64decode (ec_ciphertext_b64 cred)) of
             (Some nonce, Some ciphertext) \<Rightarrow> (case gcm_decrypt aes key nonce ciphertext ad of
                 Some plaintext \<Rightarrow> Inr plaintext
               | None \<Rightarrow> Inl (IdentityError ''credential authentication failed''))
           | _ \<Rightarrow> Inl (IdentityError ''credential authentication failed'')))))"

definition rotate_credential :: "aes_gcm \<Rightarrow> (nat \<Rightarrow> 's \<Rightarrow> byte list \<times> 's) \<Rightarrow> credential_cipher \<Rightarrow> string
    \<Rightarrow> encrypted_credential \<Rightarrow> 's \<Rightarrow> encrypted_credential result \<times> 's" where
  "rotate_credential aes nonce_source c workspace_id cred s =
     (case decrypt_credential aes c workspace_id cred of
        Inl e \<Rightarrow> (Inl e, s)
      | Inr plaintext \<Rightarrow> encrypt_credential aes nonce_source c (ec_credential_id cred) workspace_id plaintext s)"

text \<open>UTF-8 is injective: the first byte tells one and two bytes apart.\<close>

lemma unat_byte: "n < 256 \<Longrightarrow> unat (word_of_nat n :: byte) = n"
  by (simp add: unat_of_nat take_bit_nat_eq_self)

lemma encode_char_append:
  assumes "encode_char c @ u = encode_char d @ v"
  shows "c = d \<and> u = v"
proof -
  let ?m = "of_char c :: nat" and ?n = "of_char d :: nat"
  have less: "?m < 256" "?n < 256" by (simp_all add: nat_of_char_less_256)
  have eq: "?m = ?n \<Longrightarrow> c = d" by simp
  have byte: "(word_of_nat a :: byte) = word_of_nat b \<Longrightarrow> a < 256 \<Longrightarrow> b < 256 \<Longrightarrow> a = b" for a b
    using unat_byte by metis
  have div: "?m div 64 < 4" "?n div 64 < 4" "?m mod 64 < 64" "?n mod 64 < 64"
    using less by (simp_all add: less_mult_imp_div_less)
  consider "?m < 128" "?n < 128" | "?m < 128" "128 \<le> ?n" | "128 \<le> ?m" "?n < 128" | "128 \<le> ?m" "128 \<le> ?n"
    by linarith
  then show ?thesis
  proof cases
    case 1
    then show ?thesis using assms byte [of ?m ?n] eq less by (auto simp: encode_char_def)
  next
    case 2
    then show ?thesis using assms byte [of ?m "192 + ?n div 64"] less div by (auto simp: encode_char_def Let_def)
  next
    case 3
    then show ?thesis using assms byte [of "192 + ?m div 64" ?n] less div by (auto simp: encode_char_def Let_def)
  next
    case 4
    then have "(word_of_nat (192 + ?m div 64) :: byte) = word_of_nat (192 + ?n div 64)"
      "(word_of_nat (128 + ?m mod 64) :: byte) = word_of_nat (128 + ?n mod 64)" "u = v"
      using assms by (simp_all add: encode_char_def Let_def)
    then have "?m div 64 = ?n div 64" "?m mod 64 = ?n mod 64"
      using byte [of "192 + ?m div 64" "192 + ?n div 64"] byte [of "128 + ?m mod 64" "128 + ?n mod 64"] div by simp_all
    then have "?m = ?n" by (metis div_mult_mod_eq)
    with \<open>u = v\<close> eq show ?thesis by simp
  qed
qed

lemma encode_inject: "encode s = encode t \<Longrightarrow> s = t"
proof (induction s arbitrary: t)
  case Nil
  then show ?case by (cases t) (auto simp: encode_def encode_char_def Let_def split: if_splits)
next
  case (Cons c s)
  then obtain d t' where t: "t = d # t'" by (cases t) (auto simp: encode_def encode_char_def Let_def split: if_splits)
  with Cons.prems have "encode_char c @ encode s = encode_char d @ encode t'" by (simp add: encode_def)
  from encode_char_append [OF this] Cons.IH [of t'] show ?case by (simp add: t)
qed

lemma associated_data_scope:
  "associated_data w c = Inr ad \<Longrightarrow> associated_data w' c = Inr ad \<Longrightarrow> w = w'"
  by (auto simp: associated_data_def split: if_splits dest!: encode_inject)

lemma encrypt_credential_Inr:
  assumes "encrypt_credential aes nonce_source c cid w plaintext s = (Inr cred, s')"
  obtains nonce ad key where "associated_data w cid = Inr ad" "ci_keys c (ci_active c) = Some key"
    "cred = \<lparr>ec_credential_id = cid, ec_key_id = ci_active c, ec_nonce_b64 = b64encode nonce,
       ec_ciphertext_b64 = b64encode (gcm_encrypt aes key nonce plaintext ad),
       ec_associated_data_b64 = b64encode ad, ec_fingerprint = hexlify (sha256_digest plaintext)\<rparr>"
  using assms by (auto simp: encrypt_credential_def bind_result_eq_Inr dict_get_Inr split: if_splits prod.splits)

lemma decrypt_encrypted:
  assumes law: "\<forall>k n p a. gcm_decrypt aes k n (gcm_encrypt aes k n p a) a = Some p"
    and "encrypt_credential aes nonce_source c cid w plaintext s = (Inr cred, s')"
    and "ci_keys c' (ci_active c) = ci_keys c (ci_active c)"
  shows "decrypt_credential aes c' w cred = Inr plaintext"
    and "w' \<noteq> w \<Longrightarrow> \<exists>m. decrypt_credential aes c' w' cred = Inl (IdentityError m)"
    and "ec_credential_id cred = cid" and "ec_key_id cred = ci_active c"
    and "ec_fingerprint cred = hexlify (sha256_digest plaintext)"
proof -
  from assms(2) obtain nonce ad key where e: "associated_data w cid = Inr ad" "ci_keys c (ci_active c) = Some key"
    "cred = \<lparr>ec_credential_id = cid, ec_key_id = ci_active c, ec_nonce_b64 = b64encode nonce,
       ec_ciphertext_b64 = b64encode (gcm_encrypt aes key nonce plaintext ad),
       ec_associated_data_b64 = b64encode ad, ec_fingerprint = hexlify (sha256_digest plaintext)\<rparr>"
    by (rule encrypt_credential_Inr)
  show "decrypt_credential aes c' w cred = Inr plaintext"
    using e assms(3) law by (simp add: decrypt_credential_def decode_strict_def)
  show "\<exists>m. decrypt_credential aes c' w' cred = Inl (IdentityError m)" if "w' \<noteq> w"
  proof (cases "associated_data w' cid")
    case (Inl err)
    then show ?thesis using e(2,3) assms(3) by (auto simp: decrypt_credential_def associated_data_def split: if_splits)
  next
    case (Inr ad')
    then have "ad \<noteq> ad'" using associated_data_scope e(1) that by blast
    then show ?thesis using Inr e(2,3) assms(3) by (simp add: decrypt_credential_def decode_strict_def)
  qed
qed (use assms(2) in \<open>auto elim: encrypt_credential_Inr\<close>)

text \<open>
  C40: credentials come back, in their workspace only. While AES-GCM decrypts what it encrypted, an
  encrypted credential decrypts to its plaintext under every cipher that still has its key, an attempt
  from any other workspace ends with an \<open>IdentityError\<close>, and rotation keeps plaintext and fingerprint and
  moves it to the active key.
\<close>

theorem credential_roundtrip:
  assumes "\<forall>k n p a. gcm_decrypt aes k n (gcm_encrypt aes k n p a) a = Some p"
    and "encrypt_credential aes nonce_source c cid w plaintext s = (Inr cred, s1)"
    and "ci_keys c' (ci_active c) = ci_keys c (ci_active c)"
  shows "decrypt_credential aes c' w cred = Inr plaintext
    \<and> (\<forall>w'. w' \<noteq> w \<longrightarrow> (\<exists>m. decrypt_credential aes c' w' cred = Inl (IdentityError m)))
    \<and> (\<forall>rotated s2. rotate_credential aes nonce_source c' w cred s1 = (Inr rotated, s2) \<longrightarrow>
         ec_key_id rotated = ci_active c' \<and> ec_fingerprint rotated = ec_fingerprint cred
         \<and> decrypt_credential aes c' w rotated = Inr plaintext)"
proof -
  note d = decrypt_encrypted [OF assms]
  have "ec_key_id rotated = ci_active c' \<and> ec_fingerprint rotated = ec_fingerprint cred
         \<and> decrypt_credential aes c' w rotated = Inr plaintext"
    if "rotate_credential aes nonce_source c' w cred s1 = (Inr rotated, s2)" for rotated s2
  proof -
    have "encrypt_credential aes nonce_source c' cid w plaintext s1 = (Inr rotated, s2)"
      using that d(1,3) by (simp add: rotate_credential_def)
    from decrypt_encrypted [OF assms(1) this refl] show ?thesis using d(5) by simp
  qed
  then show ?thesis using d(1,2) by blast
qed

definition demo_aes :: aes_gcm where
  "demo_aes = \<lparr>gcm_encrypt = \<lambda>k n p a. a @ p,
     gcm_decrypt = \<lambda>k n ct a. if take (length a) ct = a then Some (drop (length a) ct) else None\<rparr>"

definition demo_cipher :: credential_cipher where
  "demo_cipher = \<lparr>ci_keys = [''k'' \<mapsto> replicate 16 0], ci_active = ''k''\<rparr>"

theorem credential_roundtrip_witness:
  "\<exists>cred. encrypt_credential demo_aes (\<lambda>n s. (replicate n 0, s)) demo_cipher ''c'' ''w'' [1, 2] () = (Inr cred, ())
     \<and> decrypt_credential demo_aes demo_cipher ''w'' cred = Inr [1, 2]"
proof -
  have ad: "associated_data ''w'' ''c'' = Inr (encode ''work-frontier:w:c'')"
    by (simp add: associated_data_def blank_iff is_space_def)
  obtain cred where cred: "encrypt_credential demo_aes (\<lambda>n s. (replicate n 0, s)) demo_cipher ''c'' ''w'' [1, 2] () = (Inr cred, ())"
    using ad by (simp add: encrypt_credential_def blank_iff is_space_def demo_cipher_def dict_get_def)
  have "\<forall>k n p a. gcm_decrypt demo_aes k n (gcm_encrypt demo_aes k n p a) a = Some p" by (simp add: demo_aes_def)
  from credential_roundtrip [OF this cred refl] cred show ?thesis by blast
qed

end
