(* ===== verification/Spec2Isabelle.thy ===== *)
theory Spec2Isabelle
  imports Frontier Authority Entities Edges Graph_Scc_Props Queue_Props Policy_Eval Policy_Parse
    Authorization Coordination Emergency Proposals Cutover Audit_Chain Setup_Service Ingestion_Props
    Github_App File_Adapter Harness_Props Copilot Browser_Security
    Credentials
begin

text \<open>
  Work Frontier is a Python service that reads work items from a source (GitHub, a file, a fixture),
  decides which of them are ready and which one is to be done next, and keeps the records, leases,
  approvals and setup state around that decision. This library models its domain core, its
  application services and its adapters (\<open>src/backend/src/work_frontier\<close>, abbreviated below by the path
  inside that package) as HOL functions, and proves what makes them correct.

  \<^bold>\<open>How the program works.\<close> An adapter serves the source page by page (\<open>Connections\<close>,
  \<open>Github_Adapter\<close>, \<open>File_Adapter\<close>). Ingestion reads all pages, normalizes the items, extracts the
  blockers they name and builds a snapshot (\<open>Ingestion\<close>); the decision cycle service hands it to the
  engine, which decides every item (\<open>Decision_Cycles\<close>, \<open>Frontier\<close>), and the repository receives one
  write set. What an item is allowed to do is settled by reconciled observations (\<open>Authority\<close>), typed
  edges and graphs (\<open>Edges\<close>, \<open>Graph*\<close>), gates, completion policies and lifecycles (\<open>Policies\<close>,
  \<open>Policy_Eval\<close>, \<open>Policy_Parse\<close>). Who may act is settled by grants, leases, approvals and emergency
  access (\<open>Authorization\<close>, \<open>Coordination\<close>, \<open>Proposals\<close>, \<open>Emergency\<close>). Work runs through a durable
  queue (\<open>Queue\<close>), changes are kept in a hash chain (\<open>Audit_Chain\<close>), the projection writer is switched
  by a guarded cutover (\<open>Cutover\<close>), an installation is planned, executed and journaled by the setup
  centre (\<open>Setup_*\<close>), and releases are checked by a registry of harnesses (\<open>Harness_Registry\<close>).
\<close>

section \<open>Theories and sources\<close>

text \<open>
  \<^bold>\<open>Shared.\<close>
  \<^item> \<open>Prelude\<close>: Python values as HOL values (a \<open>str\<close> is a \<open>string\<close> of code points below 256, an aware
    \<open>datetime\<close> is its instant in microseconds and its offset, \<open>None\<close> an option), and the lemmas on lists,
    dictionaries and sorting that the components share.
  \<^item> \<open>Errors\<close> (\<open>domain/errors.py\<close>): an operation that can raise returns \<open>exn + 'a\<close>; \<open>bind_result\<close> and
    \<open>map_result\<close> propagate the first exception, and the collection \<open>result_simps\<close> evaluates them.
  \<^item> \<open>Py_Format\<close>, \<open>Py_Float\<close>, \<open>Py_Json\<close>, \<open>Py_Sha256\<close>, \<open>Py_Hmac\<close>, \<open>Py_Base64\<close>, \<open>Py_Text\<close>: what the code uses of the standard library,
    namely \<open>str(int)\<close> and ISO times, float comparison with NaN, the canonical text of \<open>json.dumps\<close> with sorted
    keys (injective on the values the code renders), SHA-256 and HMAC on 32-bit words, \<open>split\<close> and \<open>in\<close>.
  \<^item> \<open>Stores\<close>: the interfaces. \<open>keyed_store\<close> is a store of values under keys, interpreted by the job
    table of the queue (\<open>job_store\<close>); \<open>exclusive_owner\<close> is a register in which one owner holds a
    key, interpreted by the scheduler fence (\<open>fence\<close>) and by the lock of the setup journal (\<open>setup_lock\<close>);
    \<open>paged_source\<close> (in \<open>Ingestion\<close>) is a source that serves pages of a fixed list of items, interpreted by
    the in-memory adapter (\<open>memory\<close>) and by a fixture adapter without an injected fault (\<open>fixture\<close>).

  \<^bold>\<open>Domain.\<close>
  \<^item> \<open>Identifiers\<close> (\<open>domain/identifiers.py\<close>): Crockford ULIDs, branded ids, resource references, and the
    factory whose state is the last pair of clock and entropy.
  \<^item> \<open>Frontier\<close> (\<open>domain/frontier.py\<close>): readiness reasons, the ranking pipeline as one linear order on
    \<open>rank_value\<close>s, and \<open>solve_frontier\<close> with its canonical hashes and decision ids.
  \<^item> \<open>Authority\<close> (\<open>domain/authority.py\<close>): precedence, freshness and conflicts of observations.
  \<^item> \<open>Entities\<close>, \<open>Edges\<close> (\<open>domain/entities.py\<close>, \<open>domain/edges.py\<close>): each \<open>new_<class>\<close> is the dataclass with
    the checks of its \<open>__post_init__\<close>, in their order.
  \<^item> \<open>Graph\<close>, \<open>Graph_Containment\<close>, \<open>Graph_Paths\<close>, \<open>Graph_Scc\<close>, \<open>Graph_Analysis\<close> (\<open>domain/graph.py\<close>): the
    containment check (depth-first cycle search, then Kahn's order), the reachability and shortest-path
    loops, Tarjan's components over the mutable traversal state, the dependency analysis, and in
    \<open>Graph_Scc_Props\<close> its correctness against \<open>is_scc\<close>.
  \<^item> \<open>Policies\<close>, \<open>Policy_Eval\<close>, \<open>Policy_Parse\<close> (\<open>domain/policies.py\<close>): gates, evidence and waivers; the
    three-valued evaluation of completion policies and the lifecycle; the parser of untrusted objects.
  \<^item> \<open>Authorization\<close>, \<open>Coordination\<close>, \<open>Emergency\<close>, \<open>Proposals\<close> (the files of those names in \<open>domain/\<close>):
    hierarchical grants and denies, the lease of an item, break-glass access, four-eyes changes.
  \<^item> \<open>Cutover\<close> (\<open>domain/cutover.py\<close>, \<open>application/cutover_539.py\<close>): the state of the exclusive writer, semantic
    parity of two projections, and the whole \<open>execute_cutover\<close> with the verifier as a parameter.

  \<^bold>\<open>Platform, application and adapters.\<close>
  \<^item> \<open>Queue\<close>, \<open>Queue_Props\<close> (\<open>platform/queue.py\<close>): the jobs, the tenant that was served last and the scheduler
    fence; every method is a function on \<open>durable_queue\<close>, and \<open>queue_step\<close> is any call by anybody.
  \<^item> \<open>Audit_Chain\<close> (\<open>platform/audit.py\<close>): segments, entries, verification against an anchor.
  \<^item> \<open>Setup_Contracts\<close>, \<open>Setup_Plan\<close> (\<open>contracts/setup.py\<close>, \<open>application/setup/planning.py\<close>), \<open>Setup_Journal\<close>
    (\<open>platform/configuration/setup_storage.py\<close>), \<open>Setup_Redaction\<close>, \<open>Setup_Execution\<close>
    (\<open>application/setup/execution.py\<close>), \<open>Setup_Runner\<close> (\<open>bootstrap.py\<close>, \<open>platform/setup/local.py\<close>,
    \<open>adapters/github/setup.py\<close>), \<open>Setup_Readiness\<close>, \<open>Setup_Service\<close> (\<open>readiness.py\<close>, \<open>service.py\<close>,
    \<open>detection.py\<close>): from the desired configuration to a plan, its execution with compensation, and the report.
  \<^item> \<open>Connections\<close> (\<open>application/ports/connections.py\<close>, \<open>adapters/connections/memory.py\<close>, \<open>fixture.py\<close>),
    \<open>File_Adapter\<close> (\<open>file.py\<close>, \<open>loader.py\<close>), \<open>Github_Adapter\<close>, \<open>Github_App\<close> (\<open>adapters/github\<close>).
  \<^item> \<open>Decision_Cycles\<close>, \<open>Ingestion\<close>, \<open>Ingestion_Props\<close> (\<open>application/decision_cycles.py\<close>,
    \<open>application/ingestion.py\<close> and their ports).
  \<^item> \<open>Copilot\<close> (\<open>application/copilot.py\<close>, its port and the deterministic provider): the assistant that may explain
    and draft but not decide, with its budget and its circuit.
  \<^item> \<open>Credentials\<close> (\<open>application/ports/identity.py\<close>, \<open>application/identity.py\<close>, \<open>platform/crypto.py\<close>): session
    tokens and the encryption of connection credentials, bound to their workspace.
  \<^item> \<open>Browser_Security\<close> (\<open>interfaces/api/browser_security.py\<close>, \<open>security.py\<close>): the sliding window of requests
    per key, the token of a browser session, and the middleware that applies both.
  \<^item> \<open>Harness_Registry\<close>, \<open>Harness_Props\<close> (\<open>contracts/harness_registry.py\<close>): validation and closure.
\<close>

section \<open>What the lemmas show\<close>

text \<open>
  \<^item> \<^emph>\<open>The decision.\<close> Every item is decided once, ready items first in ranking order; the recommendation is the
    least ready item; the cycle is independent of the order of its inputs, and the engine of the order of the
    items of its snapshot; a decision id determines its cycle. An ingested item is ready exactly when its source is open and its named blockers are known and closed.
  \<^item> \<^emph>\<open>Graphs.\<close> The containment check rejects exactly the cyclic graphs; the traversal finds exactly the strongly
    connected components, and the dependency analysis quarantines exactly the nodes on a cycle; the affected region and the
    affected items are reachability closures; the counting loop of the registry accepts exactly the
    acyclic registries, on which the dependency closure is complete and in dependency order.
  \<^item> \<^emph>\<open>State machines.\<close> \<open>queue_reachable\<close>, \<open>lease_reachable\<close>, \<open>audit_reachable\<close> and \<open>lifecycle_run\<close> are the states
    that any sequence of calls produces; their invariants are proved by rule induction. Over them stand
    what a holder relies on: no starvation between tenants, a live lease completes, an exclusive lease
    excludes, a closed chain stays as it is, completion only through gates.
  \<^item> \<^emph>\<open>Specifications.\<close> The transition log of the setup journal refines a table of plans and latest states
    (\<open>journal_refines_table\<close>); the evaluation of completion policies equals the quantification over all
    outcomes of what is unknown; the policy parser is inverse to its rendering; equal canonical texts
    mean equal projections on values without NaN; an incremental ingestion works on the items of a full one.
  \<^item> \<^emph>\<open>Errors.\<close> Every raise is a branch. The properties state when a call fails and what has been changed
    by then: a refused plan, a lost lock, a compensated execution, a closed circuit, an unverified webhook, a request without its token, a credential used in
    another workspace. The
    limiter is exact and admits no more than its limit in any window, and the provider behind the assistant
    is asked only within budget and with text that passed the filters.

  \<^bold>\<open>Loops.\<close> No definition is bounded by fuel. A loop that ends is a \<open>function\<close> with a measure:
  the work lists of the graphs decrease with the nodes not yet visited, the regular expressions with the
  rest of the text, the parser with the size of the object. The one loop that can run for ever is the
  paging loop \<open>read_pages\<close> (a source may repeat a cursor for ever); it is a \<open>partial_function (option)\<close>, so that
  not returning is \<open>None\<close>, and \<open>reading_ends\<close> shows that over the in-memory adapter it returns for every
  page size of at least one.

  \<^bold>\<open>Numbers.\<close> Python integers are \<open>int\<close>; the words of SHA-256 are \<open>32 word\<close>; floats that the code only compares
  are \<open>py_float\<close>, with NaN. Times are integers of microseconds, without the range check of
  \<open>datetime\<close> (an \<open>OverflowError\<close> after the year 9999 is not modelled), and a zone is a fixed offset.
\<close>

section \<open>Not modelled\<close>

text \<open>
  \<^item> \<^emph>\<open>Parameters of the model\<close>, because they are outside the repository or pure input and output: the HTTP
    transport and token provider of GitHub, RSA and AES-GCM, the clock, processes, the secret store, \<open>tomlkit\<close>,
    \<open>datetime.fromisoformat\<close>, reading and parsing of files, the repository behind the decision cycle service, the
    verifier of the cutover, the probes of the setup detection.
  \<^item> \<^emph>\<open>Persistence\<close> (\<open>platform/persistence\<close>): SQLAlchemy statements and schema whose meaning lies in
    PostgreSQL; \<open>platform/queue.py\<close> is the reference state machine of the queue they store.
  \<^item> \<^emph>\<open>Interfaces\<close> (\<open>interfaces/api\<close>, \<open>interfaces/cli\<close>, \<open>interfaces/processes\<close>): FastAPI routes, pydantic
    request models and argument parsing around the services modelled here (the security middleware is
    modelled, its registration is not).
  \<^item> \<^emph>\<open>Harness runner, evidence files and scripts\<close> (\<open>contracts/harness_runner.py\<close>, \<open>evidence_writer.py\<close>, the
    certification records, \<open>scripts/\<close>, \<open>.agents/\<close>, \<open>platform/operations\<close>): they start processes, walk the file
    system and write reports.
  \<^item> \<^emph>\<open>Passwords, one-time codes, upload and egress filters\<close> (the rest of \<open>application/identity.py\<close>,
    \<open>platform/security\<close>): scrypt, SHA-1, URL and IP address parsing of the standard library carry most of what they do.
  \<^item> \<^emph>\<open>Secrets and objects\<close> (\<open>platform/object_store.py\<close>, \<open>platform/secrets\<close>): calls of an S3
    client and of the operating system's key ring.
  \<^item> \<^emph>\<open>Details\<close> inside modelled files: the texts of pydantic's own errors, the \<open>retry_after\<close> metadata of adapter
    errors, the time stamps and \<open>latest_session_id\<close> of the setup journal, repeated keys of one JSON object
    (the parser's result is a dictionary), tuples inside values that are rendered as JSON, code points from
    256 on, Python's recursion limit (\<open>visit\<close>) and its limit on the digits \<open>int()\<close> reads (\<open>item_id_key\<close>), the rounding of float ages beyond
    about 285 years, and the read-only probes of the local system and of the \<open>gh\<close> command.
\<close>

end
